(* ===== verification/Otel_Prelude.thy ===== *)
theory Otel_Prelude
  imports Main "HOL-Library.Word" "HOL-Library.AList" "HOL-Library.Monad_Syntax"
begin

text \<open>
  Vocabulary and automation shared by the component theories.

  \<^item> Machine integers: \<open>int64\<close> / \<open>uint64\<close> / \<open>size_t\<close> are 64-bit words, \<open>int32\<close> /
    \<open>uint32\<close> are 32-bit words; arithmetic on them wraps as the C++ code's does.
  \<^item> Errors: the wrapper reports an error by formatting a message into an \<open>err\<close>
    string and returning \<open>-1\<close> or a null pointer.  \<open>Err f args\<close> keeps the format and its
    arguments, and a fallible operation returns \<open>otel_error + 'a\<close>.  The apostrophes that
    quote an argument inside a format are left out.
  \<^item> Pointers that may be null are options; a C string is a \<open>string\<close> without its
    terminator.
  \<^item> Lemmas on lists, association lists, options and power-of-two masks that several
    components share.
\<close>

unbundle bit_operations_syntax

named_theorems result_simps "rules that run error-or-value results"
named_theorems handle_simps "rules that read and update sharded handle maps"
named_theorems heap_simps "rules that run the C heap"
named_theorems yaml_simps "rules that walk YAML trees"
named_theorems build_simps "rules that invert the steps of a build"

section \<open>Machine integers\<close>

type_synonym int32 = "32 word"
type_synonym uint32 = "32 word"
type_synonym int64 = "64 word"
type_synonym uint64 = "64 word"
type_synonym size_t = "64 word"

definition OTELC_RET_ERROR :: int where
  "OTELC_RET_ERROR = -1"

definition OTELC_RET_OK :: int where
  "OTELC_RET_OK = 0"

definition INT_MIN :: int where "INT_MIN = - 2147483648"
definition INT_MAX :: int where "INT_MAX = 2147483647"
definition LONG_MIN :: int where "LONG_MIN = - 9223372036854775808"
definition LONG_MAX :: int where "LONG_MAX = 9223372036854775807"
definition UINT_MAX :: int where "UINT_MAX = 4294967295"
definition ULONG_MAX :: int where "ULONG_MAX = 18446744073709551615"

lemmas limits_defs = INT_MIN_def INT_MAX_def LONG_MIN_def LONG_MAX_def UINT_MAX_def ULONG_MAX_def

text \<open>\<open>static_cast<int>\<close> of a \<open>size_t\<close>: the low 32 bits, read as signed.\<close>

definition int_of_size :: "size_t \<Rightarrow> int" where
  "int_of_size n = sint (ucast n :: int32)"

lemma int_of_size_nat: "n < 2 ^ 31 \<Longrightarrow> int_of_size (of_nat n) = int n"
proof -
  assume n: "n < 2 ^ 31"
  have "uint (ucast (of_nat n :: size_t) :: int32) = int n"
    using n by (simp add: unsigned_ucast_eq unsigned_of_nat take_bit_nat_eq_self take_bit_int_eq_self)
  then show ?thesis
    using n by (simp add: int_of_size_def sint_uint signed_take_bit_int_eq_self)
qed

text \<open>From \<open>2 ^ 31\<close> on it is no longer the index, and \<open>2 ^ 32 - 1\<close> reads as the error.\<close>

lemma int_of_size_wraps: "int_of_size (2 ^ 31) = - (2 ^ 31)" "int_of_size (2 ^ 32 - 1) = OTELC_RET_ERROR"
  by (simp_all add: int_of_size_def OTELC_RET_ERROR_def)

section \<open>Errors as values\<close>

datatype err_arg = Arg_int int | Arg_str string

datatype otel_error = Err string "err_arg list"

type_synonym 'a result = "otel_error + 'a"

abbreviation ok :: "'a \<Rightarrow> 'a result" where
  "ok \<equiv> Inr"

abbreviation fail :: "string \<Rightarrow> 'a result" where
  "fail f \<equiv> Inl (Err f [])"

abbreviation failf :: "string \<Rightarrow> err_arg list \<Rightarrow> 'a result" where
  "failf f xs \<equiv> Inl (Err f xs)"

fun is_ok :: "'a result \<Rightarrow> bool" where
  "is_ok (Inr _) = True"
| "is_ok (Inl _) = False"

fun rbind :: "'a result \<Rightarrow> ('a \<Rightarrow> 'b result) \<Rightarrow> 'b result" where
  "rbind (Inl e) f = Inl e"
| "rbind (Inr x) f = f x"

text \<open>The int a fallible operation returns: \<open>-1\<close> on an error, else its value.\<close>

fun ret_int :: "int result \<Rightarrow> int" where
  "ret_int (Inl _) = OTELC_RET_ERROR"
| "ret_int (Inr n) = n"

lemma rbind_ok [result_simps]: "rbind r f = Inr y \<longleftrightarrow> (\<exists>x. r = Inr x \<and> f x = Inr y)"
  by (cases r) auto

lemma rbind_err [result_simps]:
  "rbind r f = Inl e \<longleftrightarrow> r = Inl e \<or> (\<exists>x. r = Inr x \<and> f x = Inl e)"
  by (cases r) auto

lemma is_ok_iff [result_simps]: "is_ok r \<longleftrightarrow> (\<exists>x. r = Inr x)"
  by (cases r) auto

section \<open>C strings\<close>

text \<open>\<open>OTELC_STR_IS_VALID\<close>: a non-null pointer to a non-empty string.\<close>

fun str_is_valid :: "string option \<Rightarrow> bool" where
  "str_is_valid None = False"
| "str_is_valid (Some s) = (s \<noteq> [])"

abbreviation char_code :: "char \<Rightarrow> nat" where
  "char_code c \<equiv> of_char c"

definition to_lower :: "char \<Rightarrow> char" where
  "to_lower c = (let n = char_code c in if 65 \<le> n \<and> n \<le> 90 then char_of (n + 32) else c)"

definition strcasecmp_eq :: "string \<Rightarrow> string \<Rightarrow> bool" where
  "strcasecmp_eq a b \<longleftrightarrow> map to_lower a = map to_lower b"

lemma strcasecmp_eq_refl [simp]: "strcasecmp_eq a a"
  by (simp add: strcasecmp_eq_def)

lemma strcasecmp_eq_sym: "strcasecmp_eq a b = strcasecmp_eq b a"
  by (auto simp: strcasecmp_eq_def)

lemma to_lower_idem [simp]: "to_lower (to_lower c) = to_lower c"
  by (auto simp: to_lower_def Let_def)

lemma map_to_lower_idem [simp]: "map to_lower (map to_lower s) = map to_lower s"
  by simp

section \<open>Lists and association lists\<close>

lemma list_update_nth_other: "i \<noteq> j \<Longrightarrow> xs[i := v] ! j = xs ! j"
  by simp

lemma map_of_Some_in_dom: "map_of xs k = Some v \<Longrightarrow> k \<in> fst ` set xs"
  by (metis domI dom_map_of_conv_image_fst)

lemma set_delete_subset: "set (AList.delete k xs) \<subseteq> set xs"
  by (auto simp: AList.delete_eq)

lemma set_delete: "set (AList.delete k xs) = {p \<in> set xs. fst p \<noteq> k}"
  by (auto simp: AList.delete_eq)

lemma length_delete_le: "length (AList.delete k xs) \<le> length xs"
  by (simp add: AList.delete_eq)

lemma distinct_card_dom:
  assumes "distinct (map fst xs)"
  shows "card (dom (map_of xs)) = length xs"
  using assms by (metis distinct_card dom_map_of_conv_image_fst length_map list.set_map)

lemma delete_absent: "map_of xs k = None \<Longrightarrow> AList.delete k xs = xs"
  by (auto simp: AList.delete_eq filter_id_conv map_of_eq_None_iff rev_image_eqI)

lemma length_delete:
  assumes "distinct (map fst xs)" and "map_of xs k = Some v"
  shows "Suc (length (AList.delete k xs)) = length xs"
  using assms
proof (induction xs)
  case (Cons p xs)
  obtain a b where p: "p = (a, b)" by (cases p)
  have "a = k \<Longrightarrow> AList.delete k xs = xs"
    using Cons.prems(1) p by (auto intro: delete_absent simp: map_of_eq_None_iff)
  then show ?case
    using Cons p by (cases "a = k") auto
qed simp

lemma sum_list_update:
  fixes xs :: "nat list"
  assumes "i < length xs"
  shows "sum_list (xs[i := v]) + xs ! i = sum_list xs + v"
  using assms
proof (induction xs arbitrary: i)
  case (Cons x xs)
  then show ?case by (cases i) auto
qed simp

lemma nth_le_sum_list: "i < length (xs :: nat list) \<Longrightarrow> xs ! i \<le> sum_list xs"
  by (simp add: elem_le_sum_list)

section \<open>Power-of-two masks\<close>

lemma and_double: "(2 * a) AND (2 * b) = 2 * (a AND b)" for a b :: nat
  using push_bit_and [of 1 a b] by (simp add: push_bit_eq_mult mult.commute)

lemma and_pred_eq_0_iff:
  fixes n :: nat
  assumes "0 < n"
  shows "n AND (n - 1) = 0 \<longleftrightarrow> (\<exists>k. n = 2 ^ k)"
  using assms
proof (induction n rule: less_induct)
  case (less n)
  show ?case
  proof (cases "even n")
    case True
    then obtain m where m: "n = 2 * m" by auto
    with less.prems have "0 < m" and "m < n" by auto
    have pred: "n - 1 = Suc (2 * (m - 1))"
      using \<open>0 < m\<close> m by simp
    have "n AND (n - 1) = 2 * (m AND (m - 1))"
      unfolding pred unfolding m by (simp add: and_nat_rec [of "2 * m"])
    then have "n AND (n - 1) = 0 \<longleftrightarrow> (\<exists>k. m = 2 ^ k)"
      using less.IH [OF \<open>m < n\<close> \<open>0 < m\<close>] by simp
    also have "\<dots> \<longleftrightarrow> (\<exists>k. n = 2 ^ k)"
    proof
      assume "\<exists>k. m = 2 ^ k"
      then show "\<exists>k. n = 2 ^ k" using m by (metis power_Suc)
    next
      assume "\<exists>k. n = 2 ^ k"
      then obtain k where k: "n = 2 ^ k" by auto
      show "\<exists>k. m = 2 ^ k"
      proof (cases k)
        case 0
        then show ?thesis using k True by simp
      next
        case (Suc j)
        then show ?thesis using k m by auto
      qed
    qed
    finally show ?thesis .
  next
    case False
    then obtain m where m: "n = Suc (2 * m)"
      by (metis oddE Suc_eq_plus1)
    have "n AND (n - 1) = 2 * m"
      unfolding m by (simp add: and_nat_rec [of "Suc (2 * m)"])
    then have "n AND (n - 1) = 0 \<longleftrightarrow> n = 1"
      using m by simp
    also have "\<dots> \<longleftrightarrow> (\<exists>k. n = 2 ^ k)"
    proof
      assume "n = 1"
      then have "n = 2 ^ 0" by simp
      then show "\<exists>k. n = 2 ^ k" by blast
    next
      assume "\<exists>k. n = 2 ^ k"
      then obtain k where "n = 2 ^ k" by auto
      with False show "n = 1" by (cases k) auto
    qed
    finally show ?thesis .
  qed
qed

lemma word_and_pred_eq_0_iff:
  fixes n :: "'w::len word"
  assumes "n \<noteq> 0"
  shows "n AND (n - 1) = 0 \<longleftrightarrow> (\<exists>k. unat n = 2 ^ k)"
proof -
  have "0 < unat n" using assms by (simp add: unat_gt_0)
  moreover have "unat (n - 1) = unat n - 1"
    using assms by (simp add: unat_minus_one)
  moreover have "n AND (n - 1) = 0 \<longleftrightarrow> unat (n AND (n - 1)) = 0"
    by (simp add: unat_eq_0)
  ultimately show ?thesis
    using and_pred_eq_0_iff [of "unat n"] by (simp add: unsigned_and_eq)
qed

lemma unat_and_mask_lt:
  fixes key :: "'w::len word"
  assumes "n = 2 ^ k" and "k < LENGTH('w)"
  shows "unat (key AND (of_nat n - 1)) = unat key mod n"
proof -
  have "(of_nat n - 1 :: 'w word) = mask k"
    using assms(1) by (simp add: mask_eq_exp_minus_1)
  then have "unat (key AND (of_nat n - 1)) = take_bit k (unat key)"
    by (simp only: take_bit_eq_mask [symmetric] unsigned_take_bit_eq)
  then show ?thesis
    by (simp add: assms(1) take_bit_eq_mod)
qed

end
