(* ===== verification/Otel_Carrier.thy ===== *)
theory Otel_Carrier
  imports Otel_Prelude
begin

text \<open>
  The text map carriers of \<open>include/propagation.h\<close> over a \<open>std::map\<close> of strings: a list of pairs
  with strictly increasing keys, in the byte order of \<open>std::string\<close>.  \<open>Set\<close> and \<open>Get\<close> are
  \<open>noexcept\<close>: a failed allocation drops the entry or returns the empty string.  The two carrier
  classes have the same methods.
\<close>

section \<open>Ordered maps of strings\<close>

fun str_less :: "string \<Rightarrow> string \<Rightarrow> bool" where
  "str_less _ [] = False"
| "str_less [] (_ # _) = True"
| "str_less (a # as) (b # bs) = (char_code a < (char_code b :: nat) \<or> (a = b \<and> str_less as bs))"

type_synonym carrier = "(string \<times> string) list"

text \<open>\<open>operator[]\<close> with an assignment, and \<open>emplace\<close>, which keeps an existing entry.\<close>

fun map_put :: "string \<Rightarrow> string \<Rightarrow> carrier \<Rightarrow> carrier" where
  "map_put k v [] = [(k, v)]"
| "map_put k v ((k', v') # m) =
     (if k = k' then (k, v) # m else if str_less k k' then (k, v) # (k', v') # m else (k', v') # map_put k v m)"

definition map_emplace :: "string \<Rightarrow> string \<Rightarrow> carrier \<Rightarrow> carrier" where
  "map_emplace k v m = (if map_of m k = None then map_put k v m else m)"

fun ordered :: "carrier \<Rightarrow> bool" where
  "ordered [] = True"
| "ordered [x] = True"
| "ordered (x # y # m) = (str_less (fst x) (fst y) \<and> ordered (y # m))"

section \<open>The carrier methods\<close>

definition carrier_Get :: "bool \<Rightarrow> carrier \<Rightarrow> string \<Rightarrow> string" where
  "carrier_Get throws c key = (if throws then [] else (case map_of c key of None \<Rightarrow> [] | Some v \<Rightarrow> v))"

definition carrier_Set :: "bool \<Rightarrow> string \<Rightarrow> string \<Rightarrow> carrier \<Rightarrow> carrier" where
  "carrier_Set throws key val c = (if throws then c else map_put key val c)"

text \<open>\<open>Keys\<close> and \<open>GetAllEntries\<close>: the callback (null, or a state transformer that may stop the walk).\<close>

fun carrier_Keys :: "(string \<Rightarrow> 's \<Rightarrow> bool \<times> 's) option \<Rightarrow> carrier \<Rightarrow> 's \<Rightarrow> bool \<times> 's" where
  "carrier_Keys f [] s = (True, s)"
| "carrier_Keys f ((k, v) # c) s =
     (case f of
        None \<Rightarrow> carrier_Keys f c s
      | Some g \<Rightarrow> (let (more, s1) = g k s in if more then carrier_Keys f c s1 else (False, s1)))"

fun carrier_GetAllEntries :: "(string \<Rightarrow> string \<Rightarrow> 's \<Rightarrow> bool \<times> 's) option \<Rightarrow> carrier \<Rightarrow> 's \<Rightarrow> bool \<times> 's" where
  "carrier_GetAllEntries f [] s = (True, s)"
| "carrier_GetAllEntries f ((k, v) # c) s =
     (case f of
        None \<Rightarrow> carrier_GetAllEntries f c s
      | Some g \<Rightarrow> (let (more, s1) = g k v s in if more then carrier_GetAllEntries f c s1 else (False, s1)))"

section \<open>The order\<close>

lemma str_less_irrefl [simp]: "\<not> str_less s s"
  by (induction s) auto

lemma str_less_trans: "str_less a b \<Longrightarrow> str_less b c \<Longrightarrow> str_less a c"
proof (induction a b arbitrary: c rule: str_less.induct)
  case (3 x xs y ys)
  then show ?case by (cases c) (auto simp: of_char_eq_iff)
qed (auto elim: str_less.elims)

lemma str_less_total: "a \<noteq> b \<Longrightarrow> str_less a b \<or> str_less b a"
proof (induction a b rule: str_less.induct)
  case (1 a)
  then show ?case by (cases a) auto
next
  case (3 x xs y ys)
  have "x = y \<longleftrightarrow> (of_char x :: nat) = of_char y" by simp
  then show ?case using 3 by (auto simp: linorder_neq_iff)
qed auto

lemma ordered_Cons: "ordered (x # m) \<longleftrightarrow> (\<forall>y \<in> set m. str_less (fst x) (fst y)) \<and> ordered m"
proof (induction m arbitrary: x)
  case (Cons y m)
  then show ?case using str_less_trans by auto
qed simp

lemma ordered_distinct: "ordered m \<Longrightarrow> distinct (map fst m)"
  by (induction m) (auto simp: ordered_Cons)

lemma set_map_put: "set (map fst (map_put k v m)) = insert k (set (map fst m))"
  by (induction k v m rule: map_put.induct) auto

lemma map_put_ordered: "ordered m \<Longrightarrow> ordered (map_put k v m)"
proof (induction k v m rule: map_put.induct)
  case (2 k v k' v' m)
  have keys: "fst y \<in> insert k (fst ` set m)" if "y \<in> set (map_put k v m)" for y
    using set_map_put [of k v m] that by (metis image_eqI list.set_map)
  show ?case
  proof (cases "k = k' \<or> str_less k k'")
    case True
    then show ?thesis using 2(2) str_less_trans by (auto simp: ordered_Cons)
  next
    case False
    then have "str_less k' k" using str_less_total by blast
    then have "\<forall>y \<in> set (map_put k v m). str_less k' (fst y)"
      using keys 2(2) by (fastforce simp: ordered_Cons)
    then show ?thesis using False 2 by (simp add: ordered_Cons)
  qed
qed simp

lemma map_of_map_put: "map_of (map_put k v m) = (map_of m)(k \<mapsto> v)"
  by (induction k v m rule: map_put.induct) (auto simp: fun_upd_twist)

text \<open>Two ordered lists with the same lookups are the same: the map is its lookup function.\<close>

lemma ordered_unique: "ordered a \<Longrightarrow> ordered b \<Longrightarrow> map_of a = map_of b \<Longrightarrow> a = b"
proof (induction a arbitrary: b)
  case Nil
  then show ?case by (metis map_of.simps(1) map_of_eq_empty_iff)
next
  case (Cons x a)
  note IH = Cons.IH and prems = Cons.prems
  obtain k v where x: "x = (k, v)" by (cases x)
  show ?case
  proof (cases b)
    case Nil
    then show ?thesis using prems(3) by (metis map_of.simps(1) map_of_eq_empty_iff)
  next
    case bs: (Cons y b')
    obtain k' v' where y: "y = (k', v')" by (cases y)
    have dom: "fst ` set (x # a) = fst ` set b"
      using prems(3) by (metis dom_map_of_conv_image_fst)
    have "k = k'"
    proof (rule ccontr)
      assume ne: "k \<noteq> k'"
      then have "k \<in> fst ` set b'" "k' \<in> fst ` set a"
        using dom x y bs by (auto simp: image_iff)
      then have "str_less k' k" "str_less k k'"
        using prems(2) prems(1) x y bs by (auto simp: ordered_Cons)
      then show False using str_less_trans str_less_irrefl by blast
    qed
    moreover have "v = v'"
      using fun_cong [OF prems(3), of k] x y bs \<open>k = k'\<close> by simp
    moreover have "map_of a = map_of b'"
    proof
      fix z
      have "map_of a k = None" "map_of b' k = None"
        using ordered_distinct [OF prems(1)] ordered_distinct [OF prems(2)] x y bs \<open>k = k'\<close>
        by (auto simp: map_of_eq_None_iff)
      then show "map_of a z = map_of b' z"
        using fun_cong [OF prems(3), of z] x y bs \<open>k = k'\<close>
        by (cases "z = k") auto
    qed
    ultimately show ?thesis
      using IH [of b'] prems x y bs by (auto simp: ordered_Cons)
  qed
qed

lemma map_put_last: "\<forall>y \<in> set m. str_less (fst y) k \<Longrightarrow> map_put k v m = m @ [(k, v)]"
proof (induction m)
  case (Cons x m)
  then have "fst x \<noteq> k" "\<not> str_less k (fst x)" by (auto dest: str_less_trans)
  then show ?case using Cons by (cases x) auto
qed simp

lemma fold_emplace: "ordered (c @ m) \<Longrightarrow> fold (\<lambda>(k, v). map_emplace k v) m c = c @ m"
proof (induction m arbitrary: c)
  case (Cons x m)
  obtain k v where x: "x = (k, v)" by (cases x)
  have lt: "\<forall>y \<in> set c. str_less (fst y) k"
    using Cons.prems x by (induction c) (auto simp: ordered_Cons)
  then have "map_of c k = None" by (auto simp: map_of_eq_None_iff)
  then have "map_emplace k v c = c @ [x]"
    using map_put_last [OF lt] x by (simp add: map_emplace_def)
  then show ?case using Cons.IH [of "c @ [x]"] Cons.prems x by simp
qed simp

section \<open>The interface the propagators use\<close>

text \<open>A carrier: a written entry is read back, the others are kept, and the keys are those written.\<close>

locale text_map_carrier =
  fixes get :: "'c \<Rightarrow> string \<Rightarrow> string" and put :: "string \<Rightarrow> string \<Rightarrow> 'c \<Rightarrow> 'c"
    and keys :: "'c \<Rightarrow> string list" and inv :: "'c \<Rightarrow> bool" and empty :: 'c
  assumes inv_empty: "inv empty"
    and keys_empty: "keys empty = []"
    and inv_put: "inv c \<Longrightarrow> inv (put k v c)"
    and get_put: "inv c \<Longrightarrow> get (put k v c) j = (if j = k then v else get c j)"
    and get_absent: "inv c \<Longrightarrow> j \<notin> set (keys c) \<Longrightarrow> get c j = []"
    and keys_put: "inv c \<Longrightarrow> set (keys (put k v c)) = insert k (set (keys c))"
begin

abbreviation put_all :: "(string \<times> string) list \<Rightarrow> 'c \<Rightarrow> 'c" where
  "put_all xs c \<equiv> fold (\<lambda>(k, v). put k v) xs c"

lemma inv_put_all: "inv c \<Longrightarrow> inv (put_all xs c)"
  by (induction xs arbitrary: c) (auto intro: inv_put)

lemma keys_put_all: "inv c \<Longrightarrow> set (keys (put_all xs c)) = fst ` set xs \<union> set (keys c)"
proof (induction xs arbitrary: c)
  case (Cons x xs)
  then show ?case by (cases x) (simp add: keys_put inv_put)
qed simp

lemma get_put_all:
  "inv c \<Longrightarrow> get (put_all xs c) j = (case map_of (rev xs) j of Some v \<Rightarrow> v | None \<Rightarrow> get c j)"
  by (induction xs arbitrary: c) (auto simp: inv_put get_put map_add_def split: option.splits)

lemma injected_text:
  "get (put_all xs empty) j = (case map_of (rev xs) j of Some v \<Rightarrow> v | None \<Rightarrow> [])"
proof -
  have "get empty j = []" using get_absent [OF inv_empty, of j] by (simp add: keys_empty)
  then show ?thesis by (simp only: get_put_all [OF inv_empty])
qed

end

text \<open>The keys a walk with \<open>Keys\<close> visits.\<close>

definition carrier_key_list :: "carrier \<Rightarrow> string list" where
  "carrier_key_list c = snd (carrier_Keys (Some (\<lambda>k s. (True, s @ [k]))) c [])"

lemma carrier_Keys_all: "carrier_Keys (Some (\<lambda>k s. (True, s @ [k]))) c s = (True, s @ map fst c)"
  by (induction c arbitrary: s) auto

lemma carrier_key_list [simp]: "carrier_key_list c = map fst c"
  by (simp add: carrier_key_list_def carrier_Keys_all)

interpretation tc: text_map_carrier "carrier_Get False" "carrier_Set False" carrier_key_list ordered "[]"
proof
  fix c :: carrier and k v j :: string
  show "ordered c \<Longrightarrow> ordered (carrier_Set False k v c)"
    by (simp add: carrier_Set_def map_put_ordered)
  show "ordered c \<Longrightarrow> carrier_Get False (carrier_Set False k v c) j = (if j = k then v else carrier_Get False c j)"
    by (auto simp: carrier_Set_def carrier_Get_def map_of_map_put)
  show "ordered c \<Longrightarrow> j \<notin> set (carrier_key_list c) \<Longrightarrow> carrier_Get False c j = []"
    by (auto simp: carrier_Get_def split: option.splits dest: map_of_Some_in_dom)
  show "ordered c \<Longrightarrow> set (carrier_key_list (carrier_Set False k v c)) = insert k (set (carrier_key_list c))"
    using set_map_put by (simp add: carrier_Set_def)
qed simp_all

text \<open>
  C21: A propagator that writes any sequence of headers to an empty carrier reads back, for each
  key, the value written last, and the empty string for a key it did not write; \<open>Keys\<close> visits
  exactly the written keys, each once, in the order of the map.
\<close>
theorem carrier_reads_writes:
  "carrier_Get False (fold (\<lambda>(k, v). carrier_Set False k v) xs []) j = (case map_of (rev xs) j of Some v \<Rightarrow> v | None \<Rightarrow> []) \<and>
   set (carrier_key_list (fold (\<lambda>(k, v). carrier_Set False k v) xs [])) = fst ` set xs \<and>
   distinct (carrier_key_list (fold (\<lambda>(k, v). carrier_Set False k v) xs [])) \<and> ordered (fold (\<lambda>(k, v). carrier_Set False k v) xs [])"
  using tc.injected_text [of xs j] tc.keys_put_all [OF tc.inv_empty, of xs] tc.inv_put_all [OF tc.inv_empty, of xs]
    ordered_distinct by simp

end
