(* ===== verification/Otel_Strings.thy ===== *)
theory Otel_Strings
  imports Otel_Prelude
begin

text \<open>
  The string and number utilities of \<open>src/util.cpp\<close> and the parts of the C library they
  use.  \<open>strtol\<close> and its relatives follow ISO C (leading space, sign, base prefix,
  saturation with \<open>ERANGE\<close>; \<open>EINVAL\<close> for a bad base as in glibc); their end pointer is the
  rest of the string.  Memory a routine reads or writes is a list of characters, and an
  access past it is undefined behaviour, the value \<open>None\<close>.
\<close>

section \<open>The C library: number parsing\<close>

datatype errno = No_error | ERANGE | EINVAL

definition c_isspace :: "char \<Rightarrow> bool" where
  "c_isspace c \<longleftrightarrow> char_code c = 32 \<or> (9 \<le> char_code c \<and> char_code c \<le> 13)"

definition digit_val :: "char \<Rightarrow> nat option" where
  "digit_val c = (let n = char_code c in
     if 48 \<le> n \<and> n \<le> 57 then Some (n - 48)
     else if 97 \<le> n \<and> n \<le> 122 then Some (n - 87)
     else if 65 \<le> n \<and> n \<le> 90 then Some (n - 55)
     else None)"

definition is_digit_in :: "nat \<Rightarrow> char \<Rightarrow> bool" where
  "is_digit_in base c = (case digit_val c of None \<Rightarrow> False | Some d \<Rightarrow> d < base)"

fun digits_value :: "nat \<Rightarrow> nat \<Rightarrow> string \<Rightarrow> nat" where
  "digits_value base acc [] = acc"
| "digits_value base acc (c # cs) =
     digits_value base (acc * base + (case digit_val c of None \<Rightarrow> 0 | Some d \<Rightarrow> d)) cs"

fun strip_sign :: "string \<Rightarrow> bool \<times> string" where
  "strip_sign (c # cs) =
     (if c = CHR ''-'' then (True, cs) else if c = CHR ''+'' then (False, cs) else (False, c # cs))"
| "strip_sign [] = (False, [])"

text \<open>The base that applies and the text after its prefix.  \<open>0x\<close> counts only when a hexadecimal
  digit follows; the leading \<open>0\<close> of an octal number is itself a digit.\<close>

fun strip_prefix :: "nat \<Rightarrow> string \<Rightarrow> nat \<times> string" where
  "strip_prefix base (z # x # d # cs) =
     (if z = CHR ''0'' \<and> to_lower x = CHR ''x'' \<and> (base = 0 \<or> base = 16) \<and> is_digit_in 16 d
      then (16, d # cs)
      else (if base = 0 then (if z = CHR ''0'' then 8 else 10) else base, z # x # d # cs))"
| "strip_prefix base (z # cs) =
     (if base = 0 then (if z = CHR ''0'' then 8 else 10) else base, z # cs)"
| "strip_prefix base [] = (if base = 0 then 10 else base, [])"

text \<open>Sign, magnitude and rest, or \<open>None\<close> when there is no number at the start.\<close>

definition scan_number :: "string \<Rightarrow> nat \<Rightarrow> (bool \<times> nat \<times> string) option" where
  "scan_number s base =
     (let (neg, s1) = strip_sign (dropWhile c_isspace s);
          (b, s2) = strip_prefix base s1;
          ds = takeWhile (is_digit_in b) s2
      in if ds = [] then None else Some (neg, digits_value b 0 ds, dropWhile (is_digit_in b) s2))"

definition base_ok :: "int \<Rightarrow> bool" where
  "base_ok base \<longleftrightarrow> base = 0 \<or> (2 \<le> base \<and> base \<le> 36)"

definition saturate :: "int \<Rightarrow> int \<Rightarrow> int \<Rightarrow> int \<times> errno" where
  "saturate lo hi v = (if v < lo then (lo, ERANGE) else if v > hi then (hi, ERANGE) else (v, No_error))"

text \<open>\<open>strtol\<close> and \<open>strtoll\<close> (\<open>long\<close> has 64 bits); the end pointer is not stored for a bad base.\<close>

definition strtol :: "string \<Rightarrow> int \<Rightarrow> int \<times> string option \<times> errno" where
  "strtol s base =
     (if \<not> base_ok base then (0, None, EINVAL)
      else case scan_number s (nat base) of
          None \<Rightarrow> (0, Some s, No_error)
        | Some (neg, m, rest) \<Rightarrow>
            let (v, e) = saturate LONG_MIN LONG_MAX (if neg then - int m else int m)
            in (v, Some rest, e))"

text \<open>\<open>strtoul\<close> and \<open>strtoull\<close>: a minus sign negates in the unsigned type.\<close>

definition strtoul :: "string \<Rightarrow> int \<Rightarrow> int \<times> string option \<times> errno" where
  "strtoul s base =
     (if \<not> base_ok base then (0, None, EINVAL)
      else case scan_number s (nat base) of
          None \<Rightarrow> (0, Some s, No_error)
        | Some (neg, m, rest) \<Rightarrow>
            if int m > ULONG_MAX then (ULONG_MAX, Some rest, ERANGE)
            else ((if neg then (- int m) mod (ULONG_MAX + 1) else int m), Some rest, No_error))"

lemma saturate_range: "lo \<le> hi \<Longrightarrow> lo \<le> fst (saturate lo hi v) \<and> fst (saturate lo hi v) \<le> hi"
  by (auto simp: saturate_def)

lemma saturate_exact: "snd (saturate lo hi v) = No_error \<Longrightarrow> fst (saturate lo hi v) = v"
  by (auto simp: saturate_def split: if_splits)

lemma strtol_range: "LONG_MIN \<le> fst (strtol s base) \<and> fst (strtol s base) \<le> LONG_MAX"
  by (auto simp: strtol_def saturate_def limits_defs split: option.splits)

lemma strtoul_range: "0 \<le> fst (strtoul s base) \<and> fst (strtoul s base) \<le> ULONG_MAX"
proof -
  have "0 \<le> x mod (ULONG_MAX + 1) \<and> x mod (ULONG_MAX + 1) \<le> ULONG_MAX" for x
    using pos_mod_bound [of "ULONG_MAX + 1" x] by (simp add: ULONG_MAX_def)
  then show ?thesis
    by (auto simp: strtoul_def ULONG_MAX_def split: option.splits)
qed

section \<open>otelc_strtoi\<close>

datatype strtoi_out =
    Strtoi_null
  | Strtoi_ub
  | Strtoi_err otel_error
  | Strtoi_ok int string

definition otelc_strtoi ::
  "string option \<Rightarrow> bool \<Rightarrow> bool \<Rightarrow> int \<Rightarrow> int \<Rightarrow> int \<Rightarrow> strtoi_out" where
  "otelc_strtoi str has_retval flag_end base val_min val_max =
     (case str of
        None \<Rightarrow> Strtoi_null
      | Some s \<Rightarrow>
          if \<not> has_retval then Strtoi_null
          else
            let (value, endptr, errno) = strtol s base in
            if s \<noteq> [] \<and> flag_end \<and> endptr = None then Strtoi_ub
            else if s = [] \<or> (flag_end \<and> endptr \<noteq> Some [])
            then Strtoi_err (Err ''Not a number: %s'' [Arg_str s])
            else if (value = LONG_MIN \<or> value = LONG_MAX) \<and> errno = ERANGE
            then Strtoi_err (Err ''Value out of range: %s'' [Arg_str s])
            else if val_min \<le> val_max \<and> \<not> (val_min \<le> value \<and> value \<le> val_max)
            then Strtoi_err (Err ''Value out of range [%d, %d]: %s''
                   [Arg_int val_min, Arg_int val_max, Arg_str s])
            else if value = 0 \<and> errno = EINVAL
            then Strtoi_err (Err ''Invalid value: %s'' [Arg_str s])
            else if value < INT_MIN \<or> value > INT_MAX
            then Strtoi_err (Err ''Value out of range: %s'' [Arg_str s])
            else Strtoi_ok value (case endptr of None \<Rightarrow> [] | Some r \<Rightarrow> r))"

section \<open>Bounded copies\<close>

text \<open>The characters of a C string in memory: up to the first NUL, which must be there.\<close>

definition c_strlen :: "string \<Rightarrow> nat option" where
  "c_strlen mem = (let n = length (takeWhile (\<lambda>c. c \<noteq> CHR 0x00) mem)
     in if n < length mem then Some n else None)"

text \<open>\<open>otelc_strlcpy\<close> on the memory at \<open>dst\<close> and \<open>src\<close>: the return value and the memory at
  \<open>dst\<close> afterwards.\<close>

definition otelc_strlcpy ::
  "string option \<Rightarrow> nat \<Rightarrow> string option \<Rightarrow> nat \<Rightarrow> (int \<times> string option) option" where
  "otelc_strlcpy dst dst_size src src_size =
     (case (dst, src) of
        (Some d, Some s) \<Rightarrow>
          if dst_size = 0 then Some (OTELC_RET_ERROR, dst)
          else do {
            n \<leftarrow> (if src_size = 0 then c_strlen s else Some src_size);
            let retval = min n (dst_size - 1);
            if retval \<le> length s \<and> retval < length d
            then Some (int retval, Some (take retval s @ CHR 0x00 # drop (Suc retval) d))
            else None }
      | _ \<Rightarrow> Some (OTELC_RET_ERROR, dst))"

definition otelc_memdup :: "bool \<Rightarrow> string option \<Rightarrow> size_t \<Rightarrow> string option option" where
  "otelc_memdup oom s sz =
     (case s of
        None \<Rightarrow> Some None
      | Some m \<Rightarrow>
          if sz = - 1 then Some None
          else if oom then Some None
          else if unat sz \<le> length m \<and> unat (sz + 1) = Suc (unat sz)
          then Some (Some (take (unat sz) m @ [CHR 0x00])) else None)"

section \<open>Rendering of binary data\<close>

definition BUFSIZ :: nat where
  "BUFSIZ = 8192"

definition otel_nibble_to_hex :: "nat \<Rightarrow> char" where
  "otel_nibble_to_hex a = char_of (a + (if a < 10 then 48 else 87))"

text \<open>The loop of \<open>otelc_strhex\<close>: \<open>i\<close> characters are written of the \<open>size2\<close> the data needs.\<close>

fun strhex_loop :: "nat \<Rightarrow> nat \<Rightarrow> 8 word list \<Rightarrow> string option" where
  "strhex_loop i size2 ptr =
     (if i < BUFSIZ - 2 \<and> i < size2
      then case ptr of
          [] \<Rightarrow> None
        | b # bs \<Rightarrow> map_option
            (\<lambda>r. otel_nibble_to_hex (unat (drop_bit 4 b)) # otel_nibble_to_hex (unat (b AND 0x0f)) # r)
            (strhex_loop (i + 2) size2 bs)
      else Some [])"

definition otelc_strhex :: "8 word list option \<Rightarrow> size_t \<Rightarrow> string option" where
  "otelc_strhex data sz =
     (case data of
        None \<Rightarrow> Some ''(null)''
      | Some ptr \<Rightarrow> if sz = 0 then Some ''()''
                   else strhex_loop 0 (unat (push_bit 1 sz)) ptr)"

fun strctrl_loop :: "nat \<Rightarrow> nat \<Rightarrow> nat \<Rightarrow> 8 word list \<Rightarrow> string option" where
  "strctrl_loop n i sz ptr =
     (if n < BUFSIZ - 1 \<and> i < sz
      then case ptr of
          [] \<Rightarrow> None
        | b # bs \<Rightarrow> map_option
            (\<lambda>r. (if 0x20 \<le> b \<and> b \<le> 0x7e then char_of (unat b) else CHR ''.'') # r)
            (strctrl_loop (n + 1) (i + 1) sz bs)
      else Some [])"

definition otelc_strctrl :: "8 word list option \<Rightarrow> size_t \<Rightarrow> string option" where
  "otelc_strctrl data sz =
     (case data of
        None \<Rightarrow> Some ''(null)''
      | Some ptr \<Rightarrow> if sz = 0 then Some ''()'' else strctrl_loop 0 0 (unat sz) ptr)"

section \<open>Durations\<close>

record timespec =
  tv_sec :: int
  tv_nsec :: int

definition c_quot :: "int \<Rightarrow> int \<Rightarrow> int" where
  "c_quot a b = sgn a * sgn b * (\<bar>a\<bar> div \<bar>b\<bar>)"

definition timespec_to_duration_us :: "timespec option \<Rightarrow> int" where
  "timespec_to_duration_us ts =
     (case ts of None \<Rightarrow> 0 | Some t \<Rightarrow> tv_sec t * 1000000 + c_quot (tv_nsec t) 1000)"

definition timespec_to_duration :: "timespec option \<Rightarrow> int" where
  "timespec_to_duration ts =
     (case ts of None \<Rightarrow> 0 | Some t \<Rightarrow> tv_sec t * 1000000000 + tv_nsec t)"

declare strhex_loop.simps [simp del] strctrl_loop.simps [simp del]

section \<open>Decimal numbers parse back\<close>

abbreviation digit_char :: "nat \<Rightarrow> char" where
  "digit_char d \<equiv> char_of (48 + d)"

fun dec_string :: "nat \<Rightarrow> string" where
  "dec_string n = (if n < 10 then [digit_char n]
     else dec_string (n div 10) @ [digit_char (n mod 10)])"

declare dec_string.simps [simp del]

lemma digit_char [simp]: "d < 10 \<Longrightarrow> digit_val (digit_char d) = Some d"
  by (simp add: digit_val_def Let_def)

lemma digit_char_in: "\<lbrakk>d < 10; d < b\<rbrakk> \<Longrightarrow> is_digit_in b (digit_char d)"
  by (simp add: is_digit_in_def)

lemma digits_value_append [simp]:
  "digits_value b acc (xs @ ys) = digits_value b (digits_value b acc xs) ys"
  by (induction xs arbitrary: acc) auto

lemma dec_string_value: "digits_value 10 0 (dec_string n) = n"
  by (induction n rule: dec_string.induct) (subst dec_string.simps, simp)

lemma dec_string_digits: "\<forall>c \<in> set (dec_string n). is_digit_in 10 c"
proof (induction n rule: dec_string.induct)
  case (1 n)
  show ?case
  proof (cases "n < 10")
    case False
    have "is_digit_in 10 (digit_char (n mod 10))"
      by (rule digit_char_in) simp_all
    with False 1 show ?thesis by (subst dec_string.simps) simp
  qed (subst dec_string.simps, simp add: digit_char_in)
qed

lemma dec_string_head:
  "0 < n \<Longrightarrow> \<exists>d cs. dec_string n = digit_char d # cs \<and> 0 < d \<and> d < 10"
proof (induction n rule: dec_string.induct)
  case (1 n)
  show ?case
  proof (cases "n < 10")
    case True
    with 1(2) show ?thesis by (subst dec_string.simps) (auto intro!: exI [of _ n])
  next
    case False
    with 1 obtain d cs where "dec_string (n div 10) = digit_char d # cs" "0 < d" "d < 10"
      by (metis div_greater_zero_iff linorder_not_less zero_less_numeral)
    with False show ?thesis by (subst dec_string.simps) (auto intro!: exI [of _ d])
  qed
qed

lemma digit_char_codes:
  assumes "d < 10"
  shows "\<not> c_isspace (digit_char d)" "digit_char d \<noteq> CHR ''-''"
    "digit_char d \<noteq> CHR ''+''" "digit_char d = CHR ''0'' \<longleftrightarrow> d = 0"
proof -
  have c: "char_code (digit_char d) = 48 + d"
    using assms by simp
  show "\<not> c_isspace (digit_char d)"
    by (simp add: c_isspace_def c del: of_char_of)
  have "digit_char d = x \<longleftrightarrow> 48 + d = char_code x" for x
    using c by (metis char_of_char)
  then show "digit_char d \<noteq> CHR ''-''" "digit_char d \<noteq> CHR ''+''" "digit_char d = CHR ''0'' \<longleftrightarrow> d = 0"
    by simp_all
qed

lemma strip_prefix_decimal: "z \<noteq> CHR ''0'' \<Longrightarrow> strip_prefix 0 (z # cs) = (10, z # cs)"
  by (cases "(0 :: nat, z # cs)" rule: strip_prefix.cases) auto

lemma scan_dec_string:
  "scan_number (dec_string n) 0 = Some (False, n, [])"
proof (cases "n = 0")
  case True
  then show ?thesis
    by (simp add: dec_string.simps) code_simp
next
  case False
  then obtain d cs where d: "dec_string n = digit_char d # cs" "0 < d" "d < 10"
    using dec_string_head [of n] by auto
  have "takeWhile (is_digit_in 10) (dec_string n) = dec_string n"
    and "dropWhile (is_digit_in 10) (dec_string n) = []"
    using dec_string_digits by (auto simp: takeWhile_eq_all_conv dropWhile_eq_Nil_conv)
  then show ?thesis
    using d digit_char_codes [OF d(3)] dec_string_value [of n]
    by (simp add: scan_number_def strip_prefix_decimal)
qed

section \<open>Properties\<close>

text \<open>
  C14: \<open>otelc_strtoi\<close> accepts exactly what it promises.  A result it accepts is a number in the
  \<open>int\<close> range, in the requested range when there is one, with nothing after it when the caller asks for
  a complete match, and it is the value the text denotes; and the decimal text of any number in
  the requested range is accepted with that value (the way the YAML flush timeouts are read).
\<close>
theorem strtoi_correct:
  "(\<forall>s fe base lo hi v rest. otelc_strtoi (Some s) True fe base lo hi = Strtoi_ok v rest \<longrightarrow>
      s \<noteq> [] \<and> INT_MIN \<le> v \<and> v \<le> INT_MAX \<and> (lo \<le> hi \<longrightarrow> lo \<le> v \<and> v \<le> hi) \<and>
      (fe \<longrightarrow> rest = [] \<and> (\<exists>neg m. scan_number s (nat base) = Some (neg, m, []) \<and>
                              v = (if neg then - int m else int m)))) \<and>
   (\<forall>n lo hi. int n \<le> INT_MAX \<and> (lo \<le> hi \<longrightarrow> lo \<le> int n \<and> int n \<le> hi) \<longrightarrow>
      otelc_strtoi (Some (dec_string n)) True True 0 lo hi = Strtoi_ok (int n) [])"
proof (intro conjI allI impI)
  fix s fe base lo hi v rest
  assume a: "otelc_strtoi (Some s) True fe base lo hi = Strtoi_ok v rest"
  then show "s \<noteq> []" and "INT_MIN \<le> v" and "v \<le> INT_MAX"
    and "lo \<le> hi \<Longrightarrow> lo \<le> v" and "lo \<le> hi \<Longrightarrow> v \<le> hi" and "fe \<Longrightarrow> rest = []"
    by (auto simp: otelc_strtoi_def Let_def split: prod.splits if_splits)
  assume fe: "fe"
  obtain e where st: "strtol s base = (v, Some [], e)" and e: "s \<noteq> []"
    using a fe by (auto simp: otelc_strtoi_def Let_def split: prod.splits if_splits)
  then obtain neg m where sc: "scan_number s (nat base) = Some (neg, m, [])"
      "saturate LONG_MIN LONG_MAX (if neg then - int m else int m) = (v, e)"
    by (auto simp: strtol_def split: if_splits option.splits prod.splits)
  have "e \<noteq> ERANGE"
    using a fe sc(2) st by (auto simp: otelc_strtoi_def saturate_def limits_defs split: if_splits)
  then have "v = (if neg then - int m else int m)"
    using sc(2) by (auto simp: saturate_def split: if_splits)
  then show "\<exists>neg m. scan_number s (nat base) = Some (neg, m, []) \<and> v = (if neg then - int m else int m)"
    using sc(1) by blast
next
  fix n :: nat and lo hi :: int
  assume r: "int n \<le> INT_MAX \<and> (lo \<le> hi \<longrightarrow> lo \<le> int n \<and> int n \<le> hi)"
  have "dec_string n \<noteq> []"
    by (subst dec_string.simps) simp
  moreover have "strtol (dec_string n) 0 = (int n, Some [], No_error)"
    using r by (simp add: strtol_def base_ok_def scan_dec_string saturate_def limits_defs)
  ultimately show "otelc_strtoi (Some (dec_string n)) True True 0 lo hi = Strtoi_ok (int n) []"
    using r by (auto simp: otelc_strtoi_def limits_defs)
qed

lemma strtoi_correct_witness:
  "otelc_strtoi (Some ''0x1F'') True True 0 0 100 = Strtoi_ok 31 [] \<and> (31 :: int) \<le> 100 \<and>
   otelc_strtoi (Some (dec_string 5000)) True True 0 0 600000 = Strtoi_ok 5000 []"
proof -
  have a: "otelc_strtoi (Some ''0x1F'') True True 0 0 100 = Strtoi_ok 31 []"
    by code_simp
  then have "(31 :: int) \<le> 100"
    using conjunct1 [OF strtoi_correct] by fastforce
  moreover have "otelc_strtoi (Some (dec_string 5000)) True True 0 0 600000 = Strtoi_ok (int 5000) []"
    using conjunct2 [OF strtoi_correct] by (simp add: INT_MAX_def)
  ultimately show ?thesis using a by simp
qed

text \<open>
  C16: \<open>otelc_strlcpy\<close> never writes outside the destination and always terminates it.  With a
  destination of \<open>dst_size > 0\<close> bytes and a terminated source it returns the number of characters
  copied, at most \<open>dst_size - 1\<close>; the result is that prefix of the source followed by a NUL; and
  the memory after the \<open>dst_size\<close> bytes is untouched.
\<close>
theorem strlcpy_bounded:
  assumes "0 < dst_size" and "dst_size \<le> length d"
    and "if src_size = 0 then c_strlen s = Some n else n = src_size \<and> src_size \<le> length s"
  shows "\<exists>k d'. otelc_strlcpy (Some d) dst_size (Some s) src_size = Some (int k, Some d') \<and>
    k = min n (dst_size - 1) \<and> length d' = length d \<and> take k d' = take k s \<and>
    d' ! k = CHR 0x00 \<and> drop dst_size d' = drop dst_size d"
proof -
  let ?k = "min n (dst_size - 1)"
  have n: "n \<le> length s"
    using assms(3) by (auto simp: c_strlen_def Let_def split: if_splits)
  have k: "?k < length d" "?k < dst_size"
    using assms(1,2) by auto
  let ?d = "take ?k s @ CHR 0x00 # drop (Suc ?k) d"
  have "otelc_strlcpy (Some d) dst_size (Some s) src_size = Some (int ?k, Some ?d)"
    using assms n k by (auto simp: otelc_strlcpy_def Let_def min_def split: if_splits)
  moreover have "length ?d = length d" "take ?k ?d = take ?k s" "?d ! ?k = CHR 0x00"
    using n k by (auto simp: nth_append)
  moreover have "drop dst_size ?d = drop dst_size d"
    using n k by (simp add: drop_Cons' split: nat_diff_split)
  ultimately show ?thesis by blast
qed

lemma strlcpy_bounded_witness:
  "otelc_strlcpy (Some ''xxxxxx'') 4 (Some (''hello'' @ [CHR 0x00])) 0 =
     Some (3, Some (''hel'' @ [CHR 0x00] @ ''xx''))"
proof -
  have e: "otelc_strlcpy (Some ''xxxxxx'') 4 (Some (''hello'' @ [CHR 0x00])) 0 =
     Some (3, Some (''hel'' @ [CHR 0x00] @ ''xx''))"
    by code_simp
  have n: "c_strlen (''hello'' @ [CHR 0x00]) = Some 5"
    by (simp add: c_strlen_def)
  show ?thesis
    using strlcpy_bounded [of 4 "''xxxxxx''" 0 "''hello'' @ [CHR 0x00]" 5] n e by simp
qed

lemma nibble_hex_digit:
  assumes "a < 16"
  shows "digit_val (otel_nibble_to_hex a) = Some a"
  using assms by (auto simp: otel_nibble_to_hex_def digit_val_def Let_def)

lemma unhex_byte:
  "16 * unat (drop_bit 4 b) + unat (b AND 0x0f) = unat (b :: 8 word)"
  "unat (drop_bit 4 b) < 16" "unat (b AND 0x0f) < 16"
proof -
  have m: "b AND 0x0f = take_bit 4 b"
    by (simp add: take_bit_eq_mask mask_eq_exp_minus_1)
  have l: "unat (b AND 0x0f) = unat b mod 16"
    unfolding m unsigned_take_bit_eq by (simp add: take_bit_eq_mod)
  have h: "unat (drop_bit 4 b) = unat b div 16"
    unfolding unsigned_drop_bit_eq using unsigned_less [of b, where 'a = nat]
    by (simp add: drop_bit_eq_div take_bit_nat_eq_self)
  show "16 * unat (drop_bit 4 b) + unat (b AND 0x0f) = unat b"
    unfolding l h by presburger
  show "unat (drop_bit 4 b) < 16"
    unfolding h using unsigned_less [of b, where 'a = nat] by simp
  show "unat (b AND 0x0f) < 16"
    unfolding l by simp
qed


fun hex_bytes :: "8 word list \<Rightarrow> string" where
  "hex_bytes [] = []"
| "hex_bytes (b # bs) = otel_nibble_to_hex (unat (drop_bit 4 b)) # otel_nibble_to_hex (unat (b AND 0x0f)) # hex_bytes bs"

fun unhex :: "string \<Rightarrow> 8 word list" where
  "unhex (h # l # cs) = (case (digit_val h, digit_val l) of
     (Some a, Some b) \<Rightarrow> of_nat (16 * a + b) # unhex cs | _ \<Rightarrow> [])"
| "unhex _ = []"

lemma unhex_hex_bytes: "unhex (hex_bytes bs) = bs"
  by (induction bs) (simp_all add: nibble_hex_digit unhex_byte unhex_byte(1)
      del: of_nat_add of_nat_mult)

lemma length_hex_bytes: "length (hex_bytes bs) = 2 * length bs"
  by (induction bs) auto

lemma strhex_loop_eq:
  assumes "even i" and "i \<le> BUFSIZ - 2" and "2 * n = sz2 - i" and "n \<le> length ptr" and "i \<le> sz2"
  shows "strhex_loop i sz2 ptr = Some (hex_bytes (take (min n ((BUFSIZ - 2 - i) div 2)) ptr))"
  using assms
proof (induction ptr arbitrary: i n)
  case Nil
  then show ?case by (subst strhex_loop.simps) simp
next
  case (Cons b bs)
  show ?case
  proof (cases "i < BUFSIZ - 2 \<and> i < sz2")
    case True
    have "even (BUFSIZ - 2)" by (simp add: BUFSIZ_def)
    then have "i + 2 \<le> BUFSIZ - 2"
      using True Cons.prems(1) by (metis add_2_eq_Suc' dvd_diff_nat even_Suc less_Suc_eq_le
          linorder_not_less nat_less_le not_less_eq)
    moreover from True obtain m where m: "n = Suc m" "2 * m = sz2 - (i + 2)"
      using Cons.prems(3) by (cases n) auto
    moreover have "i + 2 \<le> sz2"
      using True Cons.prems(3) by presburger
    ultimately have "strhex_loop (i + 2) sz2 bs =
        Some (hex_bytes (take (min m ((BUFSIZ - 2 - (i + 2)) div 2)) bs))"
      using Cons.IH [of "i + 2" m] Cons.prems by simp
    moreover have "min n ((BUFSIZ - 2 - i) div 2) = Suc (min m ((BUFSIZ - 2 - (i + 2)) div 2))"
      using m(1) \<open>i + 2 \<le> BUFSIZ - 2\<close> by (auto simp: min_def)
    ultimately show ?thesis
      using True by (subst strhex_loop.simps) simp
  next
    case False
    then show ?thesis
      using Cons.prems by (subst strhex_loop.simps) auto
  qed
qed

text \<open>
  C15: \<open>otelc_strhex\<close> writes the hexadecimal digits of the data without overrunning its
  \<open>BUFSIZ\<close>-byte buffer: decoding the result gives back the first \<open>min size 4095\<close> bytes, so for data
  that fits nothing is lost, and the text with its terminator always fits.
\<close>
theorem strhex_roundtrip:
  assumes "0 < sz" and "sz < 2 ^ 63" and "unat sz \<le> length data"
  shows "\<exists>s. otelc_strhex (Some data) sz = Some s \<and> unhex s = take (min (unat sz) 4095) data \<and>
    length s < BUFSIZ"
proof -
  have "unat (push_bit 1 sz) = 2 * unat sz"
  proof -
    have "unat sz < 2 ^ 63"
      using assms(2) by (simp add: word_less_nat_alt)
    then show ?thesis
      unfolding unsigned_push_bit_eq by (simp add: push_bit_eq_mult take_bit_nat_eq_self)
  qed
  then have e: "otelc_strhex (Some data) sz = Some (hex_bytes (take (min (unat sz) 4095) data))"
    using assms strhex_loop_eq [of 0 "unat sz" "2 * unat sz" data]
    by (auto simp: otelc_strhex_def BUFSIZ_def)
  show ?thesis
    unfolding e by (simp add: unhex_hex_bytes length_hex_bytes BUFSIZ_def)
qed

lemma strhex_roundtrip_witness:
  "otelc_strhex (Some [0xde, 0x05]) 2 = Some ''de05'' \<and> unhex ''de05'' = [0xde, 0x05]"
proof -
  have e: "otelc_strhex (Some [0xde, 0x05]) 2 = Some ''de05''"
    by code_simp
  show ?thesis
    using strhex_roundtrip [of 2 "[0xde, 0x05]"] e by simp
qed

lemma strctrl_loop_eq:
  assumes "i \<le> sz" and "sz - i \<le> length ptr"
  shows "strctrl_loop n i sz ptr = Some (map (\<lambda>b. if 0x20 \<le> b \<and> b \<le> 0x7e then char_of (unat b) else CHR ''.'')
    (take (min (sz - i) (BUFSIZ - 1 - n)) ptr))"
  using assms
proof (induction ptr arbitrary: n i)
  case (Cons b bs)
  show ?case
  proof (cases "n < BUFSIZ - 1 \<and> i < sz")
    case True
    then have "min (sz - i) (BUFSIZ - 1 - n) = Suc (min (sz - (i + 1)) (BUFSIZ - 1 - (n + 1)))"
      by (auto simp: min_def)
    then show ?thesis
      using True Cons.IH [of "i + 1" "n + 1"] Cons.prems
      by (subst strctrl_loop.simps) (simp del: min_Suc_Suc)
  next
    case False
    then show ?thesis by (subst strctrl_loop.simps) auto
  qed
qed (subst strctrl_loop.simps, simp)

lemma otelc_strctrl_printable:
  assumes "0 < sz" and "unat sz \<le> length data"
  shows "\<exists>s. otelc_strctrl (Some data) sz = Some s \<and> length s = min (unat sz) (BUFSIZ - 1) \<and>
    (\<forall>c \<in> set s. 0x20 \<le> char_code c \<and> char_code c \<le> (0x7e :: nat))"
  using assms strctrl_loop_eq [of 0 "unat sz" data 0]
  by (auto simp: otelc_strctrl_def BUFSIZ_def word_le_nat_alt)

lemma otelc_memdup_terminated:
  assumes "s \<noteq> - 1" and "unat s \<le> length m"
  shows "otelc_memdup False (Some m) s = Some (Some (take (unat s) m @ [CHR 0x00]))"
  using assms unatSuc [of s] by (simp add: otelc_memdup_def add.commute eq_neg_iff_add_eq_0)

end
