(* ===== verification/Otel_Heap.thy ===== *)
theory Otel_Heap
  imports Otel_Prelude
begin

text \<open>
  The C heap the library allocates from.  An address is a natural number and 0 is the null
  pointer.  The n-th allocation fails when the oracle \<open>oom n\<close> says so.  Freeing or
  dereferencing an address that is not allocated (a double free, a use after free) is
  undefined behaviour, the value \<open>None\<close>.  Addresses are not reused, so a stale pointer is
  always noticed.
\<close>

type_synonym addr = nat

text \<open>The tagged union \<open>struct otelc_value\<close> and \<open>struct otelc_kv\<close>; \<open>'d\<close> stands for \<open>double\<close>.\<close>

datatype 'd otelc_value =
    V_null
  | V_bool bool
  | V_int32 int32
  | V_int64 int64
  | V_uint32 uint32
  | V_uint64 uint64
  | V_double 'd
  | V_string addr
  | V_data addr

record 'd otelc_kv =
  kv_key :: addr
  key_is_dynamic :: bool
  kv_value :: "'d otelc_value"

text \<open>The contents of a block: a string, an array of flags or of pointers, a text map
  structure, an array of values or of key-value pairs.\<close>

datatype 'd block =
    B_str string
  | B_array "nat list"
  | B_struct
  | B_values "'d otelc_value list"
  | B_kvs "'d otelc_kv list"

record 'd heap =
  mem :: "addr \<rightharpoonup> 'd block"
  allocs :: nat

definition heap_ok :: "'d heap \<Rightarrow> bool" where
  "heap_ok h \<longleftrightarrow> (\<forall>a \<in> dom (mem h). 0 < a \<and> a \<le> allocs h)"

section \<open>Allocation\<close>

definition c_malloc :: "(nat \<Rightarrow> bool) \<Rightarrow> 'd block \<Rightarrow> 'd heap \<Rightarrow> addr \<times> 'd heap" where
  "c_malloc oom b h =
     (if oom (allocs h) then (0, h\<lparr>allocs := Suc (allocs h)\<rparr>)
      else (Suc (allocs h), h\<lparr>mem := (mem h)(Suc (allocs h) \<mapsto> b), allocs := Suc (allocs h)\<rparr>))"

definition c_realloc :: "(nat \<Rightarrow> bool) \<Rightarrow> addr \<Rightarrow> 'd block \<Rightarrow> 'd heap \<Rightarrow> addr \<times> 'd heap" where
  "c_realloc oom a b h =
     (if oom (allocs h) then (0, h\<lparr>allocs := Suc (allocs h)\<rparr>)
      else (Suc (allocs h),
            h\<lparr>mem := (mem h)(a := None, Suc (allocs h) \<mapsto> b), allocs := Suc (allocs h)\<rparr>))"

definition c_free :: "addr \<Rightarrow> 'd heap \<Rightarrow> 'd heap option" where
  "c_free a h = (if mem h a = None then None else Some (h\<lparr>mem := (mem h)(a := None)\<rparr>))"

text \<open>\<open>OTELC_SFREE\<close>: a null pointer is left alone.\<close>

definition sfree :: "addr \<Rightarrow> 'd heap \<Rightarrow> 'd heap option" where
  "sfree a h = (if a = 0 then Some h else c_free a h)"

fun free_all :: "addr list \<Rightarrow> 'd heap \<Rightarrow> 'd heap option" where
  "free_all [] h = Some h"
| "free_all (a # as) h = Option.bind (sfree a h) (free_all as)"

section \<open>Arrays and strings\<close>

definition rd :: "'d heap \<Rightarrow> addr \<Rightarrow> nat \<Rightarrow> nat option" where
  "rd h a i = (case mem h a of
     Some (B_array xs) \<Rightarrow> if i < length xs then Some (xs ! i) else None | _ \<Rightarrow> None)"

definition wr :: "addr \<Rightarrow> nat \<Rightarrow> nat \<Rightarrow> 'd heap \<Rightarrow> 'd heap option" where
  "wr a i v h = (case mem h a of
     Some (B_array xs) \<Rightarrow> if i < length xs then Some (h\<lparr>mem := (mem h)(a \<mapsto> B_array (xs[i := v]))\<rparr>) else None
   | _ \<Rightarrow> None)"

text \<open>\<open>otelc_strdup\<close> and \<open>otelc_strndup\<close> of a string in memory (\<open>n = 0\<close> copies all of it).\<close>

definition str_dup :: "(nat \<Rightarrow> bool) \<Rightarrow> addr \<Rightarrow> nat \<Rightarrow> 'd heap \<Rightarrow> (addr \<times> 'd heap) option" where
  "str_dup oom a n h = (case mem h a of
     Some (B_str s) \<Rightarrow> Some (c_malloc oom (B_str (if n > 0 then take n s else s)) h) | _ \<Rightarrow> None)"

section \<open>Laws\<close>

lemma heap_ok_fresh: "heap_ok h \<Longrightarrow> mem h (Suc (allocs h)) = None"
  by (force simp: heap_ok_def dom_def)

lemma heap_ok_null [simp]: "heap_ok h \<Longrightarrow> mem h 0 = None"
  by (force simp: heap_ok_def dom_def)

lemma heap_ok_update:
  "\<lbrakk>heap_ok h; dom m \<subseteq> dom (mem h)\<rbrakk> \<Longrightarrow> heap_ok (h\<lparr>mem := m\<rparr>)"
  unfolding heap_ok_def by (metis heap.select_convs(2) heap.simps(4) heap.surjective subsetD
      heap.update_convs(1) heap.select_convs(1))

lemma heap_ok_malloc: "\<lbrakk>heap_ok h; c_malloc oom b h = (a, h')\<rbrakk> \<Longrightarrow> heap_ok h'"
  by (auto simp: c_malloc_def heap_ok_def split: if_splits) (simp add: domI le_SucI)+

lemma heap_ok_realloc: "\<lbrakk>heap_ok h; c_realloc oom p b h = (a, h')\<rbrakk> \<Longrightarrow> heap_ok h'"
  by (auto simp: c_realloc_def heap_ok_def split: if_splits) (simp add: domI le_SucI)+

lemma malloc_cases:
  assumes "c_malloc oom b h = (a, h')"
  obtains (fail) "a = 0" "mem h' = mem h"
  | (ok) "a = Suc (allocs h)" "mem h' = (mem h)(a \<mapsto> b)"
  using assms by (auto simp: c_malloc_def split: if_splits)

lemma realloc_cases:
  assumes "c_realloc oom p b h = (a, h')"
  obtains (fail) "a = 0" "mem h' = mem h"
  | (ok) "a = Suc (allocs h)" "mem h' = (mem h)(p := None, a \<mapsto> b)"
  using assms by (auto simp: c_realloc_def split: if_splits)

lemma restrict_remove: "(m |` (- S))(a := None) = m |` (- insert a S)"
  by (auto simp: restrict_map_def fun_eq_iff)

lemma restrict_twice: "(m |` (- S)) |` (- T) = m |` (- (S \<union> T))"
  by (auto simp: restrict_map_def fun_eq_iff)

lemma upd_None_restrict: "m(a := None) = m |` (- {a})"
  by (auto simp: restrict_map_def fun_eq_iff)

text \<open>Freeing a list of distinct live blocks succeeds and removes exactly those blocks; null
  pointers in the list are skipped.\<close>

lemma free_all_ok:
  assumes "distinct (filter (\<lambda>a. a \<noteq> 0) as)" and "set as - {0} \<subseteq> dom (mem h)" and "mem h 0 = None"
  shows "free_all as h = Some (h\<lparr>mem := mem h |` (- set as)\<rparr>)"
  using assms
proof (induction as arbitrary: h)
  case Nil
  then show ?case by (simp add: restrict_map_def)
next
  case (Cons a as)
  show ?case
  proof (cases "a = 0")
    case True
    have "mem h |` (- insert 0 (set as)) = mem h |` (- set as)"
      using Cons.prems(3) by (auto simp: restrict_map_def fun_eq_iff)
    with True Cons show ?thesis by (simp add: sfree_def)
  next
    case False
    let ?h = "h\<lparr>mem := (mem h)(a := None)\<rparr>"
    have "free_all as ?h = Some (?h\<lparr>mem := mem ?h |` (- set as)\<rparr>)"
    proof (intro Cons.IH)
      show "set as - {0} \<subseteq> dom (mem ?h)"
      proof -
        have "a \<notin> set as" using Cons.prems(1) False by simp
        moreover have "dom (mem ?h) = dom (mem h) - {a}" by simp
        ultimately show ?thesis using Cons.prems(2) by (simp only: list.set) blast
      qed
    qed (use Cons.prems False in auto)
    moreover have "mem ?h |` (- set as) = mem h |` (- set (a # as))"
      by (auto simp: restrict_map_def fun_eq_iff)
    moreover have "sfree a h = Some ?h"
      using Cons.prems False by (auto simp: sfree_def c_free_def)
    ultimately show ?thesis by simp
  qed
qed

lemma free_all_append: "free_all (as @ bs) h = Option.bind (free_all as h) (free_all bs)"
  by (induction as arbitrary: h) (auto simp: Option.bind_eq_Some_conv split: bind_splits)

end
