(* ===== verification/Otel_TextMap.thy ===== *)
theory Otel_TextMap
  imports Otel_Heap
begin

text \<open>
  The growable map of C strings of \<open>src/util.cpp\<close> (\<open>otelc_text_map_*\<close>), over the C heap.
  The three arrays, the duplicated strings and a dynamically allocated structure are heap
  blocks; \<open>owned\<close> lists the blocks a map has to release.  The properties say that no
  operation leaks a block, releases one twice or touches one it does not own, also when an
  allocation fails half way through growing the arrays.
\<close>

section \<open>State\<close>

definition OTELC_TEXT_MAP_DUP_KEY :: nat where "OTELC_TEXT_MAP_DUP_KEY = 0x01"
definition OTELC_TEXT_MAP_DUP_VALUE :: nat where "OTELC_TEXT_MAP_DUP_VALUE = 0x02"
definition OTELC_TEXT_MAP_FREE_KEY :: nat where "OTELC_TEXT_MAP_FREE_KEY = 0x04"
definition OTELC_TEXT_MAP_FREE_VALUE :: nat where "OTELC_TEXT_MAP_FREE_VALUE = 0x08"
definition OTELC_TEXT_MAP_AUTO :: nat where
  "OTELC_TEXT_MAP_AUTO = OTELC_TEXT_MAP_DUP_KEY OR OTELC_TEXT_MAP_DUP_VALUE OR
     OTELC_TEXT_MAP_FREE_KEY OR OTELC_TEXT_MAP_FREE_VALUE"

definition has_flag :: "nat \<Rightarrow> nat \<Rightarrow> bool" where
  "has_flag flags m \<longleftrightarrow> flags AND m \<noteq> 0"

abbreviation key_mask :: nat where
  "key_mask \<equiv> OTELC_TEXT_MAP_DUP_KEY OR OTELC_TEXT_MAP_FREE_KEY"

abbreviation value_mask :: nat where
  "value_mask \<equiv> OTELC_TEXT_MAP_DUP_VALUE OR OTELC_TEXT_MAP_FREE_VALUE"

text \<open>\<open>struct otelc_text_map\<close>; \<open>tm_self\<close> is its own block when it was allocated, else 0.\<close>

record text_map =
  tm_self :: addr
  tm_flags :: addr
  tm_key :: addr
  tm_value :: addr
  tm_count :: nat
  tm_size :: nat
  is_dynamic :: bool

section \<open>Release\<close>

text \<open>The loops of \<open>otelc_text_map_free\<close>: release entry \<open>i\<close> when its flags say so.\<close>

fun free_marked :: "nat \<Rightarrow> addr \<Rightarrow> addr \<Rightarrow> nat list \<Rightarrow> 'd heap \<Rightarrow> 'd heap option" where
  "free_marked bits fa pa [] h = Some h"
| "free_marked bits fa pa (i # is) h = do {
     f \<leftarrow> rd h fa i;
     (if has_flag f bits
      then do { p \<leftarrow> rd h pa i; h' \<leftarrow> sfree p h; free_marked bits fa pa is h' }
      else free_marked bits fa pa is h) }"

definition otelc_text_map_free ::
  "text_map option \<Rightarrow> 'd heap \<Rightarrow> (text_map option \<times> 'd heap) option" where
  "otelc_text_map_free text_map h = (case text_map of
       None \<Rightarrow> Some (None, h)
     | Some tm \<Rightarrow> do {
         h1 \<leftarrow> (if tm_flags tm \<noteq> 0 \<and> tm_key tm \<noteq> 0
                then free_marked key_mask (tm_flags tm) (tm_key tm) [0..<tm_count tm] h else Some h);
         h2 \<leftarrow> (if tm_flags tm \<noteq> 0 \<and> tm_value tm \<noteq> 0
                then free_marked value_mask (tm_flags tm) (tm_value tm) [0..<tm_count tm] h1 else Some h1);
         h3 \<leftarrow> sfree (tm_flags tm) h2;
         h4 \<leftarrow> sfree (tm_key tm) h3;
         h5 \<leftarrow> sfree (tm_value tm) h4;
         Some (Some (tm\<lparr>tm_flags := 0, tm_key := 0, tm_value := 0, tm_count := 0, tm_size := 0\<rparr>), h5) })"

text \<open>\<open>otelc_text_map_destroy\<close>: afterwards the caller's pointer is null when the structure was
  dynamic, else it still refers to the emptied structure.\<close>

definition otelc_text_map_destroy ::
  "text_map option \<Rightarrow> 'd heap \<Rightarrow> (text_map option \<times> 'd heap) option" where
  "otelc_text_map_destroy text_map h = (case text_map of
       None \<Rightarrow> Some (None, h)
     | Some tm \<Rightarrow> do {
         (tm', h') \<leftarrow> otelc_text_map_free (Some tm) h;
         (if is_dynamic tm then do { h'' \<leftarrow> sfree (tm_self tm) h'; Some (None, h'') }
          else Some (tm', h')) })"

section \<open>Construction\<close>

definition otelc_text_map_new ::
  "(nat \<Rightarrow> bool) \<Rightarrow> text_map option \<Rightarrow> nat \<Rightarrow> 'd heap \<Rightarrow> (text_map option \<times> 'd heap) option" where
  "otelc_text_map_new oom text_map sz h =
     (let (self, h0) = (case text_map of Some tm \<Rightarrow> (tm_self tm, h) | None \<Rightarrow> c_malloc oom B_struct h) in
      if text_map = None \<and> self = 0 then Some (None, h0)
      else
        let tm = \<lparr>tm_self = self, tm_flags = 0, tm_key = 0, tm_value = 0, tm_count = 0, tm_size = sz,
                  is_dynamic = (text_map = None)\<rparr>;
            calloc = c_malloc oom (B_array (replicate sz 0));
            fail = (\<lambda>tm h. do { (_, h') \<leftarrow> otelc_text_map_destroy (Some tm) h; Some (None, h') })
        in if sz = 0 then Some (Some tm, h0)
           else let (fa, h1) = calloc h0; tm1 = tm\<lparr>tm_flags := fa\<rparr> in
             if fa = 0 then fail tm1 h1
             else let (ka, h2) = calloc h1; tm2 = tm1\<lparr>tm_key := ka\<rparr> in
               if ka = 0 then fail tm2 h2
               else let (va, h3) = calloc h2; tm3 = tm2\<lparr>tm_value := va\<rparr> in
                 if va = 0 then fail tm3 h3
                 else Some (Some tm3, h3))"

section \<open>Insertion\<close>

text \<open>One \<open>OTELC_REALLOC\<close> of an array of \<open>k\<close>-byte cells with the \<open>memset\<close> of its new part: the new
  address, or 0 with the old array kept.  A product that wraps would leave the \<open>memset\<close> without room.\<close>

definition grow_array ::
  "(nat \<Rightarrow> bool) \<Rightarrow> nat \<Rightarrow> addr \<Rightarrow> nat \<Rightarrow> nat \<Rightarrow> 'd heap \<Rightarrow> (addr \<times> 'd heap) option" where
  "grow_array oom k a sz size_add h =
     (if 2 ^ 64 \<le> k * (sz + size_add) then None
      else if a = 0 then Some (c_malloc oom (B_array (replicate (sz + size_add) 0)) h)
      else case mem h a of
          Some (B_array xs) \<Rightarrow>
            if sz \<le> length xs then Some (c_realloc oom a (B_array (take sz xs @ replicate size_add 0)) h)
            else None
        | _ \<Rightarrow> None)"

text \<open>The number of pairs added: half the current capacity (8, 12, 18, 27, \<dots>).\<close>

definition grow_by :: "nat \<Rightarrow> nat" where
  "grow_by sz = (if sz > 1 then sz div 2 else 1)"

text \<open>The growing step of \<open>otelc_text_map_add\<close>; \<open>False\<close> when an allocation failed.\<close>

definition text_map_grow ::
  "(nat \<Rightarrow> bool) \<Rightarrow> text_map \<Rightarrow> 'd heap \<Rightarrow> (bool \<times> text_map \<times> 'd heap) option" where
  "text_map_grow oom tm h =
     (let sz = tm_size tm; size_add = grow_by sz in do {
        (fa, h1) \<leftarrow> grow_array oom 4 (tm_flags tm) sz size_add h;
        (if fa = 0 then Some (False, tm, h1)
         else let tm1 = tm\<lparr>tm_flags := fa\<rparr> in do {
           (ka, h2) \<leftarrow> grow_array oom 8 (tm_key tm) sz size_add h1;
           (if ka = 0 then Some (False, tm1, h2)
            else let tm2 = tm1\<lparr>tm_key := ka\<rparr> in do {
              (va, h3) \<leftarrow> grow_array oom 8 (tm_value tm) sz size_add h2;
              (if va = 0 then Some (False, tm2, h3)
               else Some (True, tm2\<lparr>tm_value := va, tm_size := sz + size_add\<rparr>, h3)) }) }) })"

text \<open>The copy of a key or value: a duplicate, or the pointer itself.\<close>

definition take_string ::
  "(nat \<Rightarrow> bool) \<Rightarrow> bool \<Rightarrow> addr \<Rightarrow> nat \<Rightarrow> 'd heap \<Rightarrow> (addr \<times> 'd heap) option" where
  "take_string oom dup a n h = (if dup then str_dup oom a n h else Some (a, h))"

definition text_map_store ::
  "(nat \<Rightarrow> bool) \<Rightarrow> text_map \<Rightarrow> addr \<Rightarrow> nat \<Rightarrow> addr \<Rightarrow> nat \<Rightarrow> nat \<Rightarrow> 'd heap \<Rightarrow>
   (int \<times> text_map \<times> 'd heap) option" where
  "text_map_store oom tm key key_len value value_len flags h =
     (let n = tm_count tm;
          dup_key = has_flag flags OTELC_TEXT_MAP_DUP_KEY;
          dup_value = has_flag flags OTELC_TEXT_MAP_DUP_VALUE in do {
        h1 \<leftarrow> wr (tm_flags tm) n flags h;
        (k, h2) \<leftarrow> take_string oom dup_key key key_len h1;
        h3 \<leftarrow> wr (tm_key tm) n k h2;
        (v, h4) \<leftarrow> take_string oom dup_value value value_len h3;
        h5 \<leftarrow> wr (tm_value tm) n v h4;
        (if k \<noteq> 0 \<and> v \<noteq> 0 then Some (int_of_size (of_nat n), tm\<lparr>tm_count := n + 1\<rparr>, h5)
         else do {
           h6 \<leftarrow> (if dup_key then sfree k h5 else Some h5);
           h7 \<leftarrow> (if dup_value then sfree v h6 else Some h6);
           h8 \<leftarrow> wr (tm_key tm) n 0 h7;
           h9 \<leftarrow> wr (tm_value tm) n 0 h8;
           Some (OTELC_RET_ERROR, tm, h9) }) })"

definition otelc_text_map_add ::
  "(nat \<Rightarrow> bool) \<Rightarrow> text_map option \<Rightarrow> addr \<Rightarrow> nat \<Rightarrow> addr \<Rightarrow> nat \<Rightarrow> nat \<Rightarrow> 'd heap \<Rightarrow>
   (int \<times> text_map option \<times> 'd heap) option" where
  "otelc_text_map_add oom text_map key key_len value value_len flags h =
     (case text_map of
        None \<Rightarrow> Some (OTELC_RET_ERROR, None, h)
      | Some tm \<Rightarrow>
          if key = 0 \<or> value = 0 then Some (OTELC_RET_ERROR, Some tm, h)
          else do {
            (grown, tm', h') \<leftarrow> (if tm_count tm \<ge> tm_size tm then text_map_grow oom tm h
                               else Some (True, tm, h));
            (if \<not> grown then Some (OTELC_RET_ERROR, Some tm', h')
             else do {
               (r, tm'', h'') \<leftarrow> text_map_store oom tm' key key_len value value_len flags h';
               Some (r, Some tm'', h'') }) })"

section \<open>The entries a map represents and the blocks it owns\<close>

type_synonym entry = "nat \<times> addr \<times> addr"

fun entry_blocks :: "entry \<Rightarrow> addr list" where
  "entry_blocks (f, k, v) =
     (if has_flag f key_mask then [k] else []) @ (if has_flag f value_mask then [v] else [])"

definition entries_blocks :: "entry list \<Rightarrow> addr list" where
  "entries_blocks es = concat (map entry_blocks es)"

definition arrays :: "text_map \<Rightarrow> addr list" where
  "arrays tm = filter (\<lambda>a. a \<noteq> 0) [tm_flags tm, tm_key tm, tm_value tm]"

definition owned :: "text_map \<Rightarrow> entry list \<Rightarrow> addr list" where
  "owned tm es = (if is_dynamic tm then [tm_self tm] else []) @ arrays tm @ entries_blocks es"

text \<open>An array block of at least \<open>n\<close> cells that starts with \<open>xs\<close>; a null one holds nothing.\<close>

definition arr_ok :: "'d heap \<Rightarrow> addr \<Rightarrow> nat \<Rightarrow> nat list \<Rightarrow> bool" where
  "arr_ok h a n xs \<longleftrightarrow> (if a = 0 then xs = []
     else \<exists>ys. mem h a = Some (B_array ys) \<and> n \<le> length ys \<and> length xs \<le> n \<and> take (length xs) ys = xs)"

definition tm_rel :: "text_map \<Rightarrow> 'd heap \<Rightarrow> entry list \<Rightarrow> bool" where
  "tm_rel tm h es \<longleftrightarrow> heap_ok h \<and> length es = tm_count tm \<and> tm_count tm \<le> tm_size tm \<and>
     arr_ok h (tm_flags tm) (tm_size tm) (map fst es) \<and>
     arr_ok h (tm_key tm) (tm_size tm) (map (\<lambda>e. fst (snd e)) es) \<and>
     arr_ok h (tm_value tm) (tm_size tm) (map (\<lambda>e. snd (snd e)) es) \<and>
     distinct (owned tm es) \<and> set (owned tm es) \<subseteq> dom (mem h)"

text \<open>The invariant: in addition, a map with room has all its arrays.\<close>

definition tm_rep :: "text_map \<Rightarrow> 'd heap \<Rightarrow> entry list \<Rightarrow> bool" where
  "tm_rep tm h es \<longleftrightarrow> tm_rel tm h es \<and> (0 < tm_size tm \<longrightarrow> length (arrays tm) = 3)"

text \<open>Everything in the heap that the map does not own.\<close>

definition rest :: "text_map \<Rightarrow> entry list \<Rightarrow> 'd heap \<Rightarrow> addr \<rightharpoonup> 'd block" where
  "rest tm es h = mem h |` (- set (owned tm es))"

lemma entries_blocks_Cons [simp]: "entries_blocks (e # es) = entry_blocks e @ entries_blocks es"
  and entries_blocks_Nil [simp]: "entries_blocks [] = []"
  and entries_blocks_append [simp]: "entries_blocks (es @ es') = entries_blocks es @ entries_blocks es'"
  by (simp_all add: entries_blocks_def)

lemma tm_rel_nonnull: "tm_rel tm h es \<Longrightarrow> 0 \<notin> set (owned tm es)"
  using heap_ok_null [of h] by (auto simp: tm_rel_def)

section \<open>Releasing the entries\<close>

definition marked :: "nat \<Rightarrow> (nat \<times> addr) list \<Rightarrow> addr list" where
  "marked bits ps = map snd (filter (\<lambda>(f, p). has_flag f bits) ps)"

lemma rd_restrict: "a \<notin> S \<Longrightarrow> rd (h\<lparr>mem := mem h |` (- S)\<rparr>) a i = rd h a i"
  by (simp add: rd_def)

lemma Compl_insert_Int: "- {p} \<inter> - S = - insert p S"
  by auto

lemma set_arrays: "set (arrays tm) = {tm_flags tm, tm_key tm, tm_value tm} - {0}"
  by (auto simp: arrays_def)

lemma free_marked_ok:
  assumes "\<And>j. j < length ps \<Longrightarrow> rd h fa (i + j) = Some (fst (ps ! j))"
    and "\<And>j. j < length ps \<Longrightarrow> rd h pa (i + j) = Some (snd (ps ! j))"
    and "distinct (marked bits ps)" and "set (marked bits ps) \<subseteq> dom (mem h)" and "mem h 0 = None"
    and "fa \<notin> set (marked bits ps)" and "pa \<notin> set (marked bits ps)"
  shows "free_marked bits fa pa [i..<i + length ps] h =
    Some (h\<lparr>mem := mem h |` (- set (marked bits ps))\<rparr>)"
  using assms
proof (induction ps arbitrary: i h)
  case Nil
  then show ?case by (simp add: marked_def restrict_map_def)
next
  case (Cons q ps)
  obtain f p where q: "q = (f, p)" by (cases q)
  have up: "[i..<i + length (q # ps)] = i # [Suc i..<Suc i + length ps]"
    by (subst upt_conv_Cons) simp_all
  have rd0: "rd h fa i = Some f" "rd h pa i = Some p"
    using Cons.prems(1,2) [of 0] q by simp_all
  have rds: "rd h fa (Suc i + j) = Some (fst (ps ! j))" "rd h pa (Suc i + j) = Some (snd (ps ! j))"
    if "j < length ps" for j
    using Cons.prems(1,2) [of "Suc j"] that by simp_all
  show ?case
  proof (cases "has_flag f bits")
    case False
    then have "marked bits (q # ps) = marked bits ps"
      by (simp add: marked_def q)
    then show ?thesis
      unfolding up using Cons.IH [of h "Suc i"] Cons.prems rds rd0 False by simp
  next
    case True
    then have m: "marked bits (q # ps) = p # marked bits ps"
      by (simp add: marked_def q)
    let ?h = "h\<lparr>mem := mem h |` (- {p})\<rparr>"
    have p: "p \<noteq> 0" "mem h p \<noteq> None" "p \<noteq> fa" "p \<noteq> pa" "p \<notin> set (marked bits ps)"
      using Cons.prems(3-7) m by (auto simp: dom_def intro!: gr0I)
    then have s: "sfree p h = Some ?h"
      by (simp add: sfree_def c_free_def upd_None_restrict)
    have "free_marked bits fa pa [Suc i..<Suc i + length ps] ?h =
        Some (?h\<lparr>mem := mem ?h |` (- set (marked bits ps))\<rparr>)"
    proof (rule Cons.IH)
      show "set (marked bits ps) \<subseteq> dom (mem ?h)"
        using Cons.prems(4) p(5) m by auto
      show "mem ?h 0 = None"
        using Cons.prems(5) by (simp add: restrict_map_def)
    qed (use Cons.prems(3-7) rds p m in \<open>simp_all add: rd_restrict\<close>)
    then show ?thesis
      unfolding up using rd0 True s
      by (simp add: m Compl_insert_Int [of p] del: upt_Suc)
  qed
qed

lemma rd_arr_ok:
  assumes "arr_ok h a n xs" and "i < length xs"
  shows "rd h a i = Some (xs ! i)"
proof -
  obtain ys where y: "mem h a = Some (B_array ys)" "n \<le> length ys" "length xs \<le> n" "take (length xs) ys = xs"
    using assms by (auto simp: arr_ok_def split: if_splits)
  then have "i < length ys" "ys ! i = xs ! i"
    using assms(2) by (auto, metis nth_take)
  with y show ?thesis by (simp add: rd_def)
qed

abbreviation flag_keys :: "entry list \<Rightarrow> (nat \<times> addr) list" where
  "flag_keys es \<equiv> map (\<lambda>e. (fst e, fst (snd e))) es"

abbreviation flag_values :: "entry list \<Rightarrow> (nat \<times> addr) list" where
  "flag_values es \<equiv> map (\<lambda>e. (fst e, snd (snd e))) es"

lemma marked_blocks:
  "set (entries_blocks es) = set (marked key_mask (flag_keys es)) \<union> set (marked value_mask (flag_values es))"
  by (induction es) (auto simp: marked_def)

lemma marked_distinct:
  "distinct (entries_blocks es) \<Longrightarrow>
    distinct (marked key_mask (flag_keys es)) \<and> distinct (marked value_mask (flag_values es)) \<and>
    set (marked key_mask (flag_keys es)) \<inter> set (marked value_mask (flag_values es)) = {}"
proof (induction es)
  case (Cons e es)
  obtain f k v where e: "e = (f, k, v)" by (cases e)
  have m: "marked key_mask (flag_keys (e # es)) =
        (if has_flag f key_mask then [k] else []) @ marked key_mask (flag_keys es)"
      "marked value_mask (flag_values (e # es)) =
        (if has_flag f value_mask then [v] else []) @ marked value_mask (flag_values es)"
    by (simp_all add: marked_def e)
  have "distinct (entries_blocks es)" using Cons.prems by simp
  note IH = Cons.IH [OF this]
  have "set (entry_blocks e) \<inter> set (entries_blocks es) = {}" "distinct (entry_blocks e)"
    using Cons.prems by simp_all
  with IH show ?case
    unfolding m marked_blocks by (auto simp: e)
qed (simp add: marked_def)

lemma free_loop_ok:
  assumes "arr_ok h fa n (map fst es)" and "arr_ok h pa n (map sel es)" and "mem h 0 = None"
    and "distinct (marked bits (map (\<lambda>e. (fst e, sel e)) es))"
    and "set (marked bits (map (\<lambda>e. (fst e, sel e)) es)) \<subseteq> dom (mem h)"
    and "fa \<notin> set (marked bits (map (\<lambda>e. (fst e, sel e)) es))"
    and "pa \<notin> set (marked bits (map (\<lambda>e. (fst e, sel e)) es))"
  shows "(if fa \<noteq> 0 \<and> pa \<noteq> 0 then free_marked bits fa pa [0..<length es] h else Some h) =
    Some (h\<lparr>mem := mem h |` (- set (marked bits (map (\<lambda>e. (fst e, sel e)) es)))\<rparr>)"
proof (cases "fa \<noteq> 0 \<and> pa \<noteq> 0")
  case True
  then show ?thesis
    using free_marked_ok [of "map (\<lambda>e. (fst e, sel e)) es" h fa 0 pa bits] assms
      rd_arr_ok [OF assms(1)] rd_arr_ok [OF assms(2)] by simp
next
  case False
  then have "es = []" using assms(1,2) by (auto simp: arr_ok_def)
  with False show ?thesis by (auto simp: marked_def restrict_map_def)
qed

lemma arr_ok_restrict: "a \<notin> S \<Longrightarrow> arr_ok (h\<lparr>mem := mem h |` (- S)\<rparr>) a n xs = arr_ok h a n xs"
  by (simp add: arr_ok_def)

lemma text_map_free_ok:
  assumes "tm_rel tm h es"
  shows "otelc_text_map_free (Some tm) h =
    Some (Some (tm\<lparr>tm_flags := 0, tm_key := 0, tm_value := 0, tm_count := 0, tm_size := 0\<rparr>),
          h\<lparr>mem := mem h |` (- set (arrays tm @ entries_blocks es))\<rparr>)"
proof -
  let ?mk = "marked key_mask (flag_keys es)" and ?mv = "marked value_mask (flag_values es)"
  have r: "arr_ok h (tm_flags tm) (tm_size tm) (map fst es)"
      "arr_ok h (tm_key tm) (tm_size tm) (map (\<lambda>e. fst (snd e)) es)"
      "arr_ok h (tm_value tm) (tm_size tm) (map (\<lambda>e. snd (snd e)) es)"
      "length es = tm_count tm" "mem h 0 = None"
    using assms by (simp_all add: tm_rel_def)
  have o: "distinct (arrays tm @ entries_blocks es)" "set (arrays tm @ entries_blocks es) \<subseteq> dom (mem h)"
    using assms by (auto simp: tm_rel_def owned_def split: if_splits)
  note mb = marked_blocks [of es]
  have md: "distinct ?mk" "distinct ?mv" "set ?mk \<inter> set ?mv = {}"
    using marked_distinct [of es] o(1) by simp_all
  have sub: "set ?mk \<subseteq> dom (mem h)" "set ?mv \<subseteq> dom (mem h)"
    using o(2) mb by auto
  have dis: "set (arrays tm) \<inter> (set ?mk \<union> set ?mv) = {}"
    using o(1) mb by auto
  have fresh: "a \<notin> set ?mk \<and> a \<notin> set ?mv" if "a \<in> {tm_flags tm, tm_key tm, tm_value tm}" for a
  proof (cases "a = 0")
    case True
    then show ?thesis using sub r(5) by (auto simp: dom_def)
  next
    case False
    then have "a \<in> set (arrays tm)" using that by (auto simp: arrays_def)
    then show ?thesis using dis by auto
  qed
  let ?h1 = "h\<lparr>mem := mem h |` (- set ?mk)\<rparr>"
  have l1: "(if tm_flags tm \<noteq> 0 \<and> tm_key tm \<noteq> 0
      then free_marked key_mask (tm_flags tm) (tm_key tm) [0..<tm_count tm] h else Some h) = Some ?h1"
    unfolding r(4) [symmetric] using r md sub fresh by (intro free_loop_ok) simp_all
  let ?h2 = "h\<lparr>mem := mem h |` (- (set ?mk \<union> set ?mv))\<rparr>"
  have "set ?mv \<subseteq> dom (mem ?h1)"
    using sub md by auto
  then have l2: "(if tm_flags tm \<noteq> 0 \<and> tm_value tm \<noteq> 0
      then free_marked value_mask (tm_flags tm) (tm_value tm) [0..<tm_count tm] ?h1 else Some ?h1) = Some ?h2"
  proof -
    have h: "?h2 = ?h1\<lparr>mem := mem ?h1 |` (- set ?mv)\<rparr>"
      by (simp add: restrict_twice)
    have "arr_ok ?h1 (tm_flags tm) (tm_size tm) (map fst es)"
        "arr_ok ?h1 (tm_value tm) (tm_size tm) (map (\<lambda>e. snd (snd e)) es)"
      using r fresh by (simp_all add: arr_ok_restrict)
    then show ?thesis
      unfolding r(4) [symmetric] h using r md fresh \<open>set ?mv \<subseteq> dom (mem ?h1)\<close>
      by (intro free_loop_ok) (simp_all add: restrict_map_def)
  qed
  have "distinct (filter (\<lambda>a. a \<noteq> 0) [tm_flags tm, tm_key tm, tm_value tm])"
    using o(1) by (simp add: arrays_def)
  moreover have "set [tm_flags tm, tm_key tm, tm_value tm] - {0} \<subseteq> dom (mem ?h2)"
    using o(2) fresh set_arrays [of tm] by auto
  ultimately have "free_all [tm_flags tm, tm_key tm, tm_value tm] ?h2 =
      Some (?h2\<lparr>mem := mem ?h2 |` (- set [tm_flags tm, tm_key tm, tm_value tm])\<rparr>)"
    using r(5) by (intro free_all_ok) (simp_all add: restrict_map_def)
  moreover have "mem ?h2 |` (- set [tm_flags tm, tm_key tm, tm_value tm]) =
      mem h |` (- set (arrays tm @ entries_blocks es))"
    using mb r(5) set_arrays [of tm] by (auto simp: restrict_map_def fun_eq_iff)
  ultimately have "free_all [tm_flags tm, tm_key tm, tm_value tm] ?h2 =
      Some (h\<lparr>mem := mem h |` (- set (arrays tm @ entries_blocks es))\<rparr>)"
    by simp
  then obtain h3 h4 where "sfree (tm_flags tm) ?h2 = Some h3" "sfree (tm_key tm) h3 = Some h4"
      "sfree (tm_value tm) h4 = Some (h\<lparr>mem := mem h |` (- set (arrays tm @ entries_blocks es))\<rparr>)"
    by (auto simp: Option.bind_eq_Some_conv)
  then show ?thesis
    unfolding otelc_text_map_free_def option.case l1 Option.bind.bind_lunit l2
    by (simp only: Option.bind.bind_lunit)
qed

lemma text_map_destroy_ok:
  assumes "tm_rel tm h es"
  shows "\<exists>r h'. otelc_text_map_destroy (Some tm) h = Some (r, h') \<and> mem h' = rest tm es h \<and>
    allocs h' = allocs h \<and> (is_dynamic tm \<longrightarrow> r = None)"
proof (cases "is_dynamic tm")
  case False
  then show ?thesis
    using text_map_free_ok [OF assms] by (simp add: otelc_text_map_destroy_def rest_def owned_def)
next
  case True
  let ?h = "h\<lparr>mem := mem h |` (- set (arrays tm @ entries_blocks es))\<rparr>"
  have "tm_self tm \<noteq> 0" "tm_self tm \<notin> set (arrays tm @ entries_blocks es)" "tm_self tm \<in> dom (mem h)"
    using assms True tm_rel_nonnull [OF assms] by (auto simp: tm_rel_def owned_def)
  then have "sfree (tm_self tm) ?h = Some (?h\<lparr>mem := mem ?h |` (- {tm_self tm})\<rparr>)"
    by (auto simp: sfree_def c_free_def upd_None_restrict)
  moreover have "mem ?h |` (- {tm_self tm}) = rest tm es h"
    using True by (auto simp: rest_def owned_def restrict_map_def fun_eq_iff)
  ultimately show ?thesis
    using text_map_free_ok [OF assms] True by (simp add: otelc_text_map_destroy_def)
qed

section \<open>Construction and growth\<close>

lemma arr_ok_other: "\<lbrakk>mem h' a = mem h a\<rbrakk> \<Longrightarrow> arr_ok h' a n xs = arr_ok h a n xs"
  by (simp add: arr_ok_def)

lemma restrict_upd_in: "a \<in> S \<Longrightarrow> (m(a := v)) |` (- S) = m |` (- S)"
  by (auto simp: restrict_map_def fun_eq_iff)

lemma fresh_restrict: "\<lbrakk>m a = None\<rbrakk> \<Longrightarrow> (m(a := v)) |` (- insert a S) = m |` (- S)"
  by (auto simp: restrict_map_def fun_eq_iff)

text \<open>Attaching a freshly allocated array of capacity \<open>n\<close> to a map under construction.\<close>

definition blank :: "addr \<Rightarrow> bool \<Rightarrow> nat \<Rightarrow> addr \<Rightarrow> addr \<Rightarrow> addr \<Rightarrow> text_map" where
  "blank self dyn n fa ka va = \<lparr>tm_self = self, tm_flags = fa, tm_key = ka, tm_value = va,
     tm_count = 0, tm_size = n, is_dynamic = dyn\<rparr>"

definition blank_ok :: "'d heap \<Rightarrow> 'd heap \<Rightarrow> addr \<Rightarrow> bool \<Rightarrow> nat \<Rightarrow> addr list \<Rightarrow> bool" where
  "blank_ok h0 h self dyn n as \<longleftrightarrow> heap_ok h \<and>
     (let own = (if dyn then [self] else []) @ filter (\<lambda>a. a \<noteq> 0) as in
      distinct own \<and> set own \<subseteq> dom (mem h) \<and> mem h |` (- set own) = mem h0 \<and>
      (\<forall>a \<in> set as - {0}. \<exists>ys. mem h a = Some (B_array ys) \<and> n \<le> length ys))"

lemma blank_rel:
  assumes "blank_ok h0 h self dyn n [fa, ka, va]"
  shows "tm_rel (blank self dyn n fa ka va) h [] \<and> rest (blank self dyn n fa ka va) [] h = mem h0"
  using assms
  by (auto simp: blank_ok_def tm_rel_def blank_def rest_def owned_def arrays_def arr_ok_def Let_def
      split: if_splits)

lemma blank_ok_calloc:
  assumes "blank_ok h0 h self dyn n as" and "c_malloc oom (B_array (replicate n 0)) h = (a, h')"
  shows "blank_ok h0 h' self dyn n (as @ [a])"
  using assms(2)
proof (cases rule: malloc_cases)
  case fail
  then show ?thesis
    using assms heap_ok_malloc [OF _ assms(2)] by (simp add: blank_ok_def)
next
  case ok
  let ?own = "(if dyn then [self] else []) @ filter (\<lambda>a. a \<noteq> 0) as"
  have h: "heap_ok h" "distinct ?own" "set ?own \<subseteq> dom (mem h)" "mem h |` (- set ?own) = mem h0"
      "\<forall>b \<in> set as - {0}. \<exists>ys. mem h b = Some (B_array ys) \<and> n \<le> length ys"
    using assms(1) by (simp_all add: blank_ok_def Let_def)
  have na: "mem h a = None" "a \<noteq> 0"
    using heap_ok_fresh [OF h(1)] ok(1) by simp_all
  have eq: "(if dyn then [self] else []) @ filter (\<lambda>a. a \<noteq> 0) (as @ [a]) = ?own @ [a]"
    using na by simp
  have "a \<notin> set ?own" using h(3) na(1) by (auto simp: dom_def)
  moreover have "mem h' |` (- set (?own @ [a])) = mem h0"
    using ok(2) fresh_restrict [of "mem h" a] na(1) h(4) by simp
  moreover have "\<forall>b \<in> set (as @ [a]) - {0}. \<exists>ys. mem h' b = Some (B_array ys) \<and> n \<le> length ys"
    using h(5) ok(2) by auto
  moreover have "set (?own @ [a]) \<subseteq> dom (mem h')"
    using h(3) ok(2) by auto
  ultimately show ?thesis
    unfolding blank_ok_def eq Let_def
    using heap_ok_malloc [OF h(1) assms(2)] h(2) by simp
qed

lemma blank_pad: "blank_ok h0 h self dyn n (as @ [0]) = blank_ok h0 h self dyn n as"
  by (simp add: blank_ok_def)

lemma blank_destroy:
  assumes "blank_ok h0 h self dyn n [fa, ka, va]"
  shows "\<exists>r h'. otelc_text_map_destroy (Some (blank self dyn n fa ka va)) h = Some (r, h') \<and>
    mem h' = mem h0 \<and> allocs h' = allocs h"
  using text_map_destroy_ok [of _ h "[]"] blank_rel [OF assms] by metis

text \<open>What \<open>otelc_text_map_new\<close> promises: an empty map and everything else untouched, or nothing
  allocated at all.\<close>

definition new_spec :: "'d heap \<Rightarrow> nat \<Rightarrow> (text_map option \<times> 'd heap) option \<Rightarrow> bool" where
  "new_spec h sz r \<longleftrightarrow> (\<exists>m h'. r = Some (m, h') \<and> heap_ok h' \<and>
     (case m of None \<Rightarrow> mem h' = mem h
      | Some tm \<Rightarrow> tm_rep tm h' [] \<and> rest tm [] h' = mem h \<and> tm_size tm = sz \<and> tm_count tm = 0))"

lemma new_spec_fail:
  assumes "blank_ok h0 h self dyn n [fa, ka, va]"
  shows "new_spec h0 n (Option.bind (otelc_text_map_destroy (Some (blank self dyn n fa ka va)) h)
    (\<lambda>(_, h'). Some (None, h')))"
proof -
  obtain r h' where d: "otelc_text_map_destroy (Some (blank self dyn n fa ka va)) h = Some (r, h')"
      "mem h' = mem h0" "allocs h' = allocs h"
    using blank_destroy [OF assms] by blast
  have "dom (mem h0) \<subseteq> dom (mem h)" "heap_ok h"
    using assms by (auto simp: blank_ok_def Let_def restrict_map_def dom_def fun_eq_iff split: if_splits)
  then have "heap_ok h'"
    using d(2,3) by (auto simp: heap_ok_def)
  then show ?thesis
    using d by (simp add: new_spec_def)
qed

lemma new_spec_done:
  assumes "blank_ok h0 h self dyn n [fa, ka, va]" and "0 < n \<longrightarrow> fa \<noteq> 0 \<and> ka \<noteq> 0 \<and> va \<noteq> 0"
  shows "new_spec h0 n (Some (Some (blank self dyn n fa ka va), h))"
  using blank_rel [OF assms(1)] assms(2)
  by (auto simp: new_spec_def tm_rep_def tm_rel_def arrays_def blank_def)

lemma blank_simps:
  "\<lparr>tm_self = self, tm_flags = fa, tm_key = ka, tm_value = va, tm_count = 0, tm_size = n,
    is_dynamic = dyn\<rparr> = blank self dyn n fa ka va"
  "blank self dyn n fa ka va\<lparr>tm_flags := fb\<rparr> = blank self dyn n fb ka va"
  "blank self dyn n fa ka va\<lparr>tm_key := kb\<rparr> = blank self dyn n fa kb va"
  "blank self dyn n fa ka va\<lparr>tm_value := vb\<rparr> = blank self dyn n fa ka vb"
  by (simp_all add: blank_def)

text \<open>The three array allocations with their failure exits, from a blank structure.\<close>

definition new_arrays ::
  "(nat \<Rightarrow> bool) \<Rightarrow> addr \<Rightarrow> bool \<Rightarrow> nat \<Rightarrow> 'd heap \<Rightarrow> (text_map option \<times> 'd heap) option" where
  "new_arrays oom self dyn sz h0 =
     (let calloc = c_malloc oom (B_array (replicate sz 0));
          fail = (\<lambda>tm h. Option.bind (otelc_text_map_destroy (Some tm) h) (\<lambda>(_, h'). Some (None, h')));
          (fa, h1) = calloc h0 in
      if fa = 0 then fail (blank self dyn sz 0 0 0) h1
      else let (ka, h2) = calloc h1 in
        if ka = 0 then fail (blank self dyn sz fa 0 0) h2
        else let (va, h3) = calloc h2 in
          if va = 0 then fail (blank self dyn sz fa ka 0) h3
          else Some (Some (blank self dyn sz fa ka va), h3))"

lemma new_arrays_ok:
  assumes "blank_ok h h0 self dyn sz []"
  shows "new_spec h sz (new_arrays oom self dyn sz h0)"
proof -
  let ?c = "c_malloc oom (B_array (replicate sz 0))"
  obtain fa h1 where 1: "?c h0 = (fa, h1)" by force
  obtain ka h2 where 2: "?c h1 = (ka, h2)" by force
  obtain va h3 where 3: "?c h2 = (va, h3)" by force
  have b1: "blank_ok h h1 self dyn sz [fa]"
    using blank_ok_calloc [OF assms 1] by simp
  have b2: "blank_ok h h2 self dyn sz [fa, ka]"
    using blank_ok_calloc [OF b1 2] by simp
  have b3: "blank_ok h h3 self dyn sz [fa, ka, va]"
    using blank_ok_calloc [OF b2 3] by simp
  have b1': "blank_ok h h1 self dyn sz [fa, 0, 0]"
    using b1 blank_pad [of h h1 self dyn sz "[fa]"] blank_pad [of h h1 self dyn sz "[fa, 0]"] by simp
  have b2': "blank_ok h h2 self dyn sz [fa, ka, 0]"
    using b2 blank_pad [of h h2 self dyn sz "[fa, ka]"] by simp
  show ?thesis
    using new_spec_fail [OF b1'] new_spec_fail [OF b2'] new_spec_fail [OF b3] new_spec_done [OF b3]
    by (cases "fa = 0"; cases "ka = 0"; cases "va = 0") (simp_all add: new_arrays_def Let_def 1 2 3)
qed

lemma text_map_new_unfold:
  "otelc_text_map_new oom text_map sz h =
     (case text_map of
        Some tm \<Rightarrow> if sz = 0 then Some (Some (blank (tm_self tm) False 0 0 0 0), h)
                   else new_arrays oom (tm_self tm) False sz h
      | None \<Rightarrow> (case c_malloc oom B_struct h of (self, h0) \<Rightarrow>
          if self = 0 then Some (None, h0)
          else if sz = 0 then Some (Some (blank self True 0 0 0 0), h0)
          else new_arrays oom self True sz h0))"
  by (simp add: otelc_text_map_new_def new_arrays_def Let_def blank_simps split: option.splits prod.splits)

lemma text_map_new_spec:
  assumes "heap_ok h"
  shows "new_spec h sz (otelc_text_map_new oom text_map sz h)"
proof (cases text_map)
  case (Some tm)
  have "blank_ok h h (tm_self tm) False sz []"
    using assms by (simp add: blank_ok_def restrict_map_def)
  moreover have "blank_ok h h (tm_self tm) False 0 [0, 0, 0]"
    using assms by (simp add: blank_ok_def restrict_map_def)
  ultimately show ?thesis
    using new_arrays_ok new_spec_done [of h h "tm_self tm" False 0 0 0 0] Some
    by (auto simp: text_map_new_unfold)
next
  case None
  obtain self h0 where m: "c_malloc oom B_struct h = (self, h0)" by force
  from m show ?thesis
  proof (cases rule: malloc_cases)
    case fail
    then show ?thesis
      using None m heap_ok_malloc [OF assms m] by (simp add: text_map_new_unfold new_spec_def)
  next
    case ok
    have na: "mem h self = None" "self \<noteq> 0"
      using heap_ok_fresh [OF assms] ok(1) by simp_all
    have b: "blank_ok h h0 self True n []" for n
      using heap_ok_malloc [OF assms m] ok(2) na fresh_restrict [of "mem h" self _ "{}"]
      by (simp add: blank_ok_def restrict_map_def)
    then have "blank_ok h h0 self True 0 [0, 0, 0]"
      by (simp add: blank_ok_def)
    then show ?thesis
      using None m na new_arrays_ok [OF b] new_spec_done [of h h0 self True 0 0 0 0]
      by (auto simp: text_map_new_unfold)
  qed
qed


text \<open>The relation of a map to the heap, with a capacity of its own for each array: growing replaces
  them one by one.\<close>

type_synonym arr = "addr \<times> nat \<times> nat list"

definition arrs_own :: "addr list \<Rightarrow> arr list \<Rightarrow> addr list \<Rightarrow> addr list" where
  "arrs_own self ts B = self @ filter (\<lambda>a. a \<noteq> 0) (map fst ts) @ B"

definition arrs_rel :: "'d heap \<Rightarrow> addr list \<Rightarrow> arr list \<Rightarrow> addr list \<Rightarrow> bool" where
  "arrs_rel h self ts B \<longleftrightarrow> heap_ok h \<and> (\<forall>(a, n, xs) \<in> set ts. arr_ok h a n xs) \<and>
     distinct (arrs_own self ts B) \<and> set (arrs_own self ts B) \<subseteq> dom (mem h)"

definition arrs_rest :: "'d heap \<Rightarrow> addr list \<Rightarrow> arr list \<Rightarrow> addr list \<Rightarrow> addr \<rightharpoonup> 'd block" where
  "arrs_rest h self ts B = mem h |` (- set (arrs_own self ts B))"

lemma arrs_own_split:
  "set (arrs_own self (ts1 @ (a, n, xs) # ts2) B) = ({a} - {0}) \<union> set (arrs_own self (ts1 @ ts2) B)"
  "distinct (arrs_own self (ts1 @ (a, n, xs) # ts2) B) \<longleftrightarrow>
     distinct (arrs_own self (ts1 @ ts2) B) \<and> (a \<noteq> 0 \<longrightarrow> a \<notin> set (arrs_own self (ts1 @ ts2) B))"
  by (auto simp: arrs_own_def)

lemma arr_ok_mono: "\<lbrakk>arr_ok h a n xs; length xs \<le> k; k \<le> n\<rbrakk> \<Longrightarrow> arr_ok h a k xs"
  by (auto simp: arr_ok_def)

lemma grow_array_cases:
  assumes "heap_ok h" and "arr_ok h a n xs" and "a = 0 \<longrightarrow> n = 0" and room: "k * (n + add) < 2 ^ 64"
  obtains (full) h' where "grow_array oom k a n add h = Some (0, h')" "mem h' = mem h" "heap_ok h'"
  | (grown) a' h' ys where "grow_array oom k a n add h = Some (a', h')" "a' \<noteq> 0" "mem h a' = None"
      "mem h' = (mem h)(a := None, a' \<mapsto> B_array ys)" "heap_ok h'"
      "length ys = n + add" "take (length xs) ys = xs" "length xs \<le> n"
proof (cases "a = 0")
  case True
  then have e: "grow_array oom k a n add h = Some (c_malloc oom (B_array (replicate (n + add) 0)) h)"
    using room by (simp add: grow_array_def)
  obtain a' h' where m: "c_malloc oom (B_array (replicate (n + add) 0)) h = (a', h')" by force
  note hok = heap_ok_malloc [OF assms(1) m]
  have z: "(mem h)(a := None) = mem h" using True heap_ok_null [OF assms(1)] by (simp add: fun_upd_idem)
  from m show ?thesis
  proof (cases rule: malloc_cases)
    case fail
    then show ?thesis using that(1) e m hok by simp
  next
    case ok
    then show ?thesis
      using that(2) [of a' h' "replicate (n + add) 0"] e m hok z True assms heap_ok_fresh [OF assms(1)]
      by (simp add: arr_ok_def)
  qed
next
  case False
  then obtain zs where zs: "mem h a = Some (B_array zs)" "n \<le> length zs" "length xs \<le> n" "take (length xs) zs = xs"
    using assms(2) by (auto simp: arr_ok_def)
  let ?ys = "take n zs @ replicate add 0"
  have e: "grow_array oom k a n add h = Some (c_realloc oom a (B_array ?ys) h)"
    using False zs room by (simp add: grow_array_def)
  obtain a' h' where m: "c_realloc oom a (B_array ?ys) h = (a', h')" by force
  note hok = heap_ok_realloc [OF assms(1) m]
  have t: "take (length xs) ?ys = xs" "length ?ys = n + add"
    using zs by (simp_all add: min_def)
  from m show ?thesis
  proof (cases rule: realloc_cases)
    case fail
    then show ?thesis using that(1) e m hok by simp
  next
    case ok
    then show ?thesis
      using that(2) [of a' h' ?ys] e m hok t zs heap_ok_fresh [OF assms(1)] by simp
  qed
qed

lemma grow_one:
  assumes "arrs_rel h self (ts1 @ (a, n, xs) # ts2) B" and "a = 0 \<longrightarrow> n = 0" and room: "k * (n + add) < 2 ^ 64"
  shows "\<exists>a' h'. grow_array oom k a n add h = Some (a', h') \<and>
    (if a' = 0 then arrs_rel h' self (ts1 @ (a, n, xs) # ts2) B \<and> mem h' = mem h
     else arrs_rel h' self (ts1 @ (a', n + add, xs) # ts2) B \<and>
       arrs_rest h' self (ts1 @ (a', n + add, xs) # ts2) B = arrs_rest h self (ts1 @ (a, n, xs) # ts2) B \<and>
       (\<forall>b. b \<noteq> a \<and> mem h b \<noteq> None \<longrightarrow> mem h' b = mem h b))"
proof -
  let ?O = "set (arrs_own self (ts1 @ ts2) B)"
  have h: "heap_ok h" "arr_ok h a n xs" "\<forall>(b, m, ys) \<in> set (ts1 @ ts2). arr_ok h b m ys"
      "distinct (arrs_own self (ts1 @ ts2) B)" "a \<noteq> 0 \<Longrightarrow> a \<notin> ?O" "?O \<subseteq> dom (mem h)" "a \<noteq> 0 \<Longrightarrow> a \<in> dom (mem h)"
    using assms(1) by (auto simp: arrs_rel_def arrs_own_split)
  from h(1,2) assms(2) room show ?thesis
  proof (cases rule: grow_array_cases [where oom = oom and add = add])
    case (full h')
    then have "arr_ok h' b m ys = arr_ok h b m ys" for b m ys
      by (simp add: arr_ok_def)
    with full assms(1) show ?thesis by (intro exI [of _ 0] exI [of _ h']) (auto simp: arrs_rel_def)
  next
    case (grown a' h' ys)
    note 2 = grown
    have fr: "a' \<notin> ?O" "a' \<noteq> a"
      using 2(3) h(6,7) by (auto simp: dom_def) (metis 2(2) 2(3) h(7) domIff)
    have frame: "mem h' b = mem h b" if "b \<noteq> a" "b \<noteq> a'" for b
      using that 2(4) by simp
    have "arr_ok h' b m zs" if "(b, m, zs) \<in> set (ts1 @ ts2)" for b m zs
    proof (cases "b = 0")
      case True
      have "arr_ok h b m zs" using h(3) that by (metis case_prodD)
      with True show ?thesis by (simp add: arr_ok_def)
    next
      case False
      then have "b \<in> ?O" using that by (force simp: arrs_own_def)
      then have "mem h' b = mem h b" using frame fr h(5) h(6) heap_ok_null [OF h(1)] by (metis domIff in_mono)
      then have "arr_ok h' b m zs = arr_ok h b m zs" by (rule arr_ok_other)
      then show ?thesis using h(3) that by (metis case_prodD)
    qed
    moreover have "arr_ok h' a' (n + add) xs"
      using 2 by (simp add: arr_ok_def)
    moreover have "a \<notin> ?O"
      using h(5,6) heap_ok_null [OF h(1)] by (cases "a = 0") (auto simp: dom_def)
    then have "?O \<subseteq> dom (mem h')"
      using h(6) 2(4) by (auto simp: dom_def)
    ultimately have "arrs_rel h' self (ts1 @ (a', n + add, xs) # ts2) B"
      using 2 h fr by (auto simp: arrs_rel_def arrs_own_split)
    moreover have "arrs_rest h' self (ts1 @ (a', n + add, xs) # ts2) B = arrs_rest h self (ts1 @ (a, n, xs) # ts2) B"
      using 2 heap_ok_null [OF h(1)] by (auto simp: arrs_rest_def arrs_own_split restrict_map_def fun_eq_iff)
    ultimately show ?thesis
      using 2 by (intro exI [of _ a'] exI [of _ h']) auto
  qed
qed

definition self_list :: "text_map \<Rightarrow> addr list" where
  "self_list tm = (if is_dynamic tm then [tm_self tm] else [])"

definition tm_arrs :: "text_map \<Rightarrow> nat \<Rightarrow> nat \<Rightarrow> nat \<Rightarrow> entry list \<Rightarrow> arr list" where
  "tm_arrs tm n1 n2 n3 es = [(tm_flags tm, n1, map fst es), (tm_key tm, n2, map (\<lambda>e. fst (snd e)) es),
     (tm_value tm, n3, map (\<lambda>e. snd (snd e)) es)]"

lemma owned_arrs: "owned tm es = arrs_own (self_list tm) (tm_arrs tm n1 n2 n3 es) (entries_blocks es)"
  by (simp add: owned_def arrs_own_def self_list_def tm_arrs_def arrays_def)

lemma rest_arrs: "rest tm es h = arrs_rest h (self_list tm) (tm_arrs tm n1 n2 n3 es) (entries_blocks es)"
  by (simp add: rest_def arrs_rest_def owned_arrs [of tm es n1 n2 n3])

lemma tm_rel_arrs:
  "tm_rel tm h es \<longleftrightarrow> length es = tm_count tm \<and> tm_count tm \<le> tm_size tm \<and>
     arrs_rel h (self_list tm) (tm_arrs tm (tm_size tm) (tm_size tm) (tm_size tm) es) (entries_blocks es)"
  unfolding tm_rel_def arrs_rel_def owned_arrs [of tm es "tm_size tm" "tm_size tm" "tm_size tm"]
  by (auto simp: tm_arrs_def)

lemma arrs_rel_weaken:
  "\<lbrakk>arrs_rel h self (ts1 @ (a, n, xs) # ts2) B; length xs \<le> k; k \<le> n\<rbrakk>
    \<Longrightarrow> arrs_rel h self (ts1 @ (a, k, xs) # ts2) B"
  unfolding arrs_rel_def by (auto simp: arrs_own_def intro: arr_ok_mono)

lemma arrays_3: "length (arrays tm) = 3 \<longleftrightarrow> tm_flags tm \<noteq> 0 \<and> tm_key tm \<noteq> 0 \<and> tm_value tm \<noteq> 0"
  by (auto simp: arrays_def)

text \<open>What growing promises, whether it succeeds or fails at any of the three allocations.\<close>

definition grow_spec :: "text_map \<Rightarrow> 'd heap \<Rightarrow> entry list \<Rightarrow> bool \<Rightarrow> text_map \<Rightarrow> 'd heap \<Rightarrow> bool" where
  "grow_spec tm h es g tm' h' \<longleftrightarrow> tm_rep tm' h' es \<and> rest tm' es h' = rest tm es h \<and>
     tm_count tm' = tm_count tm \<and> (g \<longrightarrow> tm_size tm < tm_size tm') \<and> (\<not> g \<longrightarrow> tm_size tm' = tm_size tm) \<and>
     (\<forall>b. mem h b \<noteq> None \<and> b \<notin> {tm_flags tm, tm_key tm, tm_value tm} \<longrightarrow> mem h' b = mem h b)"

lemma self_list_update [simp]:
  "self_list (tm\<lparr>tm_flags := x\<rparr>) = self_list tm" "self_list (tm\<lparr>tm_key := x\<rparr>) = self_list tm"
  "self_list (tm\<lparr>tm_value := x\<rparr>) = self_list tm" "self_list (tm\<lparr>tm_size := n\<rparr>) = self_list tm"
  "self_list (tm\<lparr>tm_count := n\<rparr>) = self_list tm"
  by (simp_all add: self_list_def)

lemma text_map_grow_ok:
  assumes "tm_rep tm h es" and "tm_size tm < 2 ^ 60"
  shows "\<exists>g tm' h'. text_map_grow oom tm h = Some (g, tm', h') \<and> grow_spec tm h es g tm' h'"
proof -
  let ?n = "tm_size tm" and ?B = "entries_blocks es"
  let ?S = "self_list tm"
  define add where "add = grow_by ?n"
  have add: "0 < add" by (simp add: add_def grow_by_def)
  have room: "4 * (?n + add) < 2 ^ 64" "8 * (?n + add) < 2 ^ 64"
    using assms(2) by (auto simp: add_def grow_by_def)
  let ?F = "map fst es" and ?K = "map (\<lambda>e. fst (snd e)) es" and ?V = "map (\<lambda>e. snd (snd e)) es"
  let ?ts = "\<lambda>fa n1 ka n2 va n3. [(fa, n1, ?F), (ka, n2, ?K), (va, n3, ?V)]"
  have len: "length es = tm_count tm" "tm_count tm \<le> ?n"
    using assms(1) by (simp_all add: tm_rep_def tm_rel_def)
  have z: "tm_flags tm = 0 \<longrightarrow> ?n = 0" "tm_key tm = 0 \<longrightarrow> ?n = 0" "tm_value tm = 0 \<longrightarrow> ?n = 0"
    "0 < ?n \<longrightarrow> 0 < tm_flags tm \<and> 0 < tm_key tm \<and> 0 < tm_value tm"
    using assms(1) by (auto simp: tm_rep_def arrays_3)
  have r0: "arrs_rel h ?S (?ts (tm_flags tm) ?n (tm_key tm) ?n (tm_value tm) ?n) ?B"
    using assms(1) by (simp add: tm_rep_def tm_rel_arrs tm_arrs_def)
  let ?ok = "\<lambda>tm' h'. tm_count tm' = tm_count tm \<and> self_list tm' = ?S \<and>
    arrs_rel h' ?S (tm_arrs tm' (tm_size tm') (tm_size tm') (tm_size tm') es) ?B"
  have rest0: "rest tm es h = arrs_rest h ?S (?ts (tm_flags tm) ?n (tm_key tm) ?n (tm_value tm) ?n) ?B"
    by (simp add: rest_arrs [of tm es h ?n ?n ?n] tm_arrs_def)
  obtain fa h1 where g1: "grow_array oom 4 (tm_flags tm) ?n add h = Some (fa, h1)"
    and s1: "if fa = 0 then arrs_rel h1 ?S (?ts (tm_flags tm) ?n (tm_key tm) ?n (tm_value tm) ?n) ?B \<and> mem h1 = mem h
      else arrs_rel h1 ?S (?ts fa (?n + add) (tm_key tm) ?n (tm_value tm) ?n) ?B \<and>
        arrs_rest h1 ?S (?ts fa (?n + add) (tm_key tm) ?n (tm_value tm) ?n) ?B = rest tm es h \<and>
        (\<forall>b. b \<noteq> tm_flags tm \<and> mem h b \<noteq> None \<longrightarrow> mem h1 b = mem h b)"
    using grow_one [of h ?S "[]" "tm_flags tm" ?n ?F "[(tm_key tm, ?n, ?K), (tm_value tm, ?n, ?V)]" ?B 4 add oom]
      r0 z(1) room(1) unfolding append.simps rest0 by blast
  show ?thesis
  proof (cases "fa = 0")
    case True
    then have "grow_spec tm h es False tm h1"
      using s1 len z by (simp add: grow_spec_def tm_rep_def tm_rel_arrs tm_arrs_def rest_def arrays_3)
    then show ?thesis
      using True g1 by (intro exI [of _ False]) (simp add: text_map_grow_def Let_def flip: add_def)
  next
    case False
    let ?tm1 = "tm\<lparr>tm_flags := fa\<rparr>"
    have r1: "arrs_rel h1 ?S (?ts fa (?n + add) (tm_key tm) ?n (tm_value tm) ?n) ?B"
        "arrs_rest h1 ?S (?ts fa (?n + add) (tm_key tm) ?n (tm_value tm) ?n) ?B = rest tm es h"
      using s1 unfolding if_not_P [OF False] by blast+
    obtain ka h2 where g2: "grow_array oom 8 (tm_key tm) ?n add h1 = Some (ka, h2)"
      and s2: "if ka = 0 then arrs_rel h2 ?S (?ts fa (?n + add) (tm_key tm) ?n (tm_value tm) ?n) ?B \<and> mem h2 = mem h1
        else arrs_rel h2 ?S (?ts fa (?n + add) ka (?n + add) (tm_value tm) ?n) ?B \<and>
          arrs_rest h2 ?S (?ts fa (?n + add) ka (?n + add) (tm_value tm) ?n) ?B = rest tm es h \<and>
          (\<forall>b. b \<noteq> tm_key tm \<and> mem h1 b \<noteq> None \<longrightarrow> mem h2 b = mem h1 b)"
      using grow_one [of h1 ?S "[(fa, ?n + add, ?F)]" "tm_key tm" ?n ?K "[(tm_value tm, ?n, ?V)]" ?B 8 add oom]
        r1(1) z(2) room(2) unfolding append.simps r1(2) by blast
    show ?thesis
    proof (cases "ka = 0")
      case True
      then have "arrs_rel h2 ?S (?ts fa ?n (tm_key tm) ?n (tm_value tm) ?n) ?B"
        using s2 len arrs_rel_weaken [of h2 ?S "[]" fa "?n + add" ?F _ ?B ?n] by simp
      then have "grow_spec tm h es False ?tm1 h2"
        using s1 s2 len z add False True
        by (simp add: grow_spec_def tm_rep_def tm_rel_arrs tm_arrs_def arrays_3
            rest_arrs [of ?tm1 es _ "?n + add" ?n ?n] arrs_rest_def)
      then show ?thesis
        using True False g1 g2 by (intro exI [of _ False]) (simp add: text_map_grow_def Let_def flip: add_def)
    next
      case kaF: False
      let ?tm2 = "?tm1\<lparr>tm_key := ka\<rparr>"
      have r2: "arrs_rel h2 ?S (?ts fa (?n + add) ka (?n + add) (tm_value tm) ?n) ?B"
          "arrs_rest h2 ?S (?ts fa (?n + add) ka (?n + add) (tm_value tm) ?n) ?B = rest tm es h"
        using s2 unfolding if_not_P [OF kaF] by blast+
      obtain va h3 where g3: "grow_array oom 8 (tm_value tm) ?n add h2 = Some (va, h3)"
        and s3: "if va = 0 then arrs_rel h3 ?S (?ts fa (?n + add) ka (?n + add) (tm_value tm) ?n) ?B \<and> mem h3 = mem h2
          else arrs_rel h3 ?S (?ts fa (?n + add) ka (?n + add) va (?n + add)) ?B \<and>
            arrs_rest h3 ?S (?ts fa (?n + add) ka (?n + add) va (?n + add)) ?B = rest tm es h \<and>
            (\<forall>b. b \<noteq> tm_value tm \<and> mem h2 b \<noteq> None \<longrightarrow> mem h3 b = mem h2 b)"
        using grow_one [of h2 ?S "[(fa, ?n + add, ?F), (ka, ?n + add, ?K)]" "tm_value tm" ?n ?V "[]" ?B 8 add oom]
          r2(1) z(3) room(2) unfolding append.simps r2(2) by blast
      show ?thesis
      proof (cases "va = 0")
        case True
        then have "arrs_rel h3 ?S (?ts fa ?n ka ?n (tm_value tm) ?n) ?B"
          using s3 len arrs_rel_weaken [of h3 ?S "[]" fa "?n + add" ?F _ ?B ?n]
            arrs_rel_weaken [of h3 ?S "[(fa, ?n, ?F)]" ka "?n + add" ?K _ ?B ?n] by simp
        then have "grow_spec tm h es False ?tm2 h3"
          using s1 s2 s3 len z add False kaF True
          by (simp add: grow_spec_def tm_rep_def tm_rel_arrs tm_arrs_def arrays_3
              rest_arrs [of ?tm2 es _ "?n + add" "?n + add" ?n] arrs_rest_def)
        then show ?thesis
          using True False kaF g1 g2 g3 by (intro exI [of _ False]) (simp add: text_map_grow_def Let_def flip: add_def)
      next
        case vaF: False
        let ?tm3 = "?tm2\<lparr>tm_value := va, tm_size := ?n + add\<rparr>"
        have "grow_spec tm h es True ?tm3 h3"
          using s1 s2 s3 len z add False kaF vaF
          by (simp add: grow_spec_def tm_rep_def tm_rel_arrs tm_arrs_def arrays_3
              rest_arrs [of ?tm3 es _ "?n + add" "?n + add" "?n + add"] arrs_rest_def)
        then show ?thesis
          using vaF False kaF g1 g2 g3 by (intro exI [of _ True]) (simp add: text_map_grow_def Let_def flip: add_def)
      qed
    qed
  qed
qed

section \<open>Storing an entry\<close>

lemma has_flag_or: "has_flag f (a OR b) \<longleftrightarrow> has_flag f a \<or> has_flag f b"
  by (auto simp: has_flag_def bit_eq_iff bit_simps)

lemma wr_ok:
  "\<lbrakk>mem h a = Some (B_array xs); i < length xs\<rbrakk>
    \<Longrightarrow> wr a i v h = Some (h\<lparr>mem := (mem h)(a \<mapsto> B_array (xs[i := v]))\<rparr>)"
  by (simp add: wr_def)

lemma heap_ok_wr: "\<lbrakk>heap_ok h; mem h a \<noteq> None\<rbrakk> \<Longrightarrow> heap_ok (h\<lparr>mem := (mem h)(a \<mapsto> b)\<rparr>)"
  by (auto simp: heap_ok_def)

text \<open>The effect of \<open>take_string\<close>: at most one fresh block \<open>N\<close>, the duplicate.\<close>

lemma take_string_effect:
  assumes "heap_ok h" and "dup \<longrightarrow> (\<exists>s. mem h a = Some (B_str s))" and "a \<noteq> 0"
  shows "\<exists>k h'. take_string oom dup a n h = Some (k, h') \<and> heap_ok h' \<and>
    (\<not> dup \<longrightarrow> k = a) \<and>
    (\<forall>b. b \<notin> (if dup then {k} - {0} else {}) \<longrightarrow> mem h' b = mem h b) \<and>
    (dup \<and> k \<noteq> 0 \<longrightarrow> mem h k = None \<and> (\<exists>s. mem h a = Some (B_str s) \<and> mem h' k = Some (B_str (if n > 0 then take n s else s))))"
proof (cases dup)
  case False
  then show ?thesis using assms(1) by (simp add: take_string_def)
next
  case True
  then obtain s where s: "mem h a = Some (B_str s)" using assms(2) by blast
  obtain k h' where m: "c_malloc oom (B_str (if n > 0 then take n s else s)) h = (k, h')" by force
  note hok = heap_ok_malloc [OF assms(1) m]
  have e: "take_string oom dup a n h = Some (k, h')"
    using True s m by (simp add: take_string_def str_dup_def)
  from m show ?thesis
  proof (cases rule: malloc_cases)
    case fail
    then show ?thesis using e hok True by (intro exI [of _ k] exI [of _ h']) simp
  next
    case ok
    then show ?thesis
      using e hok True s heap_ok_fresh [OF assms(1)] by (intro exI [of _ k] exI [of _ h']) auto
  qed
qed

definition dups :: "nat \<Rightarrow> addr \<Rightarrow> addr \<Rightarrow> addr set" where
  "dups flags k v = (if has_flag flags OTELC_TEXT_MAP_DUP_KEY then {k} - {0} else {}) \<union>
     (if has_flag flags OTELC_TEXT_MAP_DUP_VALUE then {v} - {0} else {})"

text \<open>The state just before the outcome is known: the arrays carry the candidate entry at index
  \<open>n\<close>, and the duplicates are the only new blocks.\<close>

definition stored ::
  "text_map \<Rightarrow> 'd heap \<Rightarrow> nat \<Rightarrow> addr \<Rightarrow> addr \<Rightarrow> nat list \<Rightarrow> nat list \<Rightarrow> nat list \<Rightarrow> 'd heap \<Rightarrow> bool" where
  "stored tm h flags k v F K V h' \<longleftrightarrow> heap_ok h' \<and>
     mem h' (tm_flags tm) = Some (B_array (F[tm_count tm := flags])) \<and>
     mem h' (tm_key tm) = Some (B_array (K[tm_count tm := k])) \<and>
     mem h' (tm_value tm) = Some (B_array (V[tm_count tm := v])) \<and>
     (\<forall>b. b \<notin> {tm_flags tm, tm_key tm, tm_value tm} \<union> dups flags k v \<longrightarrow> mem h' b = mem h b) \<and>
     (\<forall>b \<in> dups flags k v. mem h b = None \<and> mem h' b \<noteq> None) \<and>
     (has_flag flags OTELC_TEXT_MAP_DUP_KEY \<and> has_flag flags OTELC_TEXT_MAP_DUP_VALUE \<and> k \<noteq> 0 \<longrightarrow> k \<noteq> v)"

lemma text_map_fill:
  assumes "heap_ok h" and "mem h (tm_flags tm) = Some (B_array F)" "mem h (tm_key tm) = Some (B_array K)"
      "mem h (tm_value tm) = Some (B_array V)"
    and "tm_count tm < length F" "tm_count tm < length K" "tm_count tm < length V"
    and "tm_flags tm \<noteq> tm_key tm" "tm_flags tm \<noteq> tm_value tm" "tm_key tm \<noteq> tm_value tm"
    and "key \<noteq> 0" "value \<noteq> 0"
    and "has_flag flags OTELC_TEXT_MAP_DUP_KEY \<longrightarrow> (\<exists>s. mem h key = Some (B_str s))"
    and "has_flag flags OTELC_TEXT_MAP_DUP_VALUE \<longrightarrow> (\<exists>s. mem h value = Some (B_str s))"
  shows "\<exists>k v h1 h2 h3 h4 h5. wr (tm_flags tm) (tm_count tm) flags h = Some h1 \<and>
    take_string oom (has_flag flags OTELC_TEXT_MAP_DUP_KEY) key key_len h1 = Some (k, h2) \<and>
    wr (tm_key tm) (tm_count tm) k h2 = Some h3 \<and>
    take_string oom (has_flag flags OTELC_TEXT_MAP_DUP_VALUE) value value_len h3 = Some (v, h4) \<and>
    wr (tm_value tm) (tm_count tm) v h4 = Some h5 \<and> stored tm h flags k v F K V h5 \<and>
    (\<not> has_flag flags OTELC_TEXT_MAP_DUP_KEY \<longrightarrow> k = key) \<and>
    (\<not> has_flag flags OTELC_TEXT_MAP_DUP_VALUE \<longrightarrow> v = value)"
proof -
  let ?n = "tm_count tm" and ?fa = "tm_flags tm" and ?ka = "tm_key tm" and ?va = "tm_value tm"
  let ?dk = "has_flag flags OTELC_TEXT_MAP_DUP_KEY" and ?dv = "has_flag flags OTELC_TEXT_MAP_DUP_VALUE"
  let ?h1 = "h\<lparr>mem := (mem h)(?fa \<mapsto> B_array (F[?n := flags]))\<rparr>"
  have w1: "wr ?fa ?n flags h = Some ?h1" and o1: "heap_ok ?h1"
    using assms by (simp_all add: wr_ok heap_ok_wr)
  have "?dk \<longrightarrow> (\<exists>s. mem ?h1 key = Some (B_str s))"
    using assms by auto
  then obtain k h2 where k: "take_string oom ?dk key key_len ?h1 = Some (k, h2)" "heap_ok h2" "\<not> ?dk \<longrightarrow> k = key"
      "\<forall>b. b \<notin> (if ?dk then {k} - {0} else {}) \<longrightarrow> mem h2 b = mem ?h1 b"
      "?dk \<and> k \<noteq> 0 \<longrightarrow> mem ?h1 k = None \<and> mem h2 k \<noteq> None"
    using take_string_effect [OF o1, of ?dk key oom key_len] assms(11) by blast
  have ne: "?dk \<Longrightarrow> k \<noteq> 0 \<Longrightarrow> k \<noteq> ?fa \<and> k \<noteq> ?ka \<and> k \<noteq> ?va \<and> mem h k = None"
    using k(5) assms(2-4) by (auto split: if_splits)
  have fk: "mem h2 b = mem ?h1 b" if "\<not> (?dk \<and> b = k \<and> k \<noteq> 0)" for b
    using k(4) that by (cases ?dk) auto
  have l2: "mem h2 ?fa = Some (B_array (F[?n := flags]))" "mem h2 ?ka = Some (B_array K)" "mem h2 ?va = Some (B_array V)"
    using fk [of ?fa] fk [of ?ka] fk [of ?va] ne assms(2-4,8-10) by auto
  let ?h3 = "h2\<lparr>mem := (mem h2)(?ka \<mapsto> B_array (K[?n := k]))\<rparr>"
  have w2: "wr ?ka ?n k h2 = Some ?h3" and o3: "heap_ok ?h3"
    using l2 assms(6) k(2) by (simp_all add: wr_ok heap_ok_wr)
  have "mem ?h3 value = mem h value" if "?dv"
  proof -
    obtain s where s: "mem h value = Some (B_str s)" using \<open>?dv\<close> assms(14) by blast
    then have "value \<noteq> ?fa" "value \<noteq> ?ka" using assms(2,3) by auto
    moreover have "?dk \<Longrightarrow> k \<noteq> 0 \<Longrightarrow> value \<noteq> k" using ne s by auto
    ultimately show ?thesis using fk [of "value"] by auto
  qed
  then have "?dv \<longrightarrow> (\<exists>s. mem ?h3 value = Some (B_str s))"
    using assms(14) by metis
  then obtain v h4 where v: "take_string oom ?dv value value_len ?h3 = Some (v, h4)" "heap_ok h4" "\<not> ?dv \<longrightarrow> v = value"
      "\<forall>b. b \<notin> (if ?dv then {v} - {0} else {}) \<longrightarrow> mem h4 b = mem ?h3 b"
      "?dv \<and> v \<noteq> 0 \<longrightarrow> mem ?h3 v = None \<and> mem h4 v \<noteq> None"
    using take_string_effect [OF o3, of ?dv "value" oom value_len] assms(12) by blast
  have fv: "mem h4 b = mem ?h3 b" if "\<not> (?dv \<and> b = v \<and> v \<noteq> 0)" for b
    using v(4) that by (cases ?dv) auto
  have nv: "v \<noteq> ?fa \<and> v \<noteq> ?ka \<and> v \<noteq> ?va \<and> mem h2 v = None" if "?dv" "v \<noteq> 0"
    using v(5) l2 that by (auto split: if_splits)
  have nvk: "v \<noteq> k \<and> mem h v = None" if "?dv" "v \<noteq> 0" "?dk" "k \<noteq> 0"
  proof -
    have "v \<noteq> k" using nv [OF that(1,2)] k(5) that by auto
    then show ?thesis using nv [OF that(1,2)] fk [of v] by auto
  qed
  have l4: "mem h4 ?fa = Some (B_array (F[?n := flags]))" "mem h4 ?ka = Some (B_array (K[?n := k]))"
      "mem h4 ?va = Some (B_array V)"
    using fv [of ?fa] fv [of ?ka] fv [of ?va] nv l2 assms(8-10) by auto
  let ?h5 = "h4\<lparr>mem := (mem h4)(?va \<mapsto> B_array (V[?n := v]))\<rparr>"
  have w3: "wr ?va ?n v h4 = Some ?h5" and o5: "heap_ok ?h5"
    using l4 assms(7) v(2) by (simp_all add: wr_ok heap_ok_wr)
  have fr: "mem ?h5 b = mem h b" if "b \<notin> {?fa, ?ka, ?va} \<union> dups flags k v" for b
    using that fk [of b] fv [of b] by (auto simp: dups_def split: if_splits)
  have new: "mem h b = None \<and> mem ?h5 b \<noteq> None" if "b \<in> dups flags k v" for b
  proof -
    consider "?dk" "b = k" "k \<noteq> 0" | "?dv" "b = v" "v \<noteq> 0" "\<not> (?dk \<and> b = k)"
      using \<open>b \<in> dups flags k v\<close> by (auto simp: dups_def split: if_splits)
    then show ?thesis
    proof cases
      case 1
      then have "b \<noteq> v \<or> \<not> ?dv" using nvk by auto
      then show ?thesis using 1 ne k(5) fv [of b] by auto
    next
      case 2
      then have "mem h v = None" using nv fk [of v] by auto
      then show ?thesis using 2 nv v(5) by auto
    qed
  qed
  have "stored tm h flags k v F K V ?h5"
    unfolding stored_def using o5 l4 assms(8-10) fr new nvk by auto
  then show ?thesis
    using w1 k(1,3) w2 v(1,3) w3 by blast
qed


text \<open>The caller's strings: readable when they are to be duplicated, and live blocks of the caller,
  apart from each other and from the map's, when their ownership is handed over.\<close>

definition given :: "nat \<Rightarrow> addr \<Rightarrow> addr \<Rightarrow> addr list" where
  "given flags key value =
     (if has_flag flags OTELC_TEXT_MAP_FREE_KEY \<and> \<not> has_flag flags OTELC_TEXT_MAP_DUP_KEY then [key] else []) @
     (if has_flag flags OTELC_TEXT_MAP_FREE_VALUE \<and> \<not> has_flag flags OTELC_TEXT_MAP_DUP_VALUE then [value] else [])"

definition add_pre :: "text_map \<Rightarrow> 'd heap \<Rightarrow> entry list \<Rightarrow> addr \<Rightarrow> addr \<Rightarrow> nat \<Rightarrow> bool" where
  "add_pre tm h es key value flags \<longleftrightarrow> key \<noteq> 0 \<and> value \<noteq> 0 \<and>
     (has_flag flags OTELC_TEXT_MAP_DUP_KEY \<longrightarrow> (\<exists>s. mem h key = Some (B_str s))) \<and>
     (has_flag flags OTELC_TEXT_MAP_DUP_VALUE \<longrightarrow> (\<exists>s. mem h value = Some (B_str s))) \<and>
     distinct (given flags key value) \<and> set (given flags key value) \<inter> set (owned tm es) = {} \<and>
     set (given flags key value) \<subseteq> dom (mem h)"

definition store_spec ::
  "text_map \<Rightarrow> 'd heap \<Rightarrow> entry list \<Rightarrow> addr \<Rightarrow> addr \<Rightarrow> nat \<Rightarrow> bool \<Rightarrow> int \<Rightarrow> text_map \<Rightarrow> 'd heap \<Rightarrow> bool" where
  "store_spec tm h es key value flags added r tm' h' \<longleftrightarrow>
     (if \<not> added then r = OTELC_RET_ERROR \<and> tm_rep tm' h' es \<and> rest tm' es h' = rest tm es h
      else r = int_of_size (of_nat (length es)) \<and> (\<exists>k v. tm_rep tm' h' (es @ [(flags, k, v)]) \<and>
        rest tm' (es @ [(flags, k, v)]) h' = rest tm es h |` (- set (given flags key value))))"

lemma take_Suc_update:
  "\<lbrakk>n < length F; take n F = xs; length xs = n\<rbrakk> \<Longrightarrow> take (Suc n) (F[n := x]) = xs @ [x]"
  by (auto simp: take_Suc_conv_app_nth take_update_swap list_update_append)

lemma entry_blocks_dups:
  assumes "k \<noteq> 0" "v \<noteq> 0" "\<not> has_flag flags OTELC_TEXT_MAP_DUP_KEY \<longrightarrow> k = key"
    "\<not> has_flag flags OTELC_TEXT_MAP_DUP_VALUE \<longrightarrow> v = value"
  shows "set (entry_blocks (flags, k, v)) = dups flags k v \<union> set (given flags key value)"
  using assms by (auto simp: has_flag_or dups_def given_def)

lemma stored_rel:
  assumes "tm_rel tm h es" and "tm_count tm < tm_size tm"
    and "length (arrays tm) = 3"
    and F: "mem h (tm_flags tm) = Some (B_array F)" "tm_size tm \<le> length F" "take (length es) F = map fst es"
    and K: "mem h (tm_key tm) = Some (B_array K)" "tm_size tm \<le> length K" "take (length es) K = map (\<lambda>e. fst (snd e)) es"
    and V: "mem h (tm_value tm) = Some (B_array V)" "tm_size tm \<le> length V" "take (length es) V = map (\<lambda>e. snd (snd e)) es"
    and st: "stored tm h flags k v F K V h'"
    and kv: "k \<noteq> 0" "v \<noteq> 0" "\<not> has_flag flags OTELC_TEXT_MAP_DUP_KEY \<longrightarrow> k = key"
      "\<not> has_flag flags OTELC_TEXT_MAP_DUP_VALUE \<longrightarrow> v = value"
    and pre: "add_pre tm h es key value flags"
  shows "store_spec tm h es key value flags True (int_of_size (of_nat (tm_count tm))) (tm\<lparr>tm_count := tm_count tm + 1\<rparr>) h'"
proof -
  let ?e = "(flags, k, v)" and ?tm = "tm\<lparr>tm_count := tm_count tm + 1\<rparr>" and ?n = "tm_count tm"
  have len: "length es = ?n" using assms(1) by (simp add: tm_rel_def)
  have A: "tm_flags tm \<noteq> 0" "tm_key tm \<noteq> 0" "tm_value tm \<noteq> 0"
    using assms(3) by (simp_all add: arrays_3)
  have own: "set (owned tm es) \<subseteq> dom (mem h)" "distinct (owned tm es)"
    using assms(1) by (simp_all add: tm_rel_def)
  have eb: "set (entry_blocks ?e) = dups flags k v \<union> set (given flags key value)"
    by (rule entry_blocks_dups [OF kv])
  have ow: "owned ?tm (es @ [?e]) = owned tm es @ entry_blocks ?e"
    by (simp add: owned_def arrays_def entries_blocks_def)
  have inA: "{tm_flags tm, tm_key tm, tm_value tm} \<subseteq> set (owned tm es)"
    using A by (auto simp: owned_def arrays_def)
  have dis: "set (entry_blocks ?e) \<inter> set (owned tm es) = {}"
    using st own(1) pre unfolding eb stored_def add_pre_def by (auto simp: dom_def)
  have de: "distinct (entry_blocks ?e)"
  proof -
    have "k \<noteq> v" if "has_flag flags key_mask" "has_flag flags value_mask"
      using that st pre kv unfolding stored_def add_pre_def has_flag_or
      by (auto simp: dups_def given_def dom_def split: if_splits)
    then show ?thesis by simp
  qed
  have live: "set (owned tm es @ entry_blocks ?e) \<subseteq> dom (mem h')"
  proof
    fix b assume b: "b \<in> set (owned tm es @ entry_blocks ?e)"
    show "b \<in> dom (mem h')"
    proof (cases "b \<in> {tm_flags tm, tm_key tm, tm_value tm} \<union> dups flags k v")
      case True
      then show ?thesis using st by (auto simp: stored_def)
    next
      case False
      then have "mem h' b = mem h b" using st by (simp add: stored_def)
      moreover have "b \<in> dom (mem h)"
        using b False own(1) pre eb by (auto simp: add_pre_def)
      ultimately show ?thesis by auto
    qed
  qed
  have ext: "take (Suc (length es)) (xs[?n := x]) = ys @ [x]"
    if "tm_size tm \<le> length xs" "take (length es) xs = ys" "length ys = length es" for xs ys x
    using that assms(2) len by (simp add: take_Suc_update)
  have "tm_rep ?tm h' (es @ [?e])"
    unfolding tm_rep_def tm_rel_def ow
    using st len A own(2) dis de live assms(2) F K V ext [OF F(2,3)] ext [OF K(2,3)] ext [OF V(2,3)]
    by (auto simp: stored_def arr_ok_def arrays_3)
  moreover have "mem h' |` (- set (owned tm es @ entry_blocks ?e)) = rest tm es h |` (- set (given flags key value))"
  proof
    fix b
    show "(mem h' |` (- set (owned tm es @ entry_blocks ?e))) b = (rest tm es h |` (- set (given flags key value))) b"
    proof (cases "b \<in> dups flags k v \<or> b \<in> set (owned tm es)")
      case True
      then show ?thesis
        using st eb by (auto simp: rest_def restrict_map_def stored_def)
    next
      case False
      then have "b \<notin> {tm_flags tm, tm_key tm, tm_value tm} \<union> dups flags k v"
        using inA by blast
      then have "mem h' b = mem h b" using st unfolding stored_def by blast
      with False show ?thesis using eb by (auto simp: rest_def restrict_map_def)
    qed
  qed
  then have "rest ?tm (es @ [?e]) h' = rest tm es h |` (- set (given flags key value))"
    by (simp only: rest_def ow)
  ultimately show ?thesis
    unfolding store_spec_def using len by simp blast
qed

lemma stored_undo:
  assumes "tm_rel tm h es" and "tm_count tm < tm_size tm"
    and "length (arrays tm) = 3"
    and F: "mem h (tm_flags tm) = Some (B_array F)" "tm_size tm \<le> length F" "take (length es) F = map fst es"
    and K: "mem h (tm_key tm) = Some (B_array K)" "tm_size tm \<le> length K" "take (length es) K = map (\<lambda>e. fst (snd e)) es"
    and V: "mem h (tm_value tm) = Some (B_array V)" "tm_size tm \<le> length V" "take (length es) V = map (\<lambda>e. snd (snd e)) es"
    and st: "stored tm h flags k v F K V h5"
    and kv: "k = 0 \<or> v = 0"
  shows "\<exists>h6 h7 h8 h9. (if has_flag flags OTELC_TEXT_MAP_DUP_KEY then sfree k h5 else Some h5) = Some h6 \<and>
    (if has_flag flags OTELC_TEXT_MAP_DUP_VALUE then sfree v h6 else Some h6) = Some h7 \<and>
    wr (tm_key tm) (tm_count tm) 0 h7 = Some h8 \<and> wr (tm_value tm) (tm_count tm) 0 h8 = Some h9 \<and>
    tm_rep tm h9 es \<and> rest tm es h9 = rest tm es h"
proof -
  let ?fa = "tm_flags tm" and ?ka = "tm_key tm" and ?va = "tm_value tm" and ?n = "tm_count tm"
  have len: "length es = ?n" "heap_ok h" using assms(1) by (simp_all add: tm_rel_def)
  have A: "?fa \<noteq> 0" "?ka \<noteq> 0" "?va \<noteq> 0" using assms(3) by (simp_all add: arrays_3)
  have own: "set (owned tm es) \<subseteq> dom (mem h)" "distinct (owned tm es)"
    using assms(1) by (simp_all add: tm_rel_def)
  have inA: "{?fa, ?ka, ?va} \<subseteq> set (owned tm es)"
    using A by (auto simp: owned_def arrays_def)
  have dA: "?ka \<noteq> ?va" "?fa \<noteq> ?ka" "?fa \<noteq> ?va"
    using own(2) A by (auto simp: owned_def arrays_def)
  have sd: "heap_ok h5" "mem h5 ?fa = Some (B_array (F[?n := flags]))" "mem h5 ?ka = Some (B_array (K[?n := k]))"
      "mem h5 ?va = Some (B_array (V[?n := v]))"
      "\<And>b. b \<notin> {?fa, ?ka, ?va} \<union> dups flags k v \<Longrightarrow> mem h5 b = mem h b"
      "\<And>b. b \<in> dups flags k v \<Longrightarrow> mem h b = None \<and> mem h5 b \<noteq> None"
    using st unfolding stored_def by blast+
  have dd: "dups flags k v \<inter> set (owned tm es) = {}"
    using sd(6) own(1) by auto
  let ?h7 = "h5\<lparr>mem := mem h5 |` (- dups flags k v)\<rparr>"
  have fr: "\<exists>h6. (if has_flag flags OTELC_TEXT_MAP_DUP_KEY then sfree k h5 else Some h5) = Some h6 \<and>
      (if has_flag flags OTELC_TEXT_MAP_DUP_VALUE then sfree v h6 else Some h6) = Some ?h7"
  proof -
    have e: "?h7 = h5" if "dups flags k v = {}"
      using that by (simp add: restrict_map_def)
    have f: "sfree d h5 = Some ?h7" if "dups flags k v = {d}" "d \<noteq> 0" for d
      using that sd(6) [of d] by (simp add: sfree_def c_free_def upd_None_restrict)
    show ?thesis
    proof (cases "k = 0")
      case True
      then have d: "dups flags k v = (if has_flag flags OTELC_TEXT_MAP_DUP_VALUE \<and> v \<noteq> 0 then {v} else {})"
        by (auto simp: dups_def)
      have "(if has_flag flags OTELC_TEXT_MAP_DUP_VALUE then sfree v h5 else Some h5) = Some ?h7"
        using d e f [of v] by (cases "v = 0") (auto simp: sfree_def)
      then show ?thesis using True by (simp add: sfree_def)
    next
      case False
      with kv have d: "v = 0" "dups flags k v = (if has_flag flags OTELC_TEXT_MAP_DUP_KEY then {k} else {})"
        by (auto simp: dups_def)
      have "(if has_flag flags OTELC_TEXT_MAP_DUP_KEY then sfree k h5 else Some h5) = Some ?h7"
        using d e f [of k] False by auto
      then show ?thesis using d(1) by (simp add: sfree_def)
    qed
  qed
  have m7: "mem ?h7 ?fa = Some (B_array (F[?n := flags]))" "mem ?h7 ?ka = Some (B_array (K[?n := k]))"
      "mem ?h7 ?va = Some (B_array (V[?n := v]))"
    using sd(2-4) dd inA by (auto simp: restrict_map_def)
  let ?h8 = "?h7\<lparr>mem := (mem ?h7)(?ka \<mapsto> B_array (K[?n := 0]))\<rparr>"
  let ?h9 = "?h8\<lparr>mem := (mem ?h8)(?va \<mapsto> B_array (V[?n := 0]))\<rparr>"
  have "wr ?ka ?n 0 ?h7 = Some ?h8"
    using wr_ok [OF m7(2)] K(2) assms(2) by simp
  moreover have "mem ?h8 ?va = Some (B_array (V[?n := v]))"
    using m7(3) dA by simp
  then have "wr ?va ?n 0 ?h8 = Some ?h9"
    using wr_ok [of ?h8 ?va] V(2) assms(2) by simp
  moreover have fin: "mem ?h9 b = mem h b" if "b \<notin> {?fa, ?ka, ?va}" for b
    using that sd(5,6) [of b] by (auto simp: restrict_map_def)
  have "dom (mem ?h9) \<subseteq> dom (mem h5)"
    using sd(3,4) by auto
  then have "heap_ok ?h9"
    using sd(1) by (auto simp: heap_ok_def subset_iff)
  moreover have m9: "mem ?h9 ?fa = Some (B_array (F[?n := flags]))" "mem ?h9 ?ka = Some (B_array (K[?n := 0]))"
      "mem ?h9 ?va = Some (B_array (V[?n := 0]))"
    using m7(1) dA by simp_all
  moreover have "set (owned tm es) \<subseteq> dom (mem ?h9)"
  proof
    fix b assume b: "b \<in> set (owned tm es)"
    have "mem ?h9 b \<noteq> None"
    proof (cases "b \<in> {?fa, ?ka, ?va}")
      case True
      then show ?thesis using m9 by fastforce
    next
      case False
      then show ?thesis using fin [OF False] b own(1) by (metis domIff subsetD)
    qed
    then show "b \<in> dom (mem ?h9)" by (simp only: domIff not_False_eq_True)
  qed
  ultimately have "tm_rep tm ?h9 es"
    unfolding tm_rep_def tm_rel_def
    using len A own assms(2,3) F K V by (simp add: arr_ok_def)
  moreover have "rest tm es ?h9 = rest tm es h"
  proof
    fix b show "rest tm es ?h9 b = rest tm es h b"
    proof (cases "b \<in> set (owned tm es)")
      case False
      then have "mem ?h9 b = mem h b" using fin [of b] inA by blast
      with False show ?thesis unfolding rest_def by (simp only: restrict_in Compl_iff not_False_eq_True)
    qed (auto simp: rest_def)
  qed
  ultimately show ?thesis
    using fr \<open>wr ?ka ?n 0 ?h7 = Some ?h8\<close> \<open>wr ?va ?n 0 ?h8 = Some ?h9\<close> by blast
qed

lemma tm_rep_arrays:
  assumes "tm_rep tm h es" and "0 < tm_size tm"
  obtains F K V where
    "mem h (tm_flags tm) = Some (B_array F)" "tm_size tm \<le> length F" "take (length es) F = map fst es"
    "mem h (tm_key tm) = Some (B_array K)" "tm_size tm \<le> length K" "take (length es) K = map (\<lambda>e. fst (snd e)) es"
    "mem h (tm_value tm) = Some (B_array V)" "tm_size tm \<le> length V" "take (length es) V = map (\<lambda>e. snd (snd e)) es"
    "tm_flags tm \<noteq> tm_key tm" "tm_flags tm \<noteq> tm_value tm" "tm_key tm \<noteq> tm_value tm"
proof -
  have A: "tm_flags tm \<noteq> 0" "tm_key tm \<noteq> 0" "tm_value tm \<noteq> 0"
    using assms by (auto simp: tm_rep_def arrays_3)
  moreover have "distinct (arrays tm)"
    using assms(1) by (simp add: tm_rep_def tm_rel_def owned_def)
  ultimately show ?thesis
    using assms(1) that by (auto simp: tm_rep_def tm_rel_def arr_ok_def arrays_def)
qed

lemma text_map_store_ok:
  assumes rep: "tm_rep tm h es" and room: "tm_count tm < tm_size tm" and pre: "add_pre tm h es key value flags"
  shows "\<exists>added r tm' h'. text_map_store oom tm key key_len value value_len flags h = Some (r, tm', h') \<and>
    store_spec tm h es key value flags added r tm' h'"
proof -
  have rel: "tm_rel tm h es" and len: "length es = tm_count tm" and hok: "heap_ok h"
    and A: "length (arrays tm) = 3"
    using rep room by (auto simp: tm_rep_def tm_rel_def)
  obtain F K V where a:
    "mem h (tm_flags tm) = Some (B_array F)" "tm_size tm \<le> length F" "take (length es) F = map fst es"
    "mem h (tm_key tm) = Some (B_array K)" "tm_size tm \<le> length K" "take (length es) K = map (\<lambda>e. fst (snd e)) es"
    "mem h (tm_value tm) = Some (B_array V)" "tm_size tm \<le> length V" "take (length es) V = map (\<lambda>e. snd (snd e)) es"
    "tm_flags tm \<noteq> tm_key tm" "tm_flags tm \<noteq> tm_value tm" "tm_key tm \<noteq> tm_value tm"
    using tm_rep_arrays [OF rep] room by (metis gr_implies_not0 neq0_conv)
  have n: "tm_count tm < length F" "tm_count tm < length K" "tm_count tm < length V"
    using room a by simp_all
  have p: "key \<noteq> 0" "value \<noteq> 0" "has_flag flags OTELC_TEXT_MAP_DUP_KEY \<longrightarrow> (\<exists>s. mem h key = Some (B_str s))"
      "has_flag flags OTELC_TEXT_MAP_DUP_VALUE \<longrightarrow> (\<exists>s. mem h value = Some (B_str s))"
    using pre by (simp_all add: add_pre_def)
  obtain k v h1 h2 h3 h4 h5 where f: "wr (tm_flags tm) (tm_count tm) flags h = Some h1"
      "take_string oom (has_flag flags OTELC_TEXT_MAP_DUP_KEY) key key_len h1 = Some (k, h2)"
      "wr (tm_key tm) (tm_count tm) k h2 = Some h3"
      "take_string oom (has_flag flags OTELC_TEXT_MAP_DUP_VALUE) value value_len h3 = Some (v, h4)"
      "wr (tm_value tm) (tm_count tm) v h4 = Some h5" and st: "stored tm h flags k v F K V h5"
    and kv: "\<not> has_flag flags OTELC_TEXT_MAP_DUP_KEY \<longrightarrow> k = key" "\<not> has_flag flags OTELC_TEXT_MAP_DUP_VALUE \<longrightarrow> v = value"
    using text_map_fill [OF hok a(1,4,7) n a(10-12) p, of oom key_len value_len] by blast
  show ?thesis
  proof (cases "k \<noteq> 0 \<and> v \<noteq> 0")
    case True
    then show ?thesis
      using f stored_rel [OF rel room A a(1-9) st _ _ kv pre]
      by (intro exI [of _ True] exI [of _ "int_of_size (of_nat (tm_count tm))"]) (simp add: text_map_store_def Let_def)
  next
    case False
    then have "k = 0 \<or> v = 0" by blast
    from stored_undo [OF rel room A a(1-9) st this] obtain h6 h7 h8 h9 where u:
      "(if has_flag flags OTELC_TEXT_MAP_DUP_KEY then sfree k h5 else Some h5) = Some h6"
      "(if has_flag flags OTELC_TEXT_MAP_DUP_VALUE then sfree v h6 else Some h6) = Some h7"
      "wr (tm_key tm) (tm_count tm) 0 h7 = Some h8" "wr (tm_value tm) (tm_count tm) 0 h8 = Some h9"
      "tm_rep tm h9 es" "rest tm es h9 = rest tm es h" by blast
    have "text_map_store oom tm key key_len value value_len flags h = Some (OTELC_RET_ERROR, tm, h9)"
      unfolding text_map_store_def Let_def f Option.bind.bind_lunit prod.case if_not_P [OF False] u ..
    then show ?thesis using u(5,6) by (intro exI [of _ False]) (auto simp: store_spec_def)
  qed
qed

text \<open>
  C9: Adding a pair never leaks, double-frees or corrupts.  On a well-formed map, with readable strings
  and with disjoint ownership of strings that are handed over, \<open>otelc_text_map_add\<close> is free of
  undefined behaviour whatever allocations fail.  When the pair was added, the new entry is owned as
  its flags say, and nothing outside the map changes except that the handed-over strings now belong
  to it; the answer is the index of the entry, narrowed to an \<open>int\<close>.  When it was not, the answer is
  the error, the map's entries are as before, no ownership is taken and everything outside the map is
  untouched.  Below \<open>2 ^ 31\<close> entries the answer is the index itself, so it tells the two cases apart.
\<close>
theorem text_map_add_ownership:
  assumes "tm_rep tm h es" and "add_pre tm h es key value flags" and "tm_size tm < 2 ^ 60"
  shows "\<exists>added r tm' h'. otelc_text_map_add oom (Some tm) key key_len value value_len flags h = Some (r, Some tm', h') \<and>
    (if added
     then r = int_of_size (of_nat (length es)) \<and> (\<exists>k v. tm_rep tm' h' (es @ [(flags, k, v)]) \<and>
       rest tm' (es @ [(flags, k, v)]) h' = rest tm es h |` (- set (given flags key value)))
     else r = OTELC_RET_ERROR \<and> tm_rep tm' h' es \<and> rest tm' es h' = rest tm es h) \<and>
    (length es < 2 ^ 31 \<longrightarrow> int_of_size (of_nat (length es)) = int (length es) \<and> (added \<longleftrightarrow> r \<noteq> OTELC_RET_ERROR))"
proof -
  have index: "int_of_size (of_nat (length es)) = int (length es)" if "length es < 2 ^ 31"
    using int_of_size_nat [OF that] .
  have final: ?thesis if "otelc_text_map_add oom (Some tm) key key_len value value_len flags h = Some (r, Some tm', h')"
    "store_spec tm h es key value flags added r tm' h'" for added r tm' h'
    using that index by (intro exI [of _ added] exI [of _ r] exI [of _ tm'] exI [of _ h'])
      (auto simp: store_spec_def OTELC_RET_ERROR_def)
  have nz: "key \<noteq> 0" "value \<noteq> 0" using assms(2) by (simp_all add: add_pre_def)
  have cs: "tm_count tm \<le> tm_size tm" using assms(1) by (simp add: tm_rep_def tm_rel_def)
  show ?thesis
  proof (cases "tm_count tm \<ge> tm_size tm")
    case False
    then obtain added r tm' h' where "text_map_store oom tm key key_len value value_len flags h = Some (r, tm', h')"
        "store_spec tm h es key value flags added r tm' h'"
      using text_map_store_ok [OF assms(1) _ assms(2)] by (metis not_le)
    then show ?thesis
      using nz False by (intro final) (auto simp: otelc_text_map_add_def)
  next
    case True
    obtain g tm1 h1 where g: "text_map_grow oom tm h = Some (g, tm1, h1)" "grow_spec tm h es g tm1 h1"
      using text_map_grow_ok [OF assms(1,3)] by blast
    show ?thesis
    proof (cases g)
      case False
      have "tm_rep tm1 h1 es \<and> rest tm1 es h1 = rest tm es h"
        using g(2) by (simp add: grow_spec_def)
      then show ?thesis
        using nz True False g(1) by (intro final [of _ tm1 h1 False]) (auto simp: otelc_text_map_add_def store_spec_def)
    next
      case gT: True
      have rep1: "tm_rep tm1 h1 es" and room: "tm_count tm1 < tm_size tm1" and rest1: "rest tm1 es h1 = rest tm es h"
        using g(2) gT cs by (auto simp: grow_spec_def)
      have fr: "mem h1 b = mem h b" if "mem h b \<noteq> None" "b \<notin> {tm_flags tm, tm_key tm, tm_value tm}" for b
        using g(2) that by (simp add: grow_spec_def)
      have live: "b \<notin> set (owned tm1 es) \<and> mem h1 b \<noteq> None" if "b \<in> set (given flags key value)" for b
      proof -
        have "b \<notin> set (owned tm es)" "mem h b \<noteq> None"
          using that assms(2) by (auto simp: add_pre_def)
        then have "rest tm1 es h1 b \<noteq> None" unfolding rest1 by (simp add: rest_def)
        then show ?thesis by (auto simp: rest_def restrict_map_def split: if_splits)
      qed
      have "mem h1 b = Some (B_str s)" if "mem h b = Some (B_str s)" for b s
      proof -
        have "b \<noteq> 0"
          using that assms(1) heap_ok_null [of h] by (metis option.distinct(1) tm_rep_def tm_rel_def)
        then have "b \<notin> {tm_flags tm, tm_key tm, tm_value tm}"
          using that assms(1) by (auto simp: tm_rep_def tm_rel_def arr_ok_def)
        then show ?thesis using fr that by simp
      qed
      then have pre1: "add_pre tm1 h1 es key value flags"
        using assms(2) live by (auto simp: add_pre_def)
      obtain added r tm' h' where "text_map_store oom tm1 key key_len value value_len flags h1 = Some (r, tm', h')"
          "store_spec tm1 h1 es key value flags added r tm' h'"
        using text_map_store_ok [OF rep1 room pre1] by blast
      then show ?thesis
        using nz True gT g(1) rest1 by (intro final [of r tm' h' added]) (auto simp: otelc_text_map_add_def store_spec_def)
    qed
  qed
qed

text \<open>
  C10: Releasing a map gives back exactly what it owns.  \<open>otelc_text_map_destroy\<close> on a well-formed map
  is free of undefined behaviour, and what is left in the heap is what the map did not own; together
  with the previous property, no sequence of additions and a final destruction leaks or double-frees.
\<close>
theorem text_map_destroy_releases:
  assumes "tm_rep tm h es"
  shows "\<exists>r h'. otelc_text_map_destroy (Some tm) h = Some (r, h') \<and> mem h' = rest tm es h"
  using text_map_destroy_ok [of tm h es] assms by (auto simp: tm_rep_def)

text \<open>
  C11: Creating a map allocates all of it or nothing: \<open>otelc_text_map_new\<close> is free of undefined
  behaviour whichever of its four allocations fails; it returns an empty well-formed map of the requested
  capacity with the rest of the heap untouched, or null with the heap as before.
\<close>
theorem text_map_new_all_or_nothing:
  assumes "heap_ok h"
  shows "\<exists>m h'. otelc_text_map_new oom text_map sz h = Some (m, h') \<and> heap_ok h' \<and>
    (case m of None \<Rightarrow> mem h' = mem h
     | Some tm \<Rightarrow> tm_rep tm h' [] \<and> rest tm [] h' = mem h \<and> tm_size tm = sz \<and> tm_count tm = 0)"
  using text_map_new_spec [OF assms, of sz oom text_map] unfolding new_spec_def .

definition demo_heap :: "unit heap" where
  "demo_heap = \<lparr>mem = [1 \<mapsto> B_str ''host'', 2 \<mapsto> B_str ''example''], allocs = 2\<rparr>"

lemma demo_heap_ok: "heap_ok demo_heap"
  by (auto simp: heap_ok_def demo_heap_def split: if_splits)

lemma text_map_new_all_or_nothing_witness:
  "heap_ok demo_heap \<and>
   (\<exists>m h'. otelc_text_map_new (\<lambda>n. n = 4) None 8 demo_heap = Some (m, h') \<and>
     (m = None \<longrightarrow> mem h' = mem demo_heap))"
  using text_map_new_all_or_nothing [OF demo_heap_ok, of "\<lambda>n. n = 4" None 8] demo_heap_ok
  by (metis (mono_tags, lifting) option.simps(4))

lemma demo_map:
  "\<exists>tm h. otelc_text_map_new (\<lambda>_. False) None 0 demo_heap = Some (Some tm, h) \<and> tm_rep tm h [] \<and>
     add_pre tm h [] 1 2 OTELC_TEXT_MAP_AUTO \<and> rest tm [] h = mem demo_heap \<and> tm_size tm = 0"
proof -
  obtain tm h where n: "otelc_text_map_new (\<lambda>_. False) None 0 demo_heap = Some (Some tm, h)"
    by (simp add: otelc_text_map_new_def Let_def c_malloc_def demo_heap_def)
  then have r: "tm_rep tm h [] \<and> rest tm [] h = mem demo_heap \<and> tm_size tm = 0"
    using text_map_new_spec [OF demo_heap_ok, of 0 "\<lambda>_. False" None] by (simp add: new_spec_def)
  have "mem h 1 = Some (B_str ''host'')" "mem h 2 = Some (B_str ''example'')"
    using n by (auto simp: otelc_text_map_new_def Let_def c_malloc_def demo_heap_def)
  moreover have "given OTELC_TEXT_MAP_AUTO 1 2 = []"
    by code_simp
  ultimately have "add_pre tm h [] 1 2 OTELC_TEXT_MAP_AUTO"
    by (simp add: add_pre_def)
  with n r show ?thesis by blast
qed

lemma text_map_add_ownership_witness:
  "\<exists>tm (h :: unit heap). tm_rep tm h [] \<and> (\<exists>r tm' h'. otelc_text_map_add (\<lambda>_. False) (Some tm) 1 0 2 0 OTELC_TEXT_MAP_AUTO h =
     Some (r, Some tm', h') \<and> (r = OTELC_RET_ERROR \<or> r = 0))"
proof -
  obtain tm and h :: "unit heap" where d: "tm_rep tm h []" "add_pre tm h [] 1 2 OTELC_TEXT_MAP_AUTO" "tm_size tm < 2 ^ 60"
    using demo_map by auto
  note w = text_map_add_ownership [OF d, of "\<lambda>_. False" 0 0]
  obtain added r tm' h' where "otelc_text_map_add (\<lambda>_. False) (Some tm) 1 0 2 0 OTELC_TEXT_MAP_AUTO h = Some (r, Some tm', h')"
      "r = OTELC_RET_ERROR \<or> r = int (length ([] :: entry list))"
    using w by (auto split: if_splits)
  with d(1) show ?thesis
    by (intro exI [of _ tm] exI [of _ h] conjI exI [of _ r] exI [of _ tm'] exI [of _ h']) simp_all
qed

lemma text_map_destroy_releases_witness:
  "\<exists>tm (h :: unit heap). tm_rep tm h [] \<and> (\<exists>r h'. otelc_text_map_destroy (Some tm) h = Some (r, h') \<and> mem h' = mem demo_heap)"
proof -
  obtain tm and h :: "unit heap" where d: "tm_rep tm h []" "rest tm [] h = mem demo_heap"
    using demo_map by blast
  then show ?thesis using text_map_destroy_releases [OF d(1)] by metis
qed

end
