(* ===== verification/Otel_Values.thy ===== *)
theory Otel_Values
  imports Otel_Strings Otel_TextMap
begin

text \<open>
  Typed values and key-value arrays of \<open>src/util.cpp\<close> (\<open>otelc_value_*\<close>, \<open>otelc_kv_*\<close>) over the
  C heap, and the conversion of text to numbers in place.  Data and key arguments of the
  insertions are read once and copied, so they are passed as their contents (\<open>None\<close> for a
  null pointer).  \<open>strtod\<close> and the type of doubles are parameters.
\<close>

section \<open>Type tags and visiting\<close>

datatype value_type =
    T_NULL | T_BOOL | T_INT32 | T_INT64 | T_UINT32 | T_UINT64 | T_DOUBLE | T_STRING | T_DATA

fun type_code :: "value_type \<Rightarrow> int" where
  "type_code T_NULL = 0" | "type_code T_BOOL = 1" | "type_code T_INT32 = 2"
| "type_code T_INT64 = 3" | "type_code T_UINT32 = 4" | "type_code T_UINT64 = 5"
| "type_code T_DOUBLE = 6" | "type_code T_STRING = 7" | "type_code T_DATA = 8"

fun u_type :: "'d otelc_value \<Rightarrow> value_type" where
  "u_type V_null = T_NULL" | "u_type (V_bool _) = T_BOOL" | "u_type (V_int32 _) = T_INT32"
| "u_type (V_int64 _) = T_INT64" | "u_type (V_uint32 _) = T_UINT32" | "u_type (V_uint64 _) = T_UINT64"
| "u_type (V_double _) = T_DOUBLE" | "u_type (V_string _) = T_STRING" | "u_type (V_data _) = T_DATA"

text \<open>The argument \<open>otelc_value_visit\<close> hands to its visitor: a scalar, or the text of a string.\<close>

datatype 'd visited =
    Vis_bool bool | Vis_int32 int32 | Vis_int64 int64 | Vis_uint32 uint32 | Vis_uint64 uint64
  | Vis_double 'd | Vis_str string

definition str_at :: "'d heap \<Rightarrow> addr \<Rightarrow> string option" where
  "str_at h a = (case mem h a of Some (B_str s) \<Rightarrow> Some s | _ \<Rightarrow> None)"

fun otelc_value_visit :: "'d heap \<Rightarrow> 'd otelc_value \<Rightarrow> 'd visited option" where
  "otelc_value_visit h (V_bool b) = Some (Vis_bool b)"
| "otelc_value_visit h (V_int32 i) = Some (Vis_int32 i)"
| "otelc_value_visit h (V_int64 i) = Some (Vis_int64 i)"
| "otelc_value_visit h (V_uint32 i) = Some (Vis_uint32 i)"
| "otelc_value_visit h (V_uint64 i) = Some (Vis_uint64 i)"
| "otelc_value_visit h (V_double d) = Some (Vis_double d)"
| "otelc_value_visit h (V_string a) = (if a = 0 then Some (Vis_str []) else map_option Vis_str (str_at h a))"
| "otelc_value_visit h (V_data a) = (if a = 0 then Some (Vis_str []) else map_option Vis_str (str_at h a))"
| "otelc_value_visit h V_null = Some (Vis_str [])"

section \<open>Growable arrays of values and of key-value pairs\<close>

definition otelc_kv_new :: "(nat \<Rightarrow> bool) \<Rightarrow> nat \<Rightarrow> 'd heap \<Rightarrow> addr \<times> 'd heap" where
  "otelc_kv_new oom n h = (if n > 0
     then c_malloc oom (B_kvs (replicate n \<lparr>kv_key = 0, key_is_dynamic = False, kv_value = V_null\<rparr>)) h
     else (0, h))"

definition otelc_value_new :: "(nat \<Rightarrow> bool) \<Rightarrow> nat \<Rightarrow> 'd heap \<Rightarrow> addr \<times> 'd heap" where
  "otelc_value_new oom n h = (if n > 0 then c_malloc oom (B_values (replicate n V_null)) h else (0, h))"

text \<open>The cells of an array; a null array has none.\<close>

definition kv_cells :: "'d heap \<Rightarrow> addr \<Rightarrow> 'd otelc_kv list option" where
  "kv_cells h a = (if a = 0 then Some [] else case mem h a of Some (B_kvs xs) \<Rightarrow> Some xs | _ \<Rightarrow> None)"

definition value_cells :: "'d heap \<Rightarrow> addr \<Rightarrow> 'd otelc_value list option" where
  "value_cells h a = (if a = 0 then Some [] else case mem h a of Some (B_values xs) \<Rightarrow> Some xs | _ \<Rightarrow> None)"

text \<open>A copy of optional contents: no allocation for a null pointer.\<close>

definition copy_opt :: "(nat \<Rightarrow> bool) \<Rightarrow> string option \<Rightarrow> 'd heap \<Rightarrow> addr \<times> 'd heap" where
  "copy_opt oom s h = (case s of None \<Rightarrow> (0, h) | Some s \<Rightarrow> c_malloc oom (B_str s) h)"

text \<open>\<open>otelc_kv_add\<close>: \<open>arr\<close> is the array and its length, \<open>None\<close> when one of the two pointers is null;
  \<open>data\<close> the bytes at the data pointer, of which \<open>data_size\<close> are copied.\<close>

definition otelc_kv_add ::
  "(nat \<Rightarrow> bool) \<Rightarrow> (addr \<times> nat) option \<Rightarrow> string option \<Rightarrow> string option \<Rightarrow> nat \<Rightarrow> 'd heap \<Rightarrow>
   (int \<times> (addr \<times> nat) option \<times> 'd heap) option" where
  "otelc_kv_add oom arr key data data_size h =
     (case arr of
        None \<Rightarrow> Some (OTELC_RET_ERROR, None, h)
      | Some (a, n) \<Rightarrow> do {
          cells \<leftarrow> kv_cells h a;
          (if length cells < n then None
           else
             let (a', h1) = c_realloc oom a
                   (B_kvs (take n cells @ [\<lparr>kv_key = 0, key_is_dynamic = False, kv_value = V_null\<rparr>])) h in
             if a' = 0 then Some (OTELC_RET_ERROR, arr, h1)
             else
               let (k, h2) = copy_opt oom key h1;
                   key_failed = (key \<noteq> None \<and> k = 0);
                   wanted = (\<not> key_failed \<and> data \<noteq> None \<and> data_size > 0);
                   (d, h3) = copy_opt oom (if wanted then map_option (take data_size) data else None) h2;
                   flag_alloc_error = (key_failed \<or> (wanted \<and> d = 0)) in
               if flag_alloc_error
               then do { h4 \<leftarrow> sfree k h3; h5 \<leftarrow> sfree d h4; Some (OTELC_RET_ERROR, Some (a', n), h5) }
               else Some (int (n + 1), Some (a', n + 1),
                      h3\<lparr>mem := (mem h3)(a' \<mapsto> B_kvs (take n cells @
                        [\<lparr>kv_key = k, key_is_dynamic = (key \<noteq> None), kv_value = V_data d\<rparr>]))\<rparr>)) })"

definition otelc_value_add ::
  "(nat \<Rightarrow> bool) \<Rightarrow> (addr \<times> nat) option \<Rightarrow> string option \<Rightarrow> nat \<Rightarrow> 'd heap \<Rightarrow>
   (int \<times> (addr \<times> nat) option \<times> 'd heap) option" where
  "otelc_value_add oom arr data data_size h =
     (case arr of
        None \<Rightarrow> Some (OTELC_RET_ERROR, None, h)
      | Some (a, n) \<Rightarrow> do {
          cells \<leftarrow> value_cells h a;
          (if length cells < n then None
           else
             let (a', h1) = c_realloc oom a (B_values (take n cells @ [V_null])) h in
             if a' = 0 then Some (OTELC_RET_ERROR, arr, h1)
             else
               let wanted = (data \<noteq> None \<and> data_size > 0);
                   (d, h2) = copy_opt oom (if wanted then map_option (take data_size) data else None) h1 in
               if wanted \<and> d = 0 then Some (OTELC_RET_ERROR, Some (a', n), h2)
               else Some (int (n + 1), Some (a', n + 1),
                      h2\<lparr>mem := (mem h2)(a' \<mapsto> B_values (take n cells @ [V_data d]))\<rparr>)) })"

fun data_blocks :: "'d otelc_value \<Rightarrow> addr list" where
  "data_blocks (V_data a) = [a]"
| "data_blocks _ = []"

definition kv_blocks :: "'d otelc_kv \<Rightarrow> addr list" where
  "kv_blocks kv = (if key_is_dynamic kv then [kv_key kv] else []) @ data_blocks (kv_value kv)"

definition otelc_kv_destroy :: "addr option \<Rightarrow> nat \<Rightarrow> 'd heap \<Rightarrow> (addr option \<times> 'd heap) option" where
  "otelc_kv_destroy kv n h =
     (if kv = None \<or> kv = Some 0 then Some (kv, h)
      else do {
        cells \<leftarrow> kv_cells h (the kv);
        (if length cells < n then None
         else do {
           h1 \<leftarrow> free_all (concat (map kv_blocks (take n cells))) h;
           h2 \<leftarrow> sfree (the kv) h1;
           Some (Some 0, h2) }) })"

definition otelc_value_destroy :: "addr option \<Rightarrow> nat \<Rightarrow> 'd heap \<Rightarrow> (addr option \<times> 'd heap) option" where
  "otelc_value_destroy v n h =
     (if v = None \<or> v = Some 0 then Some (v, h)
      else do {
        cells \<leftarrow> value_cells h (the v);
        (if length cells < n then None
         else do {
           h1 \<leftarrow> free_all (concat (map data_blocks (take n cells))) h;
           h2 \<leftarrow> sfree (the v) h1;
           Some (Some 0, h2) }) })"

section \<open>Conversion of text to numbers\<close>

text \<open>The conversion of one type: the converted value, the rest of the text, and \<open>errno\<close>.\<close>

definition convert_text ::
  "(string \<Rightarrow> 'd \<times> string \<times> errno) \<Rightarrow> value_type \<Rightarrow> string \<Rightarrow> 'd otelc_value \<times> string option \<times> errno" where
  "convert_text strtod ty s = (case ty of
       T_BOOL \<Rightarrow> (let (v, r, e) = strtoul s 0 in (V_bool (v \<noteq> 0), r, e))
     | T_INT32 \<Rightarrow> (let (v, r, e) = strtol s 0 in
         (V_int32 (word_of_int v), r, if v < INT_MIN \<or> v > INT_MAX then ERANGE else e))
     | T_INT64 \<Rightarrow> (let (v, r, e) = strtol s 0 in (V_int64 (word_of_int v), r, e))
     | T_UINT32 \<Rightarrow> (let (v, r, e) = strtoul s 0 in
         (V_uint32 (word_of_int v), r, if v > UINT_MAX then ERANGE else e))
     | T_UINT64 \<Rightarrow> (let (v, r, e) = strtoul s 0 in (V_uint64 (word_of_int v), r, e))
     | T_DOUBLE \<Rightarrow> (let (v, r, e) = strtod s in (V_double v, Some r, e))
     | _ \<Rightarrow> (V_null, Some s, No_error))"

definition otelc_value_strtonum ::
  "(string \<Rightarrow> 'd \<times> string \<times> errno) \<Rightarrow> 'd otelc_value option \<Rightarrow> value_type \<Rightarrow> 'd heap \<Rightarrow>
   (int \<times> 'd otelc_value option \<times> 'd heap) option" where
  "otelc_value_strtonum strtod v ty h =
     (case v of
        None \<Rightarrow> Some (OTELC_RET_ERROR, None, h)
      | Some val \<Rightarrow>
          if \<not> (type_code T_BOOL \<le> type_code ty \<and> type_code ty \<le> type_code T_DOUBLE)
          then Some (OTELC_RET_ERROR, v, h)
          else let p = (case val of V_string a \<Rightarrow> a | V_data a \<Rightarrow> a | _ \<Rightarrow> 0) in
            if p = 0 then Some (OTELC_RET_ERROR, v, h)
            else do {
              s \<leftarrow> str_at h p;
              (let (buffer, endptr, errno) = convert_text strtod ty s in
               if endptr = Some s \<or> errno \<noteq> No_error \<or> endptr \<noteq> Some []
               then Some (OTELC_RET_ERROR, v, h)
               else do {
                 h' \<leftarrow> (case val of V_data a \<Rightarrow> sfree a h | _ \<Rightarrow> Some h);
                 Some (type_code ty, Some buffer, h') }) })"

text \<open>The integer a text denotes for the base-0 conversions.\<close>

definition denotes :: "string \<Rightarrow> int \<Rightarrow> bool" where
  "denotes s n \<longleftrightarrow> (\<exists>neg m. scan_number s 0 = Some (neg, m, []) \<and> n = (if neg then - int m else int m))"

lemma strtol_denotes:
  assumes "strtol s 0 = (v, Some [], No_error)" and "s \<noteq> []"
  shows "denotes s v \<and> LONG_MIN \<le> v \<and> v \<le> LONG_MAX"
proof -
  obtain neg m where "scan_number s 0 = Some (neg, m, [])"
      "saturate LONG_MIN LONG_MAX (if neg then - int m else int m) = (v, No_error)"
    using assms by (auto simp: strtol_def base_ok_def split: option.splits prod.splits)
  then show ?thesis
    using strtol_range [of s 0] assms(1) unfolding denotes_def
    by (auto simp: saturate_def split: if_splits)
qed

lemma strtoul_denotes:
  assumes "strtoul s 0 = (v, Some [], No_error)" and "s \<noteq> []"
  shows "\<exists>n. denotes s n \<and> \<bar>n\<bar> \<le> ULONG_MAX \<and> v = n mod (ULONG_MAX + 1) \<and> 0 \<le> v \<and> v \<le> ULONG_MAX"
proof -
  obtain neg m r where sc: "scan_number s 0 = Some (neg, m, r)"
    using assms by (cases "scan_number s 0") (auto simp: strtoul_def base_ok_def)
  then have "r = []" "int m \<le> ULONG_MAX" "v = (if neg then (- int m) mod (ULONG_MAX + 1) else int m)"
    using assms(1) by (simp_all add: strtoul_def base_ok_def split: if_split_asm)
  note r = this
  let ?n = "if neg then - int m else int m"
  have "denotes s ?n"
    unfolding denotes_def sc r(1) by simp
  moreover have "\<bar>?n\<bar> \<le> ULONG_MAX"
    using r(2) by simp
  moreover have "v = ?n mod (ULONG_MAX + 1)"
  proof (cases neg)
    case True
    then show ?thesis using r(3) by (simp only: if_True)
  next
    case False
    have "int m mod (ULONG_MAX + 1) = int m"
      using r(2) by (intro mod_pos_pos_trivial) simp_all
    then show ?thesis using False r(3) by (simp only: if_False)
  qed
  moreover have "0 \<le> v \<and> v \<le> ULONG_MAX"
    using strtoul_range [of s 0] assms(1) by simp
  ultimately show ?thesis by blast
qed

text \<open>What a converted value says about the integer \<open>n\<close> its text denotes.\<close>

fun converted :: "'d otelc_value \<Rightarrow> int \<Rightarrow> bool" where
  "converted (V_int32 w) n \<longleftrightarrow> sint w = n"
| "converted (V_int64 w) n \<longleftrightarrow> sint w = n"
| "converted (V_uint32 w) n \<longleftrightarrow> uint w = n mod (ULONG_MAX + 1) \<and> \<bar>n\<bar> \<le> ULONG_MAX"
| "converted (V_uint64 w) n \<longleftrightarrow> uint w = n mod (ULONG_MAX + 1) \<and> \<bar>n\<bar> \<le> ULONG_MAX"
| "converted (V_bool b) n \<longleftrightarrow> b = (n \<noteq> 0) \<and> \<bar>n\<bar> \<le> ULONG_MAX"
| "converted (V_double _) n \<longleftrightarrow> True"
| "converted _ n \<longleftrightarrow> False"

lemma abs_mod_0: "\<bar>n\<bar> \<le> ULONG_MAX \<Longrightarrow> n mod (ULONG_MAX + 1) = 0 \<longleftrightarrow> n = 0"
  using dvd_imp_le_int [of n "ULONG_MAX + 1"] by (auto simp: mod_eq_0_iff_dvd)

lemma sint_word_of_int_32: "\<lbrakk>INT_MIN \<le> v; v \<le> INT_MAX\<rbrakk> \<Longrightarrow> sint (word_of_int v :: int32) = v"
  unfolding INT_MIN_def INT_MAX_def by (simp add: signed_of_int signed_take_bit_int_eq_self)

lemma sint_word_of_int_64: "\<lbrakk>LONG_MIN \<le> v; v \<le> LONG_MAX\<rbrakk> \<Longrightarrow> sint (word_of_int v :: int64) = v"
  unfolding LONG_MIN_def LONG_MAX_def by (simp add: signed_of_int signed_take_bit_int_eq_self)

lemma uint_word_of_int_32: "\<lbrakk>0 \<le> v; v \<le> UINT_MAX\<rbrakk> \<Longrightarrow> uint (word_of_int v :: uint32) = v"
  unfolding UINT_MAX_def by (simp add: unsigned_of_int take_bit_int_eq_self)

lemma uint_word_of_int_64: "\<lbrakk>0 \<le> v; v \<le> ULONG_MAX\<rbrakk> \<Longrightarrow> uint (word_of_int v :: uint64) = v"
  unfolding ULONG_MAX_def by (simp add: unsigned_of_int take_bit_int_eq_self)

lemma convert_text_converted:
  assumes c: "convert_text strtod ty s = (b, Some [], No_error)" and "s \<noteq> []"
    and ty: "ty \<in> {T_BOOL, T_INT32, T_INT64, T_UINT32, T_UINT64}"
  shows "\<exists>n. denotes s n \<and> converted b n"
proof -
  obtain v e where l: "strtol s 0 = (v, snd (strtol s 0))" and l2: "strtol s 0 = (v, fst (snd (strtol s 0)), e)"
    by (cases "strtol s 0") auto
  obtain u d where u: "strtoul s 0 = (u, fst (snd (strtoul s 0)), d)"
    by (cases "strtoul s 0") auto
  note sl = strtol_denotes [OF _ assms(2)] and su = strtoul_denotes [OF _ assms(2)]
  from ty show ?thesis
  proof (elim insertE)
    assume "ty = T_BOOL"
    with c obtain w where w: "strtoul s 0 = (w, Some [], No_error)" "b = V_bool (w \<noteq> 0)"
      by (auto simp: convert_text_def split: prod.splits)
    with su [OF w(1)] show ?thesis by (auto simp: abs_mod_0)
  next
    assume "ty = T_INT32"
    with c obtain w where w: "strtol s 0 = (w, Some [], No_error)" "b = V_int32 (word_of_int w)"
        "INT_MIN \<le> w" "w \<le> INT_MAX"
      by (auto simp: convert_text_def split: prod.splits if_splits)
    with sl [OF w(1)] show ?thesis by (auto simp: sint_word_of_int_32)
  next
    assume "ty = T_INT64"
    with c obtain w where w: "strtol s 0 = (w, Some [], No_error)" "b = V_int64 (word_of_int w)"
      by (auto simp: convert_text_def split: prod.splits)
    with sl [OF w(1)] show ?thesis by (auto simp: sint_word_of_int_64)
  next
    assume "ty = T_UINT32"
    with c obtain w where w: "strtoul s 0 = (w, Some [], No_error)" "b = V_uint32 (word_of_int w)" "w \<le> UINT_MAX"
      by (auto simp: convert_text_def split: prod.splits if_splits)
    with su [OF w(1)] show ?thesis by (auto simp: uint_word_of_int_32)
  next
    assume "ty = T_UINT64"
    with c obtain w where w: "strtoul s 0 = (w, Some [], No_error)" "b = V_uint64 (word_of_int w)"
      by (auto simp: convert_text_def split: prod.splits)
    with su [OF w(1)] show ?thesis by (auto simp: uint_word_of_int_64)
  qed simp
qed

text \<open>
  C31: In-place conversion is all or nothing.  \<open>otelc_value_strtonum\<close> either fails and leaves the value
  and the heap as they were, or returns the requested type and stores a value of that type; then
  the whole text was a number, a signed result is exactly that number (so it fits its width), an
  unsigned or Boolean result is the number reduced as the C library does, and an owned text
  (\<open>OTELC_VALUE_DATA\<close>) has been released while a borrowed one has not.
\<close>
theorem strtonum_all_or_nothing:
  assumes "otelc_value_strtonum strtod (Some v) ty h = Some (r, v', h')"
  shows "(r = OTELC_RET_ERROR \<and> v' = Some v \<and> h' = h) \<or>
    (r = type_code ty \<and> (\<exists>a s b. (v = V_string a \<or> v = V_data a) \<and> str_at h a = Some s \<and> v' = Some b \<and>
       u_type b = ty \<and> (ty = T_DOUBLE \<or> (\<exists>n. denotes s n \<and> converted b n)) \<and>
       mem h' = (if v = V_data a then (mem h)(a := None) else mem h)))"
proof (cases "r = OTELC_RET_ERROR")
  case True
  then show ?thesis
    using assms by (cases ty) (auto simp: otelc_value_strtonum_def OTELC_RET_ERROR_def Let_def Option.bind_eq_Some_conv
        split: if_splits otelc_value.splits prod.splits)
next
  case False
  let ?p = "case v of V_string a \<Rightarrow> a | V_data a \<Rightarrow> a | _ \<Rightarrow> 0"
  have rng: "type_code T_BOOL \<le> type_code ty \<and> type_code ty \<le> type_code T_DOUBLE" "?p \<noteq> 0"
    using assms False by (auto simp: otelc_value_strtonum_def Let_def split: if_splits)
  then obtain s b e r' where s: "str_at h ?p = Some s" and c: "convert_text strtod ty s = (b, r', e)"
    and ok: "r' \<noteq> Some s" "e = No_error" "r' = Some []"
    and fin: "Option.bind (case v of V_data a \<Rightarrow> sfree a h | _ \<Rightarrow> Some h) (\<lambda>h'. Some (type_code ty, Some b, h')) = Some (r, v', h')"
  proof -
    obtain s where s: "str_at h ?p = Some s"
      using assms False rng by (auto simp: otelc_value_strtonum_def Let_def Option.bind_eq_Some_conv)
    obtain b r' e where c: "convert_text strtod ty s = (b, r', e)"
      by (cases "convert_text strtod ty s") auto
    show ?thesis
      using assms False rng s c that [OF s c]
      by (auto simp: otelc_value_strtonum_def Let_def split: if_split_asm)
  qed
  have ut: "u_type b = ty"
    using c rng(1) by (cases ty) (auto simp: convert_text_def split: prod.splits)
  have "ty = T_DOUBLE \<or> (\<exists>n. denotes s n \<and> converted b n)"
    using convert_text_converted [of strtod ty s b] c ok rng(1) by (cases ty) auto
  moreover obtain a where a: "v = V_string a \<or> v = V_data a" "?p = a"
    using rng(2) by (cases v) auto
  moreover have "r = type_code ty \<and> v' = Some b \<and> mem h' = (if v = V_data a then (mem h)(a := None) else mem h)"
    using fin a rng(2) by (cases v) (auto simp: sfree_def c_free_def Option.bind_eq_Some_conv split: if_splits)
  moreover have "str_at h a = Some s"
    using s unfolding a(2) .
  ultimately show ?thesis using ut
    by blast
qed

lemma strtonum_all_or_nothing_witness:
  "otelc_value_strtonum (\<lambda>s. ((), s, EINVAL)) (Some (V_data 1)) T_INT32
     \<lparr>mem = [1 \<mapsto> B_str ''-42''], allocs = 1\<rparr> =
     Some (2, Some (V_int32 (- 42)), \<lparr>mem = (\<lambda>_. None), allocs = 1\<rparr>) \<and> denotes ''-42'' (- 42)"
proof -
  have s: "strtol ''-42'' 0 = (- 42, Some [], No_error)"
    by code_simp
  have e: "otelc_value_strtonum (\<lambda>s. ((), s, EINVAL)) (Some (V_data 1)) T_INT32
     \<lparr>mem = [1 \<mapsto> B_str ''-42''], allocs = 1\<rparr> =
     Some (2, Some (V_int32 (- 42)), \<lparr>mem = (\<lambda>_. None), allocs = 1\<rparr>)"
    by (simp add: otelc_value_strtonum_def str_at_def convert_text_def s limits_defs sfree_def c_free_def fun_eq_iff)
  have "\<exists>n. denotes ''-42'' n \<and> converted (V_int32 (- 42) :: unit otelc_value) n"
    using strtonum_all_or_nothing [OF e] by (auto simp: OTELC_RET_ERROR_def str_at_def)
  moreover have "sint (- 42 :: int32) = - 42" by simp
  ultimately have "denotes ''-42'' (- 42)" by auto
  then show ?thesis using e by simp
qed

text \<open>
  C22: The unsigned conversions do not reject negative text: a minus sign is folded into the unsigned
  range as \<open>strtoul\<close> does, so an integer far outside the target type can be accepted as a small one.
\<close>
theorem strtonum_accepts_negative_unsigned:
  "otelc_value_strtonum (\<lambda>s. ((), s, EINVAL)) (Some (V_string 1)) T_UINT32
     \<lparr>mem = [1 \<mapsto> B_str ''-18446744073709551615''], allocs = 1\<rparr> =
   Some (type_code T_UINT32, Some (V_uint32 1), \<lparr>mem = [1 \<mapsto> B_str ''-18446744073709551615''], allocs = 1\<rparr>)"
proof -
  have "scan_number ''-18446744073709551615'' 0 = Some (True, 18446744073709551615, [])"
    by (simp add: scan_number_def c_isspace_def is_digit_in_def digit_val_def to_lower_def)
  then have "strtoul ''-18446744073709551615'' 0 = (1, Some [], No_error)"
    by (simp add: strtoul_def base_ok_def ULONG_MAX_def)
  then show ?thesis
    by (simp add: otelc_value_strtonum_def str_at_def convert_text_def limits_defs)
qed

end
