(* ===== verification/Otel_HandleMap.thy ===== *)
theory Otel_HandleMap
  imports Otel_Prelude
begin

text \<open>
  The sharded handle map of \<open>include/util.h\<close> (\<open>struct otel_handle\<close>), which resolves the
  integer a caller holds in a span, a span context, an instrument or a view to the C++
  object behind it.  Keys are partitioned over a power-of-two number of shards by their
  low bits.  A shard's \<open>unordered_map\<close> is an association list with distinct keys; its
  iteration order is one of those the container allows, and no theorem depends on it.

  \<open>handle_store\<close> states what the rest of the library relies on: a partial map with
  lookup, insertion, removal and enumeration laws.  It is interpreted on the sharded map
  at the end of the theory.
\<close>

section \<open>State\<close>

record 'a otel_handle =
  hid :: int64
  peak_size :: nat
  alloc_fail_cnt :: int64
  erase_cnt :: int64
  destroy_cnt :: int64
  shards :: "(int64 \<times> 'a) list list"

section \<open>Construction\<close>

definition otel_handle_init :: "'a otel_handle \<Rightarrow> 'a otel_handle" where
  "otel_handle_init h = h\<lparr>shards := map (\<lambda>_. []) (shards h), hid := 0, peak_size := 0,
     alloc_fail_cnt := 0, erase_cnt := 0, destroy_cnt := 0\<rparr>"

text \<open>The constructor: \<open>shards(num_shards)\<close> runs first, then the size is validated.\<close>

definition otel_handle_new :: "size_t \<Rightarrow> 'a otel_handle result" where
  "otel_handle_new num_shards =
     (let h = \<lparr>hid = 0, peak_size = 0, alloc_fail_cnt = 0, erase_cnt = 0, destroy_cnt = 0,
               shards = replicate (unat num_shards) []\<rparr> in
      if num_shards = 0 \<or> num_shards AND (num_shards - 1) \<noteq> 0
      then failf ''Invalid vector size, must be a power of two: %s'' [Arg_int (uint num_shards)]
      else ok (otel_handle_init h))"

section \<open>Shard selection and sizes\<close>

definition get_shard_index :: "'a otel_handle \<Rightarrow> int64 \<Rightarrow> nat" where
  "get_shard_index h key = unat (key AND (of_nat (length (shards h)) - 1))"

definition get_shard :: "'a otel_handle \<Rightarrow> int64 \<Rightarrow> (int64 \<times> 'a) list" where
  "get_shard h key = shards h ! get_shard_index h key"

definition set_shard :: "int64 \<Rightarrow> (int64 \<times> 'a) list \<Rightarrow> 'a otel_handle \<Rightarrow> 'a otel_handle" where
  "set_shard key m h = h\<lparr>shards := (shards h)[get_shard_index h key := m]\<rparr>"

definition total_map_size :: "'a otel_handle \<Rightarrow> nat" where
  "total_map_size h = fold (\<lambda>it retval. retval + length it) (shards h) 0"

definition shard_map_size_nolock :: "'a otel_handle \<Rightarrow> int64 \<Rightarrow> nat" where
  "shard_map_size_nolock h key = length (shards h ! get_shard_index h key)"

definition update_peak_size :: "nat \<Rightarrow> 'a otel_handle \<Rightarrow> 'a otel_handle" where
  "update_peak_size shard_idx h =
     h\<lparr>peak_size := max (peak_size h) (length (shards h ! shard_idx))\<rparr>"

section \<open>Entries\<close>

text \<open>\<open>otel_map_find\<close> on the shard of the key: the mapped value, or a null one.\<close>

definition otel_map_find :: "'a otel_handle \<Rightarrow> int64 \<Rightarrow> 'a option" where
  "otel_map_find h key = map_of (get_shard h key) key"

text \<open>\<open>emplace\<close> keeps an existing entry and reports that nothing was inserted.\<close>

fun shard_emplace :: "int64 \<Rightarrow> 'a \<Rightarrow> (int64 \<times> 'a) list \<Rightarrow> (int64 \<times> 'a) list \<times> bool" where
  "shard_emplace k v m = (if map_of m k = None then ((k, v) # m, True) else (m, False))"

text \<open>
  \<open>OTEL_HANDLE_EMPLACE\<close>: \<open>alloc_throws\<close> says whether the container's allocation throws,
  which leaves the map as it was.  The peak size is refreshed after a successful insertion
  only, since both failures return from the enclosing function.
\<close>

definition handle_emplace ::
  "bool \<Rightarrow> int64 \<Rightarrow> 'a \<Rightarrow> string \<Rightarrow> string \<Rightarrow> 'a otel_handle \<Rightarrow> 'a otel_handle \<times> unit result" where
  "handle_emplace alloc_throws idx v dup_msg exc_msg h =
     (if alloc_throws then (h, fail exc_msg)
      else let (m, emplace_ok) = shard_emplace idx v (get_shard h idx) in
        if \<not> emplace_ok then (h, fail dup_msg)
        else (update_peak_size (get_shard_index h idx) (set_shard idx m h), ok ()))"

definition handle_erase :: "int64 \<Rightarrow> 'a otel_handle \<Rightarrow> 'a otel_handle" where
  "handle_erase key h = set_shard key (AList.delete key (get_shard h key)) h"

text \<open>\<open>id.fetch_add(1)\<close>: the id handed out and the advanced generator.\<close>

definition handle_next_id :: "'a otel_handle \<Rightarrow> int64 \<times> 'a otel_handle" where
  "handle_next_id h = (hid h, h\<lparr>hid := hid h + 1\<rparr>)"

definition handle_entries :: "'a otel_handle \<Rightarrow> (int64 \<times> 'a) list" where
  "handle_entries h = concat (shards h)"

definition for_each_locked ::
  "(int64 \<Rightarrow> 'a \<Rightarrow> 's \<Rightarrow> 's) \<Rightarrow> 'a otel_handle \<Rightarrow> 's \<Rightarrow> 'a otel_handle \<times> 's" where
  "for_each_locked f h s =
     (h\<lparr>shards := map (\<lambda>_. []) (shards h)\<rparr>,
      fold (\<lambda>it_shard s. fold (\<lambda>(k, v). f k v) it_shard s) (shards h) s)"

text \<open>\<open>clear_locked\<close> and the destructor delete every handle; the result lists the deleted
  objects in deletion order.\<close>

definition clear_locked :: "'a otel_handle \<Rightarrow> 'a otel_handle \<times> 'a list" where
  "clear_locked h = for_each_locked (\<lambda>_ v deleted. deleted @ [v]) h []"

section \<open>Invariant and abstraction\<close>

definition shards_pow2 :: "'a otel_handle \<Rightarrow> bool" where
  "shards_pow2 h \<longleftrightarrow> (\<exists>k < 64. length (shards h) = 2 ^ k)"

definition handle_inv :: "'a otel_handle \<Rightarrow> bool" where
  "handle_inv h \<longleftrightarrow> shards_pow2 h \<and>
     (\<forall>i < length (shards h). distinct (map fst (shards h ! i)) \<and>
        (\<forall>k \<in> fst ` set (shards h ! i). get_shard_index h k = i))"

definition handle_map :: "'a otel_handle \<Rightarrow> int64 \<rightharpoonup> 'a" where
  "handle_map h = (\<lambda>k. otel_map_find h k)"


section \<open>Shards partition the keys\<close>

lemma get_shard_index_mod:
  assumes "shards_pow2 h"
  shows "get_shard_index h key = unat key mod length (shards h)"
proof -
  obtain k where "k < 64" "length (shards h) = 2 ^ k"
    using assms by (auto simp: shards_pow2_def)
  then show ?thesis
    unfolding get_shard_index_def by (intro unat_and_mask_lt [of _ k]) auto
qed

lemma get_shard_index_lt:
  assumes "shards_pow2 h"
  shows "get_shard_index h key < length (shards h)"
proof -
  have "0 < length (shards h)"
    using assms by (auto simp: shards_pow2_def)
  then show ?thesis
    by (simp add: get_shard_index_mod [OF assms])
qed

lemma get_shard_index_cong:
  "length (shards h') = length (shards h) \<Longrightarrow> get_shard_index h' = get_shard_index h"
  by (simp add: get_shard_index_def fun_eq_iff)

lemma shards_pow2_cong:
  "length (shards h') = length (shards h) \<Longrightarrow> shards_pow2 h' = shards_pow2 h"
  by (simp add: shards_pow2_def)

lemma set_shard_simps [handle_simps]:
  "shards (set_shard key m h) = (shards h)[get_shard_index h key := m]"
  "length (shards (set_shard key m h)) = length (shards h)"
  "hid (set_shard key m h) = hid h"
  "peak_size (set_shard key m h) = peak_size h"
  "erase_cnt (set_shard key m h) = erase_cnt h"
  "destroy_cnt (set_shard key m h) = destroy_cnt h"
  "alloc_fail_cnt (set_shard key m h) = alloc_fail_cnt h"
  "get_shard_index (set_shard key m h) = get_shard_index h"
  "shards_pow2 (set_shard key m h) = shards_pow2 h"
  by (simp_all add: set_shard_def get_shard_index_def shards_pow2_def fun_eq_iff)

lemma update_peak_size_simps [handle_simps]:
  "shards (update_peak_size i h) = shards h"
  "hid (update_peak_size i h) = hid h"
  "peak_size (update_peak_size i h) = max (peak_size h) (length (shards h ! i))"
  "erase_cnt (update_peak_size i h) = erase_cnt h"
  "destroy_cnt (update_peak_size i h) = destroy_cnt h"
  "alloc_fail_cnt (update_peak_size i h) = alloc_fail_cnt h"
  "get_shard_index (update_peak_size i h) = get_shard_index h"
  "otel_map_find (update_peak_size i h) = otel_map_find h"
  by (simp_all add: update_peak_size_def get_shard_index_def otel_map_find_def get_shard_def
      fun_eq_iff)

lemma handle_inv_pow2: "handle_inv h \<Longrightarrow> shards_pow2 h"
  by (simp add: handle_inv_def)

lemma handle_inv_index_lt: "handle_inv h \<Longrightarrow> get_shard_index h key < length (shards h)"
  by (rule get_shard_index_lt) (rule handle_inv_pow2)

lemma handle_inv_distinct:
  "handle_inv h \<Longrightarrow> distinct (map fst (get_shard h key))"
  using handle_inv_index_lt [of h key] by (simp add: handle_inv_def get_shard_def)

lemma handle_inv_key:
  "\<lbrakk>handle_inv h; i < length (shards h); (k, v) \<in> set (shards h ! i)\<rbrakk>
    \<Longrightarrow> get_shard_index h k = i"
  by (force simp: handle_inv_def)

lemma otel_map_find_cong:
  "shards h' = shards h \<Longrightarrow> otel_map_find h' = otel_map_find h"
  by (simp add: otel_map_find_def get_shard_def get_shard_index_def fun_eq_iff)

lemma handle_inv_cong: "shards h' = shards h \<Longrightarrow> handle_inv h' = handle_inv h"
  by (simp add: handle_inv_def shards_pow2_def get_shard_index_def)

lemma handle_inv_set_shard:
  assumes "handle_inv h" and "distinct (map fst m)"
    and "\<forall>k \<in> fst ` set m. get_shard_index h k = get_shard_index h key"
  shows "handle_inv (set_shard key m h)"
proof -
  have "distinct (map fst (shards (set_shard key m h) ! i)) \<and>
      (\<forall>k \<in> fst ` set (shards (set_shard key m h) ! i). get_shard_index h k = i)"
    if "i < length (shards h)" for i
    using assms that by (cases "i = get_shard_index h key") (auto simp: handle_inv_def set_shard_simps)
  then show ?thesis
    using handle_inv_pow2 [OF assms(1)]
    by (simp add: handle_inv_def set_shard_simps(2,8,9) del: list_update.simps)
qed

lemma otel_map_find_set_shard:
  assumes "handle_inv h"
  shows "otel_map_find (set_shard key m h) k =
    (if get_shard_index h k = get_shard_index h key then map_of m k else otel_map_find h k)"
  using handle_inv_index_lt [OF assms, of key]
  by (simp add: otel_map_find_def get_shard_def handle_simps nth_list_update)

section \<open>Operations on the abstract map\<close>

lemma get_shard_keys:
  assumes "handle_inv h" and "k \<in> fst ` set (get_shard h key)"
  shows "get_shard_index h k = get_shard_index h key"
  using assms handle_inv_index_lt [OF assms(1), of key]
  by (auto simp: get_shard_def intro: handle_inv_key)

lemma otel_map_find_other_shard:
  assumes "handle_inv h" and "get_shard_index h k \<noteq> get_shard_index h key"
  shows "map_of (get_shard h key) k = None"
  using assms get_shard_keys [OF assms(1)] by (force simp: map_of_eq_None_iff)

definition handle_insert :: "int64 \<Rightarrow> 'a \<Rightarrow> 'a otel_handle \<Rightarrow> 'a otel_handle" where
  "handle_insert k v h = fst (handle_emplace False k v [] [] h)"

lemma handle_emplace_fresh:
  assumes "otel_map_find h k = None"
  shows "handle_emplace False k v d e h =
    (update_peak_size (get_shard_index h k) (set_shard k ((k, v) # get_shard h k) h), ok ())"
  using assms by (simp add: handle_emplace_def otel_map_find_def)

lemma handle_emplace_failed:
  "otel_map_find h k \<noteq> None \<Longrightarrow> handle_emplace False k v d e h = (h, fail d)"
  "handle_emplace True k v d e h = (h, fail e)"
  by (auto simp: handle_emplace_def otel_map_find_def)

lemma handle_insert_eq:
  "handle_insert k v h = (if otel_map_find h k = None
    then update_peak_size (get_shard_index h k) (set_shard k ((k, v) # get_shard h k) h) else h)"
  by (auto simp: handle_insert_def handle_emplace_fresh handle_emplace_failed)

lemma handle_inv_insert:
  assumes "handle_inv h"
  shows "handle_inv (handle_insert k v h)"
proof (cases "otel_map_find h k = None")
  case True
  have "handle_inv (set_shard k ((k, v) # get_shard h k) h)"
    using assms True handle_inv_distinct [OF assms] get_shard_keys [OF assms]
    by (intro handle_inv_set_shard) (auto simp: otel_map_find_def map_of_eq_None_iff)
  with True show ?thesis
    by (simp add: handle_insert_eq handle_inv_cong [OF update_peak_size_simps(1)])
qed (auto simp: handle_insert_eq assms)

lemma handle_map_insert:
  assumes "handle_inv h" and "otel_map_find h k = None"
  shows "otel_map_find (handle_insert k v h) = (otel_map_find h)(k \<mapsto> v)"
proof
  fix j
  have "otel_map_find (handle_insert k v h) j = otel_map_find (set_shard k ((k, v) # get_shard h k) h) j"
    using assms(2) by (simp add: handle_insert_eq handle_simps)
  also have "\<dots> = ((otel_map_find h)(k \<mapsto> v)) j"
    unfolding otel_map_find_set_shard [OF assms(1)]
    by (simp add: otel_map_find_def get_shard_def)
  finally show "otel_map_find (handle_insert k v h) j = ((otel_map_find h)(k \<mapsto> v)) j" .
qed

lemma handle_inv_erase:
  assumes "handle_inv h"
  shows "handle_inv (handle_erase k h)"
  unfolding handle_erase_def
  using assms handle_inv_distinct [OF assms] get_shard_keys [OF assms]
  by (intro handle_inv_set_shard) (auto simp: AList.distinct_delete set_delete)

lemma handle_map_erase:
  assumes "handle_inv h"
  shows "otel_map_find (handle_erase k h) = (otel_map_find h)(k := None)"
proof
  fix j
  show "otel_map_find (handle_erase k h) j = ((otel_map_find h)(k := None)) j"
    unfolding handle_erase_def otel_map_find_set_shard [OF assms]
    by (simp add: AList.delete_conv' otel_map_find_def get_shard_def)
qed


lemma nth_in_entries:
  "(k, v) \<in> set (handle_entries h) \<longleftrightarrow> (\<exists>i < length (shards h). (k, v) \<in> set (shards h ! i))"
proof -
  have "(k, v) \<in> set (handle_entries h) \<longleftrightarrow> (\<exists>xs \<in> set (shards h). (k, v) \<in> set xs)"
    by (simp add: handle_entries_def)
  then show ?thesis
    by (metis in_set_conv_nth)
qed

lemma handle_entries_find:
  assumes "handle_inv h"
  shows "set (handle_entries h) = {(k, v). otel_map_find h k = Some v}"
proof (intro set_eqI, clarify)
  fix k v
  have "(k, v) \<in> set (handle_entries h) \<longleftrightarrow> (k, v) \<in> set (get_shard h k)"
    using assms handle_inv_index_lt [OF assms, of k]
    by (auto simp: nth_in_entries get_shard_def dest: handle_inv_key)
  also have "\<dots> \<longleftrightarrow> otel_map_find h k = Some v"
    using handle_inv_distinct [OF assms] by (simp add: otel_map_find_def)
  finally show "(k, v) \<in> set (handle_entries h) \<longleftrightarrow> (k, v) \<in> {(k, v). otel_map_find h k = Some v}"
    by simp
qed

lemma distinct_concat_nth:
  assumes "\<And>i. i < length xss \<Longrightarrow> distinct (xss ! i)"
    and "\<And>i j. \<lbrakk>i < length xss; j < length xss; i \<noteq> j\<rbrakk> \<Longrightarrow> set (xss ! i) \<inter> set (xss ! j) = {}"
  shows "distinct (concat xss)"
  using assms
proof (induction xss)
  case (Cons xs xss)
  have "distinct (concat xss)"
  proof (rule Cons.IH)
    fix i assume "i < length xss"
    then show "distinct (xss ! i)" using Cons.prems(1) [of "Suc i"] by simp
  next
    fix i j assume "i < length xss" "j < length xss" "i \<noteq> j"
    then show "set (xss ! i) \<inter> set (xss ! j) = {}" using Cons.prems(2) [of "Suc i" "Suc j"] by simp
  qed
  moreover have "set xs \<inter> set (concat xss) = {}"
  proof -
    have "set xs \<inter> set (xss ! j) = {}" if "j < length xss" for j
      using Cons.prems(2) [of 0 "Suc j"] that by simp
    then have "set xs \<inter> set ys = {}" if "ys \<in> set xss" for ys
      using that by (metis in_set_conv_nth)
    then show ?thesis by auto
  qed
  ultimately show ?case using Cons.prems(1) [of 0] by simp
qed simp

lemma handle_entries_distinct:
  assumes "handle_inv h"
  shows "distinct (map fst (handle_entries h))"
  unfolding handle_entries_def map_concat
proof (rule distinct_concat_nth)
  fix i assume "i < length (map (map fst) (shards h))"
  then show "distinct (map (map fst) (shards h) ! i)"
    using assms by (simp add: handle_inv_def)
next
  fix i j assume "i < length (map (map fst) (shards h))" "j < length (map (map fst) (shards h))" "i \<noteq> j"
  then have "a \<notin> fst ` set (shards h ! j)" if "a \<in> fst ` set (shards h ! i)" for a
    using assms that unfolding handle_inv_def by (metis length_map)
  then show "set (map (map fst) (shards h) ! i) \<inter> set (map (map fst) (shards h) ! j) = {}"
    using \<open>i < _\<close> \<open>j < _\<close> by auto
qed

lemma fold_length: "fold (\<lambda>it retval. retval + length it) xss n = n + length (concat xss)"
  by (induction xss arbitrary: n) auto

lemma total_map_size_entries: "total_map_size h = length (handle_entries h)"
  by (simp add: total_map_size_def handle_entries_def fold_length)

section \<open>The interface the components rely on\<close>

locale handle_store =
  fixes lookup :: "'s \<Rightarrow> int64 \<Rightarrow> 'a option"
    and insert :: "int64 \<Rightarrow> 'a \<Rightarrow> 's \<Rightarrow> 's"
    and erase :: "int64 \<Rightarrow> 's \<Rightarrow> 's"
    and entries :: "'s \<Rightarrow> (int64 \<times> 'a) list"
    and inv :: "'s \<Rightarrow> bool"
  assumes inv_insert: "inv s \<Longrightarrow> inv (insert k v s)"
    and inv_erase: "inv s \<Longrightarrow> inv (erase k s)"
    and lookup_insert: "\<lbrakk>inv s; lookup s k = None\<rbrakk> \<Longrightarrow> lookup (insert k v s) = (lookup s)(k \<mapsto> v)"
    and lookup_erase: "inv s \<Longrightarrow> lookup (erase k s) = (lookup s)(k := None)"
    and entries_lookup: "inv s \<Longrightarrow> set (entries s) = {(k, v). lookup s k = Some v}"
    and entries_distinct: "inv s \<Longrightarrow> distinct (map fst (entries s))"
begin

lemma lookup_insert_erase:
  "\<lbrakk>inv s; lookup s k = None\<rbrakk> \<Longrightarrow> lookup (erase k (insert k v s)) = lookup s"
  by (auto simp: lookup_erase inv_insert lookup_insert fun_eq_iff)

lemma lookup_erase_other: "\<lbrakk>inv s; j \<noteq> k\<rbrakk> \<Longrightarrow> lookup (erase k s) j = lookup s j"
  by (simp add: lookup_erase)

lemma card_dom: "inv s \<Longrightarrow> card (dom (lookup s)) = length (entries s)"
proof -
  assume i: "inv s"
  have "dom (lookup s) = fst ` set (entries s)"
    using entries_lookup [OF i] by (force simp: dom_def image_iff)
  then show ?thesis
    using distinct_card [OF entries_distinct [OF i]] by simp
qed

lemma finite_dom: "inv s \<Longrightarrow> finite (dom (lookup s))"
proof -
  assume i: "inv s"
  have "dom (lookup s) \<subseteq> fst ` set (entries s)"
    using entries_lookup [OF i] by (force simp: dom_def image_iff)
  then show ?thesis by (rule finite_subset) simp
qed

lemma card_insert:
  "\<lbrakk>inv s; lookup s k = None\<rbrakk> \<Longrightarrow> length (entries (insert k v s)) = Suc (length (entries s))"
  using finite_dom [of s]
  by (simp add: card_dom [symmetric] inv_insert lookup_insert card_insert_if domIff)

lemma card_erase:
  "\<lbrakk>inv s; lookup s k = Some v\<rbrakk> \<Longrightarrow> Suc (length (entries (erase k s))) = length (entries s)"
proof -
  assume i: "inv s" and k: "lookup s k = Some v"
  have "dom (lookup (erase k s)) = dom (lookup s) - {k}"
    by (auto simp: lookup_erase i)
  then have "Suc (card (dom (lookup (erase k s)))) = card (dom (lookup s))"
    using finite_dom [OF i] domI [of "lookup s", OF k] by (simp only: card_Suc_Diff1)
  then show ?thesis
    by (simp add: card_dom i inv_erase)
qed

text \<open>\<open>below s n\<close>: every key in use is smaller than the generator \<open>n\<close>, as unsigned words.\<close>

definition below :: "'s \<Rightarrow> int64 \<Rightarrow> bool" where
  "below s n \<longleftrightarrow> (\<forall>k \<in> dom (lookup s). k < n)"

lemma below_fresh: "below s n \<Longrightarrow> lookup s n = None"
  by (auto simp: below_def dom_def)

lemma below_stale: "\<lbrakk>below s n; n \<le> k\<rbrakk> \<Longrightarrow> lookup s k = None"
  by (force simp: below_def dom_def)

lemma below_insert:
  "\<lbrakk>inv s; below s n; n < n + 1\<rbrakk> \<Longrightarrow> below (insert n v s) (n + 1)"
  by (auto simp: below_def lookup_insert below_fresh split: if_splits) (meson domI order_less_trans)

lemma below_erase: "\<lbrakk>inv s; below s n\<rbrakk> \<Longrightarrow> below (erase k s) n"
  by (auto simp: below_def lookup_erase split: if_splits)

end

interpretation hm: handle_store otel_map_find handle_insert handle_erase handle_entries handle_inv
  by unfold_locales
    (simp_all add: handle_inv_insert handle_inv_erase handle_map_insert handle_map_erase
      handle_entries_find handle_entries_distinct)

section \<open>Construction, enumeration and the peak\<close>

lemma replicate_concat_empty [simp]: "concat (replicate n []) = []"
  by (induction n) auto

lemma otel_handle_init_simps [handle_simps]:
  "shards (otel_handle_init h) = replicate (length (shards h)) []"
  "hid (otel_handle_init h) = 0"
  "peak_size (otel_handle_init h) = 0"
  "erase_cnt (otel_handle_init h) = 0"
  "destroy_cnt (otel_handle_init h) = 0"
  by (simp_all add: otel_handle_init_def map_replicate_const)

lemma handle_inv_empty:
  assumes "shards_pow2 h" and "\<And>i. i < length (shards h) \<Longrightarrow> shards h ! i = []"
  shows "handle_inv h \<and> handle_entries h = []"
  using assms by (auto simp: handle_inv_def handle_entries_def in_set_conv_nth)

lemma for_each_locked_entries:
  "for_each_locked f h s =
     (h\<lparr>shards := replicate (length (shards h)) []\<rparr>, fold (\<lambda>(k, v). f k v) (handle_entries h) s)"
proof -
  have "fold (\<lambda>sh s. fold (\<lambda>(k, v). f k v) sh s) xss s = fold (\<lambda>(k, v). f k v) (concat xss) s" for xss
    by (induction xss arbitrary: s) auto
  then show ?thesis
    by (simp add: for_each_locked_def handle_entries_def map_replicate_const)
qed

lemma fold_append_values: "fold (\<lambda>(k, v) deleted. deleted @ [v]) xs ys = ys @ map snd xs"
  by (induction xs arbitrary: ys) (auto split: prod.splits)

lemma clear_locked_eq:
  "clear_locked h = (h\<lparr>shards := replicate (length (shards h)) []\<rparr>, map snd (handle_entries h))"
  by (simp add: clear_locked_def for_each_locked_entries fold_append_values)

lemma clear_locked_empties:
  assumes "handle_inv h"
  shows "handle_inv (fst (clear_locked h)) \<and> otel_map_find (fst (clear_locked h)) = Map.empty"
proof -
  let ?h = "fst (clear_locked h)"
  have "shards_pow2 ?h"
    using handle_inv_pow2 [OF assms] by (simp add: clear_locked_eq shards_pow2_def)
  then have "handle_inv ?h \<and> handle_entries ?h = []"
    by (intro handle_inv_empty) (auto simp: clear_locked_eq)
  then show ?thesis
    using handle_entries_find [of ?h] by (auto simp: fun_eq_iff)
qed

section \<open>Properties\<close>

lemma otel_handle_new_ok:
  "otel_handle_new n = ok h \<longleftrightarrow>
     n \<noteq> 0 \<and> n AND (n - 1) = 0 \<and>
     h = \<lparr>hid = 0, peak_size = 0, alloc_fail_cnt = 0, erase_cnt = 0, destroy_cnt = 0,
          shards = replicate (unat n) []\<rparr>"
  by (auto simp: otel_handle_new_def otel_handle_init_def Let_def map_replicate_const)

lemma pow2_exponent_lt: "unat (n :: size_t) = 2 ^ k \<Longrightarrow> k < 64"
  using unsigned_less [of n, where 'a = nat] power_less_imp_less_exp [of "2 :: nat" k 64] by simp

lemma otel_handle_new_pow2:
  assumes "otel_handle_new n = ok h"
  shows "shards_pow2 h \<and> length (shards h) = unat n"
  using assms word_and_pred_eq_0_iff [of n]
  by (auto simp: otel_handle_new_ok shards_pow2_def intro: pow2_exponent_lt)

lemma otel_handle_new_inv:
  assumes "otel_handle_new n = ok h"
  shows "handle_inv h \<and> otel_map_find h = Map.empty"
proof -
  have e: "handle_inv h \<and> handle_entries h = []"
    using assms otel_handle_new_pow2 [OF assms]
    by (intro handle_inv_empty) (auto simp: otel_handle_new_ok)
  then show ?thesis
    using handle_entries_find [of h] by (auto simp: fun_eq_iff)
qed

text \<open>
  C16: The constructor of a handle map accepts exactly the powers of two as shard counts, and on a
  map it accepts the bit mask selects shard \<open>key mod num_shards\<close>, always a valid index.
\<close>
theorem shard_selection:
  "is_ok (otel_handle_new n :: 'a otel_handle result) = (\<exists>k. unat n = 2 ^ k) \<and>
   (\<forall>h :: 'a otel_handle. otel_handle_new n = ok h \<longrightarrow>
      get_shard_index h key = unat key mod unat n \<and> get_shard_index h key < length (shards h))"
proof (intro conjI allI impI)
  show "is_ok (otel_handle_new n :: 'a otel_handle result) = (\<exists>k. unat n = 2 ^ k)"
    using word_and_pred_eq_0_iff [of n]
    by (cases "n = 0") (auto simp: otel_handle_new_def Let_def)
next
  fix h :: "'a otel_handle"
  assume "otel_handle_new n = ok h"
  note pow2 = otel_handle_new_pow2 [OF this]
  then show "get_shard_index h key = unat key mod unat n"
    by (simp add: get_shard_index_mod)
  show "get_shard_index h key < length (shards h)"
    using get_shard_index_lt conjunct1 [OF pow2] by blast
qed

lemma shard_selection_witness:
  "get_shard_index \<lparr>hid = 0, peak_size = 0, alloc_fail_cnt = 0, erase_cnt = 0, destroy_cnt = 0,
     shards = replicate 4 ([] :: (int64 \<times> nat) list)\<rparr> 13 = 1"
  using shard_selection [of 4 13, where 'a = nat]
  by (simp add: otel_handle_new_def otel_handle_init_def)

text \<open>Client programs over a handle map: insertions, removals and lookups.\<close>

datatype 'a handle_op = Op_emplace int64 'a | Op_erase int64 | Op_find int64

datatype 'a handle_out = Out_emplaced bool | Out_erased | Out_found "'a option"

fun run_handle :: "'a handle_op list \<Rightarrow> 'a otel_handle \<Rightarrow> 'a otel_handle \<times> 'a handle_out list" where
  "run_handle [] h = (h, [])"
| "run_handle (Op_emplace k v # ops) h =
     (let (h', r) = handle_emplace False k v ''duplicate'' ''exception'' h;
          (h'', outs) = run_handle ops h' in (h'', Out_emplaced (is_ok r) # outs))"
| "run_handle (Op_erase k # ops) h =
     (let (h'', outs) = run_handle ops (handle_erase k h) in (h'', Out_erased # outs))"
| "run_handle (Op_find k # ops) h =
     (let (h'', outs) = run_handle ops h in (h'', Out_found (otel_map_find h k) # outs))"

fun run_map :: "'a handle_op list \<Rightarrow> (int64 \<rightharpoonup> 'a) \<Rightarrow> (int64 \<rightharpoonup> 'a) \<times> 'a handle_out list" where
  "run_map [] m = (m, [])"
| "run_map (Op_emplace k v # ops) m =
     (let (m', outs) = run_map ops (if m k = None then m(k \<mapsto> v) else m)
      in (m', Out_emplaced (m k = None) # outs))"
| "run_map (Op_erase k # ops) m =
     (let (m', outs) = run_map ops (m(k := None)) in (m', Out_erased # outs))"
| "run_map (Op_find k # ops) m =
     (let (m', outs) = run_map ops m in (m', Out_found (m k) # outs))"

lemma handle_emplace_step:
  assumes "handle_inv h"
  shows "handle_inv (fst (handle_emplace False k v d e h))"
    and "is_ok (snd (handle_emplace False k v d e h)) = (otel_map_find h k = None)"
    and "otel_map_find (fst (handle_emplace False k v d e h)) =
      (if otel_map_find h k = None then (otel_map_find h)(k \<mapsto> v) else otel_map_find h)"
proof -
  have f: "fst (handle_emplace False k v d e h) = handle_insert k v h"
    by (cases "otel_map_find h k = None")
      (auto simp: handle_insert_eq handle_emplace_fresh handle_emplace_failed)
  show "handle_inv (fst (handle_emplace False k v d e h))"
    by (simp add: f hm.inv_insert assms)
  show "is_ok (snd (handle_emplace False k v d e h)) = (otel_map_find h k = None)"
    by (cases "otel_map_find h k = None") (auto simp: handle_emplace_fresh handle_emplace_failed)
  show "otel_map_find (fst (handle_emplace False k v d e h)) =
      (if otel_map_find h k = None then (otel_map_find h)(k \<mapsto> v) else otel_map_find h)"
    using hm.lookup_insert [OF assms, of k v] by (auto simp: f handle_insert_eq)
qed

lemma run_handle_simulates:
  assumes "handle_inv h"
  shows "handle_inv (fst (run_handle ops h)) \<and>
    (otel_map_find (fst (run_handle ops h)), snd (run_handle ops h)) = run_map ops (otel_map_find h)"
  using assms
proof (induction ops arbitrary: h)
  case (Cons op ops)
  show ?case
  proof (cases op)
    case (Op_emplace k v)
    let ?r = "handle_emplace False k v ''duplicate'' ''exception'' h"
    note st = handle_emplace_step [OF Cons.prems, of k v "''duplicate''" "''exception''"]
    show ?thesis
      using Cons.IH [OF st(1)] st(2,3) Op_emplace
      by (auto simp: Let_def fun_upd_def split: prod.splits)
  next
    case (Op_erase k)
    then show ?thesis
      using Cons.IH [OF hm.inv_erase [OF Cons.prems, of k]] hm.lookup_erase [OF Cons.prems, of k]
      by (auto simp: Let_def fun_upd_def split: prod.splits)
  next
    case (Op_find k)
    then show ?thesis
      using Cons.IH [OF Cons.prems] by (auto simp: Let_def split: prod.splits)
  qed
qed simp

text \<open>
  C4: Sharding is invisible.  Started from a freshly constructed map of any accepted shard count,
  every program of insertions, removals and lookups produces the answers and the final contents
  of one flat partial map, keeps the partition invariant, and the total size summed over the
  shards is the number of live keys.
\<close>
theorem handle_map_refines:
  assumes "otel_handle_new n = ok h"
  shows "(otel_map_find (fst (run_handle ops h)), snd (run_handle ops h)) = run_map ops Map.empty \<and>
    handle_inv (fst (run_handle ops h)) \<and>
    total_map_size (fst (run_handle ops h)) = card (dom (fst (run_map ops Map.empty)))"
proof -
  note i = otel_handle_new_inv [OF assms]
  note s = run_handle_simulates [OF conjunct1 [OF i], of ops]
  have "fst (run_map ops Map.empty) = otel_map_find (fst (run_handle ops h))"
    using s i by (metis fst_conv)
  then show ?thesis
    using s i hm.card_dom [of "fst (run_handle ops h)"] by (simp add: total_map_size_entries)
qed

lemma handle_map_refines_witness:
  "\<exists>h :: nat otel_handle. otel_handle_new 2 = ok h \<and>
     (otel_map_find (fst (run_handle [Op_emplace 5 7, Op_emplace 5 8, Op_find 5] h)),
      snd (run_handle [Op_emplace 5 7, Op_emplace 5 8, Op_find 5] h)) =
     run_map [Op_emplace 5 7, Op_emplace 5 8, Op_find 5] Map.empty"
proof -
  obtain h :: "nat otel_handle" where "otel_handle_new 2 = ok h"
    by (simp add: otel_handle_new_def otel_handle_init_def)
  with handle_map_refines [OF this, of "[Op_emplace 5 7, Op_emplace 5 8, Op_find 5]"] show ?thesis
    by blast
qed

text \<open>
  Clearing a handle map deletes every stored object exactly once, in one pass over the shards,
  and leaves an empty map with the same shards on which no key resolves.
\<close>
theorem clear_locked_deletes_once:
  assumes "handle_inv h"
  shows "\<exists>kvs. distinct (map fst kvs) \<and> set kvs = {(k, v). otel_map_find h k = Some v} \<and>
    snd (clear_locked h) = map snd kvs \<and>
    handle_inv (fst (clear_locked h)) \<and> otel_map_find (fst (clear_locked h)) = Map.empty"
  using clear_locked_empties [OF assms] hm.entries_lookup [OF assms] hm.entries_distinct [OF assms]
  by (intro exI [of _ "handle_entries h"]) (simp add: clear_locked_eq)

lemma clear_locked_deletes_once_witness:
  "\<exists>h :: nat otel_handle. handle_inv h \<and> snd (clear_locked h) = [7] \<and>
     otel_map_find (fst (clear_locked h)) = Map.empty"
proof -
  let ?init = "\<lparr>hid = 0, peak_size = 0, alloc_fail_cnt = 0, erase_cnt = 0, destroy_cnt = 0,
    shards = [[], []]\<rparr> :: nat otel_handle"
  let ?h = "handle_insert 5 7 ?init"
  have "unat (2 :: size_t) = Suc (Suc 0)" by simp
  then have "otel_handle_new 2 = ok ?init"
    by (simp only: otel_handle_new_ok) simp
  then have i: "handle_inv ?h"
    using otel_handle_new_inv by (blast intro: handle_inv_insert)
  have "snd (clear_locked ?h) = [7]"
    by code_simp
  then show ?thesis
    using clear_locked_deletes_once [OF i] i by blast
qed

end
