(* ===== verification/Otel_Sdk.thy ===== *)
theory Otel_Sdk
  imports Otel_Strings Otel_Values Otel_HandleMap
begin

text \<open>
  The boundary with the OpenTelemetry C++ SDK, which is not part of the repository.  What the
  wrapper asks of it is a list of calls, the newest first; what the SDK answers is a function of
  that history, a field of the parameter \<open>sdk\<close>.  Baggage (\<open>'b\<close>) and trace states (\<open>'t\<close>) are
  immutable values, \<open>'d\<close> stands for \<open>double\<close>, and SDK spans, exporters and providers are
  numbered objects.  Allocations (\<open>new\<close>, \<open>malloc\<close>, a throwing container) fail when the oracle
  \<open>oom\<close> says so at their ordinal.
\<close>

section \<open>Arguments from the caller\<close>

text \<open>\<open>struct otelc_value\<close> as a caller passes it; the tag may be out of the enumeration.\<close>

datatype 'd cvalue =
    C_null | C_bool bool | C_int32 int32 | C_int64 int64 | C_uint32 uint32 | C_uint64 uint64
  | C_double 'd | C_string "string option" | C_data "string option" | C_other int

record 'd ckv =
  ck_key :: "string option"
  ck_value :: "'d cvalue"

fun c_str :: "string option \<Rightarrow> string" where
  "c_str None = []"
| "c_str (Some s) = s"

text \<open>The switch of \<open>otelc_value_visit\<close>; \<open>in_value_range\<close> is the caller's range check on the tag.\<close>

fun cvalue_visit :: "'d cvalue \<Rightarrow> 'd visited" where
  "cvalue_visit (C_bool b) = Vis_bool b"
| "cvalue_visit (C_int32 i) = Vis_int32 i"
| "cvalue_visit (C_int64 i) = Vis_int64 i"
| "cvalue_visit (C_uint32 i) = Vis_uint32 i"
| "cvalue_visit (C_uint64 i) = Vis_uint64 i"
| "cvalue_visit (C_double d) = Vis_double d"
| "cvalue_visit (C_string s) = Vis_str (c_str s)"
| "cvalue_visit (C_data s) = Vis_str (c_str s)"
| "cvalue_visit C_null = Vis_str []"
| "cvalue_visit (C_other _) = Vis_str []"

fun in_value_range :: "'d cvalue \<Rightarrow> bool" where
  "in_value_range C_null = False"
| "in_value_range (C_other _) = False"
| "in_value_range _ = True"

type_synonym 'd attrs = "(string \<times> 'd visited) list"

section \<open>Outcomes\<close>

text \<open>An operation returns its value or fails, with a message in the instance's \<open>err\<close> or silently.\<close>

type_synonym 'a outcome = "otel_error option + 'a"

abbreviation silent :: "'a outcome" where "silent \<equiv> Inl None"
abbreviation raise :: "string \<Rightarrow> 'a outcome" where "raise m \<equiv> Inl (Some (Err m []))"
abbreviation raisef :: "string \<Rightarrow> err_arg list \<Rightarrow> 'a outcome" where "raisef m a \<equiv> Inl (Some (Err m a))"

fun lift_result :: "'a result \<Rightarrow> 'a outcome" where
  "lift_result (Inl e) = Inl (Some e)"
| "lift_result (Inr x) = Inr x"

text \<open>The \<open>int\<close> an operation hands back.\<close>

fun outcome_int :: "int outcome \<Rightarrow> int" where
  "outcome_int (Inl _) = OTELC_RET_ERROR"
| "outcome_int (Inr n) = n"

section \<open>Span contexts, calls and answers\<close>

record 't span_ctx =
  sc_trace_id :: "8 word list"
  sc_span_id :: "8 word list"
  sc_flags :: "8 word"
  sc_remote :: bool
  sc_state :: 't

text \<open>What the wrapper reads of an \<open>otel_context::Context\<close>.\<close>

record ('b, 't) otel_ctx =
  cx_span :: "'t span_ctx"
  cx_baggage :: 'b

text \<open>How a new span finds its parent: none, a span's context, or a propagated context.\<close>

datatype ('b, 't) parent = No_parent | Parent_span "'t span_ctx" | Parent_context "('b, 't) otel_ctx"

datatype span_kind = kInternal | kServer | kClient | kProducer | kConsumer

record ('b, 't) start_options =
  so_system_time :: "int option"
  so_steady_time :: "int option"
  so_kind :: span_kind
  so_parent :: "('b, 't) parent"

text \<open>The enumerations of the metrics interface, in the order of the C header.\<close>

datatype otelc_metric_instrument_t =
    COUNTER_UINT64 | COUNTER_DOUBLE | HISTOGRAM_UINT64 | HISTOGRAM_DOUBLE | UDCOUNTER_INT64 | UDCOUNTER_DOUBLE
  | OBSERVABLE_COUNTER_INT64 | OBSERVABLE_COUNTER_DOUBLE | OBSERVABLE_GAUGE_INT64 | OBSERVABLE_GAUGE_DOUBLE
  | OBSERVABLE_UDCOUNTER_INT64 | OBSERVABLE_UDCOUNTER_DOUBLE | GAUGE_INT64 | GAUGE_DOUBLE

datatype otelc_metric_aggregation_type_t =
    AGGR_DROP | AGGR_HISTOGRAM | AGGR_LAST_VALUE | AGGR_SUM | AGGR_DEFAULT | AGGR_BASE2_EXPONENTIAL_HISTOGRAM

datatype sdk_instrument_type =
    kCounter | kHistogram | kUpDownCounter | kObservableCounter | kObservableGauge | kObservableUpDownCounter | kGauge

text \<open>What \<open>AddView\<close> is given: the instrument selector, the scope of the meter selector, the view.\<close>

record 'd sdk_view =
  sv_type :: sdk_instrument_type
  sv_instrument_name :: string
  sv_instrument_unit :: string
  sv_scope :: string
  sv_name :: string
  sv_desc :: string
  sv_aggregation :: otelc_metric_aggregation_type_t
  sv_bounds :: "'d list option"

text \<open>The adapters an observable instrument can be given, and the values a synchronous one records.\<close>

datatype observable_cb = Int64_cb | Double_cb

datatype 'd measurement = Meas_uint64 uint64 | Meas_int64 int64 | Meas_double 'd

text \<open>\<open>otel_logs::Severity\<close>, and a log record as it is emitted.\<close>

datatype severity =
    kInvalid
  | kTrace | kTrace2 | kTrace3 | kTrace4 | kDebug | kDebug2 | kDebug3 | kDebug4
  | kInfo | kInfo2 | kInfo3 | kInfo4 | kWarn | kWarn2 | kWarn3 | kWarn4
  | kError | kError2 | kError3 | kError4 | kFatal | kFatal2 | kFatal3 | kFatal4

record 'd log_record =
  lr_severity :: severity
  lr_span_id :: "8 word list"
  lr_trace_id :: "8 word list"
  lr_flags :: "8 word"
  lr_time :: "int option"
  lr_observed :: "int option"
  lr_event :: "(int \<times> string) option"
  lr_attrs :: "'d attrs"
  lr_body :: "'d visited option"

datatype ('d, 'b, 't) sdk_call =
    SetStatus nat int string
  | UpdateName nat string
  | SetAttribute nat string "'d visited"
  | AddEvent nat string "int option" "'d attrs"
  | AddLink nat "'t span_ctx" "'d attrs"
  | End nat "int option"
  | StartSpan nat string "('b, 't) start_options" "('t span_ctx \<times> 'd attrs) list"
  | ForceFlush nat int
  | ProviderShutdown nat int
  | ReleaseProvider nat
  | ExporterShutdown nat
  | OpenFile nat string
  | TruncateFile nat string
  | AddView nat "'d sdk_view"
  | CreateInstrument nat nat otelc_metric_instrument_t string string string
  | AddCallback nat observable_cb nat
  | RemoveCallback nat observable_cb nat
  | Measure nat "'d measurement" "'d attrs"
  | SetMinimumSeverity nat severity
  | EmitLogRecord nat "'d log_record"

record ('d, 'b, 't) sdk =
  oom :: "nat \<Rightarrow> bool"
  is_recording :: "('d, 'b, 't) sdk_call list \<Rightarrow> nat \<Rightarrow> bool"
  get_context :: "nat \<Rightarrow> 't span_ctx"
  ctx_is_valid :: "'t span_ctx \<Rightarrow> bool"
  ctx_is_sampled :: "'t span_ctx \<Rightarrow> bool"
  bag_default :: 'b
  bag_set :: "'b \<Rightarrow> string \<Rightarrow> string \<Rightarrow> 'b"
  bag_get :: "'b \<Rightarrow> string \<Rightarrow> string option"
  ts_default :: 't
  ts_from_header :: "string \<Rightarrow> 't"
  ts_get :: "'t \<Rightarrow> string \<Rightarrow> string option"
  ts_entries :: "'t \<Rightarrow> (string \<times> string) list"
  ts_header :: "'t \<Rightarrow> string"
  ts_empty :: "'t \<Rightarrow> bool"
  ts_set :: "'t \<Rightarrow> string \<Rightarrow> string \<Rightarrow> 't"
  ts_delete :: "'t \<Rightarrow> string \<Rightarrow> 't"
  sdk_start_span :: "('d, 'b, 't) sdk_call list \<Rightarrow> nat option"
  sdk_inject :: "nat \<Rightarrow> 'b option \<Rightarrow> (string \<times> string) list \<Rightarrow> (string \<times> string) list"
  sdk_extract :: "(string \<times> string) list \<Rightarrow> ('b, 't) otel_ctx"
  sdk_force_flush :: "('d, 'b, 't) sdk_call list \<Rightarrow> bool"
  sdk_shutdown :: "('d, 'b, 't) sdk_call list \<Rightarrow> bool"
  sdk_tracer_enabled :: "('d, 'b, 't) sdk_call list \<Rightarrow> bool"
  sdk_get_tracer :: "('d, 'b, 't) sdk_call list \<Rightarrow> bool"
  sdk_get_meter :: "('d, 'b, 't) sdk_call list \<Rightarrow> bool"
  sdk_create_instrument :: "('d, 'b, 't) sdk_call list \<Rightarrow> nat option"
  valid_name :: "string \<Rightarrow> bool"
  valid_unit :: "string \<Rightarrow> bool"
  valid_description :: "string \<Rightarrow> bool"
  sdk_get_logger :: "('d, 'b, 't) sdk_call list \<Rightarrow> bool"
  sdk_log_enabled :: "('d, 'b, 't) sdk_call list \<Rightarrow> nat \<Rightarrow> severity \<Rightarrow> bool"
  sdk_create_record :: "('d, 'b, 't) sdk_call list \<Rightarrow> bool"
  file_opens :: "('d, 'b, 't) sdk_call list \<Rightarrow> string \<Rightarrow> bool"
  os_error :: string

section \<open>The state the span and tracer operations share\<close>

record 'b span_handle =
  sh_span :: nat
  sh_baggage :: "'b option"

text \<open>The structures the caller holds: the address of the C structure and its map index.  An operation
  is given the contents of the structure, so it stands for a call with a pointer to a structure that
  is still allocated; an end or a destroy frees it, and a later use of a copy of the pointer, which
  would read freed memory, is outside the model.\<close>

record otelc_span =
  sp_addr :: nat
  sp_idx :: int64

record otelc_span_context =
  sx_addr :: nat
  sx_idx :: int64

text \<open>The global handle maps (null outside the life of a tracer), the SDK calls made, the
  allocations tried, the C structures not yet freed, the tracer count and the id bases a teardown
  leaves for the next pair of maps.\<close>

record ('d, 'b, 't) world =
  otel_span :: "'b span_handle otel_handle option"
  otel_span_context :: "('b, 't) otel_ctx otel_handle option"
  calls :: "('d, 'b, 't) sdk_call list"
  tried :: nat
  live :: "nat set"
  otel_tracer_count :: int
  otel_span_id_base :: int64
  otel_span_context_id_base :: int64

definition call :: "('d, 'b, 't) sdk_call \<Rightarrow> ('d, 'b, 't) world \<Rightarrow> ('d, 'b, 't) world" where
  "call c w = w\<lparr>calls := c # calls w\<rparr>"

definition try_alloc :: "('d, 'b, 't) sdk \<Rightarrow> ('d, 'b, 't) world \<Rightarrow> bool \<times> ('d, 'b, 't) world" where
  "try_alloc sdk w = (\<not> oom sdk (tried w), w\<lparr>tried := Suc (tried w)\<rparr>)"

text \<open>A C structure is a fresh address, 0 when the allocation fails.\<close>

definition ext_malloc :: "('d, 'b, 't) sdk \<Rightarrow> ('d, 'b, 't) world \<Rightarrow> nat \<times> ('d, 'b, 't) world" where
  "ext_malloc sdk w =
     (if oom sdk (tried w) then (0, w\<lparr>tried := Suc (tried w)\<rparr>)
      else (Suc (tried w), w\<lparr>tried := Suc (tried w), live := insert (Suc (tried w)) (live w)\<rparr>))"

text \<open>Only structures in \<open>live\<close> may be freed; a second free is undefined in C and not given a meaning here.\<close>

definition ext_free :: "nat \<Rightarrow> ('d, 'b, 't) world \<Rightarrow> ('d, 'b, 't) world" where
  "ext_free a w = w\<lparr>live := live w - {a}\<rparr>"

lemma call_simps [simp]:
  "otel_span (call c w) = otel_span w" "otel_span_context (call c w) = otel_span_context w"
  "calls (call c w) = c # calls w" "live (call c w) = live w" "tried (call c w) = tried w"
  by (simp_all add: call_def)

lemma ext_free_simps [simp]:
  "otel_span (ext_free a w) = otel_span w" "otel_span_context (ext_free a w) = otel_span_context w"
  "calls (ext_free a w) = calls w" "live (ext_free a w) = live w - {a}" "tried (ext_free a w) = tried w"
  by (simp_all add: ext_free_def)

section \<open>Attributes\<close>

text \<open>\<open>OTEL_VALUE_ADD\<close> on an attribute list: a null value or null type adds the empty string, a tag
  out of range is an error, and so is a throwing container (whose own text is left out of the message).  A null key would be dereferenced
  by the SDK's string view: undefined behaviour, the outer \<open>None\<close>.\<close>

definition value_add ::
  "('d, 'b, 't) sdk \<Rightarrow> string \<Rightarrow> 'd attrs \<Rightarrow> string option \<Rightarrow> 'd cvalue option \<Rightarrow> ('d, 'b, 't) world \<Rightarrow>
   ('d attrs outcome \<times> ('d, 'b, 't) world) option" where
  "value_add sdk msg attr key val w =
     (if val = None \<or> val = Some C_null \<or> (\<exists>v. val = Some v \<and> in_value_range v)
      then (case key of
          None \<Rightarrow> None
        | Some k \<Rightarrow>
            let (fine, w1) = try_alloc sdk w in
            if \<not> fine then Some (raise msg, w1)
            else Some (Inr (attr @ [(k, case val of None \<Rightarrow> Vis_str [] | Some v \<Rightarrow> cvalue_visit v)]), w1))
      else Some (raise msg, w))"

text \<open>Such a key is not refused: it reaches the string view whatever the value is.\<close>

lemma value_add_null_key:
  "val = None \<or> val = Some C_null \<or> (\<exists>v. val = Some v \<and> in_value_range v) \<Longrightarrow> value_add sdk msg attr None val w = None"
  by (simp add: value_add_def)

fun value_add_all ::
  "('d, 'b, 't) sdk \<Rightarrow> string \<Rightarrow> 'd attrs \<Rightarrow> 'd ckv list \<Rightarrow> ('d, 'b, 't) world \<Rightarrow>
   ('d attrs outcome \<times> ('d, 'b, 't) world) option" where
  "value_add_all sdk msg attr [] w = Some (Inr attr, w)"
| "value_add_all sdk msg attr (kv # kvs) w =
     (case value_add sdk msg attr (ck_key kv) (Some (ck_value kv)) w of
        None \<Rightarrow> None
      | Some (Inl e, w1) \<Rightarrow> Some (Inl e, w1)
      | Some (Inr attr1, w1) \<Rightarrow> value_add_all sdk msg attr1 kvs w1)"

end
