(* ===== verification/Otel_Yaml.thy ===== *)
theory Otel_Yaml
  imports Otel_Strings
begin

text \<open>
  The configuration reader of \<open>src/yaml.cpp\<close>, in its rapidyaml build.  A parsed document is
  a tree of \<open>yaml_node\<close>s; a node identifier of the library is the list of child positions
  from the root.  Opening a file and parsing its text belong to the operating system and to
  rapidyaml: they are the arguments \<open>read_file\<close> and \<open>parse\<close> of \<open>yaml_open\<close>; the conversion
  of floating-point text is the argument \<open>strtod\<close>.  Buffers filled by \<open>snprintf\<close> and
  \<open>otelc_strlcpy\<close> keep at most their size less one characters.
\<close>

section \<open>Documents\<close>

datatype yaml_node =
    Y_none
  | Y_val string
  | Y_map "(string \<times> yaml_node) list"
  | Y_seq "yaml_node list"

fun is_seq :: "yaml_node \<Rightarrow> bool" where
  "is_seq (Y_seq _) = True"
| "is_seq _ = False"

fun is_map :: "yaml_node \<Rightarrow> bool" where
  "is_map (Y_map _) = True"
| "is_map _ = False"

fun has_val :: "yaml_node \<Rightarrow> bool" where
  "has_val (Y_val _) = True"
| "has_val _ = False"

fun node_val :: "yaml_node \<Rightarrow> string" where
  "node_val (Y_val v) = v"
| "node_val _ = []"

fun node_children :: "yaml_node \<Rightarrow> yaml_node list" where
  "node_children (Y_seq xs) = xs"
| "node_children (Y_map kvs) = map snd kvs"
| "node_children _ = []"

definition num_children :: "yaml_node \<Rightarrow> nat" where
  "num_children n = length (node_children n)"

text \<open>Child lookup by key finds the first entry; only a map has keys.\<close>

fun child_by_key :: "yaml_node \<Rightarrow> string \<Rightarrow> yaml_node option" where
  "child_by_key (Y_map kvs) k = map_of kvs k"
| "child_by_key _ k = None"

section \<open>Lookup by path\<close>

definition OTEL_YAML_BUFSIZ :: nat where
  "OTEL_YAML_BUFSIZ = 4096"

definition SIZE_MAX :: nat where
  "SIZE_MAX = 18446744073709551615"

definition snprintf_buf :: "nat \<Rightarrow> string \<Rightarrow> string" where
  "snprintf_buf n s = take (n - 1) s"

fun split_on :: "char \<Rightarrow> string \<Rightarrow> string list" where
  "split_on c [] = [[]]"
| "split_on c (x # xs) =
     (if x = c then [] # split_on c xs
      else case split_on c xs of [] \<Rightarrow> [[x]] | p # ps \<Rightarrow> (x # p) # ps)"

text \<open>The index loop: digits only, and an index that would wrap is refused.\<close>

fun parse_index :: "nat \<Rightarrow> string \<Rightarrow> nat option" where
  "parse_index idx [] = Some idx"
| "parse_index idx (c # cs) =
     (if 48 \<le> char_code c \<and> char_code c \<le> (57 :: nat)
      then let digit = char_code c - 48 in
        if idx > (SIZE_MAX - digit) div 10 then None else parse_index (idx * 10 + digit) cs
      else None)"

fun yaml_walk :: "yaml_node \<Rightarrow> string list \<Rightarrow> yaml_node option" where
  "yaml_walk node [] = Some node"
| "yaml_walk node (part # parts) =
     (if is_seq node
      then if part = [] then None
        else case parse_index 0 part of
            None \<Rightarrow> None
          | Some idx \<Rightarrow>
              if idx \<ge> num_children node then None else yaml_walk (node_children node ! idx) parts
      else case child_by_key node part of None \<Rightarrow> None | Some n \<Rightarrow> yaml_walk n parts)"

definition ryml_get_node_by_path :: "yaml_node option \<Rightarrow> string option \<Rightarrow> yaml_node option" where
  "ryml_get_node_by_path tree path =
     (case (tree, path) of
        (Some node, Some path) \<Rightarrow>
          let p = (case path of CHR ''/'' # p \<Rightarrow> p | _ \<Rightarrow> path) in
          if p = [] then Some node else yaml_walk node (split_on CHR ''/'' p)
      | _ \<Rightarrow> None)"

definition yaml_node_exists :: "yaml_node option \<Rightarrow> string \<Rightarrow> bool" where
  "yaml_node_exists fyd path \<longleftrightarrow> ryml_get_node_by_path fyd (Some path) \<noteq> None"

section \<open>Paths of nodes and duplicate keys\<close>

fun node_at :: "yaml_node \<Rightarrow> nat list \<Rightarrow> yaml_node option" where
  "node_at n [] = Some n"
| "node_at n (i # is) =
     (if i < num_children n then node_at (node_children n ! i) is else None)"

fun path_segment :: "yaml_node \<Rightarrow> nat \<Rightarrow> string" where
  "path_segment (Y_map kvs) i = CHR ''/'' # fst (kvs ! i)"
| "path_segment (Y_seq xs) i = CHR ''/'' # dec_string i"
| "path_segment _ i = ''/''"

fun ryml_node_path :: "yaml_node \<Rightarrow> nat list \<Rightarrow> string" where
  "ryml_node_path n [] = []"
| "ryml_node_path n (i # is) = path_segment n i @ ryml_node_path (node_children n ! i) is"

text \<open>The first child whose key occurs again among its later siblings.\<close>

fun first_dup :: "nat \<Rightarrow> string list \<Rightarrow> nat option" where
  "first_dup i [] = None"
| "first_dup i (k # ks) = (if k \<in> set ks then Some i else first_dup (Suc i) ks)"

fun map_keys :: "yaml_node \<Rightarrow> string list" where
  "map_keys (Y_map kvs) = map fst kvs"
| "map_keys _ = []"

text \<open>Node identifiers grow in parse order, which is the pre-order of the tree.\<close>

fun all_positions :: "yaml_node \<Rightarrow> nat list list" where
  "all_positions (Y_seq xs) =
     [] # concat (map (\<lambda>(i, ps). map (\<lambda>p. i # p) ps) (enumerate 0 (map all_positions xs)))"
| "all_positions (Y_map kvs) =
     [] # concat (map (\<lambda>(i, ps). map (\<lambda>p. i # p) ps) (enumerate 0 (map (\<lambda>kv. all_positions (snd kv)) kvs)))"
| "all_positions _ = [[]]"

fun find_dup_in :: "yaml_node \<Rightarrow> nat list list \<Rightarrow> string option" where
  "find_dup_in tree [] = None"
| "find_dup_in tree (p # ps) =
     (case node_at tree p of
        None \<Rightarrow> find_dup_in tree ps
      | Some n \<Rightarrow> (case first_dup 0 (map_keys n) of
            None \<Rightarrow> find_dup_in tree ps
          | Some a \<Rightarrow> Some (ryml_node_path tree (p @ [a]))))"

definition ryml_find_duplicate_keys :: "yaml_node option \<Rightarrow> unit result" where
  "ryml_find_duplicate_keys tree =
     (case tree of
        None \<Rightarrow> ok ()
      | Some t \<Rightarrow> (case find_dup_in t (all_positions t) of
            None \<Rightarrow> ok ()
          | Some path \<Rightarrow> failf ''Duplicate YAML key: %s'' [Arg_str path]))"

definition yaml_open ::
  "(string \<Rightarrow> string option) \<Rightarrow> (string \<Rightarrow> string + yaml_node) \<Rightarrow> bool \<Rightarrow> string option \<Rightarrow> yaml_node result" where
  "yaml_open read_file parse oom file =
     (case file of
        None \<Rightarrow> fail ''YAML file name not specified''
      | Some f \<Rightarrow> (case read_file f of
            None \<Rightarrow> failf ''%s: unable to open YAML file'' [Arg_str f]
          | Some content \<Rightarrow>
              if oom then fail ''Unable to allocate memory for ryml tree''
              else (case parse content of
                  Inl what \<Rightarrow> failf ''%s: unable to parse OpenTelemetry configuration: %s''
                                [Arg_str f, Arg_str what]
                | Inr tree \<Rightarrow> rbind (ryml_find_duplicate_keys (Some tree)) (\<lambda>_. ok tree))))"

section \<open>Resolution of a context name\<close>

definition OTEL_YAML_NAME_DEFAULT :: string where
  "OTEL_YAML_NAME_DEFAULT = ''default''"

definition OTEL_YAML_SCOPE_NAME :: string where
  "OTEL_YAML_SCOPE_NAME = ''scope_name''"

datatype otelc_ctx_name =
    CTX_NAME_UNSET_DEFAULT
  | CTX_NAME_FOUND
  | CTX_NAME_DEFAULT
  | CTX_NAME_FLAT
  | CTX_NAME_NOT_FOUND
  | CTX_NAME_UNSET_FLAT
  | CTX_NAME_UNSET_NOT_FOUND
  | CTX_NAME_ABSENT

definition yaml_probe_nstate ::
  "yaml_node option \<Rightarrow> string option \<Rightarrow> string option \<Rightarrow> bool \<Rightarrow> otelc_ctx_name" where
  "yaml_probe_nstate fyd base name name_set =
     (let probing = (fyd \<noteq> None \<and> str_is_valid base);
          b = (case base of None \<Rightarrow> [] | Some b \<Rightarrow> b);
          probe = (\<lambda>suffix. yaml_node_exists fyd (snprintf_buf OTEL_YAML_BUFSIZ (b @ ''/'' @ suffix)));
          has_name = (probing \<and> name_set \<and> str_is_valid name \<and> probe (case name of None \<Rightarrow> [] | Some n \<Rightarrow> n));
          has_default = (probing \<and> probe OTEL_YAML_NAME_DEFAULT);
          has_flat = (probing \<and> probe OTEL_YAML_SCOPE_NAME)
      in if probing \<and> \<not> yaml_node_exists fyd b then CTX_NAME_ABSENT
         else if name_set
         then (if has_name then CTX_NAME_FOUND
               else if has_default then CTX_NAME_DEFAULT
               else if has_flat then CTX_NAME_FLAT
               else CTX_NAME_NOT_FOUND)
         else (if has_default then CTX_NAME_UNSET_DEFAULT
               else if has_flat then CTX_NAME_UNSET_FLAT
               else CTX_NAME_UNSET_NOT_FOUND))"

text \<open>\<open>snprintf(NULL, 0, \<dots>)\<close> and the exact-size allocation that follows it.  \<open>oom n\<close> says whether
  the \<open>n\<close>-th allocation fails.\<close>

definition alloc_path :: "(nat \<Rightarrow> bool) \<Rightarrow> nat \<Rightarrow> string \<Rightarrow> string \<Rightarrow> string result" where
  "alloc_path oom n base suffix =
     (let s = base @ ''/'' @ suffix in
      if int (length s) > INT_MAX then fail ''Failed to compute prefix path length''
      else if oom n then fail ''Unable to allocate memory for resolved prefix''
      else ok s)"

text \<open>The loop over the two contexts: the first existing prefix, or the number of allocations made.\<close>

fun probe_contexts ::
  "(nat \<Rightarrow> bool) \<Rightarrow> nat \<Rightarrow> yaml_node option \<Rightarrow> string \<Rightarrow> string option list \<Rightarrow> (nat + string) result" where
  "probe_contexts oom n fyd base [] = ok (Inl n)"
| "probe_contexts oom n fyd base (c # cs) =
     (case c of
        None \<Rightarrow> probe_contexts oom n fyd base cs
      | Some ctx \<Rightarrow>
          if ctx = [] then probe_contexts oom n fyd base cs
          else rbind (alloc_path oom n base ctx) (\<lambda>prefix.
            if ryml_get_node_by_path fyd (Some prefix) \<noteq> None then ok (Inr prefix)
            else probe_contexts oom (Suc n) fyd base cs))"

definition yaml_resolve_prefix ::
  "(nat \<Rightarrow> bool) \<Rightarrow> yaml_node option \<Rightarrow> string option \<Rightarrow> string option \<Rightarrow> string option \<Rightarrow> bool \<Rightarrow> string result" where
  "yaml_resolve_prefix oom fyd base name fallback has_prefix =
     (if fyd = None then fail ''YAML document not specified''
      else if \<not> str_is_valid base then fail ''YAML base path not specified''
      else if \<not> str_is_valid name \<and> \<not> str_is_valid fallback
      then fail ''At least one of name or fallback must be specified''
      else if \<not> has_prefix then fail ''Prefix pointer not specified''
      else if (case name of None \<Rightarrow> False | Some s \<Rightarrow> CHR ''%'' \<in> set s)
      then failf ''%s: invalid character in YAML context name'' [Arg_str (the name)]
      else if (case fallback of None \<Rightarrow> False | Some s \<Rightarrow> CHR ''%'' \<in> set s)
      then failf ''%s: invalid character in YAML context name'' [Arg_str (the fallback)]
      else
        let b = the base;
            c0 = (if name \<noteq> None \<and> name = fallback then None else name);
            c1 = fallback
        in rbind (probe_contexts oom 0 fyd b [c0, c1]) (\<lambda>r. case r of
             Inr prefix \<Rightarrow> ok prefix
           | Inl n \<Rightarrow> rbind (alloc_path oom n b OTEL_YAML_SCOPE_NAME) (\<lambda>probe.
               if yaml_node_exists fyd probe
               then (if oom (Suc n) then fail ''Unable to allocate memory for resolved prefix'' else ok b)
               else if str_is_valid c0 \<and> str_is_valid c1
               then failf ''%s: no %s or %s configuration found'' [Arg_str b, Arg_str (the name), Arg_str (the fallback)]
               else failf ''%s: no %s configuration found''
                      [Arg_str b, Arg_str (if str_is_valid name then the name else the fallback)])))"

section \<open>Scalars\<close>

text \<open>The common lookup: a scalar that is not empty, cut to the buffer of \<open>n\<close> bytes.\<close>

definition copy_scalar :: "yaml_node option \<Rightarrow> string \<Rightarrow> nat \<Rightarrow> string option" where
  "copy_scalar fyd path n = (case ryml_get_node_by_path fyd (Some path) of
       None \<Rightarrow> None
     | Some node \<Rightarrow> if has_val node \<and> node_val node \<noteq> [] then Some (take (n - 1) (node_val node)) else None)"

text \<open>\<open>yaml_find\<close>: \<open>Some v\<close> is the return value 1 with \<open>v\<close> in the buffer, \<open>None\<close> is 0.\<close>

definition yaml_find ::
  "yaml_node option \<Rightarrow> bool \<Rightarrow> string option \<Rightarrow> string option \<Rightarrow> nat option \<Rightarrow> string option result" where
  "yaml_find fyd is_mandatory desc path data_size =
     (if fyd = None then fail ''YAML document name not specified''
      else if desc = None then fail ''YAML node description not specified''
      else if \<not> str_is_valid path then fail ''YAML node path not specified''
      else if data_size = None \<or> data_size = Some 0 then fail ''Data buffer not specified or has zero size''
      else case copy_scalar fyd (the path) (the data_size) of
          Some v \<Rightarrow> ok (Some v)
        | None \<Rightarrow> if is_mandatory
            then failf ''%s: not specified in the YAML document'' [Arg_str (the desc)] else ok None)"

section \<open>Sequences\<close>

type_synonym text_pairs = "(string \<times> string) list"

text \<open>
  The text map a sequence fills: \<open>None\<close> until it is created, then its pairs.  \<open>oom n\<close> says whether
  the \<open>n\<close>-th call of \<open>otelc_text_map_new\<close> / \<open>otelc_text_map_add\<close> fails.
\<close>

fun seq_add_kvs ::
  "(nat \<Rightarrow> bool) \<Rightarrow> (string \<times> yaml_node) list \<Rightarrow> text_pairs option \<times> nat \<Rightarrow>
   (text_pairs option \<times> nat) \<times> unit result" where
  "seq_add_kvs oom [] st = (st, ok ())"
| "seq_add_kvs oom ((key, node) # kvs) (m, n) =
     (if key = [] \<or> \<not> has_val node then seq_add_kvs oom kvs (m, n)
      else
        let (m', n') = (if m = None then (if oom n then None else Some [], Suc n) else (m, n)) in
        case m' of
          None \<Rightarrow> ((None, n'), fail ''Unable to allocate memory for text map'')
        | Some pairs \<Rightarrow>
            if oom n' then ((m', Suc n'), fail ''Unable to add a key-value pair to a text map'')
            else seq_add_kvs oom kvs (Some (pairs @ [(key, node_val node)]), Suc n'))"

fun seq_add_items ::
  "(nat \<Rightarrow> bool) \<Rightarrow> string \<Rightarrow> nat \<Rightarrow> yaml_node list \<Rightarrow> text_pairs option \<times> nat \<Rightarrow>
   (text_pairs option \<times> nat) \<times> int result" where
  "seq_add_items oom path i [] st = (st, ok (int i))"
| "seq_add_items oom path i (child # cs) st =
     (case child of
        Y_map kvs \<Rightarrow>
          (case seq_add_kvs oom kvs st of
             (st', Inl e) \<Rightarrow> (st', Inl e)
           | (st', Inr _) \<Rightarrow> seq_add_items oom path (Suc i) cs st')
      | _ \<Rightarrow> (st, failf ''%s[%d]: error while iterating YAML sequence (not a map)'' [Arg_str path, Arg_int (int i)]))"

definition yaml_get_sequence ::
  "(nat \<Rightarrow> bool) \<Rightarrow> yaml_node option \<Rightarrow> string option \<Rightarrow> text_pairs option option \<Rightarrow>
   text_pairs option option \<times> int result" where
  "yaml_get_sequence oom fyd path map_ptr =
     (if fyd = None then (map_ptr, fail ''YAML document name not specified'')
      else if \<not> str_is_valid path then (map_ptr, fail ''YAML node path not specified'')
      else case map_ptr of
          None \<Rightarrow> (map_ptr, fail ''Text map pointer not specified'')
        | Some m \<Rightarrow> (case ryml_get_node_by_path fyd path of
              None \<Rightarrow> (map_ptr, ok 0)
            | Some (Y_seq cs) \<Rightarrow>
                let ((m', _), r) = seq_add_items oom (the path) 0 cs (m, 0) in (Some m', r)
            | Some _ \<Rightarrow> (map_ptr, failf ''%s: not a YAML sequence'' [Arg_str (the path)])))"

definition yaml_get_sequence_len :: "yaml_node option \<Rightarrow> string option \<Rightarrow> int result" where
  "yaml_get_sequence_len fyd path =
     (if fyd = None then fail ''YAML document name not specified''
      else if \<not> str_is_valid path then fail ''YAML node path not specified''
      else case ryml_get_node_by_path fyd path of
          None \<Rightarrow> failf ''%s: path does not exist'' [Arg_str (the path)]
        | Some node \<Rightarrow>
            if is_seq node then ok (int (num_children node))
            else failf ''%s: not a YAML sequence'' [Arg_str (the path)])"

definition yaml_is_sequence :: "yaml_node option \<Rightarrow> string option \<Rightarrow> bool" where
  "yaml_is_sequence fyd path =
     (case ryml_get_node_by_path fyd path of None \<Rightarrow> False | Some node \<Rightarrow> is_seq node)"

definition yaml_get_sequence_value ::
  "yaml_node option \<Rightarrow> string option \<Rightarrow> int \<Rightarrow> nat option \<Rightarrow> string result" where
  "yaml_get_sequence_value fyd path index data_size =
     (if fyd = None then fail ''YAML document name not specified''
      else if \<not> str_is_valid path then fail ''YAML node path not specified''
      else if index < 0 then failf ''%s[%d]: index out of bounds'' [Arg_str (the path), Arg_int index]
      else if data_size = None \<or> data_size = Some 0 then fail ''Data buffer not specified or has zero size''
      else case ryml_get_node_by_path fyd path of
          None \<Rightarrow> failf ''%s: path does not exist'' [Arg_str (the path)]
        | Some node \<Rightarrow>
            if \<not> is_seq node then failf ''%s: not a YAML sequence'' [Arg_str (the path)]
            else if nat index \<ge> num_children node
            then failf ''%s[%d]: index out of bounds'' [Arg_str (the path), Arg_int index]
            else let item = node_children node ! nat index in
              if \<not> has_val item then failf ''%s[%d]: not a scalar value'' [Arg_str (the path), Arg_int index]
              else if node_val item = []
              then failf ''%s[%d]: invalid value'' [Arg_str (the path), Arg_int index]
              else ok (take (the data_size - 1) (node_val item)))"

definition yaml_find_sequence ::
  "(nat \<Rightarrow> bool) \<Rightarrow> yaml_node option \<Rightarrow> bool \<Rightarrow> string option \<Rightarrow> string option \<Rightarrow> text_pairs option option \<Rightarrow>
   text_pairs option option \<times> int result" where
  "yaml_find_sequence oom fyd is_mandatory path sequence map_ptr =
     (if \<not> str_is_valid sequence then (map_ptr, fail ''YAML sequence name not specified'')
      else case yaml_find fyd is_mandatory sequence path (Some OTEL_YAML_BUFSIZ) of
          Inl e \<Rightarrow> (map_ptr, Inl e)
        | Inr None \<Rightarrow> (map_ptr, ok 0)
        | Inr (Some arg) \<Rightarrow>
            let path_seq = snprintf_buf (2 * OTEL_YAML_BUFSIZ) (''/'' @ the sequence @ ''/'' @ arg) in
            (case yaml_get_sequence oom fyd (Some path_seq) map_ptr of
               (m, r) \<Rightarrow> if r = ok 0 \<and> is_mandatory
                 then (m, failf ''%s: sequence not specified'' [Arg_str path_seq]) else (m, r)))"

section \<open>Typed arguments\<close>

text \<open>
  The variable argument list of \<open>yaml_get_node\<close>: a type, whether it is mandatory, a path format
  with one \<open>%s\<close> for the entry name, and the destination's size or range.  The result lists what
  was stored, by argument number, with the return value; a destination not listed keeps what
  the caller put there.
\<close>

datatype 'd yaml_type =
    YAML_STR nat
  | YAML_BOOL
  | YAML_INT64 int int
  | YAML_DOUBLE 'd 'd
  | YAML_MAP
  | YAML_OTHER int

record 'd yaml_arg =
  arg_type :: "'d yaml_type"
  arg_mandatory :: bool
  arg_path :: "string option"

datatype 'd yaml_stored =
    Stored_str string
  | Stored_bool bool
  | Stored_int64 int
  | Stored_double 'd
  | Stored_map "text_pairs option"

fun format_name :: "string \<Rightarrow> string \<Rightarrow> string" where
  "format_name (p # s # cs) name =
     (if p = CHR ''%'' \<and> s = CHR ''s'' then name @ cs else p # format_name (s # cs) name)"
| "format_name cs name = cs"

text \<open>\<open>strrchr(path, '/') + 1\<close>, the last component, used in messages.\<close>

definition path_desc :: "string \<Rightarrow> string option" where
  "path_desc path = (if CHR ''/'' \<in> set path then Some (last (split_on CHR ''/'' path)) else None)"

definition parse_bool :: "string \<Rightarrow> bool option" where
  "parse_bool s =
     (if strcasecmp_eq s ''true'' \<or> strcasecmp_eq s ''1'' then Some True
      else if strcasecmp_eq s ''false'' \<or> strcasecmp_eq s ''0'' then Some False
      else None)"

definition parse_int64 :: "string \<Rightarrow> int \<Rightarrow> int \<Rightarrow> int option" where
  "parse_int64 s lo hi =
     (let (v, endptr, errno) = strtol s 0 in
      if endptr = Some s \<or> endptr \<noteq> Some [] \<or> errno \<noteq> No_error \<or> \<not> (lo \<le> v \<and> v \<le> hi)
      then None else Some v)"

definition parse_double ::
  "(string \<Rightarrow> 'd :: ord \<times> string \<times> errno) \<Rightarrow> string \<Rightarrow> 'd \<Rightarrow> 'd \<Rightarrow> 'd option" where
  "parse_double strtod s lo hi =
     (let (v, endptr, errno) = strtod s in
      if endptr = s \<or> endptr \<noteq> [] \<or> errno \<noteq> No_error \<or> \<not> (lo \<le> v \<and> v \<le> hi)
      then None else Some v)"

text \<open>One scalar argument once its text has been found: what is stored, \<open>None\<close> when the text is
  not valid for the type.\<close>

definition convert_arg ::
  "(string \<Rightarrow> 'd :: ord \<times> string \<times> errno) \<Rightarrow> 'd yaml_type \<Rightarrow> string \<Rightarrow> 'd yaml_stored option" where
  "convert_arg strtod ty s = (case ty of
       YAML_STR n \<Rightarrow> Some (Stored_str (take (n - 1) s))
     | YAML_BOOL \<Rightarrow> map_option Stored_bool (parse_bool s)
     | YAML_INT64 lo hi \<Rightarrow> map_option Stored_int64 (parse_int64 s lo hi)
     | YAML_DOUBLE lo hi \<Rightarrow> map_option Stored_double (parse_double strtod s lo hi)
     | _ \<Rightarrow> None)"

text \<open>One iteration of the argument loop: what it stored, and whether the argument was found.\<close>

definition yaml_arg_step ::
  "(nat \<Rightarrow> bool) \<Rightarrow> (string \<Rightarrow> 'd :: ord \<times> string \<times> errno) \<Rightarrow> yaml_node option \<Rightarrow> string \<Rightarrow> string \<Rightarrow>
   'd yaml_arg \<Rightarrow> 'd yaml_stored option \<times> bool result" where
  "yaml_arg_step oom strtod fyd desc name a = (case arg_path a of
      None \<Rightarrow> (None, failf ''%s: YAML argument path not specified'' [Arg_str desc])
    | Some path \<Rightarrow> (case path_desc path of
        None \<Rightarrow> (None, failf ''%s: invalid %s path'' [Arg_str path, Arg_str desc])
      | Some pd \<Rightarrow>
          let fmt = snprintf_buf (2 * OTEL_YAML_BUFSIZ) (format_name path name) in
          (case arg_type a of
            YAML_MAP \<Rightarrow>
              (case yaml_get_sequence oom fyd (Some fmt) (Some None) of
                 (m, Inl e) \<Rightarrow> (map_option Stored_map m, Inl e)
               | (m, Inr rc) \<Rightarrow>
                   if rc > 0 then (map_option Stored_map m, ok True)
                   else if arg_mandatory a
                   then (None, failf ''%s %s not specified'' [Arg_str desc, Arg_str pd])
                   else (None, ok False))
          | _ \<Rightarrow>
              (case copy_scalar fyd fmt OTEL_YAML_BUFSIZ of
                 None \<Rightarrow>
                   if arg_mandatory a
                   then (None, failf ''%s %s not specified'' [Arg_str desc, Arg_str pd])
                   else (case arg_type a of
                       YAML_OTHER t \<Rightarrow> (None, failf ''Invalid data type: %d'' [Arg_int t])
                     | _ \<Rightarrow> (None, ok False))
               | Some s \<Rightarrow>
                   (case arg_type a of
                      YAML_OTHER t \<Rightarrow> (None, failf ''Invalid data type: %d'' [Arg_int t])
                    | ty \<Rightarrow> (case convert_arg strtod ty s of
                        None \<Rightarrow> (None, failf ''%s: invalid %s %s'' [Arg_str s, Arg_str desc, Arg_str pd])
                      | Some v \<Rightarrow> (Some v, ok True)))))))"

fun yaml_args_loop ::
  "(nat \<Rightarrow> bool) \<Rightarrow> (string \<Rightarrow> 'd :: ord \<times> string \<times> errno) \<Rightarrow> yaml_node option \<Rightarrow> string \<Rightarrow> string \<Rightarrow>
   nat \<Rightarrow> 'd yaml_arg list \<Rightarrow> (nat \<times> 'd yaml_stored) list \<Rightarrow> int \<Rightarrow> (nat \<times> 'd yaml_stored) list \<times> int result" where
  "yaml_args_loop oom strtod fyd desc name i [] stored retval = (stored, ok retval)"
| "yaml_args_loop oom strtod fyd desc name i (a # as) stored retval =
     (case yaml_arg_step oom strtod fyd desc name a of
        (st, r) \<Rightarrow>
          let stored' = stored @ (case st of None \<Rightarrow> [] | Some v \<Rightarrow> [(i, v)]) in
          (case r of
             Inl e \<Rightarrow> (stored', Inl e)
           | Inr found \<Rightarrow> yaml_args_loop oom strtod fyd desc name (Suc i) as stored'
               (if found then retval + 1 else retval)))"

definition yaml_get_node_v ::
  "(nat \<Rightarrow> bool) \<Rightarrow> (string \<Rightarrow> 'd :: ord \<times> string \<times> errno) \<Rightarrow> yaml_node option \<Rightarrow> string option \<Rightarrow>
   string option \<Rightarrow> 'd yaml_arg list \<Rightarrow> (nat \<times> 'd yaml_stored) list \<times> int result" where
  "yaml_get_node_v oom strtod fyd desc name as =
     (if fyd = None then ([], fail ''YAML document not specified'')
      else if desc = None then ([], fail ''YAML node description not specified'')
      else if \<not> str_is_valid name then ([], fail ''YAML node name not specified'')
      else yaml_args_loop oom strtod fyd (the desc) (the name) 0 as [] 0)"

definition yaml_get_node ::
  "(nat \<Rightarrow> bool) \<Rightarrow> (string \<Rightarrow> 'd :: ord \<times> string \<times> errno) \<Rightarrow> yaml_node option \<Rightarrow> bool \<Rightarrow> string option \<Rightarrow>
   string option \<Rightarrow> string option \<Rightarrow> 'd yaml_arg list \<Rightarrow> (nat \<times> 'd yaml_stored) list \<times> int result" where
  "yaml_get_node oom strtod fyd is_mandatory desc path name as =
     (if fyd = None then ([], fail ''YAML document not specified'')
      else if desc = None then ([], fail ''YAML node description not specified'')
      else
        let found = (if name = None \<and> str_is_valid path
              then yaml_find fyd is_mandatory desc path (Some OTEL_YAML_BUFSIZ) else ok None);
            looked_up = (name = None \<and> str_is_valid path) in
        (case found of
           Inl e \<Rightarrow> ([], Inl e)
         | Inr v \<Rightarrow>
             if looked_up \<and> v = None then ([], ok 0)
             else let n = (if looked_up then v else name) in
               if \<not> str_is_valid n then ([], fail ''YAML node name not specified'')
               else if CHR ''%'' \<in> set (the n)
               then ([], failf ''%s: invalid character in YAML node name'' [Arg_str (the n)])
               else yaml_get_node_v oom strtod fyd desc n as))"

section \<open>Splitting and indices\<close>

declare split_on.simps(2) [simp del]

lemma split_on_not_Nil [simp]: "split_on c s \<noteq> []"
  by (cases s) (auto simp: split_on.simps split: list.splits)

lemma split_on_sep: "split_on c (c # s) = [] # split_on c s"
  by (simp add: split_on.simps)

lemma split_on_other:
  "x \<noteq> c \<Longrightarrow> split_on c (x # s) = (x # hd (split_on c s)) # tl (split_on c s)"
  by (cases "split_on c s") (auto simp: split_on.simps)

lemma split_on_append: "split_on c (a @ c # b) = split_on c a @ split_on c b"
proof (induction a)
  case (Cons x a)
  then show ?case
    by (cases "x = c") (simp_all add: split_on_sep split_on_other)
qed (simp add: split_on_sep)

lemma split_on_free: "c \<notin> set s \<Longrightarrow> split_on c s = [s]"
  by (induction s) (auto simp: split_on_other)

lemma split_on_joined:
  "\<forall>s \<in> set (x # xs). c \<notin> set s \<Longrightarrow> split_on c (x @ concat (map ((#) c) xs)) = x # xs"
proof (induction xs arbitrary: x)
  case (Cons y ys)
  then have "split_on c (y @ concat (map ((#) c) ys)) = y # ys"
    by simp
  with Cons.prems show ?case
    by (simp add: split_on_append split_on_free)
qed (simp add: split_on_free)

lemma digit_in_10: "is_digit_in 10 c \<longleftrightarrow> 48 \<le> char_code c \<and> char_code c \<le> (57 :: nat)"
  by (auto simp: is_digit_in_def digit_val_def Let_def)

lemma digit_val_10: "is_digit_in 10 c \<Longrightarrow> digit_val c = Some (char_code c - 48) \<and> char_code c - 48 < (10 :: nat)"
  by (cases "digit_val c") (auto simp: is_digit_in_def digit_val_def Let_def split: if_splits)

lemma digits_value_mono: "idx \<le> digits_value 10 idx s"
proof (induction s arbitrary: idx)
  case (Cons c cs)
  have "idx \<le> idx * 10 + (case digit_val c of None \<Rightarrow> 0 | Some d \<Rightarrow> d)"
    by (auto split: option.splits)
  also have "\<dots> \<le> digits_value 10 idx (c # cs)"
    using Cons by simp
  finally show ?case .
qed simp

lemma index_guard: "d < 10 \<Longrightarrow> (SIZE_MAX - d) div 10 < idx \<longleftrightarrow> SIZE_MAX < idx * 10 + d"
proof -
  assume "d < 10"
  then have "d \<le> SIZE_MAX" by (simp add: SIZE_MAX_def)
  then show ?thesis
    by (auto simp: div_less_iff_less_mult less_diff_conv2)
qed

lemma parse_index_digits:
  assumes "\<forall>c \<in> set s. is_digit_in 10 c"
  shows "parse_index idx s =
    (if s = [] \<or> digits_value 10 idx s \<le> SIZE_MAX then Some (digits_value 10 idx s) else None)"
  using assms
proof (induction s arbitrary: idx)
  case (Cons c cs)
  let ?d = "char_code c - 48 :: nat"
  have d: "digit_val c = Some ?d" "?d < 10" "48 \<le> char_code c \<and> char_code c \<le> (57 :: nat)"
    using Cons.prems digit_val_10 [of c] digit_in_10 [of c] by auto
  show ?case
  proof (cases "SIZE_MAX < idx * 10 + ?d")
    case True
    then have "\<not> digits_value 10 idx (c # cs) \<le> SIZE_MAX"
      using digits_value_mono [of "idx * 10 + ?d" cs] d by simp
    with True d show ?thesis
      using index_guard [OF d(2), of idx] by (simp add: Let_def)
  next
    case False
    have "parse_index idx (c # cs) = parse_index (idx * 10 + ?d) cs"
      using False d index_guard [OF d(2), of idx] by (simp add: Let_def)
    also have "\<dots> = (if cs = [] \<or> digits_value 10 (idx * 10 + ?d) cs \<le> SIZE_MAX
        then Some (digits_value 10 (idx * 10 + ?d) cs) else None)"
      using Cons.prems by (intro Cons.IH) simp
    finally show ?thesis
      using d False by auto
  qed
qed simp

lemma parse_index_dec: "n \<le> SIZE_MAX \<Longrightarrow> parse_index 0 (dec_string n) = Some n"
  using parse_index_digits [OF dec_string_digits, of 0 n] by (simp add: dec_string_value)

lemma dec_string_nonempty [simp]: "dec_string n \<noteq> []"
  by (subst dec_string.simps) simp

lemma dec_string_no_slash: "CHR ''/'' \<notin> set (dec_string n)"
  using dec_string_digits [of n] by (auto simp: digit_in_10)

section \<open>Reading a node's path back\<close>

fun wf_keys :: "yaml_node \<Rightarrow> bool" where
  "wf_keys (Y_map kvs) \<longleftrightarrow> distinct (map fst kvs) \<and>
     (\<forall>kv \<in> set kvs. fst kv \<noteq> [] \<and> CHR ''/'' \<notin> set (fst kv) \<and> wf_keys (snd kv))"
| "wf_keys (Y_seq xs) \<longleftrightarrow> length xs \<le> SIZE_MAX \<and> (\<forall>x \<in> set xs. wf_keys x)"
| "wf_keys _ \<longleftrightarrow> True"

fun path_part :: "yaml_node \<Rightarrow> nat \<Rightarrow> string" where
  "path_part (Y_map kvs) i = fst (kvs ! i)"
| "path_part (Y_seq xs) i = dec_string i"
| "path_part _ i = []"

fun path_parts :: "yaml_node \<Rightarrow> nat list \<Rightarrow> string list" where
  "path_parts n [] = []"
| "path_parts n (i # is) = path_part n i # path_parts (node_children n ! i) is"

lemma path_segment_part: "path_segment n i = CHR ''/'' # path_part n i"
  by (cases n) auto

lemma node_path_parts: "ryml_node_path n is = concat (map ((#) CHR ''/'') (path_parts n is))"
  by (induction n "is" rule: path_parts.induct) (auto simp: path_segment_part)

lemma path_part_ok:
  assumes "wf_keys n" and "i < num_children n"
  shows "path_part n i \<noteq> [] \<and> CHR ''/'' \<notin> set (path_part n i) \<and> wf_keys (node_children n ! i)"
  using assms by (cases n) (auto simp: num_children_def dec_string_no_slash)

lemma path_parts_ok:
  "\<lbrakk>wf_keys n; node_at n is = Some m\<rbrakk> \<Longrightarrow> \<forall>s \<in> set (path_parts n is). s \<noteq> [] \<and> CHR ''/'' \<notin> set s"
  by (induction n "is" rule: path_parts.induct) (auto dest: path_part_ok split: if_splits)

lemma map_of_nth_distinct:
  "\<lbrakk>distinct (map fst kvs); i < length kvs\<rbrakk> \<Longrightarrow> map_of kvs (fst (kvs ! i)) = Some (snd (kvs ! i))"
  by (simp add: map_of_eq_Some_iff)

lemma yaml_walk_step:
  assumes "wf_keys n" and "i < num_children n"
  shows "yaml_walk n (path_part n i # ps) = yaml_walk (node_children n ! i) ps"
proof (cases n)
  case (Y_map kvs)
  with assms have "distinct (map fst kvs)" "i < length kvs"
    by (simp_all add: num_children_def)
  with Y_map show ?thesis by (simp add: map_of_nth_distinct)
next
  case (Y_seq xs)
  with assms have "i \<le> SIZE_MAX" by (simp add: num_children_def)
  with Y_seq assms(2) show ?thesis by (simp add: parse_index_dec num_children_def)
qed (use assms in \<open>simp_all add: num_children_def\<close>)

lemma yaml_walk_parts:
  "\<lbrakk>wf_keys n; node_at n is = Some m\<rbrakk> \<Longrightarrow> yaml_walk n (path_parts n is) = Some m"
proof (induction n "is" rule: path_parts.induct)
  case (2 n i "is")
  then have i: "i < num_children n" "node_at (node_children n ! i) is = Some m"
    by (auto split: if_splits)
  show ?case
    using 2 i path_part_ok [OF 2(2) i(1)] by (simp add: yaml_walk_step del: yaml_walk.simps)
qed simp

section \<open>Properties\<close>

text \<open>
  C29: A node's path leads back to it.  In a document whose keys are non-empty, slash-free and
  unique in each map, looking up the path that \<open>ryml_node_path\<close> prints for a node yields that
  very node, through maps by key and through sequences by index.
\<close>
theorem node_path_lookup:
  assumes "wf_keys t" and "node_at t pos = Some n"
  shows "ryml_get_node_by_path (Some t) (Some (ryml_node_path t pos)) = Some n"
proof (cases pos)
  case Nil
  with assms show ?thesis by (simp add: ryml_get_node_by_path_def)
next
  case (Cons i "is")
  let ?x = "path_part t i" and ?xs = "path_parts (node_children t ! i) is"
  have ok: "\<forall>s \<in> set (?x # ?xs). s \<noteq> [] \<and> CHR ''/'' \<notin> set s"
    using path_parts_ok [OF assms] Cons by simp
  have "split_on CHR ''/'' (?x @ concat (map ((#) CHR ''/'') ?xs)) = ?x # ?xs"
    using ok by (intro split_on_joined) simp
  moreover have "yaml_walk t (?x # ?xs) = Some n"
    using yaml_walk_parts [OF assms] Cons by simp
  ultimately show ?thesis
    using ok Cons
    by (simp add: ryml_get_node_by_path_def node_path_parts del: yaml_walk.simps)
qed

lemma node_path_lookup_witness:
  "ryml_get_node_by_path
     (Some (Y_map [(''a'', Y_seq [Y_none, Y_map [(''b'', Y_val ''x'')]])])) (Some ''/a/1/b'') = Some (Y_val ''x'')"
proof -
  let ?t = "Y_map [(''a'', Y_seq [Y_none, Y_map [(''b'', Y_val ''x'')]])]"
  have "wf_keys ?t" by (simp add: SIZE_MAX_def)
  moreover have "node_at ?t [0, 1, 0] = Some (Y_val ''x'')"
    by (simp add: num_children_def)
  moreover have "ryml_node_path ?t [0, 1, 0] = ''/a/1/b''"
    by code_simp
  ultimately show ?thesis using node_path_lookup [of ?t "[0, 1, 0]"] by simp
qed

lemma first_dup_None: "first_dup i ks = None \<longleftrightarrow> distinct ks"
  by (induction ks arbitrary: i) auto

lemma first_dup_Some:
  "first_dup i ks = Some a \<Longrightarrow> \<exists>j. i \<le> a \<and> a < j \<and> j < i + length ks \<and> ks ! (a - i) = ks ! (j - i)"
proof (induction ks arbitrary: i)
  case (Cons k ks)
  show ?case
  proof (cases "k \<in> set ks")
    case True
    with Cons.prems obtain m where "m < length ks" "ks ! m = k" "a = i"
      by (auto simp: in_set_conv_nth)
    then show ?thesis by (intro exI [of _ "i + Suc m"]) simp
  next
    case False
    with Cons.prems Cons.IH [of "Suc i"] obtain j where
      "Suc i \<le> a" "a < j" "j < Suc i + length ks" "ks ! (a - Suc i) = ks ! (j - Suc i)" by auto
    then show ?thesis by (intro exI [of _ j]) (auto simp: nth_Cons')
  qed
qed simp

lemma find_dup_in_None:
  "find_dup_in t ps = None \<longleftrightarrow> (\<forall>p \<in> set ps. \<forall>n. node_at t p = Some n \<longrightarrow> distinct (map_keys n))"
  by (induction ps) (auto split: option.splits simp: first_dup_None [symmetric, of _ 0])

lemma find_dup_in_Some:
  "find_dup_in t ps = Some s \<Longrightarrow>
    \<exists>p n a. node_at t p = Some n \<and> first_dup 0 (map_keys n) = Some a \<and> s = ryml_node_path t (p @ [a])"
  by (induction ps) (auto split: option.splits)

lemma mem_enumerate: "(i, x) \<in> set (enumerate 0 xs) \<longleftrightarrow> i < length xs \<and> x = xs ! i"
  by (auto simp: in_set_enumerate_eq)

lemma all_positions_node_at: "p \<in> set (all_positions t) \<longleftrightarrow> node_at t p \<noteq> None"
proof (induction p arbitrary: t)
  case Nil
  show ?case by (cases t) auto
next
  case (Cons i p)
  then show ?case
    by (cases t) (force simp: num_children_def mem_enumerate)+
qed

lemma map_keys_nth: "map_keys n \<noteq> [] \<Longrightarrow> \<exists>kvs. n = Y_map kvs \<and> map_keys n = map fst kvs"
  by (cases n) auto

text \<open>
  C30: The duplicate check is sound and complete.  A document passes exactly when no map anywhere
  in it has two entries with the same key, and a document that is refused is refused with the
  path of an entry whose key does occur again later in the same map.
\<close>
theorem duplicate_keys_detected:
  "(ryml_find_duplicate_keys (Some t) = ok () \<longleftrightarrow>
      (\<forall>p n. node_at t p = Some n \<longrightarrow> distinct (map_keys n))) \<and>
   (\<forall>e. ryml_find_duplicate_keys (Some t) = Inl e \<longrightarrow>
      (\<exists>p kvs a b. node_at t p = Some (Y_map kvs) \<and> a < b \<and> b < length kvs \<and>
         fst (kvs ! a) = fst (kvs ! b) \<and>
         e = Err ''Duplicate YAML key: %s'' [Arg_str (ryml_node_path t (p @ [a]))]))"
proof (intro conjI allI impI)
  show "ryml_find_duplicate_keys (Some t) = ok () \<longleftrightarrow>
      (\<forall>p n. node_at t p = Some n \<longrightarrow> distinct (map_keys n))"
    by (auto simp: ryml_find_duplicate_keys_def find_dup_in_None all_positions_node_at
        split: option.splits)
      (metis find_dup_in_None option.distinct(1) all_positions_node_at)+
next
  fix e assume "ryml_find_duplicate_keys (Some t) = Inl e"
  then obtain s where "find_dup_in t (all_positions t) = Some s"
    and e: "e = Err ''Duplicate YAML key: %s'' [Arg_str s]"
    by (auto simp: ryml_find_duplicate_keys_def split: option.splits)
  then obtain p n a where p: "node_at t p = Some n" "first_dup 0 (map_keys n) = Some a"
      "s = ryml_node_path t (p @ [a])"
    using find_dup_in_Some by blast
  then obtain b where b: "a < b" "b < length (map_keys n)" "map_keys n ! a = map_keys n ! b"
    using first_dup_Some [OF p(2)] by auto
  then obtain kvs where "n = Y_map kvs" "map_keys n = map fst kvs"
    using map_keys_nth [of n] by fastforce
  with p b e show "\<exists>p kvs a b. node_at t p = Some (Y_map kvs) \<and> a < b \<and> b < length kvs \<and>
         fst (kvs ! a) = fst (kvs ! b) \<and>
         e = Err ''Duplicate YAML key: %s'' [Arg_str (ryml_node_path t (p @ [a]))]"
    by (intro exI [of _ p] exI [of _ kvs] exI [of _ a] exI [of _ b]) simp
qed

lemma duplicate_keys_detected_witness:
  "ryml_find_duplicate_keys (Some (Y_map [(''a'', Y_map [(''k'', Y_none), (''k'', Y_none)])])) =
     failf ''Duplicate YAML key: %s'' [Arg_str ''/a/k''] \<and>
   \<not> (\<forall>p n. node_at (Y_map [(''a'', Y_map [(''k'', Y_none), (''k'', Y_none)])]) p = Some n \<longrightarrow>
        distinct (map_keys n))"
proof -
  have "ryml_find_duplicate_keys (Some (Y_map [(''a'', Y_map [(''k'', Y_none), (''k'', Y_none)])])) =
     failf ''Duplicate YAML key: %s'' [Arg_str ''/a/k'']"
    by code_simp
  with duplicate_keys_detected [of "Y_map [(''a'', Y_map [(''k'', Y_none), (''k'', Y_none)])]"]
  show ?thesis by simp
qed

lemma yaml_walk_append:
  "yaml_walk n (ps @ qs) = (case yaml_walk n ps of None \<Rightarrow> None | Some m \<Rightarrow> yaml_walk m qs)"
  by (induction n ps rule: yaml_walk.induct) (auto split: option.splits)

lemma lookup_under_missing:
  assumes "b \<noteq> []" and "ryml_get_node_by_path (Some t) (Some b) = None"
  shows "ryml_get_node_by_path (Some t) (Some (b @ CHR ''/'' # s)) = None"
proof -
  obtain p where p: "(case b of CHR ''/'' # p \<Rightarrow> p | _ \<Rightarrow> b) = p" by blast
  have np: "p \<noteq> []" and w: "yaml_walk t (split_on CHR ''/'' p) = None"
    using assms(2) p by (auto simp: ryml_get_node_by_path_def Let_def split: if_splits)
  have "(case b @ CHR ''/'' # s of CHR ''/'' # p \<Rightarrow> p | _ \<Rightarrow> b @ CHR ''/'' # s) = p @ CHR ''/'' # s"
    using assms(1) p by (cases b) (auto split: char.splits bool.splits)
  then show ?thesis
    using np w by (simp add: ryml_get_node_by_path_def split_on_append yaml_walk_append)
qed

text \<open>The prefix a context state stands for, given the base and the name.\<close>

fun state_prefix :: "string \<Rightarrow> string \<Rightarrow> otelc_ctx_name \<Rightarrow> string option" where
  "state_prefix b n CTX_NAME_FOUND = Some (b @ ''/'' @ n)"
| "state_prefix b n CTX_NAME_DEFAULT = Some (b @ ''/'' @ OTEL_YAML_NAME_DEFAULT)"
| "state_prefix b n CTX_NAME_FLAT = Some b"
| "state_prefix b n CTX_NAME_UNSET_DEFAULT = Some (b @ ''/'' @ OTEL_YAML_NAME_DEFAULT)"
| "state_prefix b n CTX_NAME_UNSET_FLAT = Some b"
| "state_prefix b n _ = None"

definition result_option :: "'a result \<Rightarrow> 'a option" where
  "result_option r = (case r of Inl _ \<Rightarrow> None | Inr x \<Rightarrow> Some x)"

text \<open>The prefix \<open>yaml_resolve_prefix\<close> settles on, without its buffers.\<close>

definition resolved :: "yaml_node option \<Rightarrow> string \<Rightarrow> string option \<Rightarrow> string option" where
  "resolved fyd b name =
     (if (\<exists>n. name = Some n \<and> n \<noteq> [] \<and> yaml_node_exists fyd (b @ ''/'' @ n))
      then Some (b @ ''/'' @ the name)
      else if yaml_node_exists fyd (b @ ''/'' @ OTEL_YAML_NAME_DEFAULT)
      then Some (b @ ''/'' @ OTEL_YAML_NAME_DEFAULT)
      else if yaml_node_exists fyd (b @ ''/'' @ OTEL_YAML_SCOPE_NAME) then Some b
      else None)"

lemma alloc_path_ok: "length b + length s < 4096 \<Longrightarrow> alloc_path (\<lambda>_. False) n b s = ok (b @ ''/'' @ s)"
  by (simp add: alloc_path_def INT_MAX_def Let_def)

lemma yaml_resolve_prefix_resolved:
  assumes "b \<noteq> []" and "length b + length n < 4000" and "length b < 4000"
    and "CHR ''%'' \<notin> set n" and "name = None \<or> name = Some n"
  shows "result_option (yaml_resolve_prefix (\<lambda>_. False) (Some t) (Some b) name
           (Some OTEL_YAML_NAME_DEFAULT) True) = resolved (Some t) b name"
proof -
  have d: "alloc_path (\<lambda>_. False) k b OTEL_YAML_NAME_DEFAULT = ok (b @ ''/'' @ OTEL_YAML_NAME_DEFAULT)"
      "alloc_path (\<lambda>_. False) k b OTEL_YAML_SCOPE_NAME = ok (b @ ''/'' @ OTEL_YAML_SCOPE_NAME)"
      "alloc_path (\<lambda>_. False) k b n = ok (b @ ''/'' @ n)" for k
    using assms(2,3) by (intro alloc_path_ok, simp add: OTEL_YAML_NAME_DEFAULT_def OTEL_YAML_SCOPE_NAME_def)+
  have "OTEL_YAML_NAME_DEFAULT \<noteq> []" "CHR ''%'' \<notin> set OTEL_YAML_NAME_DEFAULT"
    by (simp_all add: OTEL_YAML_NAME_DEFAULT_def)
  with assms d show ?thesis
    by (auto simp: yaml_resolve_prefix_def resolved_def result_option_def yaml_node_exists_def Let_def)
qed

lemma probe_buffer: "length b + length s < 4000 \<Longrightarrow>
    snprintf_buf OTEL_YAML_BUFSIZ (b @ ''/'' @ s) = b @ ''/'' @ s"
  by (simp add: snprintf_buf_def OTEL_YAML_BUFSIZ_def)

lemma yaml_probe_resolved:
  assumes "b \<noteq> []" and "length b + length n < 4000" and "length b < 3900"
    and "name = None \<and> \<not> set_name \<or> name = Some n \<and> set_name"
  shows "state_prefix b n (yaml_probe_nstate (Some t) (Some b) name set_name) = resolved (Some t) b name"
proof -
  have d: "snprintf_buf OTEL_YAML_BUFSIZ (b @ ''/'' @ OTEL_YAML_NAME_DEFAULT) = b @ ''/'' @ OTEL_YAML_NAME_DEFAULT"
      "snprintf_buf OTEL_YAML_BUFSIZ (b @ ''/'' @ OTEL_YAML_SCOPE_NAME) = b @ ''/'' @ OTEL_YAML_SCOPE_NAME"
      "snprintf_buf OTEL_YAML_BUFSIZ (b @ ''/'' @ n) = b @ ''/'' @ n"
    using assms(2,3) by (intro probe_buffer, simp add: OTEL_YAML_NAME_DEFAULT_def OTEL_YAML_SCOPE_NAME_def)+
  have miss: "\<not> yaml_node_exists (Some t) (b @ ''/'' @ s)" if "\<not> yaml_node_exists (Some t) b" for s
    using lookup_under_missing [OF assms(1), of t s] that by (simp add: yaml_node_exists_def)
  show ?thesis
    using assms(1,4) d miss by (auto simp: yaml_probe_nstate_def resolved_def Let_def)
qed

text \<open>
  C7: The reported state of a context name tells the truth.  For a document and a signal base path,
  the entry a signal is really configured from by \<open>yaml_resolve_prefix\<close> (the named entry, the
  \<open>default\<close> entry, the legacy flat layout, or an error) is the one the state computed by
  \<open>yaml_probe_nstate\<close> announces, as long as the paths fit the probe's 4096-byte buffer.
\<close>
theorem probe_agrees_with_resolve:
  assumes "b \<noteq> []" and "length b + length n < 4000" and "length b < 3900"
    and "CHR ''%'' \<notin> set n" and "name = None \<and> \<not> set_name \<or> name = Some n \<and> set_name"
  shows "result_option (yaml_resolve_prefix (\<lambda>_. False) (Some t) (Some b) name
           (Some OTEL_YAML_NAME_DEFAULT) True) =
         state_prefix b n (yaml_probe_nstate (Some t) (Some b) name set_name)"
  using assms yaml_resolve_prefix_resolved [of b n name t] yaml_probe_resolved [of b n name set_name t]
  by auto

lemma probe_agrees_with_resolve_witness:
  "result_option (yaml_resolve_prefix (\<lambda>_. False)
      (Some (Y_map [(''s'', Y_map [(''default'', Y_map [])])])) (Some ''/s'') (Some ''web'')
      (Some OTEL_YAML_NAME_DEFAULT) True) = Some ''/s/default''"
proof -
  have "yaml_probe_nstate (Some (Y_map [(''s'', Y_map [(''default'', Y_map [])])])) (Some ''/s'')
      (Some ''web'') True = CTX_NAME_DEFAULT"
    by code_simp
  then show ?thesis
    using probe_agrees_with_resolve [of "''/s''" "''web''" "Some ''web''" True
        "Y_map [(''s'', Y_map [(''default'', Y_map [])])]"]
    by (simp add: OTEL_YAML_NAME_DEFAULT_def)
qed

text \<open>What a stored value must satisfy for the argument it was stored for.\<close>

fun stored_ok :: "'d :: ord yaml_type \<Rightarrow> 'd yaml_stored \<Rightarrow> bool" where
  "stored_ok (YAML_STR n) (Stored_str s) \<longleftrightarrow> length s \<le> n - 1"
| "stored_ok YAML_BOOL (Stored_bool _) \<longleftrightarrow> True"
| "stored_ok (YAML_INT64 lo hi) (Stored_int64 v) \<longleftrightarrow> lo \<le> v \<and> v \<le> hi"
| "stored_ok (YAML_DOUBLE lo hi) (Stored_double v) \<longleftrightarrow> lo \<le> v \<and> v \<le> hi"
| "stored_ok YAML_MAP (Stored_map _) \<longleftrightarrow> True"
| "stored_ok _ _ \<longleftrightarrow> False"

lemma yaml_get_sequence_ptr:
  "yaml_get_sequence oom fyd path (Some m) = (p, r) \<Longrightarrow> p \<noteq> None"
  by (auto simp: yaml_get_sequence_def split: if_splits option.splits yaml_node.splits prod.splits)

lemma convert_arg_ok: "convert_arg strtod ty s = Some v \<Longrightarrow> stored_ok ty v"
  by (cases ty) (auto simp: convert_arg_def parse_int64_def parse_double_def split: prod.splits if_splits)

lemma yaml_arg_step_ok:
  assumes "yaml_arg_step oom strtod fyd desc name a = (st, ok found)"
  shows "(found \<longleftrightarrow> st \<noteq> None) \<and> (arg_mandatory a \<longrightarrow> found) \<and> (\<forall>v. st = Some v \<longrightarrow> stored_ok (arg_type a) v)"
proof -
  obtain path pd where p: "arg_path a = Some path" "path_desc path = Some pd"
    using assms by (auto simp: yaml_arg_step_def split: option.splits)
  show ?thesis
  proof (cases "arg_type a = YAML_MAP")
    case True
    then show ?thesis
      using assms p
      by (auto simp: yaml_arg_step_def Let_def split: prod.splits sum.splits if_splits
          dest: yaml_get_sequence_ptr)
  next
    case False
    then show ?thesis
      using assms p
      by (cases "arg_type a")
        (auto simp: yaml_arg_step_def Let_def eq_commute [of "Some _" "convert_arg _ _ _"]
          split: option.splits if_splits dest: convert_arg_ok)
  qed
qed

lemma yaml_args_loop_ok:
  assumes "yaml_args_loop oom strtod fyd desc name i as stored r = (stored', ok n)"
  shows "\<exists>new. stored' = stored @ new \<and> n = r + int (length new) \<and> distinct (map fst new) \<and>
    (\<forall>(j, v) \<in> set new. i \<le> j \<and> j < i + length as \<and> stored_ok (arg_type (as ! (j - i))) v) \<and>
    (\<forall>k < length as. arg_mandatory (as ! k) \<longrightarrow> i + k \<in> fst ` set new)"
  using assms
proof (induction as arbitrary: i stored r)
  case (Cons a as)
  obtain st found where step: "yaml_arg_step oom strtod fyd desc name a = (st, ok found)"
    using Cons.prems by (auto simp: Let_def split: prod.splits sum.splits)
  note sok = yaml_arg_step_ok [OF step]
  let ?mine = "case st of None \<Rightarrow> [] | Some v \<Rightarrow> [(i, v)]"
  obtain new where new: "stored' = (stored @ ?mine) @ new"
      "n = (if found then r + 1 else r) + int (length new)" "distinct (map fst new)"
      "\<forall>(j, v) \<in> set new. Suc i \<le> j \<and> j < Suc i + length as \<and> stored_ok (arg_type (as ! (j - Suc i))) v"
      "\<forall>k < length as. arg_mandatory (as ! k) \<longrightarrow> Suc i + k \<in> fst ` set new"
    using Cons.prems step Cons.IH [of "Suc i" "stored @ ?mine" "if found then r + 1 else r"]
    by (auto simp: Let_def)
  have "i + k \<in> fst ` set (?mine @ new)" if "k < length (a # as)" "arg_mandatory ((a # as) ! k)" for k
    using that sok new(5) by (cases k) (auto split: option.splits)
  moreover have "i \<notin> fst ` set new"
    using new(4) by force
  then have "distinct (map fst (?mine @ new))"
    using new(3) by (auto split: option.splits)
  moreover have "\<forall>(j, v) \<in> set (?mine @ new). i \<le> j \<and> j < i + length (a # as) \<and>
      stored_ok (arg_type ((a # as) ! (j - i))) v"
    using new(4) sok by (fastforce split: option.splits simp: nth_Cons' Suc_diff_Suc)
  moreover have "n = r + int (length (?mine @ new))"
    using new(2) sok by (auto split: option.splits)
  ultimately show ?case
    using new(1) by (intro exI [of _ "?mine @ new"]) auto
qed simp

text \<open>
  C24: A configuration entry that is read successfully is completely valid.  When \<open>yaml_get_node\<close>
  succeeds for a given entry name, every mandatory argument has been stored, every stored value
  has the type of its argument and lies in the range or buffer the caller gave, no destination is
  written twice, and the return value is the number of destinations written.
\<close>
theorem yaml_get_node_valid:
  assumes "yaml_get_node oom strtod (Some t) mand (Some desc) path (Some name) args = (stored, ok n)"
  shows "distinct (map fst stored) \<and> n = int (length stored) \<and>
    (\<forall>(j, v) \<in> set stored. j < length args \<and> stored_ok (arg_type (args ! j)) v) \<and>
    (\<forall>k < length args. arg_mandatory (args ! k) \<longrightarrow> k \<in> fst ` set stored)"
proof -
  have "yaml_args_loop oom strtod (Some t) desc name 0 args [] 0 = (stored, ok n)"
    using assms by (auto simp: yaml_get_node_def yaml_get_node_v_def Let_def split: if_splits)
  from yaml_args_loop_ok [OF this] show ?thesis by auto
qed

lemma yaml_get_node_valid_witness:
  "yaml_get_node (\<lambda>_. False) (\<lambda>s. (0 :: nat, [], No_error))
     (Some (Y_map [(''p'', Y_map [(''x'', Y_map [(''n'', Y_val ''42''), (''f'', Y_val ''TRUE'')])])]))
     False (Some ''p'') None (Some ''x'')
     [\<lparr>arg_type = YAML_INT64 0 100, arg_mandatory = True, arg_path = Some ''/p/%s/n''\<rparr>,
      \<lparr>arg_type = YAML_STR 8, arg_mandatory = False, arg_path = Some ''/p/%s/s''\<rparr>,
      \<lparr>arg_type = YAML_BOOL, arg_mandatory = False, arg_path = Some ''/p/%s/f''\<rparr>] =
   ([(0, Stored_int64 42), (2, Stored_bool True)], ok 2) \<and> distinct [0 :: nat, 2]"
  (is "?call = _ \<and> _")
proof -
  have e: "?call = ([(0, Stored_int64 42), (2, Stored_bool True)], ok 2)"
    by code_simp
  show ?thesis
    using yaml_get_node_valid [OF e] e by simp
qed

end
