(* ===== verification/Otel_Config.thy ===== *)
theory Otel_Config
  imports Otel_Sdk Otel_Yaml
begin

text \<open>
  The objects of a telemetry pipeline as the configuration describes them: samplers
  (\<open>src/sampler.cpp\<close>), exporters (\<open>src/exporter.cpp\<close>), resources (\<open>src/resource.cpp\<close>), batch
  processors (\<open>src/processor.cpp\<close>), metric readers and providers (\<open>src/provider.cpp\<close>).  An SDK
  object is the value of the options it is constructed with; constructing one, or a throwing
  container operation, fails when the oracle says so.  Floating-point numbers are any ordered type
  with 0 and 1.
\<close>

section \<open>Building\<close>

text \<open>A step of a build: the oracle, and the number of allocations tried so far.\<close>

type_synonym 'a build = "(nat \<Rightarrow> bool) \<Rightarrow> nat \<Rightarrow> 'a outcome \<times> nat"

definition give :: "'a \<Rightarrow> 'a build" where
  "give x = (\<lambda>oom n. (Inr x, n))"

definition stop :: "string \<Rightarrow> err_arg list \<Rightarrow> 'a build" where
  "stop f args = (\<lambda>oom n. (raisef f args, n))"

definition bbind :: "'a build \<Rightarrow> ('a \<Rightarrow> 'b build) \<Rightarrow> 'b build" where
  "bbind m f = (\<lambda>oom n. case m oom n of (Inl e, n') \<Rightarrow> (Inl e, n') | (Inr x, n') \<Rightarrow> f x oom n')"

text \<open>\<open>otel::make_unique_nothrow\<close> and \<open>make_shared_nothrow\<close>: null when the allocation or the constructor throws.\<close>

definition make_nothrow :: "'a \<Rightarrow> 'a option build" where
  "make_nothrow x = (\<lambda>oom n. (Inr (if oom n then None else Some x), Suc n))"

fun or_stop :: "string \<Rightarrow> 'a option \<Rightarrow> 'a build" where
  "or_stop f None = stop f []"
| "or_stop f (Some x) = give x"

text \<open>What an instance reads its configuration with: the document, the conversion of floating-point
  text, the allocations of text maps, the instance's prefix, the attributes the environment
  gives, the exporters built in, the SDK's buffer size and whether it has composite samplers.\<close>

datatype exporter_kind =
    K_elasticsearch | K_memory | K_ostream | K_otlp_file | K_otlp_grpc | K_otlp_http | K_zipkin

record 'd cfg =
  cf_fyd :: "yaml_node option"
  cf_strtod :: "string \<Rightarrow> 'd \<times> string \<times> errno"
  cf_map_oom :: "nat \<Rightarrow> bool"
  cf_prefix :: string
  cf_env :: "(string \<times> string) list"
  cf_have :: "exporter_kind \<Rightarrow> bool"
  cf_memory_buffer :: int
  cf_composite :: bool

text \<open>A null instance fails without a message.\<close>

fun with_instance :: "'d cfg option \<Rightarrow> ('d cfg \<Rightarrow> 'a build) \<Rightarrow> 'a build" where
  "with_instance None f = (\<lambda>oom n. (silent, n))"
| "with_instance (Some c) f = f c"

definition OTEL_YAML_PROCESSORS :: string where "OTEL_YAML_PROCESSORS = ''/processors''"
definition OTEL_YAML_EXPORTERS :: string where "OTEL_YAML_EXPORTERS = ''/exporters''"
definition OTEL_YAML_SAMPLERS :: string where "OTEL_YAML_SAMPLERS = ''/samplers''"
definition OTEL_YAML_PROVIDERS :: string where "OTEL_YAML_PROVIDERS = ''/providers''"
definition OTEL_YAML_READERS :: string where "OTEL_YAML_READERS = ''/readers''"

definition OTEL_YAML_PATH :: "'d cfg \<Rightarrow> string \<Rightarrow> string" where
  "OTEL_YAML_PATH c suffix = snprintf_buf OTEL_YAML_BUFSIZ (cf_prefix c @ suffix)"

text \<open>The arguments of \<open>yaml_get_node\<close>: mandatory or not, the section, the key.\<close>

definition yaml_arg_of :: "'d yaml_type \<Rightarrow> bool \<Rightarrow> string \<Rightarrow> string \<Rightarrow> 'd yaml_arg" where
  "yaml_arg_of ty m section_name key =
     \<lparr>arg_type = ty, arg_mandatory = m, arg_path = Some (section_name @ ''/%s/'' @ key)\<rparr>"

definition OTEL_YAML_ARG_STR :: "bool \<Rightarrow> string \<Rightarrow> string \<Rightarrow> 'd yaml_arg" where
  "OTEL_YAML_ARG_STR = yaml_arg_of (YAML_STR OTEL_YAML_BUFSIZ)"

definition OTEL_YAML_ARG_BOOL :: "bool \<Rightarrow> string \<Rightarrow> string \<Rightarrow> 'd yaml_arg" where
  "OTEL_YAML_ARG_BOOL = yaml_arg_of YAML_BOOL"

definition OTEL_YAML_ARG_INT64 :: "bool \<Rightarrow> string \<Rightarrow> string \<Rightarrow> int \<Rightarrow> int \<Rightarrow> 'd yaml_arg" where
  "OTEL_YAML_ARG_INT64 m p key lo hi = yaml_arg_of (YAML_INT64 lo hi) m p key"

definition OTEL_YAML_ARG_DOUBLE :: "bool \<Rightarrow> string \<Rightarrow> string \<Rightarrow> 'd \<Rightarrow> 'd \<Rightarrow> 'd yaml_arg" where
  "OTEL_YAML_ARG_DOUBLE m p key lo hi = yaml_arg_of (YAML_DOUBLE lo hi) m p key"

definition OTEL_YAML_ARG_MAP :: "bool \<Rightarrow> string \<Rightarrow> string \<Rightarrow> 'd yaml_arg" where
  "OTEL_YAML_ARG_MAP = yaml_arg_of YAML_MAP"

text \<open>The destination of argument \<open>i\<close> after the call: what was stored, or its initial value.\<close>

definition str_at :: "(nat \<times> 'd yaml_stored) list \<Rightarrow> nat \<Rightarrow> string \<Rightarrow> string" where
  "str_at st i d = (case map_of st i of Some (Stored_str s) \<Rightarrow> s | _ \<Rightarrow> d)"

definition bool_at :: "(nat \<times> 'd yaml_stored) list \<Rightarrow> nat \<Rightarrow> bool" where
  "bool_at st i = (case map_of st i of Some (Stored_bool b) \<Rightarrow> b | _ \<Rightarrow> False)"

definition int_at :: "(nat \<times> 'd yaml_stored) list \<Rightarrow> nat \<Rightarrow> int \<Rightarrow> int" where
  "int_at st i d = (case map_of st i of Some (Stored_int64 v) \<Rightarrow> v | _ \<Rightarrow> d)"

definition double_at :: "(nat \<times> 'd yaml_stored) list \<Rightarrow> nat \<Rightarrow> 'd \<Rightarrow> 'd" where
  "double_at st i d = (case map_of st i of Some (Stored_double v) \<Rightarrow> v | _ \<Rightarrow> d)"

definition map_at :: "(nat \<times> 'd yaml_stored) list \<Rightarrow> nat \<Rightarrow> text_pairs" where
  "map_at st i = (case map_of st i of Some (Stored_map (Some m)) \<Rightarrow> m | _ \<Rightarrow> [])"

definition get_node ::
  "'d :: ord cfg \<Rightarrow> bool \<Rightarrow> string \<Rightarrow> string \<Rightarrow> string option \<Rightarrow> 'd yaml_arg list \<Rightarrow>
   ((nat \<times> 'd yaml_stored) list \<times> int) build" where
  "get_node c mandatory desc path name args = (\<lambda>oom n.
     case yaml_get_node (cf_map_oom c) (cf_strtod c) (cf_fyd c) mandatory (Some desc) (Some path) name args of
       (_, Inl e) \<Rightarrow> (Inl (Some e), n)
     | (st, Inr rc) \<Rightarrow> (Inr (st, rc), n))"

text \<open>The thread instrumentation of a background thread: only a named thread has one, and a failed
  allocation leaves it out.\<close>

definition OTEL_MAX_CPU_ID :: int where "OTEL_MAX_CPU_ID = 4095"

definition thread_instrumentation :: "string \<Rightarrow> int \<Rightarrow> (string \<times> int) option build" where
  "thread_instrumentation thread_name cpu_id =
     (if thread_name \<noteq> [] then make_nothrow (thread_name, cpu_id) else give None)"

text \<open>\<open>otel_thread_instrumentation::OnStart\<close>: the name the thread is given and the CPU it is bound to.\<close>

definition OTEL_THREAD_NAME_SIZE :: nat where "OTEL_THREAD_NAME_SIZE = 16"

definition OnStart :: "string \<times> int \<Rightarrow> string option \<times> int option" where
  "OnStart ti = (case ti of (thread_name, cpu_id) \<Rightarrow>
     ((if thread_name \<noteq> [] then Some (take (OTEL_THREAD_NAME_SIZE - 1) thread_name) else None),
      (if cpu_id \<ge> 0 then Some cpu_id else None)))"

section \<open>Samplers\<close>

datatype 'd composable =
    ComposableAlwaysOn | ComposableAlwaysOff | ComposableProbability 'd
  | ComposableParentThreshold "'d composable"

datatype 'd sampler =
    AlwaysOn | AlwaysOff | TraceIdRatioBased 'd
  | ParentBased "'d sampler" "'d sampler" "'d sampler" "'d sampler" "'d sampler"
  | Composite "'d composable"

definition sampler_ratio :: "'d :: {zero, one, ord} cfg \<Rightarrow> string \<Rightarrow> string \<Rightarrow> 'd build" where
  "sampler_ratio c desc path =
     bbind (get_node c False desc path None [OTEL_YAML_ARG_DOUBLE True OTEL_YAML_SAMPLERS ''ratio'' 0 1])
       (\<lambda>(st, _). give (double_at st 0 1))"

text \<open>One of the four delegates for the parent's states: the default, or what its key names.\<close>

definition delegate_override :: "string \<Rightarrow> string \<Rightarrow> 'd sampler option \<Rightarrow> 'd sampler option build" where
  "delegate_override f v current =
     (if v = [] then give current
      else if strcasecmp_eq v ''always_on'' then make_nothrow AlwaysOn
      else if strcasecmp_eq v ''always_off'' then make_nothrow AlwaysOff
      else stop f [Arg_str v])"

definition root_delegate :: "'d :: {zero, one, ord} cfg \<Rightarrow> string \<Rightarrow> string \<Rightarrow> 'd sampler option build" where
  "root_delegate c path delegate =
     (if strcasecmp_eq delegate ''always_on'' then make_nothrow AlwaysOn
      else if strcasecmp_eq delegate ''always_off'' then make_nothrow AlwaysOff
      else if strcasecmp_eq delegate ''trace_id_ratio_based''
      then bbind (sampler_ratio c ''OpenTelemetry parent_based sampler ratio'' path)
             (\<lambda>r. make_nothrow (TraceIdRatioBased r))
      else stop ''Invalid parent_based sampler delegate type: %s'' [Arg_str delegate])"

definition parent_based_sampler :: "'d :: {zero, one, ord} cfg \<Rightarrow> string \<Rightarrow> 'd sampler option build" where
  "parent_based_sampler c path =
     bbind (make_nothrow AlwaysOn) (\<lambda>rs0. bbind (make_nothrow AlwaysOff) (\<lambda>rn0.
     bbind (make_nothrow AlwaysOn) (\<lambda>ls0. bbind (make_nothrow AlwaysOff) (\<lambda>ln0.
     bbind (get_node c False ''OpenTelemetry parent_based sampler'' path None
         [OTEL_YAML_ARG_STR False OTEL_YAML_SAMPLERS ''delegate'',
          OTEL_YAML_ARG_STR False OTEL_YAML_SAMPLERS ''remote_sampled'',
          OTEL_YAML_ARG_STR False OTEL_YAML_SAMPLERS ''remote_not_sampled'',
          OTEL_YAML_ARG_STR False OTEL_YAML_SAMPLERS ''local_sampled'',
          OTEL_YAML_ARG_STR False OTEL_YAML_SAMPLERS ''local_not_sampled'']) (\<lambda>(st, _).
     let delegate = str_at st 0 ''always_on'' in
     bbind (root_delegate c path delegate) (\<lambda>d0.
     bbind (or_stop ''Unable to create delegate sampler for ParentBasedSampler'' d0) (\<lambda>d.
     bbind (delegate_override ''Invalid remote_sampled delegate: %s'' (str_at st 1 []) rs0) (\<lambda>rs.
     bbind (delegate_override ''Invalid remote_not_sampled delegate: %s'' (str_at st 2 []) rn0) (\<lambda>rn.
     bbind (delegate_override ''Invalid local_sampled delegate: %s'' (str_at st 3 []) ls0) (\<lambda>ls.
     bbind (delegate_override ''Invalid local_not_sampled delegate: %s'' (str_at st 4 []) ln0) (\<lambda>ln.
     (case (rs, rn, ls, ln) of
        (Some rs, Some rn, Some ls, Some ln) \<Rightarrow> make_nothrow (ParentBased d rs rn ls ln)
      | _ \<Rightarrow> stop ''Unable to allocate memory for parent_based delegate sampler'' []))))))))))))"

definition composite_sampler :: "'d :: {zero, one, ord} cfg \<Rightarrow> string \<Rightarrow> 'd sampler option build" where
  "composite_sampler c path =
     bbind (get_node c False ''OpenTelemetry composite sampler'' path None
         [OTEL_YAML_ARG_STR False OTEL_YAML_SAMPLERS ''composable'']) (\<lambda>(st, _).
     let composable = str_at st 0 ''probability'' in
     bbind (if strcasecmp_eq composable ''always_on'' then make_nothrow ComposableAlwaysOn
            else if strcasecmp_eq composable ''always_off'' then make_nothrow ComposableAlwaysOff
            else if strcasecmp_eq composable ''probability'' \<or> strcasecmp_eq composable ''parent_threshold''
            then bbind (sampler_ratio c ''OpenTelemetry composite sampler ratio'' path) (\<lambda>r.
              if strcasecmp_eq composable ''probability'' then make_nothrow (ComposableProbability r)
              else bbind (make_nothrow (ComposableProbability r)) (\<lambda>root.
                bbind (or_stop ''Unable to allocate memory for composite root sampler'' root) (\<lambda>root.
                  make_nothrow (ComposableParentThreshold root))))
            else stop ''Invalid composite sampler composable type: %s'' [Arg_str composable]) (\<lambda>cs.
     bbind (or_stop ''Unable to allocate memory for composite composable sampler'' cs) (\<lambda>cs.
     make_nothrow (Composite cs))))"

definition otel_sampler_create :: "'d :: {zero, one, ord} cfg option \<Rightarrow> 'd sampler build" where
  "otel_sampler_create tracer = with_instance tracer (\<lambda>c.
     let path = OTEL_YAML_PATH c OTEL_YAML_SAMPLERS in
     bbind (get_node c False ''OpenTelemetry sampler'' path None
         [OTEL_YAML_ARG_STR True OTEL_YAML_SAMPLERS ''type'']) (\<lambda>(st, _).
     let ty = str_at st 0 ''trace_id_ratio_based'' in
     bbind (if strcasecmp_eq ty ''always_on'' then make_nothrow AlwaysOn
            else if strcasecmp_eq ty ''always_off'' then make_nothrow AlwaysOff
            else if strcasecmp_eq ty ''trace_id_ratio_based''
            then bbind (sampler_ratio c ''OpenTelemetry sampler'' path) (\<lambda>r. make_nothrow (TraceIdRatioBased r))
            else if strcasecmp_eq ty ''parent_based'' then parent_based_sampler c path
            else if cf_composite c \<and> strcasecmp_eq ty ''composite'' then composite_sampler c path
            else stop ''Invalid sampler type: %s'' [Arg_str ty])
       (or_stop ''Unable to create OpenTelemetry sampler'')))"

section \<open>Exporters\<close>

text \<open>\<open>PATH_MAX\<close> of Linux.\<close>

definition PATH_MAX :: nat where "PATH_MAX = 4096"

record otlp_file_options =
  of_thread :: "(string \<times> int) option"
  of_file_pattern :: string
  of_alias_pattern :: string
  of_flush_interval :: int
  of_flush_count :: int
  of_file_size :: int
  of_rotate_size :: int

record otlp_grpc_options =
  og_endpoint :: string
  og_use_ssl_credentials :: bool
  og_ssl_credentials_cacert_path :: string
  og_ssl_credentials_cacert_as_string :: string
  og_timeout :: int
  og_user_agent :: string
  og_max_threads :: int
  og_compression :: string

datatype content_type = kJson | kBinary
datatype json_bytes_mapping = kHexId | kHex | kBase64

text \<open>\<open>None\<close> where the SDK's own default stays.\<close>

record otlp_http_options =
  oh_thread :: "(string \<times> int) option"
  oh_url :: string
  oh_content_type :: "content_type option"
  oh_json_bytes_mapping :: "json_bytes_mapping option"
  oh_use_json_name :: bool
  oh_console_debug :: bool
  oh_timeout :: int
  oh_http_headers :: "(string \<times> string) list"
  oh_ssl_insecure_skip_verify :: bool
  oh_ssl :: "string list"
  oh_compression :: string
  oh_wait_for :: int

datatype zipkin_format = zkJson | zkProtobuf

record zipkin_options =
  oz_endpoint :: string
  oz_format :: "zipkin_format option"
  oz_service_name :: string
  oz_ipv4 :: string
  oz_ipv6 :: string

record elasticsearch_options =
  oe_host :: string
  oe_port :: int
  oe_index :: string
  oe_response_timeout :: int
  oe_console_debug :: bool
  oe_http_headers :: "(string \<times> string) list"

datatype ostream_target = Std_cout | Std_cerr | File_exporter string

datatype exporter =
    Exp_memory int
  | Exp_ostream ostream_target
  | Exp_otlp_file otlp_file_options
  | Exp_otlp_grpc otlp_grpc_options
  | Exp_otlp_http otlp_http_options
  | Exp_zipkin zipkin_options
  | Exp_elasticsearch elasticsearch_options

definition otel_exporter_set_otlp_file_options ::
  "'d :: ord cfg \<Rightarrow> string option \<Rightarrow> string option \<Rightarrow> string option \<Rightarrow> otlp_file_options build" where
  "otel_exporter_set_otlp_file_options c desc path name =
     (case (desc, path) of
        (None, _) \<Rightarrow> stop ''Exporter description not specified'' []
      | (_, None) \<Rightarrow> stop ''Exporter path not specified'' []
      | (Some desc, Some path) \<Rightarrow>
          bbind (get_node c True desc path name
            [OTEL_YAML_ARG_STR False OTEL_YAML_EXPORTERS ''thread_name'',
             OTEL_YAML_ARG_INT64 False OTEL_YAML_EXPORTERS ''cpu_id'' (-1) OTEL_MAX_CPU_ID,
             OTEL_YAML_ARG_STR False OTEL_YAML_EXPORTERS ''file_pattern'',
             OTEL_YAML_ARG_STR False OTEL_YAML_EXPORTERS ''alias_pattern'',
             OTEL_YAML_ARG_INT64 False OTEL_YAML_EXPORTERS ''flush_interval'' 100000 60000000,
             OTEL_YAML_ARG_INT64 False OTEL_YAML_EXPORTERS ''flush_count'' 16 8192,
             OTEL_YAML_ARG_INT64 False OTEL_YAML_EXPORTERS ''file_size'' (1024 * 64) (1024 * 1024 * 1024 * 2),
             OTEL_YAML_ARG_INT64 False OTEL_YAML_EXPORTERS ''rotate_size'' 1 256]) (\<lambda>(st, _).
          bbind (thread_instrumentation (str_at st 0 []) (int_at st 1 (-1))) (\<lambda>ti.
          give \<lparr>of_thread = ti, of_file_pattern = str_at st 2 ''otel-logfile-%F-%N.txt'',
            of_alias_pattern = str_at st 3 [], of_flush_interval = int_at st 4 30000000,
            of_flush_count = int_at st 5 256, of_file_size = int_at st 6 (1024 * 1024 * 20),
            of_rotate_size = int_at st 7 3\<rparr>)))"

definition otel_exporter_set_otlp_grpc_options ::
  "'d :: ord cfg \<Rightarrow> string option \<Rightarrow> string option \<Rightarrow> string option \<Rightarrow> string option \<Rightarrow> otlp_grpc_options build" where
  "otel_exporter_set_otlp_grpc_options c desc path endpoint name =
     (case (desc, path, endpoint) of
        (None, _, _) \<Rightarrow> stop ''Exporter description not specified'' []
      | (_, None, _) \<Rightarrow> stop ''Exporter path not specified'' []
      | (_, _, None) \<Rightarrow> stop ''Exporter endpoint not specified'' []
      | (Some desc, Some path, Some endpoint) \<Rightarrow>
          bbind (get_node c True desc path name
            [OTEL_YAML_ARG_STR False OTEL_YAML_EXPORTERS ''thread_name'',
             OTEL_YAML_ARG_INT64 False OTEL_YAML_EXPORTERS ''cpu_id'' (-1) OTEL_MAX_CPU_ID,
             OTEL_YAML_ARG_STR False OTEL_YAML_EXPORTERS ''endpoint'',
             OTEL_YAML_ARG_BOOL False OTEL_YAML_EXPORTERS ''use_ssl_credentials'',
             OTEL_YAML_ARG_STR False OTEL_YAML_EXPORTERS ''ssl_credentials_cacert_path'',
             OTEL_YAML_ARG_STR False OTEL_YAML_EXPORTERS ''ssl_credentials_cacert_as_string'',
             OTEL_YAML_ARG_INT64 False OTEL_YAML_EXPORTERS ''timeout'' 1 60,
             OTEL_YAML_ARG_STR False OTEL_YAML_EXPORTERS ''user_agent'',
             OTEL_YAML_ARG_INT64 False OTEL_YAML_EXPORTERS ''max_threads'' 1 1024,
             OTEL_YAML_ARG_STR False OTEL_YAML_EXPORTERS ''compression'']) (\<lambda>(st, _).
          give \<lparr>og_endpoint = str_at st 2 endpoint, og_use_ssl_credentials = bool_at st 3,
            og_ssl_credentials_cacert_path = str_at st 4 [],
            og_ssl_credentials_cacert_as_string = str_at st 5 [],
            og_timeout = int_at st 6 10, og_user_agent = str_at st 7 [],
            og_max_threads = int_at st 8 0, og_compression = str_at st 9 []\<rparr>))"

text \<open>Copying the headers of a text map; a throw fails the call.\<close>

fun add_headers :: "text_pairs \<Rightarrow> text_pairs \<Rightarrow> text_pairs build" where
  "add_headers [] acc = give acc"
| "add_headers (kv # kvs) acc = (\<lambda>oom n.
     if oom n then (raise ''Unable to add HTTP header'', Suc n) else add_headers kvs (acc @ [kv]) oom (Suc n))"

definition parse_content_type :: "string \<Rightarrow> content_type option build" where
  "parse_content_type s =
     (if strcasecmp_eq s ''json'' then give (Some kJson)
      else if strcasecmp_eq s ''binary'' then give (Some kBinary)
      else if s \<noteq> [] then stop ''Invalid content_type: %s'' [Arg_str s] else give None)"

definition parse_json_bytes_mapping :: "string \<Rightarrow> json_bytes_mapping option build" where
  "parse_json_bytes_mapping s =
     (if strcasecmp_eq s ''hexid'' then give (Some kHexId)
      else if strcasecmp_eq s ''hex'' then give (Some kHex)
      else if strcasecmp_eq s ''base64'' then give (Some kBase64)
      else if s \<noteq> [] then stop ''Invalid json_bytes_mapping: %s'' [Arg_str s] else give None)"

text \<open>The keys of the TLS options, in the order of \<open>oh_ssl\<close>; they are arguments 11 to 20.\<close>

definition http_ssl_keys :: "string list" where
  "http_ssl_keys = [''ssl_ca_cert_path'', ''ssl_ca_cert_string'', ''ssl_client_key_path'',
     ''ssl_client_key_string'', ''ssl_client_cert_path'', ''ssl_client_cert_string'', ''ssl_min_tls'',
     ''ssl_max_tls'', ''ssl_cipher'', ''ssl_cipher_suite'']"

definition otel_exporter_set_otlp_http_options ::
  "'d :: ord cfg \<Rightarrow> string option \<Rightarrow> string option \<Rightarrow> string option \<Rightarrow> string option \<Rightarrow> otlp_http_options build" where
  "otel_exporter_set_otlp_http_options c desc path endpoint name =
     (case (desc, path, endpoint) of
        (None, _, _) \<Rightarrow> stop ''Exporter description not specified'' []
      | (_, None, _) \<Rightarrow> stop ''Exporter path not specified'' []
      | (_, _, None) \<Rightarrow> stop ''Exporter endpoint not specified'' []
      | (Some desc, Some path, Some endpoint) \<Rightarrow>
          bbind (get_node c True desc path name
            ([OTEL_YAML_ARG_STR False OTEL_YAML_EXPORTERS ''thread_name'',
              OTEL_YAML_ARG_INT64 False OTEL_YAML_EXPORTERS ''cpu_id'' (-1) OTEL_MAX_CPU_ID,
              OTEL_YAML_ARG_STR False OTEL_YAML_EXPORTERS ''endpoint'',
              OTEL_YAML_ARG_STR False OTEL_YAML_EXPORTERS ''content_type'',
              OTEL_YAML_ARG_STR False OTEL_YAML_EXPORTERS ''json_bytes_mapping'',
              OTEL_YAML_ARG_BOOL False OTEL_YAML_EXPORTERS ''use_json_name'',
              OTEL_YAML_ARG_BOOL False OTEL_YAML_EXPORTERS ''debug'',
              OTEL_YAML_ARG_INT64 False OTEL_YAML_EXPORTERS ''timeout'' 1 60,
              OTEL_YAML_ARG_MAP False OTEL_YAML_EXPORTERS ''http_headers'',
              OTEL_YAML_ARG_INT64 False OTEL_YAML_EXPORTERS ''background_thread_wait_for'' 0 3600000,
              OTEL_YAML_ARG_BOOL False OTEL_YAML_EXPORTERS ''ssl_insecure_skip_verify'']
             @ map (OTEL_YAML_ARG_STR False OTEL_YAML_EXPORTERS) (http_ssl_keys @ [''compression'']))) (\<lambda>(st, _).
          bbind (parse_content_type (str_at st 3 ''json'')) (\<lambda>content.
          bbind (parse_json_bytes_mapping (str_at st 4 ''hexid'')) (\<lambda>mapping.
          bbind (add_headers (map_at st 8) []) (\<lambda>headers.
          bbind (thread_instrumentation (str_at st 0 []) (int_at st 1 (-1))) (\<lambda>ti.
          give \<lparr>oh_thread = ti, oh_url = str_at st 2 endpoint, oh_content_type = content,
            oh_json_bytes_mapping = mapping, oh_use_json_name = bool_at st 5,
            oh_console_debug = bool_at st 6, oh_timeout = int_at st 7 10, oh_http_headers = headers,
            oh_ssl_insecure_skip_verify = bool_at st 10,
            oh_ssl = map (\<lambda>i. str_at st i []) [11..<21], oh_compression = str_at st 21 [],
            oh_wait_for = int_at st 9 0\<rparr>))))))"

definition otel_exporter_set_ostream_options ::
  "'d :: ord cfg \<Rightarrow> string option \<Rightarrow> string option \<Rightarrow> string option \<Rightarrow> exporter build" where
  "otel_exporter_set_ostream_options c desc path name =
     (case (desc, path) of
        (None, _) \<Rightarrow> stop ''Exporter description not specified'' []
      | (_, None) \<Rightarrow> stop ''Exporter path not specified'' []
      | (Some desc, Some path) \<Rightarrow>
          bbind (get_node c True desc path name
            [yaml_arg_of (YAML_STR PATH_MAX) False OTEL_YAML_EXPORTERS ''filename'']) (\<lambda>(st, _).
          let filename = str_at st 0 ''stdout'' in
          bbind (make_nothrow (Exp_ostream
              (if strcasecmp_eq filename ''stdout'' then Std_cout
               else if strcasecmp_eq filename ''stderr'' then Std_cerr
               else File_exporter (snprintf_buf PATH_MAX filename))))
            (or_stop ''Unable to create ostream exporter'')))"

text \<open>The dispatch macros \<open>OTEL_EXPORTER_CASE_\<dots>\<close>; \<open>sig\<close> is \<open>traces\<close>, \<open>metrics\<close> or \<open>logs\<close>.\<close>

definition EXPORTER_DESC :: "string \<Rightarrow> string" where
  "EXPORTER_DESC sig = ''OpenTelemetry '' @ sig @ '' exporter''"

definition EXPORTER_NOT_SUPPORTED :: "string \<Rightarrow> string \<Rightarrow> exporter build" where
  "EXPORTER_NOT_SUPPORTED sig s = stop (''OpenTelemetry '' @ s @ '' '' @ sig @ '' exporter is not supported'') []"

definition init_exporter :: "string \<Rightarrow> string \<Rightarrow> exporter \<Rightarrow> exporter build" where
  "init_exporter sig s x =
     bbind (make_nothrow x) (or_stop (''Unable to init OpenTelemetry '' @ s @ '' '' @ sig @ '' exporter''))"

text \<open>\<open>SetBackgroundWaitFor\<close>: 0 waits for the longest time.\<close>

definition background_wait :: "int \<Rightarrow> int" where
  "background_wait v = (if v > 0 then v else LONG_MAX)"

definition exporter_cases ::
  "string \<Rightarrow> 'd :: ord cfg \<Rightarrow> string \<Rightarrow> string option \<Rightarrow> string \<Rightarrow> exporter build \<Rightarrow> exporter build" where
  "exporter_cases sig c path name ty otherwise =
     (if strcasecmp_eq ty ''ostream''
      then (if cf_have c K_ostream
            then otel_exporter_set_ostream_options c (Some (EXPORTER_DESC sig)) (Some path) name
            else EXPORTER_NOT_SUPPORTED sig ''ostream'')
      else if strcasecmp_eq ty ''otlp_file''
      then (if cf_have c K_otlp_file
            then bbind (otel_exporter_set_otlp_file_options c (Some (EXPORTER_DESC sig)) (Some path) name)
                   (\<lambda>opt. init_exporter sig ''OTLP File'' (Exp_otlp_file opt))
            else EXPORTER_NOT_SUPPORTED sig ''OTLP File'')
      else if strcasecmp_eq ty ''otlp_grpc''
      then (if cf_have c K_otlp_grpc
            then bbind (otel_exporter_set_otlp_grpc_options c (Some (EXPORTER_DESC sig)) (Some path)
                     (Some (''http://localhost:4317/v1/'' @ sig)) name)
                   (\<lambda>opt. init_exporter sig ''OTLP gRPC'' (Exp_otlp_grpc opt))
            else EXPORTER_NOT_SUPPORTED sig ''OTLP gRPC'')
      else if strcasecmp_eq ty ''otlp_http''
      then (if cf_have c K_otlp_http
            then bbind (otel_exporter_set_otlp_http_options c (Some (EXPORTER_DESC sig)) (Some path)
                     (Some (''http://localhost:4318/v1/'' @ sig)) name)
                   (\<lambda>opt. init_exporter sig ''OTLP HTTP''
                     (Exp_otlp_http (opt\<lparr>oh_wait_for := background_wait (oh_wait_for opt)\<rparr>)))
            else EXPORTER_NOT_SUPPORTED sig ''OTLP HTTP'')
      else otherwise)"

definition exporter_type ::
  "string \<Rightarrow> 'd :: ord cfg \<Rightarrow> string \<Rightarrow> string option \<Rightarrow> string build" where
  "exporter_type sig c path name =
     bbind (get_node c True (EXPORTER_DESC sig) path name [OTEL_YAML_ARG_STR True OTEL_YAML_EXPORTERS ''type''])
       (\<lambda>(st, _). give (str_at st 0 []))"

definition memory_exporter :: "string \<Rightarrow> 'd :: ord cfg \<Rightarrow> string \<Rightarrow> string option \<Rightarrow> exporter build" where
  "memory_exporter sig c path name =
     (if cf_have c K_memory
      then bbind (get_node c True (EXPORTER_DESC sig) path name
             [OTEL_YAML_ARG_INT64 False OTEL_YAML_EXPORTERS ''buffer_size'' 16 65536]) (\<lambda>(st, _).
           init_exporter sig ''In-Memory'' (Exp_memory (int_at st 0 (cf_memory_buffer c))))
      else EXPORTER_NOT_SUPPORTED sig ''In-Memory'')"

text \<open>The metrics exporter first creates the buffer it writes to.\<close>

definition memory_metric_exporter :: "'d :: ord cfg \<Rightarrow> string \<Rightarrow> string option \<Rightarrow> exporter build" where
  "memory_metric_exporter c path name =
     (let sig = ''metrics'' in
      if cf_have c K_memory
      then bbind (get_node c True (EXPORTER_DESC sig) path name
             [OTEL_YAML_ARG_INT64 False OTEL_YAML_EXPORTERS ''buffer_size'' 16 65536]) (\<lambda>(st, _).
           bbind (make_nothrow ()) (\<lambda>data. case data of
               None \<Rightarrow> stop ''Unable to init OpenTelemetry In-Memory metrics exporter'' []
             | Some _ \<Rightarrow> init_exporter sig ''In-Memory'' (Exp_memory (int_at st 0 (cf_memory_buffer c)))))
      else EXPORTER_NOT_SUPPORTED sig ''In-Memory'')"

definition zipkin_exporter :: "string \<Rightarrow> 'd :: ord cfg \<Rightarrow> string \<Rightarrow> string option \<Rightarrow> exporter build" where
  "zipkin_exporter sig c path name =
     (if cf_have c K_zipkin
      then bbind (get_node c True (EXPORTER_DESC sig) path name
             [OTEL_YAML_ARG_STR False OTEL_YAML_EXPORTERS ''endpoint'',
              OTEL_YAML_ARG_STR False OTEL_YAML_EXPORTERS ''format'',
              OTEL_YAML_ARG_STR False OTEL_YAML_EXPORTERS ''service_name'',
              OTEL_YAML_ARG_STR False OTEL_YAML_EXPORTERS ''ipv4'',
              OTEL_YAML_ARG_STR False OTEL_YAML_EXPORTERS ''ipv6'']) (\<lambda>(st, _).
           let format = str_at st 1 [] in
           bbind (if strcasecmp_eq format ''json'' then give (Some zkJson)
                  else if strcasecmp_eq format ''protobuf'' then give (Some zkProtobuf)
                  else if format \<noteq> [] then stop ''Invalid Zipkin exporter format: %s'' [Arg_str format]
                  else give None) (\<lambda>f.
           init_exporter sig ''Zipkin'' (Exp_zipkin
             \<lparr>oz_endpoint = str_at st 0 ''http://localhost:9411/api/v2/spans'', oz_format = f,
              oz_service_name = str_at st 2 ''default-service'', oz_ipv4 = str_at st 3 [],
              oz_ipv6 = str_at st 4 []\<rparr>)))
      else EXPORTER_NOT_SUPPORTED sig ''Zipkin'')"

definition elasticsearch_exporter :: "string \<Rightarrow> 'd :: ord cfg \<Rightarrow> string \<Rightarrow> string option \<Rightarrow> exporter build" where
  "elasticsearch_exporter sig c path name =
     (if cf_have c K_elasticsearch
      then bbind (get_node c True (EXPORTER_DESC sig) path name
             [OTEL_YAML_ARG_STR False OTEL_YAML_EXPORTERS ''host'',
              OTEL_YAML_ARG_INT64 False OTEL_YAML_EXPORTERS ''port'' 1 65535,
              OTEL_YAML_ARG_STR False OTEL_YAML_EXPORTERS ''index'',
              OTEL_YAML_ARG_INT64 False OTEL_YAML_EXPORTERS ''response_timeout'' 1 3600,
              OTEL_YAML_ARG_BOOL False OTEL_YAML_EXPORTERS ''debug'',
              OTEL_YAML_ARG_MAP False OTEL_YAML_EXPORTERS ''http_headers'']) (\<lambda>(st, _).
           bbind (add_headers (map_at st 5) []) (\<lambda>headers.
           init_exporter sig ''Elasticsearch'' (Exp_elasticsearch
             \<lparr>oe_host = str_at st 0 ''localhost'', oe_port = int_at st 1 9200,
              oe_index = str_at st 2 ''logs'', oe_response_timeout = int_at st 3 30,
              oe_console_debug = bool_at st 4, oe_http_headers = headers\<rparr>)))
      else EXPORTER_NOT_SUPPORTED sig ''Elasticsearch'')"

definition otel_tracer_exporter_create :: "'d :: ord cfg option \<Rightarrow> string option \<Rightarrow> exporter build" where
  "otel_tracer_exporter_create tracer name = with_instance tracer (\<lambda>c.
     let path = OTEL_YAML_PATH c OTEL_YAML_EXPORTERS; sig = ''traces'' in
     bbind (exporter_type sig c path name) (\<lambda>ty.
     if strcasecmp_eq ty ''elasticsearch'' then EXPORTER_NOT_SUPPORTED sig ''Elasticsearch''
     else if strcasecmp_eq ty ''memory'' then memory_exporter sig c path name
     else exporter_cases sig c path name ty
       (if strcasecmp_eq ty ''zipkin'' then zipkin_exporter sig c path name
        else stop ''Invalid exporter type: %s'' [Arg_str ty])))"

definition otel_meter_exporter_create :: "'d :: ord cfg option \<Rightarrow> string option \<Rightarrow> exporter build" where
  "otel_meter_exporter_create meter name = with_instance meter (\<lambda>c.
     let path = OTEL_YAML_PATH c OTEL_YAML_EXPORTERS; sig = ''metrics'' in
     bbind (exporter_type sig c path name) (\<lambda>ty.
     if strcasecmp_eq ty ''elasticsearch'' then EXPORTER_NOT_SUPPORTED sig ''Elasticsearch''
     else if strcasecmp_eq ty ''memory'' then memory_metric_exporter c path name
     else exporter_cases sig c path name ty
       (if strcasecmp_eq ty ''zipkin'' then EXPORTER_NOT_SUPPORTED sig ''Zipkin''
        else stop ''Invalid exporter type: %s'' [Arg_str ty])))"

definition otel_logger_exporter_create :: "'d :: ord cfg option \<Rightarrow> string option \<Rightarrow> exporter build" where
  "otel_logger_exporter_create logger name = with_instance logger (\<lambda>c.
     let path = OTEL_YAML_PATH c OTEL_YAML_EXPORTERS; sig = ''logs'' in
     bbind (exporter_type sig c path name) (\<lambda>ty.
     if strcasecmp_eq ty ''elasticsearch'' then elasticsearch_exporter sig c path name
     else if strcasecmp_eq ty ''memory'' then EXPORTER_NOT_SUPPORTED sig ''In-Memory''
     else exporter_cases sig c path name ty
       (if strcasecmp_eq ty ''zipkin'' then EXPORTER_NOT_SUPPORTED sig ''Zipkin''
        else stop ''Invalid exporter type: %s'' [Arg_str ty])))"

section \<open>Resources\<close>

text \<open>\<open>otel_resource_detector\<close> gives the attributes of the environment; \<open>otel_resource_create\<close> adds the
  configured ones over them and counts those.\<close>

fun assign_attributes :: "text_pairs \<Rightarrow> text_pairs \<Rightarrow> int \<Rightarrow> (text_pairs \<times> int) build" where
  "assign_attributes [] attrs retval = give (attrs, retval)"
| "assign_attributes ((k, v) # kvs) attrs retval = (\<lambda>oom n.
     if oom n then (raise ''Unable to add resource attribute'', Suc n)
     else assign_attributes kvs (AList.update k v attrs) (retval + 1) oom (Suc n))"

definition otel_resource_create ::
  "'d :: ord cfg option \<Rightarrow> string option \<Rightarrow> string option \<Rightarrow> (text_pairs \<times> int) build" where
  "otel_resource_create ctx desc path =
     (case (ctx, desc, path) of
        (None, _, _) \<Rightarrow> stop ''Invalid context'' []
      | (_, None, _) \<Rightarrow> stop ''Resource description not specified'' []
      | (_, _, None) \<Rightarrow> stop ''Resource path not specified'' []
      | (Some c, Some desc, Some path) \<Rightarrow>
          bbind (get_node c False desc path None [OTEL_YAML_ARG_MAP False OTEL_YAML_PROVIDERS ''resources''])
            (\<lambda>(st, _). assign_attributes (map_at st 0) (cf_env c) 0))"

section \<open>Processors and readers\<close>

record batch_options =
  bo_thread :: "(string \<times> int) option"
  bo_max_queue_size :: int
  bo_schedule_delay :: int
  bo_export_timeout :: int
  bo_max_export_batch_size :: int

datatype processor = Batch_processor batch_options exporter | Simple_processor exporter

text \<open>The chain of objects of a batch processor: the counter it shares, the counting exporter, the
  SDK's processor, the counting processor; the first that cannot be created ends it.\<close>

definition batch_chain :: "processor \<Rightarrow> processor option build" where
  "batch_chain p =
     bbind (make_nothrow ()) (\<lambda>consumed. case consumed of None \<Rightarrow> give None | Some _ \<Rightarrow>
     bbind (make_nothrow ()) (\<lambda>counting_exporter. case counting_exporter of None \<Rightarrow> give None | Some _ \<Rightarrow>
     bbind (make_nothrow ()) (\<lambda>inner. case inner of None \<Rightarrow> give None | Some _ \<Rightarrow> make_nothrow p)))"

definition processor_create ::
  "string \<Rightarrow> int \<Rightarrow> 'd :: ord cfg option \<Rightarrow> exporter \<Rightarrow> string option \<Rightarrow> processor build" where
  "processor_create sig default_delay instance exporter name = with_instance instance (\<lambda>c.
     let desc = ''OpenTelemetry '' @ sig @ '' processor'' in
     bbind (get_node c False desc (OTEL_YAML_PATH c OTEL_YAML_PROCESSORS) name
         [OTEL_YAML_ARG_STR True OTEL_YAML_PROCESSORS ''type'',
          OTEL_YAML_ARG_STR False OTEL_YAML_PROCESSORS ''thread_name'',
          OTEL_YAML_ARG_INT64 False OTEL_YAML_PROCESSORS ''cpu_id'' (-1) OTEL_MAX_CPU_ID,
          OTEL_YAML_ARG_INT64 False OTEL_YAML_PROCESSORS ''max_queue_size'' 64 65536,
          OTEL_YAML_ARG_INT64 False OTEL_YAML_PROCESSORS ''schedule_delay'' 1 60000,
          OTEL_YAML_ARG_INT64 False OTEL_YAML_PROCESSORS ''export_timeout'' 1 60000,
          OTEL_YAML_ARG_INT64 False OTEL_YAML_PROCESSORS ''max_export_batch_size'' 1 65536]) (\<lambda>(st, rc).
     let ty = str_at st 0 []; thread_name = str_at st 1 []; cpu_id = int_at st 2 (-1);
         max_queue_size = int_at st 3 2048; schedule_delay = int_at st 4 default_delay;
         export_timeout = int_at st 5 30000; max_export_batch_size = int_at st 6 512 in
     if rc = 0
     then (case name of
         Some s \<Rightarrow> stop (''%s: '' @ desc @ '' not specified'') [Arg_str s]
       | None \<Rightarrow> stop (desc @ '' not specified'') [])
     else if \<not> strcasecmp_eq ty ''batch'' \<and> \<not> strcasecmp_eq ty ''single'' \<and> ty \<noteq> []
     then stop (''%s: invalid '' @ desc @ '' type specified'') [Arg_str ty]
     else if strcasecmp_eq ty ''single''
     then bbind (make_nothrow (Simple_processor exporter)) (or_stop (''Unable to create '' @ desc))
     else if max_queue_size < max_export_batch_size
     then stop ''Maximum buffer/queue size must be greater than or equal to maximum batch size: %ld < %ld''
            [Arg_int max_queue_size, Arg_int max_export_batch_size]
     else bbind (thread_instrumentation thread_name cpu_id) (\<lambda>ti.
          bbind (batch_chain (Batch_processor
             \<lparr>bo_thread = ti, bo_max_queue_size = max_queue_size, bo_schedule_delay = schedule_delay,
              bo_export_timeout = export_timeout, bo_max_export_batch_size = max_export_batch_size\<rparr> exporter))
            (or_stop (''Unable to create '' @ desc)))))"

definition otel_tracer_processor_create ::
  "'d :: ord cfg option \<Rightarrow> exporter \<Rightarrow> string option \<Rightarrow> processor build" where
  "otel_tracer_processor_create = processor_create ''traces'' 5000"

definition otel_logger_processor_create ::
  "'d :: ord cfg option \<Rightarrow> exporter \<Rightarrow> string option \<Rightarrow> processor build" where
  "otel_logger_processor_create = processor_create ''logs'' 1000"

record metric_reader =
  mr_thread :: "(string \<times> int) option"
  mr_export_interval :: int
  mr_export_timeout :: int
  mr_exporter :: exporter

definition otel_meter_reader_create ::
  "'d :: ord cfg option \<Rightarrow> exporter \<Rightarrow> string option \<Rightarrow> metric_reader build" where
  "otel_meter_reader_create meter exporter name = with_instance meter (\<lambda>c.
     bbind (get_node c False ''OpenTelemetry meter reader'' (OTEL_YAML_PATH c OTEL_YAML_READERS) name
         [OTEL_YAML_ARG_STR False OTEL_YAML_READERS ''thread_name'',
          OTEL_YAML_ARG_INT64 False OTEL_YAML_READERS ''cpu_id'' (-1) OTEL_MAX_CPU_ID,
          OTEL_YAML_ARG_INT64 False OTEL_YAML_READERS ''export_interval'' 100 3600000,
          OTEL_YAML_ARG_INT64 False OTEL_YAML_READERS ''export_timeout'' 100 3600000]) (\<lambda>(st, _).
     let export_interval = int_at st 2 60000; export_timeout = int_at st 3 30000 in
     if export_interval \<le> export_timeout
     then stop ''Periodic Exporting Metric Reader: invalid configuration: export_timeout must be less than export_interval'' []
     else bbind (thread_instrumentation (str_at st 0 []) (int_at st 1 (-1))) (\<lambda>ti.
       bbind (make_nothrow exporter) (\<lambda>ce.
       bbind (or_stop ''Unable to create counting metric exporter'' ce) (\<lambda>counting_exporter.
       bbind (make_nothrow \<lparr>mr_thread = ti, mr_export_interval = export_interval,
           mr_export_timeout = export_timeout, mr_exporter = counting_exporter\<rparr>)
         (or_stop ''Unable to create Periodic Exporting Metric Reader''))))))"

section \<open>Providers\<close>

record 'd tracer_provider =
  tp_processors :: "processor list"
  tp_resource :: text_pairs
  tp_sampler :: "'d sampler"

record meter_provider =
  mp_readers :: "metric_reader list"
  mp_resource :: text_pairs

record logger_provider =
  lp_processors :: "processor list"
  lp_resource :: text_pairs

definition otel_tracer_provider_create ::
  "'d :: ord cfg option \<Rightarrow> processor list \<Rightarrow> 'd sampler \<Rightarrow> 'd tracer_provider build" where
  "otel_tracer_provider_create tracer processors smp = with_instance tracer (\<lambda>c.
     bbind (otel_resource_create (Some c) (Some ''OpenTelemetry tracer provider'')
         (Some (OTEL_YAML_PATH c OTEL_YAML_PROVIDERS))) (\<lambda>(resource, _).
     bbind (make_nothrow ()) (\<lambda>context_maybe.
     bbind (or_stop ''Unable to create OpenTelemetry tracer context'' context_maybe) (\<lambda>_.
     bbind (make_nothrow \<lparr>tp_processors = processors, tp_resource = resource, tp_sampler = smp\<rparr>)
       (or_stop ''Unable to create OpenTelemetry tracer provider'')))))"

definition otel_meter_provider_create ::
  "'d :: ord cfg option \<Rightarrow> metric_reader list \<Rightarrow> meter_provider build" where
  "otel_meter_provider_create meter readers = with_instance meter (\<lambda>c.
     bbind (otel_resource_create (Some c) (Some ''OpenTelemetry meter provider'')
         (Some (OTEL_YAML_PATH c OTEL_YAML_PROVIDERS))) (\<lambda>(resource, _).
     bbind (make_nothrow ()) (\<lambda>views_maybe.
     bbind (or_stop ''Unable to create OpenTelemetry meter views'' views_maybe) (\<lambda>_.
     bbind (make_nothrow \<lparr>mp_readers = readers, mp_resource = resource\<rparr>)
       (or_stop ''Unable to create OpenTelemetry meter provider'')))))"

definition otel_logger_provider_create ::
  "'d :: ord cfg option \<Rightarrow> processor list \<Rightarrow> logger_provider build" where
  "otel_logger_provider_create logger processors = with_instance logger (\<lambda>c.
     bbind (otel_resource_create (Some c) (Some ''OpenTelemetry logger provider'')
         (Some (OTEL_YAML_PATH c OTEL_YAML_PROVIDERS))) (\<lambda>(resource, _).
     if processors = [] then stop ''No OpenTelemetry logs processors configured'' []
     else bbind (make_nothrow \<lparr>lp_processors = processors, lp_resource = resource\<rparr>)
       (or_stop ''Unable to create OpenTelemetry logger provider'')))"

end
