(* ===== verification/Otel_ConfigLaws.thy ===== *)
theory Otel_ConfigLaws
  imports Otel_Config
begin

text \<open>
  What the builders of \<open>Otel_Config\<close> guarantee: a build that succeeds hands back only options in
  their documented ranges, whatever the document holds.
\<close>

section \<open>Inverting a build\<close>

lemma bbind_ok [build_simps]:
  "bbind m f orc n = (Inr y, k) \<longleftrightarrow> (\<exists>x n'. m orc n = (Inr x, n') \<and> f x orc n' = (Inr y, k))"
  by (auto simp: bbind_def split: prod.splits sum.splits)

lemma give_ok [build_simps]: "give x orc n = (Inr y, k) \<longleftrightarrow> y = x \<and> k = n"
  by (auto simp: give_def)

lemma stop_ok [build_simps]: "stop f args orc n = (Inr y, k) \<longleftrightarrow> False"
  by (simp add: stop_def)

lemma make_nothrow_ok [build_simps]:
  "make_nothrow x orc n = (Inr y, k) \<longleftrightarrow> k = Suc n \<and> y = (if orc n then None else Some x)"
  by (auto simp: make_nothrow_def)

lemma or_stop_ok [build_simps]: "or_stop f m orc n = (Inr y, k) \<longleftrightarrow> m = Some y \<and> k = n"
  by (cases m) (auto simp: build_simps)

lemma if_build_ok [build_simps]:
  "(if b then m else m') orc n = r \<longleftrightarrow> (b \<longrightarrow> m orc n = r) \<and> (\<not> b \<longrightarrow> m' orc n = r)"
  by simp

lemma with_instance_ok [build_simps]:
  "with_instance i f orc n = (Inr y, k) \<longleftrightarrow> (\<exists>c. i = Some c \<and> f c orc n = (Inr y, k))"
  by (cases i) auto

text \<open>What a lookup stored fits the arguments it was given.\<close>

definition stored_fits :: "'d :: ord yaml_arg list \<Rightarrow> (nat \<times> 'd yaml_stored) list \<Rightarrow> bool" where
  "stored_fits args st \<longleftrightarrow> (\<forall>(j, v) \<in> set st. j < length args \<and> stored_ok (arg_type (args ! j)) v)"

lemma yaml_get_node_fits:
  assumes "yaml_get_node orc strtod fyd mandatory desc path name args = (st, ok rc)"
  shows "stored_fits args st"
proof -
  have loop: "stored_fits args st"
    if "yaml_args_loop orc strtod fyd d e 0 args [] 0 = (st, ok rc)" for d e
    using yaml_args_loop_ok [OF that] by (auto simp: stored_fits_def)
  show ?thesis
    using assms loop
    by (auto simp: yaml_get_node_def yaml_get_node_v_def Let_def stored_fits_def
        split: if_splits sum.splits)
qed

lemma get_node_fits:
  "get_node c mandatory desc path name args orc n = (Inr (st, rc), k) \<Longrightarrow> stored_fits args st \<and> k = n"
  by (auto simp: get_node_def split: prod.splits sum.splits dest: yaml_get_node_fits)

lemma stored_fits_at:
  "stored_fits args st \<Longrightarrow> map_of st i = Some v \<Longrightarrow> i < length args \<and> stored_ok (arg_type (args ! i)) v"
  by (auto simp: stored_fits_def dest!: map_of_SomeD)

lemma int_at_in_range:
  assumes "stored_fits args st" and "i < length args \<Longrightarrow> arg_type (args ! i) = YAML_INT64 lo hi"
    and "lo \<le> d" "d \<le> hi"
  shows "lo \<le> int_at st i d \<and> int_at st i d \<le> hi"
  using assms stored_fits_at [OF assms(1), of i]
  by (auto simp: int_at_def split: option.splits yaml_stored.splits)

lemma double_at_in_range:
  fixes lo :: "'d :: ord"
  assumes "stored_fits args st" and "i < length args \<Longrightarrow> arg_type (args ! i) = YAML_DOUBLE lo hi"
    and "lo \<le> d" "d \<le> hi"
  shows "lo \<le> double_at st i d \<and> double_at st i d \<le> hi"
  using assms stored_fits_at [OF assms(1), of i]
  by (auto simp: double_at_def split: option.splits yaml_stored.splits)

lemma arg_type_simps [simp]:
  "arg_type (OTEL_YAML_ARG_STR m p k) = YAML_STR OTEL_YAML_BUFSIZ"
  "arg_type (OTEL_YAML_ARG_BOOL m p k) = YAML_BOOL"
  "arg_type (OTEL_YAML_ARG_INT64 m p k lo hi) = YAML_INT64 lo hi"
  "arg_type (OTEL_YAML_ARG_DOUBLE m p k x y) = YAML_DOUBLE x y"
  "arg_type (OTEL_YAML_ARG_MAP m p k) = YAML_MAP"
  by (simp_all add: OTEL_YAML_ARG_STR_def OTEL_YAML_ARG_BOOL_def OTEL_YAML_ARG_INT64_def
      OTEL_YAML_ARG_DOUBLE_def OTEL_YAML_ARG_MAP_def yaml_arg_of_def)

section \<open>Samplers\<close>

fun composable_ok :: "'d :: linordered_idom composable \<Rightarrow> bool" where
  "composable_ok (ComposableProbability r) \<longleftrightarrow> 0 \<le> r \<and> r \<le> 1"
| "composable_ok (ComposableParentThreshold (ComposableProbability r)) \<longleftrightarrow> 0 \<le> r \<and> r \<le> 1"
| "composable_ok (ComposableParentThreshold _) \<longleftrightarrow> False"
| "composable_ok _ \<longleftrightarrow> True"

fun leaf_sampler :: "'d :: linordered_idom sampler \<Rightarrow> bool" where
  "leaf_sampler AlwaysOn \<longleftrightarrow> True"
| "leaf_sampler AlwaysOff \<longleftrightarrow> True"
| "leaf_sampler (TraceIdRatioBased r) \<longleftrightarrow> 0 \<le> r \<and> r \<le> 1"
| "leaf_sampler _ \<longleftrightarrow> False"

fun sampler_ok :: "'d :: linordered_idom sampler \<Rightarrow> bool" where
  "sampler_ok (ParentBased d rs rn ls ln) \<longleftrightarrow>
     leaf_sampler d \<and> {rs, rn, ls, ln} \<subseteq> {AlwaysOn, AlwaysOff}"
| "sampler_ok (Composite c) \<longleftrightarrow> composable_ok c"
| "sampler_ok s \<longleftrightarrow> leaf_sampler s"

lemma sampler_ratio_range:
  fixes c :: "'d :: linordered_idom cfg"
  assumes "sampler_ratio c desc path orc n = (Inr r, k)"
  shows "0 \<le> r \<and> r \<le> 1"
proof -
  obtain st rc n' where g: "get_node c False desc path None
      [OTEL_YAML_ARG_DOUBLE True OTEL_YAML_SAMPLERS ''ratio'' 0 1] orc n = (Inr (st, rc), n')"
    and r: "r = double_at st 0 1"
    using assms by (auto simp: sampler_ratio_def build_simps)
  show ?thesis
    unfolding r using get_node_fits [OF g] by (intro double_at_in_range) auto
qed

lemma delegate_override_leaf:
  assumes "delegate_override f v current orc n = (Inr (Some s), k)" and "current \<noteq> None \<Longrightarrow> the current \<in> {AlwaysOn, AlwaysOff}"
  shows "s \<in> {AlwaysOn, AlwaysOff}"
  using assms by (auto simp: delegate_override_def build_simps split: if_splits)

lemma root_delegate_leaf:
  fixes c :: "'d :: linordered_idom cfg"
  shows "root_delegate c path v orc n = (Inr (Some s), k) \<Longrightarrow> leaf_sampler s"
  by (auto simp: root_delegate_def build_simps split: if_splits dest: sampler_ratio_range)

lemma four_delegates [unfolded prod.case, build_simps]:
  "(case (a, b, c, d) of (Some a, Some b, Some c, Some d) \<Rightarrow> f a b c d | _ \<Rightarrow> stop msg args) orc n = (Inr y, k) \<longleftrightarrow>
   (\<exists>a' b' c' d'. a = Some a' \<and> b = Some b' \<and> c = Some c' \<and> d = Some d' \<and> f a' b' c' d' orc n = (Inr y, k))"
  by (cases a; cases b; cases c; cases d) (simp_all add: build_simps)

lemma make_nothrow_some: "make_nothrow x orc n = (Inr y, k) \<Longrightarrow> y \<noteq> None \<Longrightarrow> the y = x"
  by (auto simp: make_nothrow_ok)

lemma parent_based_ok:
  fixes c :: "'d :: linordered_idom cfg"
  assumes "parent_based_sampler c path orc n = (Inr (Some s), k)"
  shows "sampler_ok s"
proof -
  obtain rs0 rn0 ls0 ln0 d rs rn ls ln v1 v2 v3 v4 v5 n1 n2 n3 n4 n5 n6 n7 n8 n9 n10 n11 n12 n13 n14 n15
    where defaults: "make_nothrow AlwaysOn orc n1 = (Inr rs0, n2)" "make_nothrow AlwaysOff orc n2 = (Inr rn0, n3)"
        "make_nothrow AlwaysOn orc n3 = (Inr ls0, n4)" "make_nothrow AlwaysOff orc n4 = (Inr ln0, n5)"
      and root: "root_delegate c path v1 orc n6 = (Inr (Some d), n7)"
      and rest: "delegate_override ''Invalid remote_sampled delegate: %s'' v2 rs0 orc n8 = (Inr (Some rs), n9)"
        "delegate_override ''Invalid remote_not_sampled delegate: %s'' v3 rn0 orc n10 = (Inr (Some rn), n11)"
        "delegate_override ''Invalid local_sampled delegate: %s'' v4 ls0 orc n12 = (Inr (Some ls), n13)"
        "delegate_override ''Invalid local_not_sampled delegate: %s'' v5 ln0 orc n14 = (Inr (Some ln), n15)"
      and s: "s = ParentBased d rs rn ls ln"
    using assms unfolding parent_based_sampler_def Let_def bbind_ok split_paired_Ex prod.case or_stop_ok four_delegates
    by (auto simp: make_nothrow_ok [of "ParentBased _ _ _ _ _"] split: if_splits)
  have "{rs, rn, ls, ln} \<subseteq> {AlwaysOn, AlwaysOff}"
    using delegate_override_leaf [OF rest(1)] delegate_override_leaf [OF rest(2)]
      delegate_override_leaf [OF rest(3)] delegate_override_leaf [OF rest(4)] defaults [THEN make_nothrow_some]
    by auto
  then show ?thesis
    using root_delegate_leaf [OF root] s by simp
qed

lemma composite_ok:
  fixes c :: "'d :: linordered_idom cfg"
  assumes "composite_sampler c path orc n = (Inr (Some s), k)"
  shows "sampler_ok s"
  using assms
  by (auto simp: composite_sampler_def Let_def build_simps split: if_splits option.splits
      dest: sampler_ratio_range)

text \<open>
  C38: Every sampler built from a configuration is well formed.  Whatever the document says, when
  \<open>otel_sampler_create\<close> succeeds all sampling ratios, nested ones included, lie in the range 0 to 1,
  the root delegate of a parent-based sampler is a simple sampler and its four delegates for the
  parent's states are present and always-on or always-off, and a parent-threshold sampler has a
  probability sampler at its root.
\<close>
theorem sampler_well_formed:
  fixes c :: "'d :: linordered_idom cfg"
  assumes "otel_sampler_create (Some c) orc n = (Inr s, k)"
  shows "sampler_ok s"
  using assms
  by (auto simp: otel_sampler_create_def Let_def build_simps split: if_splits
      dest: sampler_ratio_range parent_based_ok composite_ok)

text \<open>A configuration for the examples, with one prefix, and the rules that evaluate lookups in it.\<close>

definition demo_doc :: yaml_node where
  "demo_doc = Y_map [
     (''t'', Y_map [(''scope_name'', Y_val ''app''), (''samplers'', Y_val ''s''), (''processors'', Y_val ''p''),
        (''readers'', Y_val ''m''), (''exporters'', Y_val ''e''), (''providers'', Y_val ''r'')]),
     (''samplers'', Y_map [(''s'', Y_map [(''type'', Y_val ''parent_based''), (''delegate'', Y_val ''always_off'')])]),
     (''processors'', Y_map [(''p'', Y_map [(''type'', Y_val ''batch''), (''max_queue_size'', Y_val ''128''),
        (''max_export_batch_size'', Y_val ''100'')])]),
     (''readers'', Y_map [(''m'', Y_map [(''thread_name'', Y_val ''w'')])]),
     (''exporters'', Y_map [(''e'', Y_map [(''type'', Y_val ''ostream''), (''filename'', Y_val ''out.txt'')])]),
     (''providers'', Y_map [(''r'', Y_map [(''resources'', Y_seq [Y_map [(''host'', Y_val ''a'')]])])])]"

definition demo_cfg :: "int cfg" where
  "demo_cfg = \<lparr>cf_fyd = Some demo_doc, cf_strtod = (\<lambda>s. (0, s, No_error)), cf_map_oom = (\<lambda>_. False),
     cf_prefix = ''/t'', cf_env = [(''host'', ''env''), (''zone'', ''z'')], cf_have = (\<lambda>_. True),
     cf_memory_buffer = 100, cf_composite = True\<rparr>"

lemma snprintf_short: "length s < n \<Longrightarrow> snprintf_buf n s = s"
  by (simp add: snprintf_buf_def)

lemma copy_scalar_run:
  "copy_scalar (Some node) (CHR ''/'' # p) n =
     (case (if p = [] then Some node else yaml_walk node (split_on CHR ''/'' p)) of
        None \<Rightarrow> None
      | Some x \<Rightarrow> if has_val x \<and> node_val x \<noteq> [] then Some (take (n - 1) (node_val x)) else None)"
  by (simp add: copy_scalar_def ryml_get_node_by_path_def)

lemma demo_walk: "\<not> is_seq demo_doc"
  by (simp add: demo_doc_def)

lemmas demo_child = arg_cong [OF demo_doc_def, of "\<lambda>d. child_by_key d k", unfolded child_by_key.simps] for k

lemmas yaml_run = get_node_def yaml_get_node_def yaml_get_node_v_def yaml_find_def copy_scalar_run
  demo_walk demo_child split_on.simps yaml_arg_step_def path_desc_def OTEL_YAML_ARG_STR_def
  OTEL_YAML_ARG_INT64_def OTEL_YAML_ARG_BOOL_def OTEL_YAML_ARG_DOUBLE_def OTEL_YAML_ARG_MAP_def
  yaml_arg_of_def snprintf_short OTEL_YAML_BUFSIZ_def convert_arg_def demo_cfg_def
  OTEL_YAML_PATH_def OTEL_YAML_SAMPLERS_def OTEL_YAML_PROCESSORS_def OTEL_YAML_READERS_def
  OTEL_YAML_EXPORTERS_def OTEL_YAML_PROVIDERS_def

lemma sampler_well_formed_witness:
  "otel_sampler_create (Some demo_cfg) (\<lambda>_. False) 0 =
     (Inr (ParentBased AlwaysOff AlwaysOn AlwaysOff AlwaysOn AlwaysOff), 6) \<and>
   sampler_ok (ParentBased AlwaysOff AlwaysOn AlwaysOff AlwaysOn (AlwaysOff :: int sampler))"
  (is "?call = _ \<and> _")
proof -
  have e: "?call = (Inr (ParentBased AlwaysOff AlwaysOn AlwaysOff AlwaysOn AlwaysOff), 6)"
    by (simp add: otel_sampler_create_def parent_based_sampler_def root_delegate_def delegate_override_def
        bbind_def give_def make_nothrow_def str_at_def strcasecmp_eq_def to_lower_def Let_def yaml_run)
  then show ?thesis
    using sampler_well_formed [OF e] by simp
qed

section \<open>Processors and readers\<close>

definition batch_options_ok :: "batch_options \<Rightarrow> bool" where
  "batch_options_ok b \<longleftrightarrow>
     64 \<le> bo_max_queue_size b \<and> bo_max_queue_size b \<le> 65536 \<and>
     1 \<le> bo_max_export_batch_size b \<and> bo_max_export_batch_size b \<le> bo_max_queue_size b \<and>
     1 \<le> bo_schedule_delay b \<and> bo_schedule_delay b \<le> 60000 \<and>
     1 \<le> bo_export_timeout b \<and> bo_export_timeout b \<le> 60000"

lemma thread_instrumentation_ok [build_simps]:
  "thread_instrumentation name cpu orc n = (Inr y, k) \<longleftrightarrow>
     (if name = [] then y = None \<and> k = n else k = Suc n \<and> y = (if orc n then None else Some (name, cpu)))"
  by (auto simp: thread_instrumentation_def build_simps)

lemma batch_chain_some: "batch_chain p orc n = (Inr (Some q), k) \<Longrightarrow> q = p"
  by (auto simp: batch_chain_def build_simps split: if_splits)

lemma processor_create_batch:
  assumes "processor_create sig delay (Some c) e name orc n = (Inr p, k)"
    and "1 \<le> delay" "delay \<le> 60000"
  shows "p = Simple_processor e \<or> (\<exists>b. p = Batch_processor b e \<and> batch_options_ok b)"
proof -
  let ?args = "[OTEL_YAML_ARG_STR True OTEL_YAML_PROCESSORS ''type'',
          OTEL_YAML_ARG_STR False OTEL_YAML_PROCESSORS ''thread_name'',
          OTEL_YAML_ARG_INT64 False OTEL_YAML_PROCESSORS ''cpu_id'' (-1) OTEL_MAX_CPU_ID,
          OTEL_YAML_ARG_INT64 False OTEL_YAML_PROCESSORS ''max_queue_size'' 64 65536,
          OTEL_YAML_ARG_INT64 False OTEL_YAML_PROCESSORS ''schedule_delay'' 1 60000,
          OTEL_YAML_ARG_INT64 False OTEL_YAML_PROCESSORS ''export_timeout'' 1 60000,
          OTEL_YAML_ARG_INT64 False OTEL_YAML_PROCESSORS ''max_export_batch_size'' 1 65536]"
  obtain st rc n' where g: "get_node c False (''OpenTelemetry '' @ sig @ '' processor'')
      (OTEL_YAML_PATH c OTEL_YAML_PROCESSORS) name ?args orc n = (Inr (st, rc), n')"
    and r: "p = Simple_processor e \<or> (\<exists>ti. p = Batch_processor
        \<lparr>bo_thread = ti, bo_max_queue_size = int_at st 3 2048, bo_schedule_delay = int_at st 4 delay,
         bo_export_timeout = int_at st 5 30000, bo_max_export_batch_size = int_at st 6 512\<rparr> e \<and>
        int_at st 6 512 \<le> int_at st 3 2048)"
    using assms(1) unfolding processor_create_def Let_def with_instance.simps bbind_ok split_paired_Ex prod.case
    by (auto simp: bbind_ok or_stop_ok stop_ok make_nothrow_ok dest!: batch_chain_some split: if_splits option.splits)
  have f: "stored_fits ?args st"
    using get_node_fits [OF g] by simp
  show ?thesis
    using r int_at_in_range [OF f, of 3 64 65536 2048] int_at_in_range [OF f, of 4 1 60000 delay]
      int_at_in_range [OF f, of 5 1 60000 30000] int_at_in_range [OF f, of 6 1 65536 512] assms(2,3)
    by (auto simp: batch_options_ok_def)
qed

text \<open>
  A processor built from a configuration owns the exporter it was given, and a batch processor's
  options are consistent: the queue holds 64 to 65536 records, one export batch is at least one
  record and never larger than the queue, and both delays lie between one millisecond and a minute,
  whatever the document says and whatever defaults apply.
\<close>
theorem tracer_processor_options_valid:
  assumes "otel_tracer_processor_create (Some c) e name orc n = (Inr p, k)"
  shows "p = Simple_processor e \<or> (\<exists>b. p = Batch_processor b e \<and> batch_options_ok b)"
  using processor_create_batch [of "''traces''" 5000] assms by (simp add: otel_tracer_processor_create_def)

lemma tracer_processor_options_valid_witness:
  "otel_tracer_processor_create (Some demo_cfg) (Exp_memory 64) None (\<lambda>_. False) 0 =
     (Inr (Batch_processor \<lparr>bo_thread = None, bo_max_queue_size = 128, bo_schedule_delay = 5000,
        bo_export_timeout = 30000, bo_max_export_batch_size = 100\<rparr> (Exp_memory 64)), 4) \<and>
   batch_options_ok \<lparr>bo_thread = None, bo_max_queue_size = 128, bo_schedule_delay = 5000,
        bo_export_timeout = 30000, bo_max_export_batch_size = 100\<rparr>"
  (is "?call = ?r \<and> _")
proof -
  have n: "strtol ''128'' 0 = (128, Some [], No_error)" "strtol ''100'' 0 = (100, Some [], No_error)"
    by code_simp+
  have e: "?call = ?r"
    by (simp add: otel_tracer_processor_create_def processor_create_def batch_chain_def
        thread_instrumentation_def parse_int64_def n int_at_def
        bbind_def give_def make_nothrow_def str_at_def strcasecmp_eq_def to_lower_def Let_def yaml_run)
  then show ?thesis
    using tracer_processor_options_valid [OF e] by simp
qed

lemma logger_processor_options_valid:
  assumes "otel_logger_processor_create (Some c) e name orc n = (Inr p, k)"
  shows "p = Simple_processor e \<or> (\<exists>b. p = Batch_processor b e \<and> batch_options_ok b)"
  using processor_create_batch [of "''logs''" 1000] assms by (simp add: otel_logger_processor_create_def)

lemma meter_reader_options_valid:
  assumes "otel_meter_reader_create (Some c) e name orc n = (Inr r, k)"
  shows "mr_exporter r = e \<and> 100 \<le> mr_export_timeout r \<and> mr_export_timeout r < mr_export_interval r \<and>
    mr_export_interval r \<le> 3600000"
proof -
  let ?args = "[OTEL_YAML_ARG_STR False OTEL_YAML_READERS ''thread_name'',
          OTEL_YAML_ARG_INT64 False OTEL_YAML_READERS ''cpu_id'' (-1) OTEL_MAX_CPU_ID,
          OTEL_YAML_ARG_INT64 False OTEL_YAML_READERS ''export_interval'' 100 3600000,
          OTEL_YAML_ARG_INT64 False OTEL_YAML_READERS ''export_timeout'' 100 3600000]"
  obtain st rc n' where g: "get_node c False ''OpenTelemetry meter reader''
      (OTEL_YAML_PATH c OTEL_YAML_READERS) name ?args orc n = (Inr (st, rc), n')"
    and r: "mr_exporter r = e" "mr_export_timeout r = int_at st 3 30000" "mr_export_interval r = int_at st 2 60000"
      "int_at st 3 30000 < int_at st 2 60000"
    using assms unfolding otel_meter_reader_create_def Let_def with_instance.simps bbind_ok split_paired_Ex prod.case
    by (auto simp: bbind_ok or_stop_ok stop_ok make_nothrow_ok split: if_splits)
  have f: "stored_fits ?args st"
    using get_node_fits [OF g] by simp
  show ?thesis
    using r int_at_in_range [OF f, of 2 100 3600000 60000] int_at_in_range [OF f, of 3 100 3600000 30000]
    by auto
qed

section \<open>Resources\<close>

lemma assign_attributes_ok:
  "assign_attributes kvs attrs r orc n = (Inr (attrs', r'), k) \<Longrightarrow>
     map_of attrs' = map_of attrs ++ map_of (rev kvs) \<and> r' = r + int (length kvs) \<and>
     (distinct (map fst attrs) \<longrightarrow> distinct (map fst attrs'))"
proof (induction kvs arbitrary: attrs r n)
  case (Cons kv kvs)
  obtain a b where kv: "kv = (a, b)" by (cases kv)
  have "assign_attributes kvs (AList.update a b attrs) (r + 1) orc (Suc n) = (Inr (attrs', r'), k)"
    using Cons.prems by (auto simp: kv split: if_splits)
  from Cons.IH [OF this] show ?case
    by (auto simp: kv AList.update_conv' map_add_def fun_eq_iff distinct_update split: option.splits)
qed (simp add: give_ok)

text \<open>
  C38: The attributes of a resource are those of the environment with the configured ones over them.
  When \<open>otel_resource_create\<close> succeeds, some list of configured pairs, whose length it returns, has
  been applied: a key that was configured has its last configured value, every other key keeps the
  value of the environment, and no key occurs twice.
\<close>
theorem resource_configuration_overrides:
  assumes "otel_resource_create (Some c) (Some desc) (Some path) orc n = (Inr (attrs, r), k)"
    and "distinct (map fst (cf_env c))"
  shows "\<exists>st rc. get_node c False desc path None [OTEL_YAML_ARG_MAP False OTEL_YAML_PROVIDERS ''resources''] orc n = (Inr (st, rc), n) \<and>
    r = int (length (map_at st 0)) \<and> distinct (map fst attrs) \<and>
    (\<forall>key. map_of attrs key = (case map_of (rev (map_at st 0)) key of Some v \<Rightarrow> Some v | None \<Rightarrow> map_of (cf_env c) key))"
proof -
  obtain st rc n' where g: "get_node c False desc path None
      [OTEL_YAML_ARG_MAP False OTEL_YAML_PROVIDERS ''resources''] orc n = (Inr (st, rc), n')"
    and a: "assign_attributes (map_at st 0) (cf_env c) 0 orc n' = (Inr (attrs, r), k)"
    using assms(1) by (auto simp: otel_resource_create_def build_simps)
  have "n' = n"
    using get_node_fits [OF g] by simp
  then show ?thesis
    using g assign_attributes_ok [OF a] assms(2) by (auto simp: map_add_def)
qed

lemma resource_configuration_overrides_witness:
  "otel_resource_create (Some demo_cfg) (Some ''d'') (Some ''/t/providers'') (\<lambda>_. False) 0 =
     (Inr ([(''host'', ''a''), (''zone'', ''z'')], 1), 1) \<and>
   distinct (map fst [(''host'', ''a''), (''zone'', ''z'')])"
  (is "?call = _ \<and> _")
proof -
  have w: "yaml_get_sequence (\<lambda>_. False) (Some demo_doc) (Some ''/providers/r/resources'') (Some None) =
      (Some (Some [(''host'', ''a'')]), ok 1)"
    by (simp add: yaml_get_sequence_def ryml_get_node_by_path_def split_on.simps demo_walk demo_child Let_def)
  have e: "?call = (Inr ([(''host'', ''a''), (''zone'', ''z'')], 1), 1)"
    by (simp add: otel_resource_create_def w bbind_def give_def map_at_def Let_def yaml_run)
  have d: "distinct (map fst (cf_env demo_cfg))"
    by (simp add: demo_cfg_def)
  show ?thesis
    using resource_configuration_overrides [OF e d] e by blast
qed

end
