(* ===== verification/Otel_DbgMalloc.thy ===== *)
theory Otel_DbgMalloc
  imports Otel_Prelude
begin

text \<open>
  The debugging allocator of \<open>src/dbg_malloc.cpp\<close>.  Each block it hands out starts with a header
  that names its record in a table (or the block itself while it is untracked); the caller's
  pointer is 16 bytes behind the base.  \<open>blocks\<close> are the addresses the C library has given out,
  \<open>hdr\<close> the headers of these blocks that carry the magic.  What the probe of
  \<open>otelc_dbg_is_wrapper_block\<close> reads where no block starts, below a foreign block or in a block
  that was released, is \<open>residue\<close>: nothing that carries the magic, a header that is still there
  because the library has not reused its bytes, or unmapped memory, where the probe faults.  The
  library may change it at any time.  The address a call of
  \<open>malloc\<close> or \<open>realloc\<close> returns is an argument of each operation (0 for a failure); a fault and
  freeing an address the library has not given out are undefined behaviour, \<open>None\<close>.  An operation
  holds the table's mutex throughout, so it is one step.
\<close>

section \<open>State\<close>

record dbg_rec =
  r_ptr :: nat
  r_size :: uint64
  r_func :: "string option"
  r_used :: bool

datatype mem_op = MEM_OP_ALLOC | MEM_OP_REALLOC | MEM_OP_FREE | MEM_OP_RELEASE

record dbg_mem =
  dm_table :: nat
  dm_data :: "dbg_rec list"
  dm_assigned :: nat
  dm_reused :: nat
  dm_size :: uint64
  dm_op_cnt :: "mem_op \<Rightarrow> nat"

text \<open>Where a header points: to its own block, to a record of a table, or elsewhere.\<close>

datatype meta = M_self | M_rec nat nat | M_other

datatype residue = Unmapped | Remains "meta option"

record dbg_state =
  dbg_mem :: "dbg_mem option"
  hdr :: "nat \<rightharpoonup> meta"
  blocks :: "nat set"
  residue :: "nat \<Rightarrow> residue"

definition DBG_MEM_HDR :: nat where "DBG_MEM_HDR = 16"
definition DBG_SIZE_MAX :: nat where "DBG_SIZE_MAX = 18446744073709551615"

text \<open>\<open>DBG_MEM_DATA\<close> and \<open>DBG_MEM_RETURN\<close>.\<close>

definition base_of :: "nat \<Rightarrow> nat" where
  "base_of p = p - DBG_MEM_HDR"

definition ptr_of :: "nat \<Rightarrow> nat" where
  "ptr_of b = (if b = 0 then 0 else b + DBG_MEM_HDR)"

text \<open>The probe: whether the 16 bytes below a pointer can be read, and the header found there.  A
  base of 0 is the null pointer and is not read.\<close>

definition readable :: "dbg_state \<Rightarrow> nat \<Rightarrow> bool" where
  "readable s p \<longleftrightarrow> p = DBG_MEM_HDR \<or>
     DBG_MEM_HDR < p \<and> (base_of p \<in> blocks s \<or> residue s (base_of p) \<noteq> Unmapped)"

definition lookup_hdr :: "dbg_state \<Rightarrow> nat \<Rightarrow> meta option" where
  "lookup_hdr s p =
     (if p \<le> DBG_MEM_HDR then None
      else if base_of p \<in> blocks s then hdr s (base_of p)
      else (case residue s (base_of p) of Unmapped \<Rightarrow> None | Remains m \<Rightarrow> m))"

section \<open>The C library\<close>

definition raw_malloc :: "nat \<Rightarrow> dbg_state \<Rightarrow> dbg_state" where
  "raw_malloc ret s = (if ret = 0 then s else s\<lparr>blocks := insert ret (blocks s), hdr := (hdr s)(ret := None)\<rparr>)"

definition raw_free :: "nat \<Rightarrow> dbg_state \<Rightarrow> dbg_state option" where
  "raw_free b s = (if b \<in> blocks s then Some (s\<lparr>blocks := blocks s - {b}, hdr := (hdr s)(b := None)\<rparr>) else None)"

text \<open>\<open>realloc\<close> moves the contents, header included, to \<open>ret\<close>.\<close>

definition raw_realloc :: "nat \<Rightarrow> nat \<Rightarrow> dbg_state \<Rightarrow> dbg_state option" where
  "raw_realloc b ret s =
     (if b \<notin> blocks s then None
      else if ret = 0 then Some s
      else Some (s\<lparr>blocks := insert ret (blocks s - {b}), hdr := (hdr s)(b := None, ret := hdr s b)\<rparr>))"

section \<open>The table\<close>

definition otelc_dbg_set_metadata :: "nat \<Rightarrow> meta \<Rightarrow> dbg_state \<Rightarrow> dbg_state" where
  "otelc_dbg_set_metadata ptr m s = (if ptr = 0 then s else s\<lparr>hdr := (hdr s)(ptr \<mapsto> m)\<rparr>)"

fun otelc_dbg_is_table_record :: "dbg_mem \<Rightarrow> meta \<Rightarrow> bool" where
  "otelc_dbg_is_table_record mem (M_rec t i) = (t = dm_table mem \<and> i < length (dm_data mem))"
| "otelc_dbg_is_table_record mem _ = False"

definition otelc_dbg_mem_add ::
  "string option \<Rightarrow> nat \<Rightarrow> uint64 \<Rightarrow> nat \<Rightarrow> mem_op \<Rightarrow> dbg_mem \<Rightarrow> dbg_state \<Rightarrow> dbg_state" where
  "otelc_dbg_mem_add func ptr sz i op mem s =
     otelc_dbg_set_metadata ptr (M_rec (dm_table mem) i)
       (s\<lparr>dbg_mem := Some (mem\<lparr>
            dm_data := (dm_data mem)[i := \<lparr>r_ptr = ptr, r_size = sz, r_func = func, r_used = True\<rparr>],
            dm_size := dm_size mem + sz,
            dm_op_cnt := (dm_op_cnt mem)(op := Suc (dm_op_cnt mem op))\<rparr>)\<rparr>)"

text \<open>The search for a released record: the cursor wraps around, at most \<open>count\<close> records are tried.
  The result is the index (\<open>count\<close> when the table is full) and the new cursor.\<close>

function scan_slot :: "dbg_rec list \<Rightarrow> nat \<Rightarrow> nat \<Rightarrow> nat \<times> nat" where
  "scan_slot data idx reused =
     (let r = (if reused \<ge> length data then 0 else reused) in
      if \<not> r_used (data ! r) then (r, Suc r)
      else if Suc idx < length data then scan_slot data (Suc idx) (Suc r)
      else (Suc idx, Suc r))"
  by pat_completeness auto
termination
  by (relation "measure (\<lambda>(data, idx, reused). length data - idx)") auto

declare scan_slot.simps [simp del]

definition otelc_dbg_mem_alloc ::
  "string option \<Rightarrow> nat \<Rightarrow> nat \<Rightarrow> uint64 \<Rightarrow> dbg_state \<Rightarrow> dbg_state" where
  "otelc_dbg_mem_alloc func old_ptr ptr sz s =
     (case dbg_mem s of
        None \<Rightarrow> otelc_dbg_set_metadata ptr M_self s
      | Some mem \<Rightarrow>
          if ptr = 0 then s
          else if old_ptr \<noteq> 0 then
            (case hdr s ptr of
               Some (M_rec t i) \<Rightarrow>
                 if \<not> otelc_dbg_is_table_record mem (M_rec t i) then s
                 else
                   let d = dm_data mem ! i in
                   if r_used d \<and> r_ptr d = base_of old_ptr
                   then otelc_dbg_mem_add func ptr sz i MEM_OP_REALLOC (mem\<lparr>dm_size := dm_size mem - r_size d\<rparr>) s
                   else s
             | _ \<Rightarrow> s)
          else
            let s1 = otelc_dbg_set_metadata ptr M_self s;
                (idx, mem1) =
                  (if dm_assigned mem < length (dm_data mem)
                   then (dm_assigned mem, mem\<lparr>dm_assigned := Suc (dm_assigned mem)\<rparr>)
                   else let (i, r) = scan_slot (dm_data mem) 0 (dm_reused mem) in (i, mem\<lparr>dm_reused := r\<rparr>))
            in if idx < length (dm_data mem)
               then otelc_dbg_mem_add func ptr sz idx MEM_OP_ALLOC mem1 s1
               else s1\<lparr>dbg_mem := Some mem1\<rparr>)"

text \<open>\<open>otelc_dbg_mem_release\<close>: the return value with the new state.\<close>

definition otelc_dbg_mem_release :: "nat \<Rightarrow> mem_op \<Rightarrow> dbg_state \<Rightarrow> int \<times> dbg_state" where
  "otelc_dbg_mem_release ptr op s =
     (case dbg_mem s of
        None \<Rightarrow> (OTELC_RET_OK, s)
      | Some mem \<Rightarrow>
          if ptr = 0 then (OTELC_RET_ERROR, s)
          else (case lookup_hdr s ptr of
              Some (M_rec t i) \<Rightarrow>
                if \<not> otelc_dbg_is_table_record mem (M_rec t i) then (OTELC_RET_ERROR, s)
                else
                  let d = dm_data mem ! i in
                  if r_used d \<and> r_ptr d = base_of ptr
                  then (OTELC_RET_OK, s\<lparr>dbg_mem := Some (mem\<lparr>
                          dm_data := (dm_data mem)[i := d\<lparr>r_used := False\<rparr>],
                          dm_size := dm_size mem - r_size d,
                          dm_op_cnt := (dm_op_cnt mem)(op := Suc (dm_op_cnt mem op))\<rparr>)\<rparr>)
                  else (OTELC_RET_ERROR, s)
            | Some M_other \<Rightarrow> (OTELC_RET_ERROR, s)
            | _ \<Rightarrow> (OTELC_RET_OK, s)))"

definition otelc_dbg_mem_check :: "nat \<Rightarrow> dbg_state \<Rightarrow> int" where
  "otelc_dbg_mem_check ptr s =
     (case dbg_mem s of
        None \<Rightarrow> OTELC_RET_OK
      | Some mem \<Rightarrow> (case lookup_hdr s ptr of
            Some (M_rec t i) \<Rightarrow>
              if \<not> otelc_dbg_is_table_record mem (M_rec t i) then OTELC_RET_ERROR
              else if \<not> r_used (dm_data mem ! i) \<or> r_ptr (dm_data mem ! i) \<noteq> base_of ptr then OTELC_RET_ERROR
              else OTELC_RET_OK
          | _ \<Rightarrow> OTELC_RET_ERROR))"

definition otelc_dbg_mem_is_stale :: "nat \<Rightarrow> dbg_state \<Rightarrow> bool" where
  "otelc_dbg_mem_is_stale ptr s =
     (case dbg_mem s of
        None \<Rightarrow> False
      | Some mem \<Rightarrow> \<exists>d \<in> set (take (dm_assigned mem) (dm_data mem)). r_ptr d = base_of ptr)"

section \<open>The allocation functions\<close>

text \<open>\<open>otelc_dbg_malloc\<close> and the functions that differ from it only in what they write to the block
  (\<open>calloc\<close>, \<open>strdup\<close>, \<open>strndup\<close>, \<open>memdup\<close>): \<open>ret\<close> is what the library's \<open>malloc\<close> returns.\<close>

definition otelc_dbg_malloc :: "string option \<Rightarrow> nat \<Rightarrow> nat \<Rightarrow> dbg_state \<Rightarrow> nat \<times> dbg_state" where
  "otelc_dbg_malloc func sz ret s =
     (if sz > DBG_SIZE_MAX - DBG_MEM_HDR then (0, s)
      else (ptr_of ret, otelc_dbg_mem_alloc func 0 ret (of_nat sz) (raw_malloc ret s)))"

definition otelc_dbg_calloc :: "string option \<Rightarrow> nat \<Rightarrow> nat \<Rightarrow> nat \<Rightarrow> dbg_state \<Rightarrow> nat \<times> dbg_state" where
  "otelc_dbg_calloc func nelem elsize ret s =
     (if elsize > 0 \<and> nelem > (DBG_SIZE_MAX - DBG_MEM_HDR) div elsize then (0, s)
      else (ptr_of ret, otelc_dbg_mem_alloc func 0 ret (of_nat (nelem * elsize)) (raw_malloc ret s)))"

definition otelc_dbg_strdup :: "string option \<Rightarrow> string option \<Rightarrow> nat \<Rightarrow> dbg_state \<Rightarrow> nat \<times> dbg_state" where
  "otelc_dbg_strdup func str ret s =
     (case str of
        None \<Rightarrow> (0, s)
      | Some t \<Rightarrow> (ptr_of ret, otelc_dbg_mem_alloc func 0 ret (of_nat (length t + 1)) (raw_malloc ret s)))"

definition otelc_dbg_strndup ::
  "string option \<Rightarrow> string option \<Rightarrow> nat \<Rightarrow> nat \<Rightarrow> dbg_state \<Rightarrow> nat \<times> dbg_state" where
  "otelc_dbg_strndup func str n ret s =
     (case str of
        None \<Rightarrow> (0, s)
      | Some t \<Rightarrow> (ptr_of ret,
          otelc_dbg_mem_alloc func 0 ret (of_nat (min (length t) n + 1)) (raw_malloc ret s)))"

definition otelc_dbg_memdup ::
  "string option \<Rightarrow> string option \<Rightarrow> nat \<Rightarrow> nat \<Rightarrow> dbg_state \<Rightarrow> nat \<times> dbg_state" where
  "otelc_dbg_memdup func data sz ret s =
     (if data = None \<or> sz > DBG_SIZE_MAX - (1 + DBG_MEM_HDR) then (0, s)
      else (ptr_of ret, otelc_dbg_mem_alloc func 0 ret (of_nat (sz + 1)) (raw_malloc ret s)))"

definition otelc_dbg_realloc ::
  "string option \<Rightarrow> nat \<Rightarrow> nat \<Rightarrow> nat \<Rightarrow> dbg_state \<Rightarrow> (nat \<times> dbg_state) option" where
  "otelc_dbg_realloc func ptr sz ret s =
     (if sz > DBG_SIZE_MAX - DBG_MEM_HDR then Some (0, s)
      else if ptr = 0
      then Some (ptr_of ret, otelc_dbg_mem_alloc func 0 ret (of_nat sz) (raw_malloc ret s))
      else if \<not> readable s ptr then None
      else (case lookup_hdr s ptr of
          None \<Rightarrow>
            if otelc_dbg_mem_is_stale ptr s then Some (0, s)
            else map_option (\<lambda>s'. (ret, s')) (raw_realloc ptr ret s)
        | Some M_self \<Rightarrow>
            map_option (\<lambda>s'. (ptr_of ret, otelc_dbg_set_metadata ret M_self s')) (raw_realloc (base_of ptr) ret s)
        | Some _ \<Rightarrow>
            if otelc_dbg_mem_check ptr s = OTELC_RET_ERROR then Some (0, s)
            else map_option (\<lambda>s'. (ptr_of ret, otelc_dbg_mem_alloc func ptr ret (of_nat sz) s'))
                   (raw_realloc (base_of ptr) ret s)))"

definition otelc_dbg_free :: "nat \<Rightarrow> dbg_state \<Rightarrow> dbg_state option" where
  "otelc_dbg_free ptr s =
     (if ptr = 0 then Some s
      else if \<not> readable s ptr then None
      else (case lookup_hdr s ptr of
          None \<Rightarrow> if otelc_dbg_mem_is_stale ptr s then Some s else raw_free ptr s
        | Some M_self \<Rightarrow> raw_free (base_of ptr) s
        | Some _ \<Rightarrow>
            (case otelc_dbg_mem_release ptr MEM_OP_FREE s of
               (r, s') \<Rightarrow> if r = OTELC_RET_ERROR then Some s' else raw_free (base_of ptr) s')))"

definition otelc_dbg_mem_init ::
  "nat \<Rightarrow> dbg_rec list option \<Rightarrow> nat \<Rightarrow> bool \<Rightarrow> dbg_state \<Rightarrow> int \<times> dbg_state" where
  "otelc_dbg_mem_init table data n mutex_ok s =
     (if data = None \<or> n = 0 then (OTELC_RET_ERROR, s)
      else if \<not> mutex_ok then (OTELC_RET_ERROR, s)
      else (OTELC_RET_OK, s\<lparr>dbg_mem := Some \<lparr>dm_table = table,
              dm_data = replicate n \<lparr>r_ptr = 0, r_size = 0, r_func = None, r_used = False\<rparr>,
              dm_assigned = 0, dm_reused = 0, dm_size = 0, dm_op_cnt = (\<lambda>_. 0)\<rparr>\<rparr>))"

definition otelc_dbg_mem_disable :: "dbg_state \<Rightarrow> dbg_state" where
  "otelc_dbg_mem_disable s = s\<lparr>dbg_mem := None\<rparr>"

text \<open>\<open>otelc_dbg_mem_info\<close>: the sum and number of the used records, and whether the total agrees.\<close>

definition otelc_dbg_mem_info :: "dbg_state \<Rightarrow> (uint64 \<times> nat \<times> bool) option" where
  "otelc_dbg_mem_info s = map_option (\<lambda>mem.
     let used = filter r_used (dm_data mem); total = sum_list (map r_size used)
     in (total, length used, dm_size mem = total)) (dbg_mem s)"

section \<open>The search for a free record\<close>

text \<open>The cursor position reached after \<open>k\<close> further steps, counted cyclically.\<close>

definition wrap :: "dbg_rec list \<Rightarrow> nat \<Rightarrow> nat" where
  "wrap data r = (if r \<ge> length data then 0 else r)"

lemma wrap_lt: "data \<noteq> [] \<Longrightarrow> wrap data r < length data"
  by (auto simp: wrap_def)

lemma wrap_Suc:
  assumes "r < length data"
  shows "(wrap data (Suc r) + j) mod length data = (r + Suc j) mod length data"
proof (cases "Suc r = length data")
  case True
  then have "r + Suc j = j + length data" by simp
  then show ?thesis using True by (simp only: wrap_def mod_add_self2) simp
next
  case False
  then show ?thesis using assms by (simp add: wrap_def)
qed

lemma scan_slot_result:
  assumes "data \<noteq> []" "idx < length data"
  shows "fst (scan_slot data idx reused) = length data \<or>
    (fst (scan_slot data idx reused) < length data \<and> \<not> r_used (data ! fst (scan_slot data idx reused)))"
  using assms
proof (induction data idx reused rule: scan_slot.induct)
  case (1 data idx reused)
  show ?case
    using 1 by (subst (1 2 3) scan_slot.simps) (auto simp: Let_def)
qed

lemma scan_slot_full:
  assumes "idx < length data" "fst (scan_slot data idx reused) = length data" "k < length data - idx"
  shows "r_used (data ! ((wrap data reused + k) mod length data))"
  using assms
proof (induction data idx reused arbitrary: k rule: scan_slot.induct)
  case (1 data idx reused)
  let ?r = "wrap data reused"
  have r: "?r < length data" using 1(2) by (auto simp: wrap_def)
  have used: "r_used (data ! ?r)"
    using 1(3) r by (subst (asm) scan_slot.simps) (auto simp: Let_def wrap_def split: if_splits)
  show ?case
  proof (cases k)
    case 0
    then show ?thesis using used r by simp
  next
    case (Suc j)
    with 1(4) have more: "Suc idx < length data" and j: "j < length data - Suc idx" by auto
    have "fst (scan_slot data (Suc idx) (Suc ?r)) = length data"
      using 1(3) used more by (subst (asm) scan_slot.simps) (auto simp: Let_def wrap_def split: if_splits)
    then have "r_used (data ! ((wrap data (Suc ?r) + j) mod length data))"
      using 1(1)[of ?r j] used more j by (simp add: wrap_def)
    then show ?thesis using wrap_Suc [OF r] Suc by simp
  qed
qed

lemma wrap_onto:
  assumes "i < n" "(r :: nat) < n"
  shows "\<exists>k < n. (r + k) mod n = i"
proof (cases "r \<le> i")
  case True
  then show ?thesis using assms by (intro exI [of _ "i - r"]) auto
next
  case False
  then show ?thesis using assms by (intro exI [of _ "n - r + i"]) auto
qed

text \<open>
  C34: The circular search of \<open>otelc_dbg_mem_alloc\<close> is complete: from any cursor it returns the
  index of a released record when the table has one, and the record count (the caller's "table
  exhausted" test) exactly when every record is in use.
\<close>
theorem slot_search_complete:
  assumes "data \<noteq> []"
  shows "if \<exists>d \<in> set data. \<not> r_used d
    then fst (scan_slot data 0 reused) < length data \<and> \<not> r_used (data ! fst (scan_slot data 0 reused))
    else fst (scan_slot data 0 reused) = length data"
proof -
  have pos: "0 < length data" using assms by simp
  note res = scan_slot_result [OF assms pos, of reused]
  have "fst (scan_slot data 0 reused) = length data \<Longrightarrow> \<forall>d \<in> set data. r_used d"
  proof
    fix d assume full: "fst (scan_slot data 0 reused) = length data" and "d \<in> set data"
    then obtain i where i: "i < length data" "data ! i = d" by (auto simp: in_set_conv_nth)
    obtain k where "k < length data" "(wrap data reused + k) mod length data = i"
      using wrap_onto [OF i(1) wrap_lt [OF assms]] by blast
    then show "r_used d" using scan_slot_full [OF pos full, of k] i by auto
  qed
  then show ?thesis using res by (cases "\<exists>d \<in> set data. \<not> r_used d") (auto dest: nth_mem)
qed

lemma slot_search_complete_witness:
  "fst (scan_slot [\<lparr>r_ptr = 16, r_size = 1, r_func = None, r_used = True\<rparr>,
                   \<lparr>r_ptr = 64, r_size = 1, r_func = None, r_used = False\<rparr>] 0 2) = 1"
  using slot_search_complete [of "[\<lparr>r_ptr = 16, r_size = 1, r_func = None, r_used = True\<rparr>,
                   \<lparr>r_ptr = 64, r_size = 1, r_func = None, r_used = False\<rparr>]" 2]
  by (auto simp: less_Suc_eq)

section \<open>The tracker's invariant\<close>

definition used_sum :: "dbg_rec list \<Rightarrow> uint64" where
  "used_sum ds = sum_list (map r_size (filter r_used ds))"

lemma used_sum_update:
  assumes "i < length ds"
  shows "used_sum (ds[i := d]) =
    used_sum ds - (if r_used (ds ! i) then r_size (ds ! i) else 0) + (if r_used d then r_size d else 0)"
proof -
  have split: "ds = take i ds @ ds ! i # drop (Suc i) ds"
    using assms by (rule id_take_nth_drop)
  have "used_sum ds = used_sum (take i ds @ ds ! i # drop (Suc i) ds)"
    by (simp only: split [symmetric])
  moreover have "ds[i := d] = take i ds @ d # drop (Suc i) ds"
    using assms by (rule upd_conv_take_nth_drop)
  ultimately show ?thesis by (simp add: used_sum_def)
qed

text \<open>
  The used records and the live headers that name a record of this table are in bijection, records
  behind the watermark are unused, and the byte total is the sum of the used sizes.
\<close>

definition table_inv :: "dbg_mem \<Rightarrow> (nat \<rightharpoonup> meta) \<Rightarrow> nat set \<Rightarrow> bool" where
  "table_inv mem h B \<longleftrightarrow>
     dm_data mem \<noteq> [] \<and> dm_assigned mem \<le> length (dm_data mem) \<and>
     (\<forall>i. dm_assigned mem \<le> i \<longrightarrow> i < length (dm_data mem) \<longrightarrow> \<not> r_used (dm_data mem ! i)) \<and>
     dm_size mem = used_sum (dm_data mem) \<and>
     (\<forall>i < length (dm_data mem). r_used (dm_data mem ! i) \<longrightarrow>
        h (r_ptr (dm_data mem ! i)) = Some (M_rec (dm_table mem) i)) \<and>
     (\<forall>b i. h b = Some (M_rec (dm_table mem) i) \<longrightarrow>
        i < length (dm_data mem) \<and> r_used (dm_data mem ! i) \<and> r_ptr (dm_data mem ! i) = b) \<and>
     dom h \<subseteq> B"

definition dbg_inv :: "dbg_state \<Rightarrow> bool" where
  "dbg_inv s \<longleftrightarrow> 0 \<notin> blocks s \<and> dom (hdr s) \<subseteq> blocks s \<and>
     (case dbg_mem s of None \<Rightarrow> True | Some mem \<Rightarrow> table_inv mem (hdr s) (blocks s))"

lemma table_inv_linked:
  assumes "table_inv mem h B" "h b = Some (M_rec (dm_table mem) i)"
  shows "i < length (dm_data mem)" "r_used (dm_data mem ! i)" "r_ptr (dm_data mem ! i) = b"
    "i < dm_assigned mem" "b \<in> B"
  using assms unfolding table_inv_def by (auto simp: not_le [symmetric] domIff subset_iff)

lemma table_inv_header:
  assumes "table_inv mem h B" "i < length (dm_data mem)" "r_used (dm_data mem ! i)"
  shows "h (r_ptr (dm_data mem ! i)) = Some (M_rec (dm_table mem) i)"
  using assms unfolding table_inv_def by blast

lemma table_inv_add:
  assumes "table_inv mem h B" "i < dm_assigned mem" "\<not> r_used (dm_data mem ! i)" "p \<in> B"
    "\<And>t j. h p \<noteq> Some (M_rec t j)"
  shows "table_inv (mem\<lparr>
            dm_data := (dm_data mem)[i := \<lparr>r_ptr = p, r_size = sz, r_func = f, r_used = True\<rparr>],
            dm_size := dm_size mem + sz, dm_op_cnt := c\<rparr>) (h(p \<mapsto> M_rec (dm_table mem) i)) B"
proof -
  have i: "i < length (dm_data mem)" using assms(1,2) unfolding table_inv_def by simp
  have "r_ptr (dm_data mem ! j) \<noteq> p" if "j < length (dm_data mem)" "r_used (dm_data mem ! j)" for j
    using table_inv_header [OF assms(1) that] assms(5) by metis
  moreover have "h b \<noteq> Some (M_rec (dm_table mem) i)" for b
    using table_inv_linked(2) [OF assms(1)] assms(3) by blast
  ultimately show ?thesis
    using assms(1-4) i unfolding table_inv_def
    by (auto simp: used_sum_update nth_list_update)
qed

lemma table_inv_remove:
  assumes "table_inv mem h B" "h p = Some (M_rec (dm_table mem) i)"
  shows "table_inv (mem\<lparr>dm_data := (dm_data mem)[i := (dm_data mem ! i)\<lparr>r_used := False\<rparr>],
            dm_size := dm_size mem - r_size (dm_data mem ! i), dm_op_cnt := c\<rparr>) (h(p := None)) (B - {p})"
proof -
  note l = table_inv_linked [OF assms]
  have "r_ptr (dm_data mem ! j) \<noteq> p" if "j < length (dm_data mem)" "r_used (dm_data mem ! j)" "j \<noteq> i" for j
    using table_inv_header [OF assms(1) that(1,2)] assms(2) that(3) by auto
  moreover have "h b \<noteq> Some (M_rec (dm_table mem) i)" if "b \<noteq> p" for b
    using table_inv_linked(3) [OF assms(1)] l(3) that by blast
  ultimately show ?thesis
    using assms l unfolding table_inv_def
    by (auto simp: used_sum_update nth_list_update)
qed

text \<open>Blocks and headers the table does not name may come and go.\<close>

lemma table_inv_other:
  assumes "table_inv mem h B" "\<And>b i. h' b = Some (M_rec (dm_table mem) i) \<longleftrightarrow> h b = Some (M_rec (dm_table mem) i)"
    "dom h' \<subseteq> B'"
  shows "table_inv mem h' B'"
  using assms unfolding table_inv_def by simp

lemma table_inv_assigned:
  assumes "table_inv mem h B" "dm_assigned mem < length (dm_data mem)"
  shows "table_inv (mem\<lparr>dm_assigned := Suc (dm_assigned mem)\<rparr>) h B"
  using assms unfolding table_inv_def by auto

lemma table_inv_reused: "table_inv (mem\<lparr>dm_reused := r\<rparr>) h B \<longleftrightarrow> table_inv mem h B"
  by (simp add: table_inv_def)

lemma dbg_inv_raw_malloc:
  assumes "dbg_inv s" "ret \<notin> blocks s"
  shows "dbg_inv (raw_malloc ret s)"
proof -
  have "hdr s ret = None" using assms by (auto simp: dbg_inv_def)
  then have keep: "(hdr s)(ret := None) = hdr s" by auto
  have "table_inv mem (hdr s) (insert ret (blocks s))" if "table_inv mem (hdr s) (blocks s)" for mem
    using that by (rule table_inv_other) (use assms(1) in \<open>auto simp: dbg_inv_def\<close>)
  then show ?thesis
    using assms(1) by (cases "dbg_mem s") (auto simp: dbg_inv_def raw_malloc_def keep)
qed

lemma dbg_inv_set_self:
  assumes "dbg_inv s" "p = 0 \<or> p \<in> blocks s" "\<And>t i. hdr s p \<noteq> Some (M_rec t i)"
  shows "dbg_inv (otelc_dbg_set_metadata p M_self s)"
proof (cases "p = 0")
  case False
  then have "p \<in> blocks s" using assms(2) by simp
  moreover have "table_inv mem ((hdr s)(p \<mapsto> M_self)) (blocks s)" if "table_inv mem (hdr s) (blocks s)" for mem
    using that by (rule table_inv_other) (use assms(1,3) \<open>p \<in> blocks s\<close> in \<open>auto simp: dbg_inv_def\<close>)
  ultimately show ?thesis
    using assms(1) False by (cases "dbg_mem s") (auto simp: dbg_inv_def otelc_dbg_set_metadata_def)
qed (use assms in \<open>simp add: otelc_dbg_set_metadata_def\<close>)

lemma dbg_inv_mem_add:
  assumes "dbg_inv (s\<lparr>dbg_mem := Some mem\<rparr>)" "p \<in> blocks s" "i < dm_assigned mem" "\<not> r_used (dm_data mem ! i)"
    "\<And>t j. hdr s p \<noteq> Some (M_rec t j)"
  shows "dbg_inv (otelc_dbg_mem_add f p sz i op mem s)"
proof -
  have s: "table_inv mem (hdr s) (blocks s)" "0 \<notin> blocks s" "dom (hdr s) \<subseteq> blocks s"
    using assms(1) by (auto simp: dbg_inv_def)
  have "table_inv (mem\<lparr>
            dm_data := (dm_data mem)[i := \<lparr>r_ptr = p, r_size = sz, r_func = f, r_used = True\<rparr>],
            dm_size := dm_size mem + sz, dm_op_cnt := c\<rparr>) ((hdr s)(p \<mapsto> M_rec (dm_table mem) i)) (blocks s)" for c
    using s(1) assms(3,4,2,5) by (rule table_inv_add)
  moreover have "p \<noteq> 0" using s(2) assms(2) by metis
  ultimately show ?thesis
    using s assms(2)
    by (auto simp: dbg_inv_def otelc_dbg_mem_add_def otelc_dbg_set_metadata_def)
qed

lemma scan_slot_fst: "data \<noteq> [] \<Longrightarrow> fst (scan_slot data 0 r) < length data \<Longrightarrow> \<not> r_used (data ! fst (scan_slot data 0 r))"
  using scan_slot_result [of data 0 r] by auto

lemma dbg_inv_mem_alloc:
  assumes "dbg_inv s" "p = 0 \<or> p \<in> blocks s" "hdr s p = None"
  shows "dbg_inv (otelc_dbg_mem_alloc f 0 p sz s)"
proof (cases "dbg_mem s")
  case None
  then show ?thesis using dbg_inv_set_self [OF assms(1,2)] assms(3) by (simp add: otelc_dbg_mem_alloc_def)
next
  case (Some mem)
  show ?thesis
  proof (cases "p = 0")
    case True
    then show ?thesis using assms Some by (simp add: otelc_dbg_mem_alloc_def)
  next
    case False
    let ?s = "otelc_dbg_set_metadata p M_self s"
    have s: "dbg_inv ?s" "hdr ?s p = Some M_self" "p \<in> blocks ?s" "dbg_mem ?s = Some mem"
      using dbg_inv_set_self [OF assms(1,2)] assms(2,3) False Some
      by (auto simp: otelc_dbg_set_metadata_def)
    have t: "table_inv mem (hdr ?s) (blocks ?s)" "0 \<notin> blocks ?s" "dom (hdr ?s) \<subseteq> blocks ?s"
      using s(1,4) by (auto simp: dbg_inv_def)
    show ?thesis
    proof (cases "dm_assigned mem < length (dm_data mem)")
      case True
      let ?m = "mem\<lparr>dm_assigned := Suc (dm_assigned mem)\<rparr>"
      have "\<not> r_used (dm_data mem ! dm_assigned mem)" using t(1) True by (simp add: table_inv_def)
      moreover have "dbg_inv (?s\<lparr>dbg_mem := Some ?m\<rparr>)"
        using t table_inv_assigned [OF t(1) True] by (simp add: dbg_inv_def)
      ultimately have "dbg_inv (otelc_dbg_mem_add f p sz (dm_assigned mem) MEM_OP_ALLOC ?m ?s)"
        using s by (intro dbg_inv_mem_add) auto
      then show ?thesis using True False Some by (simp add: otelc_dbg_mem_alloc_def Let_def)
    next
      case full: False
      obtain i r where scan: "scan_slot (dm_data mem) 0 (dm_reused mem) = (i, r)" by fastforce
      let ?m = "mem\<lparr>dm_reused := r\<rparr>"
      have inv: "dbg_inv (?s\<lparr>dbg_mem := Some ?m\<rparr>)"
        using t by (simp add: dbg_inv_def table_inv_reused)
      show ?thesis
      proof (cases "i < length (dm_data mem)")
        case True
        have "dm_data mem \<noteq> []" using True by auto
        then have "\<not> r_used (dm_data mem ! i)"
          using scan_slot_fst [of "dm_data mem" "dm_reused mem"] True scan by simp
        then have "dbg_inv (otelc_dbg_mem_add f p sz i MEM_OP_ALLOC ?m ?s)"
          using s inv True full by (intro dbg_inv_mem_add) auto
        then show ?thesis using True False full Some scan by (simp add: otelc_dbg_mem_alloc_def Let_def)
      next
        case exhausted: False
        then show ?thesis using inv False full Some scan by (simp add: otelc_dbg_mem_alloc_def Let_def)
      qed
    qed
  qed
qed

lemma dbg_inv_new_block:
  assumes "dbg_inv s" "ret \<notin> blocks s"
  shows "dbg_inv (otelc_dbg_mem_alloc f 0 ret sz (raw_malloc ret s))"
  using dbg_inv_raw_malloc [OF assms] assms
  by (intro dbg_inv_mem_alloc) (auto simp: raw_malloc_def dbg_inv_def)

text \<open>Freeing or moving a block the table does not name leaves the table alone.\<close>

lemma dbg_inv_raw_free:
  assumes "dbg_inv s" "raw_free b s = Some s'" "\<And>t i. hdr s b \<noteq> Some (M_rec t i)"
  shows "dbg_inv s'"
proof -
  have "table_inv mem ((hdr s)(b := None)) (blocks s - {b})" if "table_inv mem (hdr s) (blocks s)" for mem
    using that by (rule table_inv_other) (use assms(1,3) in \<open>auto simp: dbg_inv_def\<close>)
  then show ?thesis
    using assms(1,2) by (cases "dbg_mem s") (auto simp: dbg_inv_def raw_free_def subset_iff domIff split: if_splits)
qed

lemma dbg_inv_raw_realloc:
  assumes "dbg_inv s" "raw_realloc b ret s = Some s'" "\<And>t i. hdr s b \<noteq> Some (M_rec t i)"
    "ret \<in> blocks s \<longrightarrow> ret = b"
  shows "dbg_inv s'" "ret = 0 \<or> ret \<in> blocks s'" "hdr s' ret = (if ret = 0 then None else hdr s b)"
    "dbg_mem s' = dbg_mem s"
proof -
  have "hdr s ret = None" if "ret \<noteq> b" using that assms(1,4) by (auto simp: dbg_inv_def)
  then have "table_inv mem ((hdr s)(b := None, ret := hdr s b)) (insert ret (blocks s - {b}))"
    if "table_inv mem (hdr s) (blocks s)" for mem
    using that by (intro table_inv_other [OF that]) (use assms(1,3) in \<open>auto simp: dbg_inv_def\<close>)
  then show "dbg_inv s'"
    using assms(1,2) by (cases "dbg_mem s") (auto simp: dbg_inv_def raw_realloc_def subset_iff domIff split: if_splits)
  have "hdr s 0 = None" using assms(1) by (auto simp: dbg_inv_def)
  then show "hdr s' ret = (if ret = 0 then None else hdr s b)"
    using assms(2) by (auto simp: raw_realloc_def split: if_splits)
qed (use assms(2) in \<open>auto simp: raw_realloc_def split: if_splits\<close>)

lemma dbg_inv_table: "dbg_inv s \<Longrightarrow> dbg_mem s = Some mem \<Longrightarrow> table_inv mem (hdr s) (blocks s)"
  by (simp add: dbg_inv_def)

text \<open>Headers that name a record always name one of the current table.\<close>

definition own_headers :: "dbg_state \<Rightarrow> bool" where
  "own_headers s \<longleftrightarrow> (\<forall>b t i. hdr s b = Some (M_rec t i) \<longrightarrow> map_option dm_table (dbg_mem s) = Some t) \<and>
     (\<forall>b. hdr s b \<noteq> Some M_other)"

lemma live_header:
  assumes "lookup_hdr s p = Some m" "base_of p \<in> blocks s"
  shows "DBG_MEM_HDR < p" "p \<noteq> 0" "readable s p" "hdr s (base_of p) = Some m"
  using assms by (auto simp: lookup_hdr_def readable_def split: if_splits)

text \<open>A header left in a released block names no used record: the used records have their headers
  in live blocks.  Such a pointer is refused, or its block is given to the C library again.\<close>

lemma residual_header:
  assumes "dbg_inv s" "dbg_mem s = Some mem" "lookup_hdr s p = Some m" "m \<noteq> M_self" "base_of p \<notin> blocks s"
  shows "otelc_dbg_mem_release p op s = (OTELC_RET_ERROR, s)" "otelc_dbg_mem_check p s = OTELC_RET_ERROR"
proof -
  have "p \<noteq> 0" using assms(3) by (auto simp: lookup_hdr_def split: if_splits)
  have "\<not> (r_used (dm_data mem ! i) \<and> r_ptr (dm_data mem ! i) = base_of p)" if "i < length (dm_data mem)" for i
  proof
    assume u: "r_used (dm_data mem ! i) \<and> r_ptr (dm_data mem ! i) = base_of p"
    have tab: "table_inv mem (hdr s) (blocks s)" using assms(1,2) by (simp add: dbg_inv_def)
    have "hdr s (base_of p) = Some (M_rec (dm_table mem) i)" using table_inv_header [OF tab that] u by simp
    then show False using table_inv_linked(5) [OF tab] assms(5) by blast
  qed
  then show "otelc_dbg_mem_release p op s = (OTELC_RET_ERROR, s)" "otelc_dbg_mem_check p s = OTELC_RET_ERROR"
    using assms(2-4) \<open>p \<noteq> 0\<close>
    by (cases m; auto simp: otelc_dbg_mem_release_def otelc_dbg_mem_check_def Let_def)+
qed

lemma raw_dead [simp]:
  "b \<notin> blocks s \<Longrightarrow> raw_free b s = None" "b \<notin> blocks s \<Longrightarrow> raw_realloc b ret s = None"
  by (simp_all add: raw_free_def raw_realloc_def)

lemma untracked_release:
  "dbg_mem s = None \<Longrightarrow> otelc_dbg_mem_release p op s = (OTELC_RET_OK, s)"
  "dbg_mem s = None \<Longrightarrow> otelc_dbg_mem_check p s = OTELC_RET_OK"
  by (simp_all add: otelc_dbg_mem_release_def otelc_dbg_mem_check_def)

lemma free_dead:
  assumes "dbg_inv s" "lookup_hdr s p = Some m" "base_of p \<notin> blocks s" "readable s p"
  shows "otelc_dbg_free p s = (if dbg_mem s = None \<or> m = M_self then None else Some s)"
proof -
  have "p \<noteq> 0" using assms(2) by (auto simp: lookup_hdr_def split: if_splits)
  then show ?thesis
    using assms residual_header [OF assms(1) _ assms(2) _ assms(3)] untracked_release(1)
    by (cases m; cases "dbg_mem s") (auto simp: otelc_dbg_free_def OTELC_RET_OK_def OTELC_RET_ERROR_def)
qed

lemma realloc_dead:
  assumes "dbg_inv s" "lookup_hdr s p = Some m" "base_of p \<notin> blocks s" "readable s p"
    "sz \<le> DBG_SIZE_MAX - DBG_MEM_HDR"
  shows "otelc_dbg_realloc f p sz ret s = (if dbg_mem s = None \<or> m = M_self then None else Some (0, s))"
proof -
  have "p \<noteq> 0" using assms(2) by (auto simp: lookup_hdr_def split: if_splits)
  then show ?thesis
    using assms residual_header [OF assms(1) _ assms(2) _ assms(3)] untracked_release(2)
    by (cases m; cases "dbg_mem s") (auto simp: otelc_dbg_realloc_def OTELC_RET_OK_def OTELC_RET_ERROR_def)
qed

text \<open>What a pointer into a released block gets while the tracker still knows its base.\<close>

lemma refused_pointer:
  assumes "dbg_inv s" "base_of p \<notin> blocks s" "dbg_mem s \<noteq> None" "otelc_dbg_mem_is_stale p s" "DBG_MEM_HDR < p"
    "sz \<le> DBG_SIZE_MAX - DBG_MEM_HDR"
  shows "if residue s (base_of p) = Unmapped \<or> residue s (base_of p) = Remains (Some M_self)
    then otelc_dbg_free p s = None \<and> otelc_dbg_realloc f p sz ret s = None
    else otelc_dbg_free p s = Some s \<and> otelc_dbg_realloc f p sz ret s = Some (0, s)"
proof (cases "residue s (base_of p)")
  case Unmapped
  then show ?thesis
    using assms by (simp add: otelc_dbg_free_def otelc_dbg_realloc_def readable_def)
next
  case (Remains m)
  then have r: "readable s p" "lookup_hdr s p = m"
    using assms(2,5) by (simp_all add: readable_def lookup_hdr_def)
  show ?thesis
  proof (cases m)
    case None
    then show ?thesis
      using r Remains assms by (simp add: otelc_dbg_free_def otelc_dbg_realloc_def)
  next
    case (Some m')
    then show ?thesis
      using r Remains assms(3) free_dead [OF assms(1) _ assms(2) r(1), of m']
        realloc_dead [OF assms(1) _ assms(2) r(1) assms(6), of m']
      by auto
  qed
qed

lemma release_tracked:
  assumes "dbg_inv s" "dbg_mem s = Some mem" "lookup_hdr s p = Some (M_rec (dm_table mem) i)"
    "base_of p \<in> blocks s"
  shows "otelc_dbg_mem_release p op s = (OTELC_RET_OK, s\<lparr>dbg_mem := Some (mem\<lparr>
           dm_data := (dm_data mem)[i := (dm_data mem ! i)\<lparr>r_used := False\<rparr>],
           dm_size := dm_size mem - r_size (dm_data mem ! i),
           dm_op_cnt := (dm_op_cnt mem)(op := Suc (dm_op_cnt mem op))\<rparr>)\<rparr>)"
    "otelc_dbg_mem_check p s = OTELC_RET_OK"
proof -
  have p: "16 \<le> p" "hdr s (base_of p) = Some (M_rec (dm_table mem) i)"
    using live_header [OF assms(3,4)] by (simp_all add: DBG_MEM_HDR_def)
  note l = table_inv_linked [OF dbg_inv_table [OF assms(1,2)] p(2)]
  show "otelc_dbg_mem_release p op s = (OTELC_RET_OK, s\<lparr>dbg_mem := Some (mem\<lparr>
           dm_data := (dm_data mem)[i := (dm_data mem ! i)\<lparr>r_used := False\<rparr>],
           dm_size := dm_size mem - r_size (dm_data mem ! i),
           dm_op_cnt := (dm_op_cnt mem)(op := Suc (dm_op_cnt mem op))\<rparr>)\<rparr>)"
    using assms(2,3) l p(1) by (simp add: otelc_dbg_mem_release_def Let_def)
  show "otelc_dbg_mem_check p s = OTELC_RET_OK"
    using assms(2,3) l by (simp add: otelc_dbg_mem_check_def)
qed

lemma free_tracked:
  assumes "dbg_inv s" "dbg_mem s = Some mem" "lookup_hdr s p = Some (M_rec (dm_table mem) i)"
    "base_of p \<in> blocks s"
  shows "otelc_dbg_free p s = Some (s\<lparr>dbg_mem := Some (mem\<lparr>
           dm_data := (dm_data mem)[i := (dm_data mem ! i)\<lparr>r_used := False\<rparr>],
           dm_size := dm_size mem - r_size (dm_data mem ! i),
           dm_op_cnt := (dm_op_cnt mem)(MEM_OP_FREE := Suc (dm_op_cnt mem MEM_OP_FREE))\<rparr>),
           blocks := blocks s - {base_of p}, hdr := (hdr s)(base_of p := None)\<rparr>)"
proof -
  note p = live_header(2-4) [OF assms(3,4)]
  show ?thesis
    using release_tracked(1) [OF assms, of MEM_OP_FREE] assms(3,4) p
    by (auto simp: otelc_dbg_free_def raw_free_def OTELC_RET_OK_def OTELC_RET_ERROR_def)
qed

lemma dbg_inv_free_tracked:
  assumes "dbg_inv s" "dbg_mem s = Some mem" "lookup_hdr s p = Some (M_rec (dm_table mem) i)"
    "base_of p \<in> blocks s" "otelc_dbg_free p s = Some s'"
  shows "dbg_inv s'"
  using free_tracked [OF assms(1-4)] assms(1,5)
    table_inv_remove [OF dbg_inv_table [OF assms(1,2)] live_header(4) [OF assms(3,4)]]
  by (auto simp: dbg_inv_def subset_iff domIff)

lemma dbg_inv_free:
  assumes "dbg_inv s" "own_headers s" "hdr s p = None" "otelc_dbg_free p s = Some s'"
  shows "dbg_inv s'"
proof (cases "base_of p \<in> blocks s \<or> lookup_hdr s p = None")
  case False
  then obtain m where "lookup_hdr s p = Some m" "base_of p \<notin> blocks s" by auto
  then show ?thesis
    using free_dead [OF assms(1), of p m] assms(1,4)
    by (cases "p = 0") (auto simp: otelc_dbg_free_def split: if_splits)
next
  case True
  consider (foreign) "lookup_hdr s p = None" | (self) "base_of p \<in> blocks s" "lookup_hdr s p = Some M_self"
    | (tracked) t i where "base_of p \<in> blocks s" "lookup_hdr s p = Some (M_rec t i)"
    using True live_header(4) assms(2) by (metis meta.exhaust option.exhaust own_headers_def)
  then show ?thesis
  proof cases
    case foreign
    then show ?thesis
      using assms by (auto simp: otelc_dbg_free_def intro: dbg_inv_raw_free split: if_splits)
  next
    case self
    then show ?thesis
      using assms(1,4) live_header [OF self(2,1)] by (auto simp: otelc_dbg_free_def intro: dbg_inv_raw_free)
  next
    case tracked
    with assms(2) live_header(4) [OF tracked(2,1)] obtain mem where mem: "dbg_mem s = Some mem" "t = dm_table mem"
      by (auto simp: own_headers_def)
    show ?thesis
      using dbg_inv_free_tracked [OF assms(1) mem(1) tracked(2) [unfolded mem(2)] tracked(1) assms(4)] .
  qed
qed

lemma dbg_inv_realloc_tracked:
  assumes "dbg_inv s" "dbg_mem s = Some mem" "lookup_hdr s p = Some (M_rec (dm_table mem) i)"
    "raw_realloc (base_of p) ret s = Some s'" "ret \<in> blocks s \<longrightarrow> ret = base_of p"
  shows "dbg_inv (otelc_dbg_mem_alloc f p ret sz s')"
proof (cases "ret = 0")
  case True
  then show ?thesis
    using assms(1,2,4) by (auto simp: raw_realloc_def otelc_dbg_mem_alloc_def split: if_splits)
next
  case False
  let ?b = "base_of p" and ?d = "dm_data mem ! i"
  let ?m = "mem\<lparr>dm_data := (dm_data mem)[i := ?d\<lparr>r_used := False\<rparr>], dm_size := dm_size mem - r_size ?d,
              dm_op_cnt := (dm_op_cnt mem)(MEM_OP_REALLOC := Suc (dm_op_cnt mem MEM_OP_REALLOC))\<rparr>"
  have live: "?b \<in> blocks s" using assms(4) by (auto simp: raw_realloc_def split: if_splits)
  note p = live_header(2,4) [OF assms(3) live]
  note tab = dbg_inv_table [OF assms(1,2)]
  note l = table_inv_linked [OF tab p(2)]
  have s': "s' = s\<lparr>blocks := insert ret (blocks s - {?b}), hdr := (hdr s)(?b := None, ret := hdr s ?b)\<rparr>"
    using assms(4) False by (auto simp: raw_realloc_def split: if_splits)
  have fresh: "hdr s ret = None" if "ret \<noteq> ?b"
    using that assms(1,5) by (auto simp: dbg_inv_def subset_iff domIff)
  have "table_inv ?m ((hdr s)(?b := None)) (insert ret (blocks s - {?b}))"
    using table_inv_remove [OF tab p(2)]
    by (rule table_inv_other) (use assms(1) in \<open>auto simp: dbg_inv_def subset_iff domIff\<close>)
  then have "table_inv (?m\<lparr>
            dm_data := (dm_data ?m)[i := \<lparr>r_ptr = ret, r_size = sz, r_func = f, r_used = True\<rparr>],
            dm_size := dm_size ?m + sz, dm_op_cnt := dm_op_cnt ?m\<rparr>)
       (((hdr s)(?b := None))(ret \<mapsto> M_rec (dm_table ?m) i)) (insert ret (blocks s - {?b}))"
    by (rule table_inv_add) (use l fresh in auto)
  moreover have "otelc_dbg_mem_alloc f p ret sz s' = otelc_dbg_mem_add f ret sz i MEM_OP_REALLOC
      (mem\<lparr>dm_size := dm_size mem - r_size ?d\<rparr>) s'"
    using assms(2) p False l by (simp add: otelc_dbg_mem_alloc_def s' Let_def)
  ultimately show ?thesis
    using assms(1) False p
    by (auto simp: dbg_inv_def otelc_dbg_mem_add_def otelc_dbg_set_metadata_def s' subset_iff domIff)
qed

lemma dbg_inv_realloc:
  assumes "dbg_inv s" "own_headers s" "hdr s p = None" "otelc_dbg_realloc f p sz ret s = Some (q, s')"
    "ret \<in> blocks s \<longrightarrow> p \<noteq> 0 \<and> ret = (if lookup_hdr s p = None then p else base_of p)"
  shows "dbg_inv s'"
proof -
  consider (new) "p = 0" | (large) "sz > DBG_SIZE_MAX - DBG_MEM_HDR" | (fault) "p \<noteq> 0" "\<not> readable s p"
    | (foreign) "p \<noteq> 0" "lookup_hdr s p = None"
    | (dead) m where "p \<noteq> 0" "lookup_hdr s p = Some m" "base_of p \<notin> blocks s" "readable s p"
        "sz \<le> DBG_SIZE_MAX - DBG_MEM_HDR"
    | (self) "base_of p \<in> blocks s" "lookup_hdr s p = Some M_self" "sz \<le> DBG_SIZE_MAX - DBG_MEM_HDR"
    | (tracked) t i where "base_of p \<in> blocks s" "lookup_hdr s p = Some (M_rec t i)"
        "sz \<le> DBG_SIZE_MAX - DBG_MEM_HDR"
    using live_header(4) assms(2) by (metis linorder_not_less meta.exhaust option.exhaust own_headers_def)
  then show ?thesis
  proof cases
    case new
    then show ?thesis
      using assms(1,4,5) by (auto simp: otelc_dbg_realloc_def intro: dbg_inv_new_block split: if_splits)
  next
    case large
    then show ?thesis using assms(1,4) by (simp add: otelc_dbg_realloc_def)
  next
    case fault
    then show ?thesis using assms(1,4) by (simp add: otelc_dbg_realloc_def split: if_splits)
  next
    case foreign
    then show ?thesis
      using assms by (auto simp: otelc_dbg_realloc_def intro: dbg_inv_raw_realloc(1) split: if_splits)
  next
    case dead
    then show ?thesis using realloc_dead [OF assms(1) dead(2-5)] assms(1,4) by (simp split: if_splits)
  next
    case self
    note h = live_header [OF self(2,1)]
    obtain s1 where s1: "raw_realloc (base_of p) ret s = Some s1" "s' = otelc_dbg_set_metadata ret M_self s1"
      using assms(4) self h by (auto simp: otelc_dbg_realloc_def)
    have "ret \<in> blocks s \<longrightarrow> ret = base_of p" using assms(5) self by simp
    note r = dbg_inv_raw_realloc [OF assms(1) s1(1) _ this]
    show ?thesis
      unfolding s1(2) by (rule dbg_inv_set_self) (use r h in auto)
  next
    case tracked
    note h = live_header [OF tracked(2,1)]
    then obtain mem where mem: "dbg_mem s = Some mem" "t = dm_table mem"
      using assms(2) by (auto simp: own_headers_def)
    note tr = tracked(2) [unfolded mem(2)]
    show ?thesis
      using assms(1,4,5) tracked tr h release_tracked(2) [OF assms(1) mem(1) tr tracked(1)]
        dbg_inv_realloc_tracked [OF assms(1) mem(1) tr]
      by (auto simp: otelc_dbg_realloc_def OTELC_RET_OK_def OTELC_RET_ERROR_def split: if_splits)
  qed
qed

section \<open>Runs of the allocator\<close>

text \<open>Besides the wrapper's functions, other code may take a block from the C library
  (\<open>D_foreign\<close>), and the library may change what is found where no block starts (\<open>D_library\<close>).\<close>

datatype dbg_call =
  D_malloc "string option" nat nat
| D_calloc "string option" nat nat nat
| D_strdup "string option" "string option" nat
| D_strndup "string option" "string option" nat nat
| D_memdup "string option" "string option" nat nat
| D_realloc "string option" nat nat nat
| D_free nat
| D_foreign nat
| D_library "nat \<Rightarrow> residue"

fun dbg_step :: "dbg_call \<Rightarrow> dbg_state \<Rightarrow> dbg_state option" where
  "dbg_step (D_malloc f n ret) s = Some (snd (otelc_dbg_malloc f n ret s))"
| "dbg_step (D_calloc f n e ret) s = Some (snd (otelc_dbg_calloc f n e ret s))"
| "dbg_step (D_strdup f t ret) s = Some (snd (otelc_dbg_strdup f t ret s))"
| "dbg_step (D_strndup f t n ret) s = Some (snd (otelc_dbg_strndup f t n ret s))"
| "dbg_step (D_memdup f t n ret) s = Some (snd (otelc_dbg_memdup f t n ret s))"
| "dbg_step (D_realloc f p n ret) s = map_option snd (otelc_dbg_realloc f p n ret s)"
| "dbg_step (D_free p) s = otelc_dbg_free p s"
| "dbg_step (D_foreign ret) s = Some (raw_malloc ret s)"
| "dbg_step (D_library res) s = Some (s\<lparr>residue := res\<rparr>)"

text \<open>What the C library and the caller promise of one call: a new block is at an address not in
  use, and no caller passes the base address of a block (it never gets one).\<close>

fun dbg_call_ok :: "dbg_call \<Rightarrow> dbg_state \<Rightarrow> bool" where
  "dbg_call_ok (D_malloc f n ret) s = (ret \<notin> blocks s)"
| "dbg_call_ok (D_calloc f n e ret) s = (ret \<notin> blocks s)"
| "dbg_call_ok (D_strdup f t ret) s = (ret \<notin> blocks s)"
| "dbg_call_ok (D_strndup f t n ret) s = (ret \<notin> blocks s)"
| "dbg_call_ok (D_memdup f t n ret) s = (ret \<notin> blocks s)"
| "dbg_call_ok (D_realloc f p n ret) s = (hdr s p = None \<and>
     (ret \<in> blocks s \<longrightarrow> p \<noteq> 0 \<and> ret = (if lookup_hdr s p = None then p else base_of p)))"
| "dbg_call_ok (D_free p) s = (hdr s p = None)"
| "dbg_call_ok (D_foreign ret) s = (ret \<notin> blocks s)"
| "dbg_call_ok (D_library res) s = True"

fun dbg_run :: "dbg_call list \<Rightarrow> dbg_state \<Rightarrow> dbg_state option" where
  "dbg_run [] s = Some s"
| "dbg_run (c # cs) s =
     (if dbg_call_ok c s then (case dbg_step c s of None \<Rightarrow> None | Some s' \<Rightarrow> dbg_run cs s') else None)"

lemma dbg_inv_residue: "dbg_inv s \<Longrightarrow> dbg_inv (s\<lparr>residue := res\<rparr>)"
  by (cases "dbg_mem s") (simp_all add: dbg_inv_def)

lemma own_headers_residue: "own_headers s \<Longrightarrow> own_headers (s\<lparr>residue := res\<rparr>)"
  by (simp add: own_headers_def)

lemma dbg_inv_step:
  assumes "dbg_inv s" "own_headers s" "dbg_call_ok c s" "dbg_step c s = Some s'"
  shows "dbg_inv s'"
  using assms
  by (cases c) (auto simp: otelc_dbg_malloc_def otelc_dbg_calloc_def otelc_dbg_strdup_def otelc_dbg_strndup_def
      otelc_dbg_memdup_def intro: dbg_inv_new_block dbg_inv_free dbg_inv_realloc dbg_inv_raw_malloc dbg_inv_residue
      split: option.splits)

fun meta_own :: "nat option \<Rightarrow> meta \<Rightarrow> bool" where
  "meta_own T M_self = True"
| "meta_own T (M_rec t i) = (T = Some t)"
| "meta_own T M_other = False"

lemma own_headers_iff:
  "own_headers s \<longleftrightarrow> (\<forall>b m. hdr s b = Some m \<longrightarrow> meta_own (map_option dm_table (dbg_mem s)) m)"
  unfolding own_headers_def by (metis meta.exhaust meta_own.simps)

text \<open>Every primitive keeps \<open>own_headers\<close>.\<close>

lemma own_headers_raw_malloc: "own_headers s \<Longrightarrow> own_headers (raw_malloc r s)"
  by (auto simp: own_headers_def raw_malloc_def)

lemma own_headers_raw_free: "own_headers s \<Longrightarrow> raw_free b s = Some s' \<Longrightarrow> own_headers s'"
  by (auto simp: own_headers_iff raw_free_def split: if_splits)

lemma own_headers_raw_realloc: "own_headers s \<Longrightarrow> raw_realloc b r s = Some s' \<Longrightarrow> own_headers s'"
  by (auto simp: own_headers_iff raw_realloc_def split: if_splits)

lemma own_headers_self: "own_headers s \<Longrightarrow> own_headers (otelc_dbg_set_metadata p M_self s)"
  by (auto simp: own_headers_def otelc_dbg_set_metadata_def)

lemma own_headers_mem_add:
  "own_headers s \<Longrightarrow> dbg_mem s = Some m \<Longrightarrow> dm_table m' = dm_table m \<Longrightarrow>
   own_headers (otelc_dbg_mem_add f p sz i op m' s)"
  by (auto simp: own_headers_def otelc_dbg_mem_add_def otelc_dbg_set_metadata_def)

lemma own_headers_table: "own_headers s \<Longrightarrow> dbg_mem s = Some m \<Longrightarrow> dm_table m' = dm_table m \<Longrightarrow>
   own_headers (s\<lparr>dbg_mem := Some m'\<rparr>)"
  by (simp add: own_headers_def)

lemma set_metadata_dbg_mem [simp]: "dbg_mem (otelc_dbg_set_metadata p m s) = dbg_mem s"
  by (simp add: otelc_dbg_set_metadata_def)

lemma own_headers_mem_alloc:
  assumes "own_headers s"
  shows "own_headers (otelc_dbg_mem_alloc f q p sz s)"
proof (cases "dbg_mem s")
  case None
  then show ?thesis using own_headers_self [OF assms] by (simp add: otelc_dbg_mem_alloc_def)
next
  case (Some m)
  let ?s = "otelc_dbg_set_metadata p M_self s"
  have ?thesis if "own_headers ?s" "dbg_mem ?s = Some m"
    using assms Some own_headers_mem_add [OF assms Some] own_headers_mem_add [OF that]
      own_headers_table [OF that]
    by (cases "scan_slot (dm_data m) 0 (dm_reused m)")
      (auto simp: otelc_dbg_mem_alloc_def Let_def split: option.split meta.split)
  then show ?thesis using own_headers_self [OF assms] Some by simp
qed

lemma own_headers_release:
  assumes "own_headers s"
  shows "own_headers (snd (otelc_dbg_mem_release p op s))"
  using assms
  by (auto simp: otelc_dbg_mem_release_def Let_def intro: own_headers_table split: option.split meta.split)

lemma own_headers_free:
  assumes "own_headers s" "otelc_dbg_free p s = Some s'"
  shows "own_headers s'"
  using assms own_headers_release [OF assms(1), of p MEM_OP_FREE]
  by (auto simp: otelc_dbg_free_def intro: own_headers_raw_free split: if_splits option.splits meta.splits prod.splits)

lemma own_headers_realloc:
  assumes "own_headers s" "otelc_dbg_realloc f p sz ret s = Some (q, s')"
  shows "own_headers s'"
  using assms
  by (auto simp: otelc_dbg_realloc_def
      intro: own_headers_mem_alloc own_headers_raw_malloc own_headers_raw_realloc own_headers_self
      split: if_splits option.splits meta.splits)

lemma own_headers_step:
  assumes "own_headers s" "dbg_step c s = Some s'"
  shows "own_headers s'"
  using assms
  by (cases c) (auto simp: otelc_dbg_malloc_def otelc_dbg_calloc_def otelc_dbg_strdup_def otelc_dbg_strndup_def
      otelc_dbg_memdup_def intro!: own_headers_mem_alloc own_headers_raw_malloc
      intro: own_headers_free own_headers_realloc own_headers_residue split: option.splits if_splits)

lemma dbg_inv_run:
  assumes "dbg_inv s" "own_headers s" "dbg_run cs s = Some s'"
  shows "dbg_inv s' \<and> own_headers s'"
  using assms
proof (induction cs arbitrary: s)
  case (Cons c cs)
  from Cons.prems(3) obtain s1 where "dbg_call_ok c s" "dbg_step c s = Some s1" "dbg_run cs s1 = Some s'"
    by (auto split: if_splits option.splits)
  then show ?case
    using Cons.IH dbg_inv_step own_headers_step Cons.prems(1,2) by blast
qed simp

lemma dbg_init_inv:
  assumes "dbg_mem s = None" "dbg_inv s" "own_headers s" "otelc_dbg_mem_init t d n ok' s = (OTELC_RET_OK, s')"
  shows "dbg_inv s'" "own_headers s'"
proof -
  have "\<And>b i. hdr s b \<noteq> Some (M_rec t i)" using assms(1,3) by (auto simp: own_headers_def)
  then show "dbg_inv s'"
    using assms(2,4) by (auto simp: otelc_dbg_mem_init_def OTELC_RET_OK_def OTELC_RET_ERROR_def dbg_inv_def
        table_inv_def used_sum_def subset_iff domIff split: if_splits)
  show "own_headers s'"
    using assms(1,3,4) by (auto simp: otelc_dbg_mem_init_def OTELC_RET_OK_def OTELC_RET_ERROR_def own_headers_def
        split: if_splits)
qed

lemma used_records_are_headers:
  assumes "table_inv mem h B"
  shows "bij_betw r_ptr {d \<in> set (dm_data mem). r_used d} {b. \<exists>i. h b = Some (M_rec (dm_table mem) i)}"
    "length (filter r_used (dm_data mem)) = card {b. \<exists>i. h b = Some (M_rec (dm_table mem) i)}"
proof -
  let ?D = "dm_data mem"
  let ?I = "{i. i < length ?D \<and> r_used (?D ! i)}"
  note hd = table_inv_header [OF assms] and lk = table_inv_linked [OF assms]
  have inj: "inj_on (\<lambda>i. r_ptr (?D ! i)) ?I"
  proof (rule inj_onI)
    fix i j assume ij: "i \<in> ?I" "j \<in> ?I" and eq: "r_ptr (?D ! i) = r_ptr (?D ! j)"
    have "h (r_ptr (?D ! i)) = Some (M_rec (dm_table mem) i)" "h (r_ptr (?D ! j)) = Some (M_rec (dm_table mem) j)"
      using hd ij by blast+
    then show "i = j" unfolding eq by (simp only: option.inject meta.inject)
  qed
  have im: "(\<lambda>i. r_ptr (?D ! i)) ` ?I = {b. \<exists>i. h b = Some (M_rec (dm_table mem) i)}"
  proof (rule set_eqI)
    fix b
    show "b \<in> (\<lambda>i. r_ptr (?D ! i)) ` ?I \<longleftrightarrow> b \<in> {b. \<exists>i. h b = Some (M_rec (dm_table mem) i)}"
      unfolding image_iff mem_Collect_eq Bex_def using hd lk(1-3) by metis
  qed
  have set: "{d \<in> set ?D. r_used d} = (\<lambda>i. ?D ! i) ` ?I"
    by (auto simp: in_set_conv_nth)
  have "length (filter r_used ?D) = card ?I"
    by (simp add: length_filter_conv_card)
  also have "\<dots> = card {b. \<exists>i. h b = Some (M_rec (dm_table mem) i)}"
    using card_image [OF inj] im by simp
  finally show "length (filter r_used ?D) = card {b. \<exists>i. h b = Some (M_rec (dm_table mem) i)}" .
  have "inj_on r_ptr {d \<in> set ?D. r_used d}"
    unfolding set using inj by (auto simp: inj_on_def)
  then show "bij_betw r_ptr {d \<in> set ?D. r_used d} {b. \<exists>i. h b = Some (M_rec (dm_table mem) i)}"
    using im by (simp add: bij_betw_def set image_image)
qed

section \<open>Properties\<close>

definition dbg_empty :: dbg_state where
  "dbg_empty = \<lparr>dbg_mem = None, hdr = Map.empty, blocks = {}, residue = (\<lambda>_. Remains None)\<rparr>"

lemma dbg_empty_ok: "dbg_mem dbg_empty = None" "dbg_inv dbg_empty" "own_headers dbg_empty"
  by (simp_all add: dbg_empty_def dbg_inv_def own_headers_def)

text \<open>
  C15: The tracker's books balance.  After the tracker is enabled, any sequence of allocations,
  reallocations and frees leaves a state in which \<open>otelc_dbg_mem_info\<close> finds its running byte
  total equal to the sum of the used records (no mismatch, even if sizes wrap), and the number of
  used records equal to the number of live blocks whose header names a record of the table.
\<close>
theorem dbg_accounting:
  assumes "otelc_dbg_mem_init t d n True dbg_empty = (OTELC_RET_OK, s0)"
    and "dbg_run cs s0 = Some s"
    and "otelc_dbg_mem_info s = Some (bytes, cnt, agrees)"
  shows "agrees \<and> cnt = card {b \<in> blocks s. \<exists>i mem. dbg_mem s = Some mem \<and> hdr s b = Some (M_rec (dm_table mem) i)}"
proof -
  have s: "dbg_inv s" using dbg_inv_run dbg_init_inv [OF dbg_empty_ok assms(1)] assms(2) by blast
  from assms(3) obtain mem where mem: "dbg_mem s = Some mem"
    and "cnt = length (filter r_used (dm_data mem))" "agrees = (dm_size mem = used_sum (dm_data mem))"
    by (auto simp: otelc_dbg_mem_info_def Let_def used_sum_def)
  moreover note tab = dbg_inv_table [OF s mem]
  moreover have "{b \<in> blocks s. \<exists>i mem. dbg_mem s = Some mem \<and> hdr s b = Some (M_rec (dm_table mem) i)} =
      {b. \<exists>i. hdr s b = Some (M_rec (dm_table mem) i)}"
    using mem table_inv_linked(5) [OF tab] by auto
  ultimately show ?thesis
    using used_records_are_headers(2) [OF tab] by (simp add: table_inv_def)
qed

definition dbg_example :: dbg_state where
  "dbg_example = snd (otelc_dbg_mem_init 9 (Some []) 2 True dbg_empty)"

definition dbg_calls :: "dbg_call list" where
  "dbg_calls = [D_malloc None 10 100, D_malloc None 20 200, D_realloc None 116 30 300, D_free 216]"

lemma dbg_example_init: "otelc_dbg_mem_init 9 (Some []) 2 True dbg_empty = (OTELC_RET_OK, dbg_example)"
  by (simp add: dbg_example_def otelc_dbg_mem_init_def)

lemmas dbg_eval = dbg_example_def dbg_empty_def otelc_dbg_mem_init_def dbg_calls_def otelc_dbg_malloc_def
  otelc_dbg_mem_alloc_def otelc_dbg_mem_add_def otelc_dbg_set_metadata_def raw_malloc_def otelc_dbg_realloc_def
  raw_realloc_def raw_free_def otelc_dbg_free_def otelc_dbg_mem_release_def otelc_dbg_mem_check_def lookup_hdr_def
  readable_def base_of_def DBG_MEM_HDR_def DBG_SIZE_MAX_def OTELC_RET_OK_def OTELC_RET_ERROR_def otelc_dbg_mem_info_def

lemma dbg_example_run: "map_option otelc_dbg_mem_info (dbg_run dbg_calls dbg_example) = Some (Some (30, 1, True))"
  by (simp add: dbg_eval Let_def numeral_2_eq_2)

lemma dbg_accounting_witness:
  "\<exists>s. dbg_run dbg_calls dbg_example = Some s \<and>
     card {b \<in> blocks s. \<exists>i mem. dbg_mem s = Some mem \<and> hdr s b = Some (M_rec (dm_table mem) i)} = 1"
proof -
  obtain s where s: "dbg_run dbg_calls dbg_example = Some s" "otelc_dbg_mem_info s = Some (30, 1, True)"
    using dbg_example_run by auto
  show ?thesis using dbg_accounting [OF dbg_example_init s] s(1) by auto
qed

text \<open>
  C14: A double free of a tracked block is caught wherever it can be.  Freeing a live block with a
  record gives exactly that block back to the C library.  Then, whatever the library does to the
  memory of the released block, a second free of the pointer leaves the whole state as it is and a
  reallocation returns the null pointer: as a stale block when the header is gone, by the check of
  the record when the header is still in place, also when it names another record or lies outside
  the table.  The exceptions are a block whose memory the library has unmapped, where the probe
  itself faults (as the comment in \<open>otelc_dbg_free\<close> says), and memory that has come to hold the header
  of an untracked block, which is handed to the library a second time.
\<close>
theorem double_free_refused:
  assumes "otelc_dbg_mem_init t d n True dbg_empty = (OTELC_RET_OK, s0)"
    and "dbg_run cs s0 = Some s"
    and "base_of p \<in> blocks s" "lookup_hdr s p = Some (M_rec tb i)"
  shows "\<exists>s'. otelc_dbg_free p s = Some s' \<and> blocks s' = blocks s - {base_of p} \<and>
    (\<forall>res f sz ret. sz \<le> DBG_SIZE_MAX - DBG_MEM_HDR \<longrightarrow>
       (if res (base_of p) = Unmapped \<or> res (base_of p) = Remains (Some M_self)
        then otelc_dbg_free p (s'\<lparr>residue := res\<rparr>) = None \<and>
             otelc_dbg_realloc f p sz ret (s'\<lparr>residue := res\<rparr>) = None
        else otelc_dbg_free p (s'\<lparr>residue := res\<rparr>) = Some (s'\<lparr>residue := res\<rparr>) \<and>
             otelc_dbg_realloc f p sz ret (s'\<lparr>residue := res\<rparr>) = Some (0, s'\<lparr>residue := res\<rparr>)))"
proof -
  have s: "dbg_inv s" "own_headers s"
    using dbg_inv_run dbg_init_inv [OF dbg_empty_ok assms(1)] assms(2) by blast+
  note h = live_header [OF assms(4,3)]
  then obtain mem where mem: "dbg_mem s = Some mem" "tb = dm_table mem"
    using s(2) by (auto simp: own_headers_def)
  note l = table_inv_linked [OF dbg_inv_table [OF s(1) mem(1)] h(4) [unfolded mem(2)]]
  let ?ds = "(dm_data mem)[i := (dm_data mem ! i)\<lparr>r_used := False\<rparr>]"
  obtain s' where s': "otelc_dbg_free p s = Some s'" "blocks s' = blocks s - {base_of p}"
      "map_option dm_data (dbg_mem s') = Some ?ds" "map_option dm_assigned (dbg_mem s') = Some (dm_assigned mem)"
    using free_tracked [OF s(1) mem(1) assms(4) [unfolded mem(2)] assms(3)] by simp
  have "?ds ! i \<in> set (take (dm_assigned mem) ?ds)"
    using l(1,4) by (auto simp: in_set_conv_nth intro!: exI [of _ i])
  moreover have "r_ptr (?ds ! i) = base_of p" using l(1,3) by simp
  ultimately have stale: "otelc_dbg_mem_is_stale p (s'\<lparr>residue := res\<rparr>)" for res
    unfolding otelc_dbg_mem_is_stale_def using s'(3,4) by (cases "dbg_mem s'") auto
  have inv: "dbg_inv (s'\<lparr>residue := res\<rparr>)" for res
    using dbg_inv_residue dbg_inv_free_tracked [OF s(1) mem(1) assms(4) [unfolded mem(2)] assms(3) s'(1)] .
  have dead: "base_of p \<notin> blocks (s'\<lparr>residue := res\<rparr>)" for res using s'(2) by simp
  have tracker: "dbg_mem (s'\<lparr>residue := res\<rparr>) \<noteq> None" for res using s'(3) by auto
  have "if res (base_of p) = Unmapped \<or> res (base_of p) = Remains (Some M_self)
      then otelc_dbg_free p (s'\<lparr>residue := res\<rparr>) = None \<and>
           otelc_dbg_realloc f p sz ret (s'\<lparr>residue := res\<rparr>) = None
      else otelc_dbg_free p (s'\<lparr>residue := res\<rparr>) = Some (s'\<lparr>residue := res\<rparr>) \<and>
           otelc_dbg_realloc f p sz ret (s'\<lparr>residue := res\<rparr>) = Some (0, s'\<lparr>residue := res\<rparr>)"
    if "sz \<le> DBG_SIZE_MAX - DBG_MEM_HDR" for res f sz ret
    using refused_pointer [OF inv dead tracker stale h(1) that] by simp
  then show ?thesis using s'(1,2) by blast
qed

lemma double_free_refused_witness:
  "\<exists>s s'. dbg_run dbg_calls dbg_example = Some s \<and> otelc_dbg_free 316 s = Some s' \<and> blocks s' = {} \<and>
     otelc_dbg_free 316 (s'\<lparr>residue := \<lambda>_. Remains None\<rparr>) = Some (s'\<lparr>residue := \<lambda>_. Remains None\<rparr>) \<and>
     otelc_dbg_free 316 (s'\<lparr>residue := \<lambda>_. Remains (Some (M_rec 9 0))\<rparr>) =
       Some (s'\<lparr>residue := \<lambda>_. Remains (Some (M_rec 9 0))\<rparr>) \<and>
     otelc_dbg_free 316 (s'\<lparr>residue := \<lambda>_. Unmapped\<rparr>) = None"
proof -
  have "map_option (\<lambda>s. (lookup_hdr s 316, blocks s)) (dbg_run dbg_calls dbg_example) = Some (Some (M_rec 9 0), {300})"
    by (auto simp: dbg_eval Let_def numeral_2_eq_2)
  then obtain s where s: "dbg_run dbg_calls dbg_example = Some s" "lookup_hdr s 316 = Some (M_rec 9 0)" "blocks s = {300}"
    by auto
  have "base_of 316 \<in> blocks s" using s(3) by (simp add: base_of_def DBG_MEM_HDR_def)
  from double_free_refused [OF dbg_example_init s(1) this s(2)] obtain s' where
    s': "otelc_dbg_free 316 s = Some s'" "blocks s' = blocks s - {base_of 316}" and
    again: "\<And>res. if res (base_of 316) = Unmapped \<or> res (base_of 316) = Remains (Some M_self)
        then otelc_dbg_free 316 (s'\<lparr>residue := res\<rparr>) = None
        else otelc_dbg_free 316 (s'\<lparr>residue := res\<rparr>) = Some (s'\<lparr>residue := res\<rparr>)"
    by (metis le0)
  show ?thesis
    using s s' again [of "\<lambda>_. Remains None"] again [of "\<lambda>_. Remains (Some (M_rec 9 0))"] again [of "\<lambda>_. Unmapped"]
    by (auto simp: base_of_def DBG_MEM_HDR_def)
qed

end
