(* ===== verification/Otel_Span.thy ===== *)
theory Otel_Span
  imports Otel_Sdk Otel_Carrier
begin

text \<open>
  Spans (\<open>src/span.cpp\<close>): one definition per operation of the vtable, with its guards in the
  code's order.  A null argument is \<open>None\<close>; a variadic list of pairs is the list up to its null
  key.  A text map is its list of entries here (its representation in memory is the subject of
  \<open>Otel_TextMap\<close>).  An operation holds the shard's mutex over all it does with a handle, so each
  is one step; \<open>otel_span_add_link\<close> is the composition of its three locked sections.
\<close>

section \<open>Finding a handle\<close>

text \<open>\<open>OTEL_LOCK_SPAN_HANDLE\<close>: silent when the maps are gone, an error when the index is stale.\<close>

definition lock_span_handle ::
  "string \<Rightarrow> otelc_span \<Rightarrow> ('d, 'b, 't) world \<Rightarrow> ('b span_handle \<Rightarrow> 'a outcome \<times> ('d, 'b, 't) world) \<Rightarrow>
   'a outcome \<times> ('d, 'b, 't) world" where
  "lock_span_handle msg sp w k =
     (case otel_span w of
        None \<Rightarrow> (silent, w)
      | Some m \<Rightarrow> (case otel_map_find m (sp_idx sp) of
            None \<Rightarrow> (raise msg, w)
          | Some h \<Rightarrow> k h))"

abbreviation INVALID_SPAN :: string where "INVALID_SPAN \<equiv> ''Invalid span''"

section \<open>Reading and ending a span\<close>

text \<open>The bytes an id accessor writes: to a buffer that is given and large enough.\<close>

definition copy_id :: "8 word list \<Rightarrow> nat option \<Rightarrow> nat \<Rightarrow> 8 word list option" where
  "copy_id i sz k = (case sz of None \<Rightarrow> None | Some n \<Rightarrow> if n \<ge> k then Some i else None)"

definition copy_ids ::
  "'t span_ctx \<Rightarrow> nat option \<Rightarrow> nat option \<Rightarrow> bool \<Rightarrow> 8 word list option \<times> 8 word list option \<times> 8 word option" where
  "copy_ids c span_id trace_id trace_flags =
     (copy_id (sc_span_id c) span_id 8, copy_id (sc_trace_id c) trace_id 16,
      if trace_flags then Some (sc_flags c) else None)"

definition otel_span_get_id ::
  "('d, 'b, 't) sdk \<Rightarrow> otelc_span option \<Rightarrow> nat option \<Rightarrow> nat option \<Rightarrow> bool \<Rightarrow> ('d, 'b, 't) world \<Rightarrow>
   (8 word list option \<times> 8 word list option \<times> 8 word option) outcome \<times> ('d, 'b, 't) world" where
  "otel_span_get_id sdk span span_id trace_id trace_flags w =
     (case span of None \<Rightarrow> (silent, w)
      | Some sp \<Rightarrow> lock_span_handle INVALID_SPAN sp w (\<lambda>h.
          let c = get_context sdk (sh_span h) in
          if \<not> ctx_is_valid sdk c then (raise ''Invalid span context'', w)
          else (Inr (copy_ids c span_id trace_id trace_flags), w)))"

definition otel_span_is_recording ::
  "('d, 'b, 't) sdk \<Rightarrow> otelc_span option \<Rightarrow> ('d, 'b, 't) world \<Rightarrow> int outcome \<times> ('d, 'b, 't) world" where
  "otel_span_is_recording sdk span w =
     (case span of None \<Rightarrow> (silent, w)
      | Some sp \<Rightarrow> lock_span_handle INVALID_SPAN sp w (\<lambda>h.
          (Inr (if is_recording sdk (calls w) (sh_span h) then 1 else 0), w)))"

definition span_status_in_range :: "int \<Rightarrow> bool" where
  "span_status_in_range st \<longleftrightarrow> 0 \<le> st \<and> st \<le> 2"

definition OTELC_SPAN_STATUS_IGNORE :: int where "OTELC_SPAN_STATUS_IGNORE = -1"

definition otel_span_set_status ::
  "('d, 'b, 't) sdk \<Rightarrow> otelc_span option \<Rightarrow> int \<Rightarrow> string option \<Rightarrow> ('d, 'b, 't) world \<Rightarrow>
   int outcome \<times> ('d, 'b, 't) world" where
  "otel_span_set_status sdk span status desc w =
     (case span of None \<Rightarrow> (silent, w)
      | Some sp \<Rightarrow>
          if \<not> span_status_in_range status then (raisef ''Invalid span status: %d'' [Arg_int status], w)
          else lock_span_handle INVALID_SPAN sp w (\<lambda>h.
            if \<not> is_recording sdk (calls w) (sh_span h) then (Inr OTELC_RET_OK, w)
            else (Inr OTELC_RET_OK, call (SetStatus (sh_span h) status (c_str desc)) w)))"

definition otel_span_set_operation_name ::
  "('d, 'b, 't) sdk \<Rightarrow> otelc_span option \<Rightarrow> string option \<Rightarrow> ('d, 'b, 't) world \<Rightarrow>
   unit outcome \<times> ('d, 'b, 't) world" where
  "otel_span_set_operation_name sdk span operation_name w =
     (case span of None \<Rightarrow> (silent, w)
      | Some sp \<Rightarrow>
          if \<not> str_is_valid operation_name then (raise ''Invalid operation name'', w)
          else lock_span_handle INVALID_SPAN sp w (\<lambda>h.
            (Inr (), call (UpdateName (sh_span h) (c_str operation_name)) w)))"

text \<open>\<open>otel_nolock_span_destroy\<close> and \<open>otel_nolock_span_context_destroy\<close>: \<open>*span\<close> becomes null.\<close>

definition handle_forget :: "int64 \<Rightarrow> 'a otel_handle \<Rightarrow> 'a otel_handle" where
  "handle_forget idx m =
     (let m1 = (case otel_map_find m idx of None \<Rightarrow> m
                | Some h \<Rightarrow> (handle_erase idx m)\<lparr>erase_cnt := erase_cnt m + 1\<rparr>)
      in m1\<lparr>destroy_cnt := destroy_cnt m1 + 1\<rparr>)"

definition otel_nolock_span_destroy ::
  "otelc_span option \<Rightarrow> ('d, 'b, 't) world \<Rightarrow> otelc_span option \<times> ('d, 'b, 't) world" where
  "otel_nolock_span_destroy span w =
     (case span of None \<Rightarrow> (None, w)
      | Some sp \<Rightarrow> (case otel_span w of
            None \<Rightarrow> (None, ext_free (sp_addr sp) w)
          | Some m \<Rightarrow> (None, ext_free (sp_addr sp) (w\<lparr>otel_span := Some (handle_forget (sp_idx sp) m)\<rparr>))))"

definition otel_span_destroy ::
  "otelc_span option \<Rightarrow> ('d, 'b, 't) world \<Rightarrow> otelc_span option \<times> ('d, 'b, 't) world" where
  "otel_span_destroy span w = otel_nolock_span_destroy span w"

definition otel_span_end_with_options ::
  "otelc_span option \<Rightarrow> timespec option \<Rightarrow> int \<Rightarrow> string option \<Rightarrow> ('d, 'b, 't) world \<Rightarrow>
   otelc_span option \<times> ('d, 'b, 't) world" where
  "otel_span_end_with_options span ts_steady status desc w =
     (case span of None \<Rightarrow> (None, w)
      | Some sp \<Rightarrow> (case otel_span w of
            None \<Rightarrow> otel_nolock_span_destroy span w
          | Some m \<Rightarrow>
              let w1 = (case otel_map_find m (sp_idx sp) of
                    None \<Rightarrow> w
                  | Some h \<Rightarrow>
                      let w0 = (if span_status_in_range status
                                then call (SetStatus (sh_span h) status (c_str desc)) w else w)
                      in call (End (sh_span h)
                           (if ts_steady = None then None else Some (timespec_to_duration ts_steady))) w0)
              in otel_nolock_span_destroy span w1))"

definition otel_span_end ::
  "otelc_span option \<Rightarrow> ('d, 'b, 't) world \<Rightarrow> otelc_span option \<times> ('d, 'b, 't) world" where
  "otel_span_end span w = otel_span_end_with_options span None OTELC_SPAN_STATUS_IGNORE None w"

section \<open>Baggage\<close>

text \<open>\<open>OTEL_SPAN_BAGGAGE\<close> and \<open>OTEL_SPAN_UPDATE_BAGGAGE\<close>.\<close>

definition span_baggage :: "('d, 'b, 't) sdk \<Rightarrow> 'b span_handle \<Rightarrow> 'b" where
  "span_baggage sdk h = (case sh_baggage h of None \<Rightarrow> bag_default sdk | Some b \<Rightarrow> b)"

definition put_handle :: "int64 \<Rightarrow> 'a \<Rightarrow> 'a otel_handle \<Rightarrow> 'a otel_handle" where
  "put_handle idx h m = set_shard idx (AList.update idx h (get_shard m idx)) m"

definition span_update_baggage ::
  "otelc_span \<Rightarrow> 'b span_handle \<Rightarrow> 'b \<Rightarrow> int \<Rightarrow> ('d, 'b, 't) world \<Rightarrow> int outcome \<times> ('d, 'b, 't) world" where
  "span_update_baggage sp h bag n w =
     (if n \<le> 0 then (Inr n, w)
      else (Inr n, w\<lparr>otel_span := map_option (put_handle (sp_idx sp) (h\<lparr>sh_baggage := Some bag\<rparr>)) (otel_span w)\<rparr>))"

fun baggage_var_loop ::
  "('d, 'b, 't) sdk \<Rightarrow> 'b \<Rightarrow> (string \<times> string option) list \<Rightarrow> int \<Rightarrow> ('b \<times> int) outcome" where
  "baggage_var_loop sdk bag [] n = Inr (bag, n)"
| "baggage_var_loop sdk bag ((k, None) # args) n = Inr (bag, n)"
| "baggage_var_loop sdk bag ((k, Some v) # args) n =
     (if k = [] then raise ''Invalid baggage name''
      else if v = [] then raise ''Invalid baggage value''
      else baggage_var_loop sdk (bag_set sdk bag k v) args (n + 1))"

definition otel_span_set_baggage_var ::
  "('d, 'b, 't) sdk \<Rightarrow> otelc_span option \<Rightarrow> string option \<Rightarrow> string option \<Rightarrow> (string \<times> string option) list \<Rightarrow>
   ('d, 'b, 't) world \<Rightarrow> int outcome \<times> ('d, 'b, 't) world" where
  "otel_span_set_baggage_var sdk span key val args w =
     (case span of None \<Rightarrow> (silent, w)
      | Some sp \<Rightarrow>
          if \<not> str_is_valid key then (raise ''Invalid baggage name'', w)
          else if \<not> str_is_valid val then (raise ''Invalid baggage value'', w)
          else lock_span_handle INVALID_SPAN sp w (\<lambda>h.
            case baggage_var_loop sdk (span_baggage sdk h) ((c_str key, val) # args) 0 of
              Inl e \<Rightarrow> (Inl e, w)
            | Inr (bag, n) \<Rightarrow> span_update_baggage sp h bag n w))"

text \<open>One pair of the \<open>kv\<close> variants: a string or data value with text.\<close>

definition baggage_kv :: "('d, 'b, 't) sdk \<Rightarrow> 'b \<Rightarrow> 'd ckv \<Rightarrow> 'b outcome" where
  "baggage_kv sdk bag kv =
     (if \<not> str_is_valid (ck_key kv) then raise ''Invalid baggage name''
      else (case ck_value kv of
          C_string s \<Rightarrow> if \<not> str_is_valid s then raise ''Invalid baggage value''
                        else Inr (bag_set sdk bag (c_str (ck_key kv)) (c_str s))
        | C_data s \<Rightarrow> if \<not> str_is_valid s then raise ''Invalid baggage value''
                      else Inr (bag_set sdk bag (c_str (ck_key kv)) (c_str s))
        | _ \<Rightarrow> raise ''Invalid value data type''))"

fun baggage_kv_loop :: "('d, 'b, 't) sdk \<Rightarrow> 'b \<Rightarrow> 'd ckv list \<Rightarrow> int \<Rightarrow> ('b \<times> int) outcome" where
  "baggage_kv_loop sdk bag [] n = Inr (bag, n)"
| "baggage_kv_loop sdk bag (kv # kvs) n =
     (case baggage_kv sdk bag kv of
        Inl e \<Rightarrow> Inl e
      | Inr bag1 \<Rightarrow> baggage_kv_loop sdk bag1 kvs (n + 1))"

text \<open>The array of a \<open>kv_n\<close> call: the loops run while the index is below \<open>(int)kv_len\<close>.\<close>

definition kv_prefix :: "'d ckv list \<Rightarrow> size_t \<Rightarrow> 'd ckv list" where
  "kv_prefix kvs len = take (nat (int_of_size len)) kvs"

definition otel_span_set_baggage_kv_var ::
  "('d, 'b, 't) sdk \<Rightarrow> otelc_span option \<Rightarrow> 'd ckv list \<Rightarrow> ('d, 'b, 't) world \<Rightarrow>
   int outcome \<times> ('d, 'b, 't) world" where
  "otel_span_set_baggage_kv_var sdk span kvs w =
     (case span of None \<Rightarrow> (silent, w)
      | Some sp \<Rightarrow>
          if kvs = [] then (raise ''Invalid baggage key-value'', w)
          else lock_span_handle INVALID_SPAN sp w (\<lambda>h.
            case baggage_kv_loop sdk (span_baggage sdk h) kvs 0 of
              Inl e \<Rightarrow> (Inl e, w)
            | Inr (bag, n) \<Rightarrow> span_update_baggage sp h bag n w))"

definition otel_span_set_baggage_kv_n ::
  "('d, 'b, 't) sdk \<Rightarrow> otelc_span option \<Rightarrow> 'd ckv list option \<Rightarrow> size_t \<Rightarrow> ('d, 'b, 't) world \<Rightarrow>
   int outcome \<times> ('d, 'b, 't) world" where
  "otel_span_set_baggage_kv_n sdk span kv kv_len w =
     (case span of None \<Rightarrow> (silent, w)
      | Some sp \<Rightarrow> (case kv of
            None \<Rightarrow> (raise ''Invalid baggage key-value'', w)
          | Some kvs \<Rightarrow>
              if kv_len = 0 then (raise ''Invalid baggage key-value array size'', w)
              else lock_span_handle INVALID_SPAN sp w (\<lambda>h.
                case baggage_kv_loop sdk (span_baggage sdk h) (kv_prefix kvs kv_len) 0 of
                  Inl e \<Rightarrow> (Inl e, w)
                | Inr (bag, n) \<Rightarrow> span_update_baggage sp h bag n w)))"

definition otel_span_set_baggage ::
  "('d, 'b, 't) sdk \<Rightarrow> otelc_span option \<Rightarrow> string option \<Rightarrow> string option \<Rightarrow> ('d, 'b, 't) world \<Rightarrow>
   int outcome \<times> ('d, 'b, 't) world" where
  "otel_span_set_baggage sdk span key val w =
     (case span of None \<Rightarrow> (silent, w)
      | Some sp \<Rightarrow>
          if \<not> str_is_valid key then (raise ''Invalid baggage name'', w)
          else if \<not> str_is_valid val then (raise ''Invalid baggage value'', w)
          else lock_span_handle INVALID_SPAN sp w (\<lambda>h.
            span_update_baggage sp h (bag_set sdk (span_baggage sdk h) (c_str key) (c_str val)) 1 w))"

text \<open>A missing entry is a null pointer without an error.\<close>

definition otel_span_get_baggage ::
  "('d, 'b, 't) sdk \<Rightarrow> otelc_span option \<Rightarrow> string option \<Rightarrow> ('d, 'b, 't) world \<Rightarrow>
   string option outcome \<times> ('d, 'b, 't) world" where
  "otel_span_get_baggage sdk span key w =
     (case span of None \<Rightarrow> (silent, w)
      | Some sp \<Rightarrow>
          if \<not> str_is_valid key then (raise ''Invalid baggage name'', w)
          else lock_span_handle INVALID_SPAN sp w (\<lambda>h.
            case bag_get sdk (span_baggage sdk h) (c_str key) of
              None \<Rightarrow> (Inr None, w)
            | Some v \<Rightarrow>
                let (fine, w1) = try_alloc sdk w in
                if \<not> fine then (raise ''Unable to allocate memory for baggage value'', w1)
                else (Inr (Some v), w1)))"

text \<open>\<open>OTELC_TEXT_MAP_ADD\<close> on the entries.\<close>

definition entries_add ::
  "('d, 'b, 't) sdk \<Rightarrow> (string \<times> string) list \<Rightarrow> string \<Rightarrow> string \<Rightarrow> ('d, 'b, 't) world \<Rightarrow>
   (string \<times> string) list option \<times> ('d, 'b, 't) world" where
  "entries_add sdk m k v w =
     (let (fine, w1) = try_alloc sdk w in (if fine then Some (m @ [(k, v)]) else None, w1))"

fun get_baggage_loop ::
  "('d, 'b, 't) sdk \<Rightarrow> 'b \<Rightarrow> string list \<Rightarrow> (string \<times> string) list \<Rightarrow> ('d, 'b, 't) world \<Rightarrow>
   (string \<times> string) list option \<times> ('d, 'b, 't) world" where
  "get_baggage_loop sdk bag [] m w = (Some m, w)"
| "get_baggage_loop sdk bag (k # ks) m w =
     (case bag_get sdk bag k of
        None \<Rightarrow> get_baggage_loop sdk bag ks m w
      | Some v \<Rightarrow> (case entries_add sdk m k v w of
            (None, w1) \<Rightarrow> (None, w1)
          | (Some m1, w1) \<Rightarrow> get_baggage_loop sdk bag ks m1 w1))"

definition otel_span_get_baggage_var ::
  "('d, 'b, 't) sdk \<Rightarrow> otelc_span option \<Rightarrow> string option \<Rightarrow> string list \<Rightarrow> ('d, 'b, 't) world \<Rightarrow>
   (string \<times> string) list outcome \<times> ('d, 'b, 't) world" where
  "otel_span_get_baggage_var sdk span key keys w =
     (case span of None \<Rightarrow> (silent, w)
      | Some sp \<Rightarrow>
          if \<not> str_is_valid key then (raise ''Invalid baggage name'', w)
          else if otel_span w = None then (silent, w)
          else
            let (fine, w1) = try_alloc sdk w in
            if \<not> fine then (raise ''Unable to allocate memory for baggage map'', w1)
            else lock_span_handle INVALID_SPAN sp w1 (\<lambda>h.
              case get_baggage_loop sdk (span_baggage sdk h) (c_str key # keys) [] w1 of
                (None, w2) \<Rightarrow> (raise ''Unable to copy baggage data to text map'', w2)
              | (Some m, w2) \<Rightarrow> (Inr m, w2)))"

section \<open>Attributes\<close>

definition otel_span_set_one_attribute ::
  "nat \<Rightarrow> string option \<Rightarrow> 'd cvalue option \<Rightarrow> ('d, 'b, 't) world \<Rightarrow> int outcome \<times> ('d, 'b, 't) world" where
  "otel_span_set_one_attribute span key val w =
     (case key of None \<Rightarrow> (silent, w)
      | Some k \<Rightarrow> (case val of None \<Rightarrow> (silent, w)
          | Some v \<Rightarrow>
              if v = C_null then (Inr OTELC_RET_OK, call (SetAttribute span k (Vis_str [])) w)
              else if in_value_range v then (Inr OTELC_RET_OK, call (SetAttribute span k (cvalue_visit v)) w)
              else (silent, w)))"

text \<open>The loop of the three setters: a span that is not recording only counts the pairs.\<close>

fun set_attribute_loop ::
  "nat \<Rightarrow> bool \<Rightarrow> (string option \<times> 'd cvalue option) list \<Rightarrow> int \<Rightarrow> ('d, 'b, 't) world \<Rightarrow>
   int outcome \<times> ('d, 'b, 't) world" where
  "set_attribute_loop span recording [] n w = (Inr n, w)"
| "set_attribute_loop span recording ((k, v) # args) n w =
     (if recording
      then (case otel_span_set_one_attribute span k v w of
          (Inl _, w1) \<Rightarrow> (raise ''Unable to set span attribute'', w1)
        | (Inr _, w1) \<Rightarrow> set_attribute_loop span recording args (n + 1) w1)
      else set_attribute_loop span recording args (n + 1) w)"

text \<open>The pairs a variadic call walks: up to the first null value.\<close>

fun var_pairs :: "(string \<times> 'd cvalue option) list \<Rightarrow> (string option \<times> 'd cvalue option) list" where
  "var_pairs [] = []"
| "var_pairs ((k, v) # args) = (if v = None then [] else (Some k, v) # var_pairs args)"

definition kv_pairs :: "'d ckv list \<Rightarrow> (string option \<times> 'd cvalue option) list" where
  "kv_pairs kvs = map (\<lambda>kv. (ck_key kv, Some (ck_value kv))) kvs"

definition otel_span_set_attribute_var ::
  "('d, 'b, 't) sdk \<Rightarrow> otelc_span option \<Rightarrow> string option \<Rightarrow> 'd cvalue option \<Rightarrow> (string \<times> 'd cvalue option) list \<Rightarrow>
   ('d, 'b, 't) world \<Rightarrow> int outcome \<times> ('d, 'b, 't) world" where
  "otel_span_set_attribute_var sdk span key val args w =
     (case span of None \<Rightarrow> (silent, w)
      | Some sp \<Rightarrow>
          if \<not> str_is_valid key then (raise ''Invalid attribute key'', w)
          else if val = None then (raise ''Invalid attribute value'', w)
          else lock_span_handle INVALID_SPAN sp w (\<lambda>h.
            set_attribute_loop (sh_span h) (is_recording sdk (calls w) (sh_span h))
              (var_pairs ((c_str key, val) # args)) 0 w))"

definition otel_span_set_attribute_kv_var ::
  "('d, 'b, 't) sdk \<Rightarrow> otelc_span option \<Rightarrow> 'd ckv list \<Rightarrow> ('d, 'b, 't) world \<Rightarrow>
   int outcome \<times> ('d, 'b, 't) world" where
  "otel_span_set_attribute_kv_var sdk span kvs w =
     (case span of None \<Rightarrow> (silent, w)
      | Some sp \<Rightarrow>
          if kvs = [] then (raise ''Invalid attribute key-value'', w)
          else lock_span_handle INVALID_SPAN sp w (\<lambda>h.
            set_attribute_loop (sh_span h) (is_recording sdk (calls w) (sh_span h)) (kv_pairs kvs) 0 w))"

definition otel_span_set_attribute_kv_n ::
  "('d, 'b, 't) sdk \<Rightarrow> otelc_span option \<Rightarrow> 'd ckv list option \<Rightarrow> size_t \<Rightarrow> ('d, 'b, 't) world \<Rightarrow>
   int outcome \<times> ('d, 'b, 't) world" where
  "otel_span_set_attribute_kv_n sdk span kv kv_len w =
     (case span of None \<Rightarrow> (silent, w)
      | Some sp \<Rightarrow> (case kv of
            None \<Rightarrow> (raise ''Invalid attribute key-value'', w)
          | Some kvs \<Rightarrow>
              if kv_len = 0 then (raise ''Invalid attribute key-value array size'', w)
              else lock_span_handle INVALID_SPAN sp w (\<lambda>h.
                if \<not> is_recording sdk (calls w) (sh_span h) then (Inr (int_of_size kv_len), w)
                else set_attribute_loop (sh_span h) True (kv_pairs (kv_prefix kvs kv_len)) 0 w)))"

section \<open>Events, links and exceptions\<close>

definition otel_span_add_one_event ::
  "('d, 'b, 't) sdk \<Rightarrow> 'd attrs \<Rightarrow> string option \<Rightarrow> 'd cvalue option \<Rightarrow> ('d, 'b, 't) world \<Rightarrow>
   'd attrs outcome \<times> ('d, 'b, 't) world" where
  "otel_span_add_one_event sdk attr key val w =
     (case key of
        None \<Rightarrow> (raise ''Invalid event attribute'', w)
      | Some k \<Rightarrow> (case value_add sdk ''Unable to add event'' attr (Some k) val w of
            None \<Rightarrow> (silent, w)
          | Some r \<Rightarrow> r))"

fun add_event_loop ::
  "('d, 'b, 't) sdk \<Rightarrow> bool \<Rightarrow> 'd attrs \<Rightarrow> (string option \<times> 'd cvalue option) list \<Rightarrow> int \<Rightarrow> ('d, 'b, 't) world \<Rightarrow>
   ('d attrs \<times> int) outcome \<times> ('d, 'b, 't) world" where
  "add_event_loop sdk recording attr [] n w = (Inr (attr, n), w)"
| "add_event_loop sdk recording attr ((k, v) # args) n w =
     (if recording
      then (case otel_span_add_one_event sdk attr k v w of
          (Inl _, w1) \<Rightarrow> (raise ''Unable to set span event attribute'', w1)
        | (Inr attr1, w1) \<Rightarrow> add_event_loop sdk recording attr1 args (n + 1) w1)
      else add_event_loop sdk recording attr args (n + 1) w)"

text \<open>The timestamp: \<open>None\<close> stands for the current time, the default.\<close>

definition event_time :: "timespec option \<Rightarrow> int option" where
  "event_time ts = (if ts = None then None else Some (timespec_to_duration ts))"

definition finish_event ::
  "bool \<Rightarrow> nat \<Rightarrow> string \<Rightarrow> timespec option \<Rightarrow> ('d attrs \<times> int) outcome \<times> ('d, 'b, 't) world \<Rightarrow>
   int outcome \<times> ('d, 'b, 't) world" where
  "finish_event recording span name ts r =
     (case r of
        (Inl e, w) \<Rightarrow> (Inl e, w)
      | (Inr (attr, n), w) \<Rightarrow>
          (Inr n, if recording then call (AddEvent span name (event_time ts) attr) w else w))"

definition otel_span_add_event_var ::
  "('d, 'b, 't) sdk \<Rightarrow> otelc_span option \<Rightarrow> string option \<Rightarrow> timespec option \<Rightarrow> string option \<Rightarrow> 'd cvalue option \<Rightarrow>
   (string \<times> 'd cvalue option) list \<Rightarrow> ('d, 'b, 't) world \<Rightarrow> int outcome \<times> ('d, 'b, 't) world" where
  "otel_span_add_event_var sdk span name ts key val args w =
     (case span of None \<Rightarrow> (silent, w)
      | Some sp \<Rightarrow> (case name of
            None \<Rightarrow> (raise ''Invalid event name'', w)
          | Some nm \<Rightarrow>
              if key = Some [] then (raise ''Invalid event key'', w)
              else if key \<noteq> None \<and> val = None then (raise ''Invalid event value'', w)
              else lock_span_handle INVALID_SPAN sp w (\<lambda>h.
                let r = is_recording sdk (calls w) (sh_span h);
                    pairs = (case key of None \<Rightarrow> [] | Some k \<Rightarrow> var_pairs ((k, val) # args))
                in finish_event r (sh_span h) nm ts (add_event_loop sdk r [] pairs 0 w))))"

definition otel_span_add_event_kv_var ::
  "('d, 'b, 't) sdk \<Rightarrow> otelc_span option \<Rightarrow> string option \<Rightarrow> timespec option \<Rightarrow> 'd ckv list \<Rightarrow> ('d, 'b, 't) world \<Rightarrow>
   int outcome \<times> ('d, 'b, 't) world" where
  "otel_span_add_event_kv_var sdk span name ts kvs w =
     (case span of None \<Rightarrow> (silent, w)
      | Some sp \<Rightarrow> (case name of
            None \<Rightarrow> (raise ''Invalid event name'', w)
          | Some nm \<Rightarrow> lock_span_handle INVALID_SPAN sp w (\<lambda>h.
              let r = is_recording sdk (calls w) (sh_span h)
              in finish_event r (sh_span h) nm ts (add_event_loop sdk r [] (kv_pairs kvs) 0 w))))"

definition otel_span_add_event_kv_n ::
  "('d, 'b, 't) sdk \<Rightarrow> otelc_span option \<Rightarrow> string option \<Rightarrow> timespec option \<Rightarrow> 'd ckv list option \<Rightarrow> size_t \<Rightarrow>
   ('d, 'b, 't) world \<Rightarrow> int outcome \<times> ('d, 'b, 't) world" where
  "otel_span_add_event_kv_n sdk span name ts kv kv_len w =
     (case span of None \<Rightarrow> (silent, w)
      | Some sp \<Rightarrow> (case name of
            None \<Rightarrow> (raise ''Invalid event name'', w)
          | Some nm \<Rightarrow>
              if kv = None \<and> kv_len > 0 then (raise ''Invalid event key-value'', w)
              else lock_span_handle INVALID_SPAN sp w (\<lambda>h.
                if \<not> is_recording sdk (calls w) (sh_span h) then (Inr (int_of_size kv_len), w)
                else
                  let (fine, w1) = try_alloc sdk w in
                  if \<not> fine then (raise ''Unable to allocate event attributes'', w1)
                  else finish_event True (sh_span h) nm ts
                    (add_event_loop sdk True []
                      (kv_pairs (case kv of None \<Rightarrow> [] | Some kvs \<Rightarrow> kv_prefix kvs kv_len)) 0 w1))))"

text \<open>\<open>otel_span_add_link\<close>.  The attribute array of a link or of an exception is the list of its
  \<open>kv_len\<close> entries, \<open>[]\<close> for a null or empty one; the outer \<open>None\<close> is the null key of one of them.\<close>

definition link_target ::
  "('d, 'b, 't) sdk \<Rightarrow> otelc_span option \<Rightarrow> otelc_span_context option \<Rightarrow> ('d, 'b, 't) world \<Rightarrow> 't span_ctx outcome" where
  "link_target sdk link_span link_context w =
     (case link_span of
        Some ls \<Rightarrow> fst (lock_span_handle ''Invalid linked span'' ls w (\<lambda>h. (Inr (get_context sdk (sh_span h)), w)))
      | None \<Rightarrow> (case link_context of
            None \<Rightarrow> silent
          | Some lc \<Rightarrow> (case otel_span_context w of
                None \<Rightarrow> silent
              | Some m \<Rightarrow> (case otel_map_find m (sx_idx lc) of
                    None \<Rightarrow> raise ''Invalid linked span context''
                  | Some c \<Rightarrow> Inr (cx_span c)))))"

definition otel_span_add_link ::
  "('d, 'b, 't) sdk \<Rightarrow> otelc_span option \<Rightarrow> otelc_span option \<Rightarrow> otelc_span_context option \<Rightarrow> 'd ckv list \<Rightarrow>
   ('d, 'b, 't) world \<Rightarrow> (int outcome \<times> ('d, 'b, 't) world) option" where
  "otel_span_add_link sdk span link_span link_context kvs w =
     (case span of None \<Rightarrow> Some (silent, w)
      | Some sp \<Rightarrow>
          if link_span \<noteq> None \<and> link_context \<noteq> None
          then Some (raise ''Parameters link_span and link_context are mutually exclusive'', w)
          else if link_span = None \<and> link_context = None
          then Some (raise ''One of link_span or link_context must be specified'', w)
          else if fst (otel_span_is_recording sdk span w) = Inr 0 then Some (Inr OTELC_RET_OK, w)
          else
            let (fine, w0) = (if kvs = [] then (True, w) else try_alloc sdk w) in
            if \<not> fine then Some (raise ''Unable to allocate link attributes'', w0)
            else (case value_add_all sdk ''Unable to add link'' [] kvs w0 of
                None \<Rightarrow> None
              | Some (Inl e, w1) \<Rightarrow> Some (Inl e, w1)
              | Some (Inr attr, w1) \<Rightarrow> (case link_target sdk link_span link_context w1 of
                    Inl e \<Rightarrow> Some (Inl e, w1)
                  | Inr target \<Rightarrow>
                      if \<not> ctx_is_valid sdk target then Some (raise ''Invalid linked span context'', w1)
                      else Some (lock_span_handle INVALID_SPAN sp w1 (\<lambda>h.
                        (Inr OTELC_RET_OK, call (AddLink (sh_span h) target attr) w1))))))"

text \<open>An optional text attribute of \<open>otel_span_record_exception\<close>.\<close>

definition exception_attr ::
  "('d, 'b, 't) sdk \<Rightarrow> string \<Rightarrow> string \<Rightarrow> string option \<Rightarrow> 'd attrs outcome \<times> ('d, 'b, 't) world \<Rightarrow>
   'd attrs outcome \<times> ('d, 'b, 't) world" where
  "exception_attr sdk msg key text r =
     (case r of
        (Inl e, w) \<Rightarrow> (Inl e, w)
      | (Inr attr, w) \<Rightarrow>
          if \<not> str_is_valid text then (Inr attr, w)
          else let (fine, w1) = try_alloc sdk w in
            if \<not> fine then (raise msg, w1) else (Inr (attr @ [(key, Vis_str (c_str text))]), w1))"

definition otel_span_record_exception ::
  "('d, 'b, 't) sdk \<Rightarrow> otelc_span option \<Rightarrow> string option \<Rightarrow> string option \<Rightarrow> string option \<Rightarrow> timespec option \<Rightarrow>
   'd ckv list \<Rightarrow> ('d, 'b, 't) world \<Rightarrow> (int outcome \<times> ('d, 'b, 't) world) option" where
  "otel_span_record_exception sdk span type message stacktrace ts kvs w =
     (case span of None \<Rightarrow> Some (silent, w)
      | Some sp \<Rightarrow>
          if \<not> str_is_valid type then Some (raise ''Invalid exception type'', w)
          else (case otel_span w of
              None \<Rightarrow> Some (silent, w)
            | Some m \<Rightarrow> (case otel_map_find m (sp_idx sp) of
                  None \<Rightarrow> Some (raise INVALID_SPAN, w)
                | Some h \<Rightarrow>
                    if \<not> is_recording sdk (calls w) (sh_span h) then Some (Inr OTELC_RET_OK, w)
                    else (case exception_attr sdk ''Unable to add exception stacktrace'' ''exception.stacktrace'' stacktrace
                          (exception_attr sdk ''Unable to add exception message'' ''exception.message'' message
                            (exception_attr sdk ''Unable to add exception type'' ''exception.type'' type (Inr [], w))) of
                        (Inl e, w1) \<Rightarrow> Some (Inl e, w1)
                      | (Inr attr, w1) \<Rightarrow> (case value_add_all sdk ''Unable to add exception attribute'' attr kvs w1 of
                            None \<Rightarrow> None
                          | Some (Inl e, w2) \<Rightarrow> Some (Inl e, w2)
                          | Some (Inr attr2, w2) \<Rightarrow>
                              Some (Inr OTELC_RET_OK, call (AddEvent (sh_span h) ''exception'' (event_time ts) attr2) w2))))))"

section \<open>Injecting a span into a carrier\<close>

text \<open>The writer's map, and its \<open>set\<close> callback when it has one.\<close>

type_synonym set_callback = "string \<Rightarrow> string \<Rightarrow> (string \<times> string) list \<Rightarrow> int \<times> (string \<times> string) list"

fun copy_injected ::
  "('d, 'b, 't) sdk \<Rightarrow> set_callback option \<Rightarrow> (string \<times> string) list \<Rightarrow> (string \<times> string) list \<Rightarrow>
   ('d, 'b, 't) world \<Rightarrow> (string \<times> string) list option \<times> ('d, 'b, 't) world" where
  "copy_injected sdk cb [] m w = (Some m, w)"
| "copy_injected sdk cb ((k, v) # data) m w =
     (case cb of
        Some put \<Rightarrow>
          (let (rc, m1) = put k v m in
           if rc = OTELC_RET_ERROR then (None, w) else copy_injected sdk cb data m1 w)
      | None \<Rightarrow>
          (case entries_add sdk m k v w of
            (None, w1) \<Rightarrow> (None, w1)
          | (Some m1, w1) \<Rightarrow> copy_injected sdk cb data m1 w1))"

text \<open>\<open>has_propagator\<close>: the tracer's implementation exists and has one.  The carrier's map is freed
  before it is filled and when filling it fails.\<close>

definition otel_span_inject_carrier ::
  "('d, 'b, 't) sdk \<Rightarrow> bool \<Rightarrow> string \<Rightarrow> otelc_span option \<Rightarrow> ((string \<times> string) list \<times> set_callback option) option \<Rightarrow>
   ('d, 'b, 't) world \<Rightarrow> int outcome \<times> (string \<times> string) list \<times> ('d, 'b, 't) world" where
  "otel_span_inject_carrier sdk has_propagator carrier_name span carrier w =
     (let old = (case carrier of None \<Rightarrow> [] | Some (m, _) \<Rightarrow> m) in
      case span of None \<Rightarrow> (silent, old, w)
      | Some sp \<Rightarrow> (case carrier of
            None \<Rightarrow> (raise ''Invalid carrier'', [], w)
          | Some (m, cb) \<Rightarrow> (case lock_span_handle INVALID_SPAN sp w (\<lambda>h. (Inr h, w)) of
                (Inl e, w1) \<Rightarrow> (Inl e, m, w1)
              | (Inr h, w1) \<Rightarrow>
                  if \<not> has_propagator then (raise ''Tracer propagator not configured'', m, w1)
                  else
                    let carrier_data = sdk_inject sdk (sh_span h) (sh_baggage h) [] in
                    if carrier_data = [] then (raise ''No injected data'', m, w1)
                    else
                      let (fine, w2) = try_alloc sdk w1 in
                      if \<not> fine
                      then (raisef ''Unable to allocate memory for %s carrier'' [Arg_str carrier_name], [], w2)
                      else (case copy_injected sdk cb carrier_data [] w2 of
                          (None, w3) \<Rightarrow> (raisef ''Unable to copy injected data to %s carrier'' [Arg_str carrier_name], [], w3)
                        | (Some m1, w3) \<Rightarrow> (Inr OTELC_RET_OK, m1, w3)))))"

definition otel_span_inject_text_map ::
  "('d, 'b, 't) sdk \<Rightarrow> bool \<Rightarrow> otelc_span option \<Rightarrow> ((string \<times> string) list \<times> set_callback option) option \<Rightarrow>
   ('d, 'b, 't) world \<Rightarrow> int outcome \<times> (string \<times> string) list \<times> ('d, 'b, 't) world" where
  "otel_span_inject_text_map sdk p = otel_span_inject_carrier sdk p ''text map''"

definition otel_span_inject_http_headers ::
  "('d, 'b, 't) sdk \<Rightarrow> bool \<Rightarrow> otelc_span option \<Rightarrow> ((string \<times> string) list \<times> set_callback option) option \<Rightarrow>
   ('d, 'b, 't) world \<Rightarrow> int outcome \<times> (string \<times> string) list \<times> ('d, 'b, 't) world" where
  "otel_span_inject_http_headers sdk p = otel_span_inject_carrier sdk p ''HTTP headers''"

section \<open>Creating spans and span contexts\<close>

text \<open>The id is taken after the allocation succeeded.  \<open>otel_span\<close> is not null here: its caller
  holds a tracer.\<close>

definition otel_span_new ::
  "('d, 'b, 't) sdk \<Rightarrow> ('d, 'b, 't) world \<Rightarrow> otelc_span option \<times> ('d, 'b, 't) world" where
  "otel_span_new sdk w =
     (case otel_span w of
        None \<Rightarrow> (None, w)
      | Some m \<Rightarrow>
          let (a, w1) = ext_malloc sdk w in
          if a = 0 then (None, w1\<lparr>otel_span := Some (m\<lparr>alloc_fail_cnt := alloc_fail_cnt m + 1\<rparr>)\<rparr>)
          else let (i, m1) = handle_next_id m in
            (Some \<lparr>sp_addr = a, sp_idx = i\<rparr>, w1\<lparr>otel_span := Some m1\<rparr>))"

definition otel_span_context_new ::
  "('d, 'b, 't) sdk \<Rightarrow> ('d, 'b, 't) world \<Rightarrow> otelc_span_context option \<times> ('d, 'b, 't) world" where
  "otel_span_context_new sdk w =
     (case otel_span_context w of
        None \<Rightarrow> (None, w)
      | Some m \<Rightarrow>
          let (a, w1) = ext_malloc sdk w in
          if a = 0 then (None, w1\<lparr>otel_span_context := Some (m\<lparr>alloc_fail_cnt := alloc_fail_cnt m + 1\<rparr>)\<rparr>)
          else let (i, m1) = handle_next_id m in
            (Some \<lparr>sx_addr = a, sx_idx = i\<rparr>, w1\<lparr>otel_span_context := Some m1\<rparr>))"

definition otel_nolock_span_context_destroy ::
  "otelc_span_context option \<Rightarrow> ('d, 'b, 't) world \<Rightarrow> otelc_span_context option \<times> ('d, 'b, 't) world" where
  "otel_nolock_span_context_destroy ctx w =
     (case ctx of None \<Rightarrow> (None, w)
      | Some sx \<Rightarrow> (case otel_span_context w of
            None \<Rightarrow> (None, ext_free (sx_addr sx) w)
          | Some m \<Rightarrow> (None, ext_free (sx_addr sx) (w\<lparr>otel_span_context := Some (handle_forget (sx_idx sx) m)\<rparr>))))"

definition otel_span_context_destroy ::
  "otelc_span_context option \<Rightarrow> ('d, 'b, 't) world \<Rightarrow> otelc_span_context option \<times> ('d, 'b, 't) world" where
  "otel_span_context_destroy ctx w = otel_nolock_span_context_destroy ctx w"

text \<open>The steps \<open>otelc_span_context_create\<close> and \<open>otel_span_context_add\<close> share: the C structure,
  the C++ handle, its registration under the structure's index.\<close>

definition register_span_context ::
  "('d, 'b, 't) sdk \<Rightarrow> string \<Rightarrow> ('b, 't) otel_ctx \<Rightarrow> ('d, 'b, 't) world \<Rightarrow>
   otelc_span_context outcome \<times> ('d, 'b, 't) world" where
  "register_span_context sdk new_msg c w =
     (case otel_span_context_new sdk w of
        (None, w1) \<Rightarrow> (raise new_msg, w1)
      | (Some sx, w1) \<Rightarrow>
          let (fine, w2) = try_alloc sdk w1 in
          if \<not> fine
          then (raise ''Unable to allocate memory for span context handle'', snd (otel_nolock_span_context_destroy (Some sx) w2))
          else
            let (fine, w3) = try_alloc sdk w2 in
            (case otel_span_context w3 of
               None \<Rightarrow> (silent, w3)
             | Some m \<Rightarrow> (case handle_emplace (\<not> fine) (sx_idx sx) c ''Unable to add span context: duplicate id''
                   ''Unable to add span context'' m of
                   (m1, Inl e) \<Rightarrow> (Inl (Some e), ext_free (sx_addr sx) (w3\<lparr>otel_span_context := Some m1\<rparr>))
                 | (m1, Inr _) \<Rightarrow> (Inr sx, w3\<lparr>otel_span_context := Some m1\<rparr>))))"

definition fixed_id :: "nat \<Rightarrow> 8 word list option \<Rightarrow> 8 word list" where
  "fixed_id k b = (case b of None \<Rightarrow> replicate k 0 | Some xs \<Rightarrow> if length xs \<ge> k then take k xs else replicate k 0)"

definition otelc_span_context_create ::
  "('d, 'b, 't) sdk \<Rightarrow> 8 word list option \<Rightarrow> 8 word list option \<Rightarrow> 8 word \<Rightarrow> int \<Rightarrow> string option \<Rightarrow>
   ('d, 'b, 't) world \<Rightarrow> otelc_span_context outcome \<times> ('d, 'b, 't) world" where
  "otelc_span_context_create sdk trace_id span_id trace_flags is_remote header w =
     (if otel_span_context w = None then (raise ''Unable to create span context: no active tracer'', w)
      else
        let c = \<lparr>sc_trace_id = fixed_id 16 trace_id, sc_span_id = fixed_id 8 span_id, sc_flags = trace_flags,
                 sc_remote = (is_remote \<noteq> 0),
                 sc_state = (case header of None \<Rightarrow> ts_default sdk | Some s \<Rightarrow> ts_from_header sdk s)\<rparr>;
            (fine, w1) = try_alloc sdk w in
        if \<not> fine then (raise ''Unable to allocate memory for default span'', w1)
        else
          let (fine, w2) = try_alloc sdk w1 in
          if \<not> fine then (raise ''Unable to allocate memory for span context'', w2)
          else register_span_context sdk ''Unable to allocate memory for span context handle''
                 \<lparr>cx_span = c, cx_baggage = bag_default sdk\<rparr> w2)"

section \<open>Reading a span context\<close>

text \<open>\<open>OTEL_LOCK_SPAN_CONTEXT_HANDLE\<close>: every failure is silent, a span context has no \<open>err\<close>.\<close>

definition lock_span_context_handle ::
  "otelc_span_context option \<Rightarrow> ('d, 'b, 't) world \<Rightarrow> ('t span_ctx \<Rightarrow> 'a outcome) \<Rightarrow> 'a outcome" where
  "lock_span_context_handle ctx w k =
     (case ctx of None \<Rightarrow> silent
      | Some sx \<Rightarrow> (case otel_span_context w of
            None \<Rightarrow> silent
          | Some m \<Rightarrow> (case otel_map_find m (sx_idx sx) of None \<Rightarrow> silent | Some c \<Rightarrow> k (cx_span c))))"

definition otel_span_context_get_id ::
  "('d, 'b, 't) sdk \<Rightarrow> otelc_span_context option \<Rightarrow> nat option \<Rightarrow> nat option \<Rightarrow> bool \<Rightarrow> ('d, 'b, 't) world \<Rightarrow>
   (8 word list option \<times> 8 word list option \<times> 8 word option) outcome" where
  "otel_span_context_get_id sdk ctx span_id trace_id trace_flags w =
     lock_span_context_handle ctx w (\<lambda>c.
       if \<not> ctx_is_valid sdk c then silent else Inr (copy_ids c span_id trace_id trace_flags))"

definition otel_span_context_is_valid ::
  "('d, 'b, 't) sdk \<Rightarrow> otelc_span_context option \<Rightarrow> ('d, 'b, 't) world \<Rightarrow> int outcome" where
  "otel_span_context_is_valid sdk ctx w = lock_span_context_handle ctx w (\<lambda>c. Inr (if ctx_is_valid sdk c then 1 else 0))"

definition otel_span_context_is_sampled ::
  "('d, 'b, 't) sdk \<Rightarrow> otelc_span_context option \<Rightarrow> ('d, 'b, 't) world \<Rightarrow> int outcome" where
  "otel_span_context_is_sampled sdk ctx w = lock_span_context_handle ctx w (\<lambda>c. Inr (if ctx_is_sampled sdk c then 1 else 0))"

definition otel_span_context_is_remote ::
  "otelc_span_context option \<Rightarrow> ('d, 'b, 't) world \<Rightarrow> int outcome" where
  "otel_span_context_is_remote ctx w = lock_span_context_handle ctx w (\<lambda>c. Inr (if sc_remote c then 1 else 0))"

text \<open>A text result: the length handed back and what \<open>otelc_strlcpy\<close> writes to a buffer that is given
  and not empty.\<close>

definition text_result :: "string \<Rightarrow> nat option \<Rightarrow> int \<times> string option" where
  "text_result s sz = (int (length s),
     case sz of None \<Rightarrow> None | Some n \<Rightarrow> if n = 0 then None else Some (take (n - 1) s))"

definition otel_span_context_trace_state_get ::
  "('d, 'b, 't) sdk \<Rightarrow> otelc_span_context option \<Rightarrow> string option \<Rightarrow> nat option \<Rightarrow> ('d, 'b, 't) world \<Rightarrow>
   (int \<times> string option) outcome" where
  "otel_span_context_trace_state_get sdk ctx key val_size w =
     (case key of None \<Rightarrow> silent
      | Some k \<Rightarrow> lock_span_context_handle ctx w (\<lambda>c.
          case ts_get sdk (sc_state c) k of
            None \<Rightarrow> Inr (0, None)
          | Some v \<Rightarrow> Inr (text_result v val_size)))"

text \<open>Entries that cannot be stored are skipped, and the count is of those stored.\<close>

fun add_entries ::
  "('d, 'b, 't) sdk \<Rightarrow> (string \<times> string) list \<Rightarrow> int \<times> (string \<times> string) list \<times> ('d, 'b, 't) world \<Rightarrow>
   int \<times> (string \<times> string) list \<times> ('d, 'b, 't) world" where
  "add_entries sdk [] r = r"
| "add_entries sdk ((k, v) # es) (n, m, w) =
     (case entries_add sdk m k v w of
        (None, w1) \<Rightarrow> add_entries sdk es (n, m, w1)
      | (Some m1, w1) \<Rightarrow> add_entries sdk es (n + 1, m1, w1))"

definition otel_span_context_trace_state_entries ::
  "('d, 'b, 't) sdk \<Rightarrow> otelc_span_context option \<Rightarrow> (string \<times> string) list option \<Rightarrow> ('d, 'b, 't) world \<Rightarrow>
   (int \<times> (string \<times> string) list \<times> ('d, 'b, 't) world) outcome" where
  "otel_span_context_trace_state_entries sdk ctx text_map w =
     (case text_map of None \<Rightarrow> silent
      | Some m \<Rightarrow> lock_span_context_handle ctx w (\<lambda>c. Inr (add_entries sdk (ts_entries sdk (sc_state c)) (0, m, w))))"

definition otel_span_context_trace_state_header ::
  "('d, 'b, 't) sdk \<Rightarrow> otelc_span_context option \<Rightarrow> nat option \<Rightarrow> ('d, 'b, 't) world \<Rightarrow> (int \<times> string option) outcome" where
  "otel_span_context_trace_state_header sdk ctx header_size w =
     lock_span_context_handle ctx w (\<lambda>c. Inr (text_result (ts_header sdk (sc_state c)) header_size))"

definition otel_span_context_trace_state_empty ::
  "('d, 'b, 't) sdk \<Rightarrow> otelc_span_context option \<Rightarrow> ('d, 'b, 't) world \<Rightarrow> int outcome" where
  "otel_span_context_trace_state_empty sdk ctx w =
     lock_span_context_handle ctx w (\<lambda>c. Inr (if ts_empty sdk (sc_state c) then 1 else 0))"

definition otel_span_context_trace_state_set ::
  "('d, 'b, 't) sdk \<Rightarrow> otelc_span_context option \<Rightarrow> string option \<Rightarrow> string option \<Rightarrow> nat option \<Rightarrow> ('d, 'b, 't) world \<Rightarrow>
   (int \<times> string option) outcome" where
  "otel_span_context_trace_state_set sdk ctx key val header_size w =
     (if key = None \<or> val = None then silent
      else lock_span_context_handle ctx w (\<lambda>c.
        Inr (text_result (ts_header sdk (ts_set sdk (sc_state c) (c_str key) (c_str val))) header_size)))"

definition otel_span_context_trace_state_delete ::
  "('d, 'b, 't) sdk \<Rightarrow> otelc_span_context option \<Rightarrow> string option \<Rightarrow> nat option \<Rightarrow> ('d, 'b, 't) world \<Rightarrow>
   (int \<times> string option) outcome" where
  "otel_span_context_trace_state_delete sdk ctx key header_size w =
     (if key = None then silent
      else lock_span_context_handle ctx w (\<lambda>c.
        Inr (text_result (ts_header sdk (ts_delete sdk (sc_state c) (c_str key))) header_size)))"

end
