(* ===== verification/Otel_SpanLaws.thy ===== *)
theory Otel_SpanLaws
  imports Otel_Span
begin

text \<open>
  What the span operations guarantee: the store of span handles and its well-formedness, the
  effect of the operations on stale and on live handles, baggage, and the discarding of data by a
  span that is not recording.
\<close>

section \<open>The stores\<close>

definition span_at :: "('d, 'b, 't) world \<Rightarrow> int64 \<Rightarrow> 'b span_handle option" where
  "span_at w i = (case otel_span w of None \<Rightarrow> None | Some m \<Rightarrow> otel_map_find m i)"

definition context_at :: "('d, 'b, 't) world \<Rightarrow> int64 \<Rightarrow> ('b, 't) otel_ctx option" where
  "context_at w i = (case otel_span_context w of None \<Rightarrow> None | Some m \<Rightarrow> otel_map_find m i)"

text \<open>Both maps are partitioned, and every id in use is below the map's id generator.\<close>

definition store_ok :: "'a otel_handle option \<Rightarrow> bool" where
  "store_ok m \<longleftrightarrow> (\<forall>h. m = Some h \<longrightarrow> handle_inv h \<and> hm.below h (hid h))"

definition world_ok :: "('d, 'b, 't) world \<Rightarrow> bool" where
  "world_ok w \<longleftrightarrow> store_ok (otel_span w) \<and> store_ok (otel_span_context w)"

lemma below_cong:
  assumes "shards h' = shards h"
  shows "hm.below h' n = hm.below h n"
  unfolding hm.below_def using otel_map_find_cong [OF assms] by metis

lemma store_okD: "store_ok (Some h) \<Longrightarrow> handle_inv h \<and> hm.below h (hid h)"
  by (simp add: store_ok_def)

lemma store_ok_counters:
  "store_ok (Some h) \<Longrightarrow> shards h' = shards h \<Longrightarrow> hid h' = hid h \<Longrightarrow> store_ok (Some h')"
  using handle_inv_cong below_cong by (metis option.inject store_ok_def)

lemma handle_erase_hid [simp]: "hid (handle_erase i m) = hid m"
  by (simp add: handle_erase_def handle_simps)

lemma forget_find:
  assumes "handle_inv m"
  shows "otel_map_find (handle_forget i m) = (otel_map_find m)(i := None)"
proof (cases "otel_map_find m i")
  case None
  then have "(otel_map_find m)(i := None) = otel_map_find m" by auto
  moreover have "otel_map_find (handle_forget i m) = otel_map_find m"
    using None by (auto simp: handle_forget_def Let_def intro: otel_map_find_cong)
  ultimately show ?thesis by simp
next
  case (Some h)
  then have "otel_map_find (handle_forget i m) = otel_map_find (handle_erase i m)"
    by (auto simp: handle_forget_def Let_def intro: otel_map_find_cong)
  then show ?thesis by (simp add: handle_map_erase [OF assms])
qed

lemma forget_hid [simp]: "hid (handle_forget i m) = hid m"
  by (simp add: handle_forget_def Let_def split: option.split)

lemma store_ok_forget:
  assumes "store_ok (Some m)"
  shows "store_ok (Some (handle_forget i m))"
proof (cases "otel_map_find m i")
  case None
  then show ?thesis
    by (intro store_ok_counters [OF assms]) (simp_all add: handle_forget_def Let_def)
next
  case (Some h)
  note m = store_okD [OF assms]
  have "store_ok (Some (handle_erase i m))"
    using handle_inv_erase [OF conjunct1 [OF m]] hm.below_erase [OF conjunct1 [OF m] conjunct2 [OF m]]
    by (simp add: store_ok_def)
  then show ?thesis
    by (rule store_ok_counters) (simp_all add: handle_forget_def Let_def Some)
qed

text \<open>Replacing the handle of an id in use.\<close>

lemma put_find:
  assumes "handle_inv m"
  shows "otel_map_find (put_handle i h m) = (otel_map_find m)(i \<mapsto> h)"
proof
  fix j
  show "otel_map_find (put_handle i h m) j = ((otel_map_find m)(i \<mapsto> h)) j"
    unfolding put_handle_def otel_map_find_set_shard [OF assms]
    by (simp add: update_conv' otel_map_find_def get_shard_def)
qed

lemma put_hid [simp]: "hid (put_handle i h m) = hid m"
  by (simp add: put_handle_def handle_simps)

lemma store_ok_put:
  assumes "store_ok (Some m)" "otel_map_find m i \<noteq> None"
  shows "store_ok (Some (put_handle i h m))"
proof -
  note m = store_okD [OF assms(1)]
  have "handle_inv (put_handle i h m)"
    unfolding put_handle_def
    using m handle_inv_distinct [of m] get_shard_keys [of m] get_shard_index_cong
    by (intro handle_inv_set_shard) (auto simp: distinct_update dom_update)
  moreover have "hm.below (put_handle i h m) (hid m)"
    using m assms(2) put_find [of m] unfolding hm.below_def by (auto split: if_splits)
  ultimately show ?thesis by (simp add: store_ok_def)
qed

section \<open>Locking a handle\<close>

lemma lock_span_handle_live:
  "span_at w (sp_idx sp) = Some h \<Longrightarrow> lock_span_handle msg sp w k = k h"
  by (auto simp: span_at_def lock_span_handle_def split: option.splits)

lemma lock_span_handle_stale:
  "span_at w (sp_idx sp) = None \<Longrightarrow> \<exists>e. lock_span_handle msg sp w k = (Inl e, w)"
  by (auto simp: span_at_def lock_span_handle_def split: option.splits)

section \<open>The operations table\<close>

text \<open>\<open>struct otelc_span_ops\<close>: one constructor per entry that takes a span and may fail, with its
  arguments; \<open>run_span_op\<close> is the call through the table.  The result is the error or a success,
  and the new world; \<open>None\<close> is undefined behaviour.\<close>

datatype ('d) span_op =
    Op_get_id "nat option" "nat option" bool
  | Op_is_recording
  | Op_set_operation_name "string option"
  | Op_set_baggage_var "string option" "string option" "(string \<times> string option) list"
  | Op_set_baggage_kv_var "'d ckv list"
  | Op_set_baggage_kv_n "'d ckv list option" size_t
  | Op_set_baggage "string option" "string option"
  | Op_get_baggage "string option"
  | Op_get_baggage_var "string option" "string list"
  | Op_set_attribute_var "string option" "'d cvalue option" "(string \<times> 'd cvalue option) list"
  | Op_set_attribute_kv_var "'d ckv list"
  | Op_set_attribute_kv_n "'d ckv list option" size_t
  | Op_add_event_var "string option" "timespec option" "string option" "'d cvalue option" "(string \<times> 'd cvalue option) list"
  | Op_add_event_kv_var "string option" "timespec option" "'d ckv list"
  | Op_add_event_kv_n "string option" "timespec option" "'d ckv list option" size_t
  | Op_add_link "otelc_span option" "otelc_span_context option" "'d ckv list"
  | Op_set_status int "string option"
  | Op_record_exception "string option" "string option" "string option" "timespec option" "'d ckv list"
  | Op_inject_text_map bool "((string \<times> string) list \<times> set_callback option) option"
  | Op_inject_http_headers bool "((string \<times> string) list \<times> set_callback option) option"

fun forget_value :: "'a outcome \<times> ('d, 'b, 't) world \<Rightarrow> unit outcome \<times> ('d, 'b, 't) world" where
  "forget_value (Inl e, w) = (Inl e, w)"
| "forget_value (Inr _, w) = (Inr (), w)"

fun run_span_op ::
  "('d, 'b, 't) sdk \<Rightarrow> 'd span_op \<Rightarrow> otelc_span option \<Rightarrow> ('d, 'b, 't) world \<Rightarrow>
   (unit outcome \<times> ('d, 'b, 't) world) option" where
  "run_span_op sdk (Op_get_id a b c) sp w = Some (forget_value (otel_span_get_id sdk sp a b c w))"
| "run_span_op sdk Op_is_recording sp w = Some (forget_value (otel_span_is_recording sdk sp w))"
| "run_span_op sdk (Op_set_operation_name n) sp w = Some (forget_value (otel_span_set_operation_name sdk sp n w))"
| "run_span_op sdk (Op_set_baggage_var k v a) sp w = Some (forget_value (otel_span_set_baggage_var sdk sp k v a w))"
| "run_span_op sdk (Op_set_baggage_kv_var kvs) sp w = Some (forget_value (otel_span_set_baggage_kv_var sdk sp kvs w))"
| "run_span_op sdk (Op_set_baggage_kv_n kv n) sp w = Some (forget_value (otel_span_set_baggage_kv_n sdk sp kv n w))"
| "run_span_op sdk (Op_set_baggage k v) sp w = Some (forget_value (otel_span_set_baggage sdk sp k v w))"
| "run_span_op sdk (Op_get_baggage k) sp w = Some (forget_value (otel_span_get_baggage sdk sp k w))"
| "run_span_op sdk (Op_get_baggage_var k ks) sp w = Some (forget_value (otel_span_get_baggage_var sdk sp k ks w))"
| "run_span_op sdk (Op_set_attribute_var k v a) sp w = Some (forget_value (otel_span_set_attribute_var sdk sp k v a w))"
| "run_span_op sdk (Op_set_attribute_kv_var kvs) sp w = Some (forget_value (otel_span_set_attribute_kv_var sdk sp kvs w))"
| "run_span_op sdk (Op_set_attribute_kv_n kv n) sp w = Some (forget_value (otel_span_set_attribute_kv_n sdk sp kv n w))"
| "run_span_op sdk (Op_add_event_var nm ts k v a) sp w = Some (forget_value (otel_span_add_event_var sdk sp nm ts k v a w))"
| "run_span_op sdk (Op_add_event_kv_var nm ts kvs) sp w = Some (forget_value (otel_span_add_event_kv_var sdk sp nm ts kvs w))"
| "run_span_op sdk (Op_add_event_kv_n nm ts kv n) sp w = Some (forget_value (otel_span_add_event_kv_n sdk sp nm ts kv n w))"
| "run_span_op sdk (Op_add_link ls lc kvs) sp w = map_option forget_value (otel_span_add_link sdk sp ls lc kvs w)"
| "run_span_op sdk (Op_set_status st d) sp w = Some (forget_value (otel_span_set_status sdk sp st d w))"
| "run_span_op sdk (Op_record_exception ty m st ts kvs) sp w =
     map_option forget_value (otel_span_record_exception sdk sp ty m st ts kvs w)"
| "run_span_op sdk (Op_inject_text_map p c) sp w =
     (case otel_span_inject_text_map sdk p sp c w of (r, _, w1) \<Rightarrow> Some (forget_value (r, w1)))"
| "run_span_op sdk (Op_inject_http_headers p c) sp w =
     (case otel_span_inject_http_headers sdk p sp c w of (r, _, w1) \<Rightarrow> Some (forget_value (r, w1)))"

text \<open>Two worlds with the same handle maps, structures and calls; they may differ in the number of
  allocations tried.\<close>

definition same_world :: "('d, 'b, 't) world \<Rightarrow> ('d, 'b, 't) world \<Rightarrow> bool" where
  "same_world w w' \<longleftrightarrow> (\<exists>n. w' = w\<lparr>tried := n\<rparr>)"

lemma same_world_refl [simp]: "same_world w w"
  unfolding same_world_def by (intro exI [of _ "tried w"]) simp

lemma same_world_trans: "same_world a b \<Longrightarrow> same_world b c \<Longrightarrow> same_world a c"
  by (auto simp: same_world_def)

lemma same_world_at:
  assumes "same_world w w'"
  shows "span_at w' i = span_at w i" "context_at w' i = context_at w i" "calls w' = calls w"
    "live w' = live w" "world_ok w' = world_ok w" "otel_span w' = otel_span w"
    "otel_span_context w' = otel_span_context w"
  using assms by (auto simp: same_world_def span_at_def context_at_def world_ok_def)

lemma same_world_tried [simp]: "same_world w (w\<lparr>tried := n\<rparr>)"
  by (auto simp: same_world_def)

lemma try_alloc_same: "try_alloc sdk w = (b, w') \<Longrightarrow> same_world w w'"
  by (auto simp: try_alloc_def)

lemma value_add_same: "value_add sdk msg attr k v w = Some (r, w') \<Longrightarrow> same_world w w'"
  by (auto simp: value_add_def Let_def try_alloc_def split: if_splits option.splits)

lemma value_add_all_same: "value_add_all sdk msg attr kvs w = Some (r, w') \<Longrightarrow> same_world w w'"
  by (induction sdk msg attr kvs w rule: value_add_all.induct)
    (auto split: option.splits sum.splits prod.splits dest!: value_add_same intro: same_world_trans)

lemma add_one_event_same: "otel_span_add_one_event sdk attr k v w = (r, w') \<Longrightarrow> same_world w w'"
  by (auto simp: otel_span_add_one_event_def split: option.splits dest: value_add_same)

lemma add_event_loop_same: "add_event_loop sdk b attr args n w = (r, w') \<Longrightarrow> same_world w w'"
proof (induction sdk b attr args n w rule: add_event_loop.induct)
  case (2 sdk b attr k v args n w)
  show ?case
  proof (cases b)
    case True
    obtain r1 w1 where one: "otel_span_add_one_event sdk attr k v w = (r1, w1)" by fastforce
    then show ?thesis
      using 2(1)[OF True one [symmetric]] 2(3) True add_one_event_same [OF one]
      by (cases r1) (auto intro: same_world_trans)
  qed (use 2 in auto)
qed auto

lemma entries_add_same: "entries_add sdk m k v w = (r, w') \<Longrightarrow> same_world w w'"
  by (auto simp: entries_add_def Let_def try_alloc_def)

lemma get_baggage_loop_same: "get_baggage_loop sdk bag ks m w = (r, w') \<Longrightarrow> same_world w w'"
proof (induction sdk bag ks m w rule: get_baggage_loop.induct)
  case (2 sdk bag k ks m w)
  show ?case
  proof (cases "bag_get sdk bag k")
    case (Some v)
    obtain r1 w1 where e: "entries_add sdk m k v w = (r1, w1)" by fastforce
    then show ?thesis
      using 2 Some entries_add_same [OF e] by (cases r1) (auto intro: same_world_trans)
  qed (use 2 in auto)
qed auto

lemma copy_injected_same: "copy_injected sdk cb data m w = (r, w') \<Longrightarrow> same_world w w'"
proof (induction sdk cb data m w rule: copy_injected.induct)
  case (2 sdk cb k v data m w)
  show ?case
  proof (cases cb)
    case None
    obtain r1 w1 where e: "entries_add sdk m k v w = (r1, w1)" by fastforce
    then show ?thesis
      using 2 None entries_add_same [OF e] by (cases r1) (auto intro: same_world_trans)
  next
    case (Some put)
    then show ?thesis using 2 by (auto split: prod.splits if_splits)
  qed
qed auto

section \<open>The frame of an operation\<close>

fun call_span :: "('d, 'b, 't) sdk_call \<Rightarrow> nat option" where
  "call_span (SetStatus s _ _) = Some s"
| "call_span (UpdateName s _) = Some s"
| "call_span (SetAttribute s _ _) = Some s"
| "call_span (AddEvent s _ _ _) = Some s"
| "call_span (AddLink s _ _) = Some s"
| "call_span (End s _) = Some s"
| "call_span (StartSpan s _ _ _) = Some s"
| "call_span _ = None"

text \<open>\<open>span_frame i w w'\<close>: only the baggage of span \<open>i\<close> may differ, and all new calls go to its SDK
  span.\<close>

definition span_frame :: "int64 \<Rightarrow> ('d, 'b, 't) world \<Rightarrow> ('d, 'b, 't) world \<Rightarrow> bool" where
  "span_frame i w w' \<longleftrightarrow>
     world_ok w' \<and> live w' = live w \<and> otel_span_context w' = otel_span_context w \<and>
     map_option hid (otel_span w') = map_option hid (otel_span w) \<and>
     (\<forall>j. j \<noteq> i \<longrightarrow> span_at w' j = span_at w j) \<and>
     map_option sh_span (span_at w' i) = map_option sh_span (span_at w i) \<and>
     (\<exists>new. calls w' = new @ calls w \<and> (\<forall>c \<in> set new. call_span c = map_option sh_span (span_at w i) \<and> call_span c \<noteq> None))"

lemma span_frame_refl: "world_ok w \<Longrightarrow> span_frame i w w"
  by (simp add: span_frame_def)

lemma span_frame_trans:
  assumes "span_frame i a b" "span_frame i b c"
  shows "span_frame i a c"
proof -
  obtain n1 n2 where "calls b = n1 @ calls a" "\<forall>x \<in> set n1. call_span x = map_option sh_span (span_at a i) \<and> call_span x \<noteq> None"
    and "calls c = n2 @ calls b" "\<forall>x \<in> set n2. call_span x = map_option sh_span (span_at b i) \<and> call_span x \<noteq> None"
    using assms unfolding span_frame_def by blast
  then have "calls c = (n2 @ n1) @ calls a \<and>
      (\<forall>x \<in> set (n2 @ n1). call_span x = map_option sh_span (span_at a i) \<and> call_span x \<noteq> None)"
    using assms unfolding span_frame_def by auto
  then show ?thesis using assms unfolding span_frame_def by metis
qed

lemma span_frame_same: "world_ok w \<Longrightarrow> same_world w w' \<Longrightarrow> span_frame i w w'"
  using same_world_at [of w w'] by (simp add: span_frame_def)

lemma span_frame_call:
  assumes "world_ok w" "span_at w i = Some h" "call_span c = Some (sh_span h)"
  shows "span_frame i w (call c w)"
  using assms by (simp add: span_frame_def world_ok_def span_at_def)

lemma span_frame_update:
  assumes "world_ok w" "span_at w (sp_idx sp) = Some h"
  shows "span_frame (sp_idx sp) w (snd (span_update_baggage sp h bag n w))"
proof (cases "n \<le> 0")
  case True
  then show ?thesis using span_frame_refl [OF assms(1)] by (simp add: span_update_baggage_def)
next
  case False
  from assms(2) obtain m where m: "otel_span w = Some m" "otel_map_find m (sp_idx sp) = Some h"
    by (auto simp: span_at_def split: option.splits)
  have inv: "store_ok (Some m)" using assms(1) m by (simp add: world_ok_def)
  then have "handle_inv m" using store_okD by blast
  then show ?thesis
    using store_ok_put [OF inv] m False assms(1)
    by (simp add: span_frame_def span_update_baggage_def span_at_def world_ok_def put_find)
qed

lemma set_attribute_loop_frame:
  assumes "world_ok w" "span_at w i = Some h" "set_attribute_loop (sh_span h) b args n w = (r, w')"
  shows "span_frame i w w'"
  using assms
proof (induction args arbitrary: n w)
  case Nil
  then show ?case by (simp add: span_frame_refl)
next
  case (Cons a args)
  obtain k v where a: "a = (k, v)" by (cases a)
  obtain r1 w1 where one: "otel_span_set_one_attribute (sh_span h) k v w = (r1, w1)" by fastforce
  have f: "span_frame i w w1"
    using one span_frame_call [OF Cons.prems(1,2)] span_frame_refl [OF Cons.prems(1)]
    by (auto simp: otel_span_set_one_attribute_def split: option.splits if_splits)
  moreover have "span_at w1 i = Some h"
    using one Cons.prems(2) by (auto simp: otel_span_set_one_attribute_def span_at_def call_def split: option.splits if_splits)
  moreover have "world_ok w1" using f by (simp add: span_frame_def)
  ultimately show ?case
    using Cons one a span_frame_trans [OF f] by (cases b; cases r1) auto
qed

text \<open>How the locked part of an operation is reached.\<close>

lemma lock_cases:
  assumes "lock_span_handle msg sp w k = (r, w')"
  obtains (stale) e where "span_at w (sp_idx sp) = None" "r = Inl e" "w' = w"
    | (live) h where "span_at w (sp_idx sp) = Some h" "k h = (r, w')"
  using assms by (cases "span_at w (sp_idx sp)") (auto simp: lock_span_handle_def span_at_def split: option.splits)

lemma lock_frame:
  assumes "world_ok w" "lock_span_handle msg sp w k = (r, w')"
    and "\<And>h. span_at w (sp_idx sp) = Some h \<Longrightarrow> k h = (r, w') \<Longrightarrow> span_frame (sp_idx sp) w w'"
  shows "span_frame (sp_idx sp) w w'"
  using assms(2)
proof (cases rule: lock_cases)
  case stale
  then show ?thesis using span_frame_refl [OF assms(1)] by simp
next
  case live
  then show ?thesis using assms(3) by blast
qed

lemma finish_event_frame:
  assumes "world_ok w" "span_at w i = Some h" "finish_event b (sh_span h) nm ts (add_event_loop sdk b [] args n w0) = (r, w')"
    "same_world w w0"
  shows "span_frame i w w'"
proof -
  obtain r1 w1 where loop: "add_event_loop sdk b [] args n w0 = (r1, w1)" by fastforce
  have same: "same_world w w1" using same_world_trans [OF assms(4) add_event_loop_same [OF loop]] .
  note at = same_world_at [OF same]
  show ?thesis
    using assms(3) loop span_frame_same [OF assms(1) same]
      span_frame_trans [OF span_frame_same [OF assms(1) same] span_frame_call [of w1 i h]] at assms(1,2)
    by (cases r1) (auto simp: finish_event_def split: if_splits)
qed

lemma record_exception_frame:
  assumes "world_ok w" "otel_span_record_exception sdk (Some sp) ty m st ts kvs w = Some (r, w')"
  shows "span_frame (sp_idx sp) w w'"
proof (cases "span_at w (sp_idx sp)")
  case None
  then show ?thesis
    using assms span_frame_refl [OF assms(1)]
    by (auto simp: otel_span_record_exception_def span_at_def split: option.splits if_splits)
next
  case (Some h)
  then obtain mp where mp: "otel_span w = Some mp" "otel_map_find mp (sp_idx sp) = Some h"
    by (auto simp: span_at_def split: option.splits)
  have ex: "same_world w0 w1" if "exception_attr sdk msg k t (a, w0) = (r1, w1)" for msg k t a r1 w0 w1
    using that by (auto simp: exception_attr_def Let_def try_alloc_def split: sum.splits if_splits)
  obtain a1 w1 where 1: "exception_attr sdk ''Unable to add exception type'' ''exception.type'' ty (Inr [], w) = (a1, w1)" by fastforce
  obtain a2 w2 where 2: "exception_attr sdk ''Unable to add exception message'' ''exception.message'' m (a1, w1) = (a2, w2)" by fastforce
  obtain a3 w3 where 3: "exception_attr sdk ''Unable to add exception stacktrace'' ''exception.stacktrace'' st (a2, w2) = (a3, w3)" by fastforce
  have s3: "same_world w w3" using ex [OF 1] ex [OF 2] ex [OF 3] same_world_trans by blast
  note fr = span_frame_same [OF assms(1)]
  consider "r = Inr OTELC_RET_OK" "w' = w" | e where "r = Inl e" "w' = w" | e where "r = Inl e" "w' = w3"
    | attr w4 rr where "value_add_all sdk ''Unable to add exception attribute'' attr kvs w3 = Some (rr, w4)"
        "w' = w4"
    | attr w4 rr x where "value_add_all sdk ''Unable to add exception attribute'' attr kvs w3 = Some (rr, w4)"
        "w' = call (AddEvent (sh_span h) ''exception'' (event_time ts) x) w4"
    using assms(2) mp 1 2 3
    by (auto simp: otel_span_record_exception_def split: if_splits sum.splits option.splits prod.splits)
  then show ?thesis
  proof cases
    case 4
    then show ?thesis using fr value_add_all_same s3 same_world_trans by blast
  next
    case 5
    then have s4: "same_world w w4" using value_add_all_same s3 same_world_trans by blast
    then show ?thesis
      using 5(2) fr [OF s4] Some same_world_at [OF s4] assms(1)
        span_frame_trans [OF fr [OF s4] span_frame_call [of w4 _ h]] by auto
  qed (use fr s3 span_frame_refl [OF assms(1)] in auto)
qed

lemma add_link_frame:
  assumes "world_ok w" "otel_span_add_link sdk (Some sp) ls lc kvs w = Some (r, w')"
  shows "span_frame (sp_idx sp) w w'"
proof -
  obtain fine w0 where al: "(if kvs = [] then (True, w) else try_alloc sdk w) = (fine, w0)" by fastforce
  then have s0: "same_world w w0" by (auto split: if_splits dest: try_alloc_same)
  note fr = span_frame_same [OF assms(1)]
  consider "w' = w" | "w' = w0"
    | rr w1 where "value_add_all sdk ''Unable to add link'' [] kvs w0 = Some (rr, w1)" "w' = w1"
    | rr w1 t where "value_add_all sdk ''Unable to add link'' [] kvs w0 = Some (Inr rr, w1)"
        "lock_span_handle INVALID_SPAN sp w1 (\<lambda>h. (Inr OTELC_RET_OK, call (AddLink (sh_span h) t rr) w1)) = (r, w')"
    using assms(2) al
    by (auto simp: otel_span_add_link_def Let_def split: if_splits sum.splits option.splits prod.splits)
  then show ?thesis
  proof cases
    case (4 rr w1 t)
    have s1: "same_world w w1" using value_add_all_same [OF 4(1)] s0 same_world_trans by blast
    have ok1: "world_ok w1" using same_world_at [OF s1] assms(1) by simp
    have "span_frame (sp_idx sp) w1 w'"
      by (rule lock_frame [OF ok1 4(2)]) (auto intro: span_frame_call [OF ok1])
    then show ?thesis using span_frame_trans [OF fr [OF s1]] by blast
  qed (use fr s0 same_world_trans value_add_all_same span_frame_refl [OF assms(1)] in blast)+
qed

lemma inject_frame:
  assumes "world_ok w" "otel_span_inject_carrier sdk p nm (Some sp) c w = (r, m, w')"
  shows "span_frame (sp_idx sp) w w'"
proof -
  have "same_world w w'"
  proof (cases c)
    case (Some mc)
    obtain m0 cb where mc: "mc = (m0, cb)" by (cases mc)
    show ?thesis
    proof (cases "span_at w (sp_idx sp)")
      case None
      then show ?thesis
        using assms(2) Some mc lock_span_handle_stale [OF None, of INVALID_SPAN "\<lambda>h. (Inr h, w)"]
        by (auto simp: otel_span_inject_carrier_def)
    next
      case (Some h)
      obtain fine w2 where al: "try_alloc sdk w = (fine, w2)" by fastforce
      obtain rr w3 where cp: "copy_injected sdk cb (sdk_inject sdk (sh_span h) (sh_baggage h) []) [] w2 = (rr, w3)"
        by fastforce
      have "same_world w w2" "same_world w w3"
        using try_alloc_same [OF al] copy_injected_same [OF cp] same_world_trans by blast+
      then show ?thesis
        using assms(2) \<open>c = Some mc\<close> mc lock_span_handle_live [OF Some, of INVALID_SPAN "\<lambda>h. (Inr h, w)"] al cp
        by (auto simp: otel_span_inject_carrier_def Let_def split: if_splits option.splits)
    qed
  qed (use assms(2) in \<open>auto simp: otel_span_inject_carrier_def\<close>)
  then show ?thesis by (rule span_frame_same [OF assms(1)])
qed

lemma forget_value_snd: "forget_value x = (r, w') \<Longrightarrow> \<exists>v. x = (v, w') \<and> (\<forall>e. v = Inl e \<longrightarrow> r = Inl e) \<and> (\<forall>y. v = Inr y \<longrightarrow> r = Inr ())"
  by (cases x rule: forget_value.cases) auto

lemma lock_frame_elim:
  "lock_span_handle msg sp w k = (r, w') \<Longrightarrow> world_ok w \<Longrightarrow>
   (\<And>h. span_at w (sp_idx sp) = Some h \<Longrightarrow> k h = (r, w') \<Longrightarrow> span_frame (sp_idx sp) w w') \<Longrightarrow>
   span_frame (sp_idx sp) w w'"
  by (rule lock_frame)

lemma update_baggage_frame_elim:
  "span_update_baggage sp h bag n w = (r, w') \<Longrightarrow> world_ok w \<Longrightarrow> span_at w (sp_idx sp) = Some h \<Longrightarrow>
   span_frame (sp_idx sp) w w'"
  using span_frame_update [of w sp h bag n] by simp

lemma baggage_ops_frame:
  assumes "world_ok w"
  shows "otel_span_set_baggage_var sdk (Some sp) k v a w = (r, w') \<Longrightarrow> span_frame (sp_idx sp) w w'"
    and "otel_span_set_baggage_kv_var sdk (Some sp) kvs w = (r, w') \<Longrightarrow> span_frame (sp_idx sp) w w'"
    and "otel_span_set_baggage_kv_n sdk (Some sp) kv n w = (r, w') \<Longrightarrow> span_frame (sp_idx sp) w w'"
    and "otel_span_set_baggage sdk (Some sp) k v w = (r, w') \<Longrightarrow> span_frame (sp_idx sp) w w'"
  using assms
  by (auto simp: otel_span_set_baggage_var_def otel_span_set_baggage_kv_var_def otel_span_set_baggage_kv_n_def
      otel_span_set_baggage_def span_frame_refl
      split: if_splits option.splits sum.splits prod.splits elim!: lock_frame_elim elim: update_baggage_frame_elim)

lemma attribute_ops_frame:
  assumes "world_ok w"
  shows "otel_span_set_attribute_var sdk (Some sp) k v a w = (r, w') \<Longrightarrow> span_frame (sp_idx sp) w w'"
    and "otel_span_set_attribute_kv_var sdk (Some sp) kvs w = (r, w') \<Longrightarrow> span_frame (sp_idx sp) w w'"
    and "otel_span_set_attribute_kv_n sdk (Some sp) kv n w = (r, w') \<Longrightarrow> span_frame (sp_idx sp) w w'"
  using assms
  by (auto simp: otel_span_set_attribute_var_def otel_span_set_attribute_kv_var_def otel_span_set_attribute_kv_n_def
      span_frame_refl split: if_splits option.splits elim!: lock_frame_elim intro: set_attribute_loop_frame
      simp del: set_attribute_loop.simps var_pairs.simps)

lemma event_ops_frame:
  assumes "world_ok w"
  shows "otel_span_add_event_var sdk (Some sp) nm ts k v a w = (r, w') \<Longrightarrow> span_frame (sp_idx sp) w w'"
    and "otel_span_add_event_kv_var sdk (Some sp) nm ts kvs w = (r, w') \<Longrightarrow> span_frame (sp_idx sp) w w'"
    and "otel_span_add_event_kv_n sdk (Some sp) nm ts kv n w = (r, w') \<Longrightarrow> span_frame (sp_idx sp) w w'"
proof -
  note fin = finish_event_frame [OF assms]
  have now: "span_frame (sp_idx sp) w w'" if "span_at w (sp_idx sp) = Some h"
      "finish_event b (sh_span h) m ts (add_event_loop sdk b [] args n w) = (r, w')" for h b m args n
    using fin [OF that] by simp
  show "otel_span_add_event_var sdk (Some sp) nm ts k v a w = (r, w') \<Longrightarrow> span_frame (sp_idx sp) w w'"
    using assms
    by (auto simp: otel_span_add_event_var_def Let_def span_frame_refl split: if_splits option.splits
        elim!: lock_frame_elim intro: now simp del: add_event_loop.simps var_pairs.simps)
  show "otel_span_add_event_kv_var sdk (Some sp) nm ts kvs w = (r, w') \<Longrightarrow> span_frame (sp_idx sp) w w'"
    using assms
    by (auto simp: otel_span_add_event_kv_var_def Let_def span_frame_refl split: if_splits option.splits
        elim!: lock_frame_elim intro: now simp del: add_event_loop.simps)
  show "otel_span_add_event_kv_n sdk (Some sp) nm ts kv n w = (r, w') \<Longrightarrow> span_frame (sp_idx sp) w w'"
  proof -
    obtain fine w1 where al: "try_alloc sdk w = (fine, w1)" by fastforce
    show "otel_span_add_event_kv_n sdk (Some sp) nm ts kv n w = (r, w') \<Longrightarrow> span_frame (sp_idx sp) w w'"
      using assms al fin [OF _ _ try_alloc_same [OF al]] span_frame_same [OF assms try_alloc_same [OF al]]
      by (auto simp: otel_span_add_event_kv_n_def Let_def span_frame_refl split: if_splits option.splits
          elim!: lock_frame_elim simp del: add_event_loop.simps)
  qed
qed

lemma get_baggage_frame:
  assumes "world_ok w"
  shows "otel_span_get_baggage sdk (Some sp) k w = (r, w') \<Longrightarrow> span_frame (sp_idx sp) w w'"
    and "otel_span_get_baggage_var sdk (Some sp) k ks w = (r2, w') \<Longrightarrow> span_frame (sp_idx sp) w w'"
proof -
  obtain fine w1 where al: "try_alloc sdk w = (fine, w1)" by fastforce
  note f1 = span_frame_same [OF assms try_alloc_same [OF al]]
  have ok1: "world_ok w1" using f1 by (simp add: span_frame_def)
  show "otel_span_get_baggage sdk (Some sp) k w = (r, w') \<Longrightarrow> span_frame (sp_idx sp) w w'"
    using assms al f1
    by (auto simp: otel_span_get_baggage_def Let_def span_frame_refl split: if_splits option.splits
        elim!: lock_frame_elim)
  have "span_frame (sp_idx sp) w1 w'" if "lock_span_handle INVALID_SPAN sp w1 (\<lambda>h.
              case get_baggage_loop sdk (span_baggage sdk h) (c_str k # ks) [] w1 of
                (None, w2) \<Rightarrow> (raise ''Unable to copy baggage data to text map'', w2)
              | (Some m, w2) \<Rightarrow> (Inr m, w2)) = (r2, w')"
    using that
  proof (rule lock_frame [OF ok1])
    fix h
    obtain x w2 where l: "get_baggage_loop sdk (span_baggage sdk h) (c_str k # ks) [] w1 = (x, w2)" by fastforce
    assume "(case get_baggage_loop sdk (span_baggage sdk h) (c_str k # ks) [] w1 of
                (None, w2) \<Rightarrow> (raise ''Unable to copy baggage data to text map'', w2)
              | (Some m, w2) \<Rightarrow> (Inr m, w2)) = (r2, w')"
    then have "w' = w2" unfolding l by (cases x) auto
    then show "span_frame (sp_idx sp) w1 w'"
      using span_frame_same [OF ok1 get_baggage_loop_same [OF l]] by simp
  qed
  then show "otel_span_get_baggage_var sdk (Some sp) k ks w = (r2, w') \<Longrightarrow> span_frame (sp_idx sp) w w'"
    using assms al f1 span_frame_trans [OF f1]
    by (auto simp: otel_span_get_baggage_var_def Let_def span_frame_refl split: if_splits simp del: get_baggage_loop.simps)
qed

lemma simple_ops_frame:
  assumes "world_ok w"
  shows "otel_span_get_id sdk (Some sp) a b c w = (r1, w') \<Longrightarrow> span_frame (sp_idx sp) w w'"
    and "otel_span_is_recording sdk (Some sp) w = (r, w') \<Longrightarrow> span_frame (sp_idx sp) w w'"
    and "otel_span_set_status sdk (Some sp) st d w = (r, w') \<Longrightarrow> span_frame (sp_idx sp) w w'"
    and "otel_span_set_operation_name sdk (Some sp) nm w = (r2, w') \<Longrightarrow> span_frame (sp_idx sp) w w'"
  using assms
  by (auto simp: otel_span_get_id_def otel_span_is_recording_def otel_span_set_status_def Let_def
      otel_span_set_operation_name_def span_frame_refl split: if_splits elim!: lock_frame_elim
      intro!: span_frame_call)

lemmas span_op_frames = baggage_ops_frame attribute_ops_frame event_ops_frame get_baggage_frame simple_ops_frame

lemma run_span_op_frame:
  assumes "world_ok w" "run_span_op sdk op (Some sp) w = Some (r, w')"
  shows "span_frame (sp_idx sp) w w'"
proof -
  note f = span_op_frames [OF assms(1)]
  show ?thesis
  proof (cases op)
    case (Op_add_link ls lc kvs)
    then show ?thesis using assms add_link_frame [OF assms(1)] by (auto dest!: forget_value_snd)
  next
    case (Op_record_exception ty m st ts kvs)
    then show ?thesis using assms record_exception_frame [OF assms(1)] by (auto dest!: forget_value_snd)
  next
    case (Op_inject_text_map p c)
    then show ?thesis
      using assms inject_frame [OF assms(1)]
      by (auto simp: otel_span_inject_text_map_def split: prod.splits dest!: forget_value_snd)
  next
    case (Op_inject_http_headers p c)
    then show ?thesis
      using assms inject_frame [OF assms(1)]
      by (auto simp: otel_span_inject_http_headers_def split: prod.splits dest!: forget_value_snd)
  qed (use assms(2) f in \<open>auto dest!: forget_value_snd\<close>)
qed

text \<open>
  C13: An operation of the span table touches its own span only.  In a well-formed world, whatever
  its arguments and whichever allocations fail, it keeps the world well-formed, frees nothing,
  changes no other handle and no span context, keeps the SDK span of its handle, and every SDK
  call it makes goes to that SDK span.
\<close>
theorem span_op_touches_own_span:
  assumes "world_ok w" and "run_span_op sdk op (Some sp) w = Some (r, w')"
  shows "world_ok w' \<and> live w' = live w \<and> otel_span_context w' = otel_span_context w \<and>
    (\<forall>j. j \<noteq> sp_idx sp \<longrightarrow> span_at w' j = span_at w j) \<and>
    map_option sh_span (span_at w' (sp_idx sp)) = map_option sh_span (span_at w (sp_idx sp)) \<and>
    (\<exists>new. calls w' = new @ calls w \<and>
       (\<forall>c \<in> set new. \<exists>h. span_at w (sp_idx sp) = Some h \<and> call_span c = Some (sh_span h)))"
proof -
  note f = run_span_op_frame [OF assms, unfolded span_frame_def]
  then obtain new where n: "calls w' = new @ calls w"
    "\<forall>c \<in> set new. call_span c = map_option sh_span (span_at w (sp_idx sp)) \<and> call_span c \<noteq> None"
    by blast
  then have "\<exists>h. span_at w (sp_idx sp) = Some h \<and> call_span c = Some (sh_span h)" if "c \<in> set new" for c
    using that by (cases "span_at w (sp_idx sp)") auto
  then show ?thesis using f n(1) by blast
qed

text \<open>A concrete world for the witnesses: one shard, one live span (SDK span 7 under id 0), and an SDK
  that records until the span is ended and whose baggage is an association list.\<close>

definition demo_handle :: "'a list \<Rightarrow> 'a otel_handle" where
  "demo_handle xs = \<lparr>hid = of_nat (length xs), peak_size = 1, alloc_fail_cnt = 0, erase_cnt = 0, destroy_cnt = 0,
     shards = [zip (map of_nat [0..<length xs]) xs]\<rparr>"

definition demo_ctx :: "unit span_ctx" where
  "demo_ctx = \<lparr>sc_trace_id = replicate 16 1, sc_span_id = replicate 8 1, sc_flags = 1, sc_remote = False, sc_state = ()\<rparr>"

definition demo_sdk :: "(unit, (string \<times> string) list, unit) sdk" where
  "demo_sdk = \<lparr>oom = (\<lambda>_. False), is_recording = (\<lambda>cs s. End s None \<notin> set cs), get_context = (\<lambda>_. demo_ctx),
     ctx_is_valid = (\<lambda>_. True), ctx_is_sampled = (\<lambda>_. True), bag_default = [], bag_set = (\<lambda>b k v. (k, v) # b),
     bag_get = map_of, ts_default = (), ts_from_header = (\<lambda>_. ()), ts_get = (\<lambda>_ _. None), ts_entries = (\<lambda>_. []),
     ts_header = (\<lambda>_. []), ts_empty = (\<lambda>_. True), ts_set = (\<lambda>t _ _. t), ts_delete = (\<lambda>t _. t),
     sdk_start_span = (\<lambda>cs. Some (length cs)), sdk_inject = (\<lambda>s b c. c),
     sdk_extract = (\<lambda>c. \<lparr>cx_span = demo_ctx, cx_baggage = c\<rparr>), sdk_force_flush = (\<lambda>_. True),
     sdk_shutdown = (\<lambda>_. True), sdk_tracer_enabled = (\<lambda>_. True), sdk_get_tracer = (\<lambda>_. True),
     sdk_get_meter = (\<lambda>_. True),
     sdk_create_instrument = (\<lambda>cs. Some (length cs)), valid_name = (\<lambda>s. s \<noteq> []), valid_unit = (\<lambda>s. length s < 64),
     valid_description = (\<lambda>_. True), sdk_get_logger = (\<lambda>_. True), sdk_log_enabled = (\<lambda>_ _ _. True),
     sdk_create_record = (\<lambda>_. True), file_opens = (\<lambda>_ _. True), os_error = ''denied''\<rparr>"

definition demo_world :: "(unit, (string \<times> string) list, unit) world" where
  "demo_world = \<lparr>otel_span = Some (demo_handle [\<lparr>sh_span = 7, sh_baggage = None\<rparr>]),
     otel_span_context = Some (demo_handle []), calls = [], tried = 5, live = {1}, otel_tracer_count = 1,
     otel_span_id_base = 0, otel_span_context_id_base = 0\<rparr>"

definition demo_span :: otelc_span where
  "demo_span = \<lparr>sp_addr = 1, sp_idx = 0\<rparr>"

lemmas demo_defs = demo_handle_def demo_ctx_def demo_sdk_def demo_world_def demo_span_def

lemma pow2_1: "shards_pow2 (demo_handle xs)"
  unfolding shards_pow2_def by (intro exI [of _ 0]) (simp add: demo_handle_def)

lemma demo_index: "get_shard_index (demo_handle xs) k = 0"
  by (simp add: get_shard_index_def demo_handle_def)

lemma demo_find: "otel_map_find (demo_handle [x]) k = (if k = 0 then Some x else None)"
  by (simp add: otel_map_find_def get_shard_def demo_index) (simp add: demo_handle_def)

lemma demo_find_empty: "otel_map_find (demo_handle []) k = None"
  by (simp add: otel_map_find_def get_shard_def demo_index) (simp add: demo_handle_def)

lemma demo_store: "store_ok (Some (demo_handle [x]))"
  using pow2_1
  by (auto simp: store_ok_def handle_inv_def hm.below_def demo_index demo_find split: if_splits)
    (auto simp: demo_handle_def)

lemma demo_store_empty: "store_ok (Some (demo_handle []))"
  using pow2_1
  by (auto simp: store_ok_def handle_inv_def hm.below_def demo_index demo_find_empty)
    (auto simp: demo_handle_def)

lemma demo_world_ok: "world_ok demo_world"
  by (simp add: world_ok_def demo_world_def demo_store demo_store_empty)

lemma demo_span_at: "span_at demo_world i = (if i = 0 then Some \<lparr>sh_span = 7, sh_baggage = None\<rparr> else None)"
  by (simp add: span_at_def demo_world_def demo_find)

lemma demo_calls [simp]: "calls demo_world = []"
  by (simp add: demo_world_def)

lemma span_op_touches_own_span_witness:
  "\<exists>w'. run_span_op demo_sdk (Op_set_operation_name (Some ''op'')) (Some demo_span) demo_world = Some (Inr (), w') \<and>
     world_ok w' \<and> live w' = {1}"
proof -
  have "run_span_op demo_sdk (Op_set_operation_name (Some ''op'')) (Some demo_span) demo_world =
      Some (Inr (), call (UpdateName 7 ''op'') demo_world)"
    by (simp add: otel_span_set_operation_name_def lock_span_handle_live [of _ _ "\<lparr>sh_span = 7, sh_baggage = None\<rparr>"]
        demo_span_at demo_span_def)
  then show ?thesis
    using span_op_touches_own_span [OF demo_world_ok, of demo_sdk "Op_set_operation_name (Some ''op'')" demo_span]
    by (simp add: demo_world_def)
qed

section \<open>Ending a span\<close>

lemma nolock_destroy_at:
  assumes "world_ok w" "otel_span w \<noteq> None" "otel_nolock_span_destroy (Some sp) w = (r, w')"
  shows "r = None" "world_ok w'" "span_at w' j = (if j = sp_idx sp then None else span_at w j)"
    "live w' = live w - {sp_addr sp}" "calls w' = calls w" "otel_span_context w' = otel_span_context w"
    "map_option hid (otel_span w') = map_option hid (otel_span w)"
proof -
  obtain m where m: "otel_span w = Some m" using assms(2) by auto
  have st: "store_ok (Some m)" using assms(1) m by (simp add: world_ok_def)
  then have inv: "handle_inv m" using store_okD by blast
  show "r = None" "live w' = live w - {sp_addr sp}" "calls w' = calls w" "otel_span_context w' = otel_span_context w"
    "map_option hid (otel_span w') = map_option hid (otel_span w)"
    using assms(3) m by (auto simp: otel_nolock_span_destroy_def)
  show "world_ok w'"
    using assms(1,3) m store_ok_forget [OF st] by (auto simp: otel_nolock_span_destroy_def world_ok_def)
  show "span_at w' j = (if j = sp_idx sp then None else span_at w j)"
    using assms(3) m by (auto simp: otel_nolock_span_destroy_def span_at_def forget_find [OF inv])
qed

text \<open>
  C21: Ending a span is complete.  Ending a live span through a structure that is still allocated, in a
  well-formed world, sets its status first when a valid one is given, ends its SDK span exactly once
  with the given time, removes its handle and no other, frees exactly its structure, nulls the
  caller's pointer and keeps the world well-formed.
\<close>
theorem end_span_releases:
  assumes "world_ok w" and "sp_addr sp \<in> live w" and "span_at w (sp_idx sp) = Some h"
    and "otel_span_end_with_options (Some sp) ts st d w = (r, w')"
  shows "r = None \<and> world_ok w' \<and> insert (sp_addr sp) (live w') = live w \<and> sp_addr sp \<notin> live w' \<and>
    calls w' = End (sh_span h) (map_option (\<lambda>_. timespec_to_duration ts) ts) #
      (if 0 \<le> st \<and> st \<le> 2 then [SetStatus (sh_span h) st (c_str d)] else []) @ calls w \<and>
    (\<forall>j. span_at w' j = (if j = sp_idx sp then None else span_at w j))"
proof -
  obtain m where m: "otel_span w = Some m" "otel_map_find m (sp_idx sp) = Some h"
    using assms(3) by (auto simp: span_at_def split: option.splits)
  let ?w0 = "if span_status_in_range st then call (SetStatus (sh_span h) st (c_str d)) w else w"
  let ?w1 = "call (End (sh_span h) (if ts = None then None else Some (timespec_to_duration ts))) ?w0"
  have nd: "otel_nolock_span_destroy (Some sp) ?w1 = (r, w')"
    using assms(4) m by (simp add: otel_span_end_with_options_def Let_def)
  have ok1: "world_ok ?w1" "otel_span ?w1 \<noteq> None" "span_at ?w1 j = span_at w j" for j
    using assms(1) m by (auto simp: world_ok_def span_at_def)
  note e = nolock_destroy_at [OF ok1(1,2) nd]
  show ?thesis
    using e ok1(3) assms(2) by (auto simp: span_status_in_range_def map_option_case split: option.splits)
qed

lemma end_span_releases_witness:
  "calls (snd (otel_span_end_with_options (Some demo_span) None 2 (Some ''bad'') demo_world)) =
     [End 7 None, SetStatus 7 2 ''bad'']"
proof -
  obtain r w' where e: "otel_span_end_with_options (Some demo_span) None 2 (Some ''bad'') demo_world = (r, w')" by fastforce
  have "span_at demo_world (sp_idx demo_span) = Some \<lparr>sh_span = 7, sh_baggage = None\<rparr>"
    by (simp add: demo_span_at demo_span_def)
  moreover have "sp_addr demo_span \<in> live demo_world"
    by (simp add: demo_span_def demo_world_def)
  ultimately have "calls w' = [End 7 None, SetStatus 7 2 ''bad'']"
    using end_span_releases [OF demo_world_ok _ _ e] by (simp add: demo_calls)
  then show ?thesis by (simp add: e)
qed

section \<open>Stale handles and spans that do not record\<close>

lemma stale_value:
  assumes "span_at w (sp_idx sp) = None"
  shows "otel_span_get_id sdk (Some sp) a b c w = (r1, w') \<Longrightarrow> (\<exists>e. r1 = Inl e) \<and> w' = w"
    and "otel_span_is_recording sdk (Some sp) w = (r2, w') \<Longrightarrow> (\<exists>e. r2 = Inl e) \<and> w' = w"
    and "otel_span_set_status sdk (Some sp) st d w = (r2, w') \<Longrightarrow> (\<exists>e. r2 = Inl e) \<and> w' = w"
    and "otel_span_set_operation_name sdk (Some sp) nm w = (r3, w') \<Longrightarrow> (\<exists>e. r3 = Inl e) \<and> w' = w"
    and "otel_span_set_baggage_var sdk (Some sp) k v ar w = (r2, w') \<Longrightarrow> (\<exists>e. r2 = Inl e) \<and> w' = w"
    and "otel_span_set_baggage_kv_var sdk (Some sp) kvs w = (r2, w') \<Longrightarrow> (\<exists>e. r2 = Inl e) \<and> w' = w"
    and "otel_span_set_baggage_kv_n sdk (Some sp) kv n w = (r2, w') \<Longrightarrow> (\<exists>e. r2 = Inl e) \<and> w' = w"
    and "otel_span_set_baggage sdk (Some sp) k v w = (r2, w') \<Longrightarrow> (\<exists>e. r2 = Inl e) \<and> w' = w"
    and "otel_span_get_baggage sdk (Some sp) k w = (r4, w') \<Longrightarrow> (\<exists>e. r4 = Inl e) \<and> w' = w"
    and "otel_span_set_attribute_var sdk (Some sp) k cv cr w = (r2, w') \<Longrightarrow> (\<exists>e. r2 = Inl e) \<and> w' = w"
    and "otel_span_set_attribute_kv_var sdk (Some sp) kvs w = (r2, w') \<Longrightarrow> (\<exists>e. r2 = Inl e) \<and> w' = w"
    and "otel_span_set_attribute_kv_n sdk (Some sp) kv n w = (r2, w') \<Longrightarrow> (\<exists>e. r2 = Inl e) \<and> w' = w"
    and "otel_span_add_event_var sdk (Some sp) nm ts k cv cr w = (r2, w') \<Longrightarrow> (\<exists>e. r2 = Inl e) \<and> w' = w"
    and "otel_span_add_event_kv_var sdk (Some sp) nm ts kvs w = (r2, w') \<Longrightarrow> (\<exists>e. r2 = Inl e) \<and> w' = w"
    and "otel_span_add_event_kv_n sdk (Some sp) nm ts kv n w = (r2, w') \<Longrightarrow> (\<exists>e. r2 = Inl e) \<and> w' = w"
    and "otel_span_record_exception sdk (Some sp) nm k v ts kvs w = Some (r2, w') \<Longrightarrow> (\<exists>e. r2 = Inl e) \<and> w' = w"
  using assms
  by (auto simp: span_at_def lock_span_handle_def otel_span_get_id_def otel_span_is_recording_def otel_span_set_status_def
      otel_span_set_operation_name_def otel_span_set_baggage_var_def otel_span_set_baggage_kv_var_def
      otel_span_set_baggage_kv_n_def otel_span_set_baggage_def otel_span_get_baggage_def otel_span_set_attribute_var_def
      otel_span_set_attribute_kv_var_def otel_span_set_attribute_kv_n_def otel_span_add_event_var_def
      otel_span_add_event_kv_var_def otel_span_add_event_kv_n_def otel_span_record_exception_def
      split: if_splits option.splits)

lemma stale_get_baggage_var:
  assumes "span_at w (sp_idx sp) = None" "otel_span_get_baggage_var sdk (Some sp) k ks w = (r, w')"
  shows "(\<exists>e. r = Inl e) \<and> same_world w w'"
proof -
  obtain fine w1 where al: "try_alloc sdk w = (fine, w1)" by fastforce
  have s: "same_world w w1" using try_alloc_same [OF al] .
  then have "span_at w1 (sp_idx sp) = None" using assms(1) same_world_at(1) [OF s] by simp
  then obtain e where "lock_span_handle INVALID_SPAN sp w1 (\<lambda>h.
              case get_baggage_loop sdk (span_baggage sdk h) (c_str k # ks) [] w1 of
                (None, w2) \<Rightarrow> (raise ''Unable to copy baggage data to text map'', w2)
              | (Some m, w2) \<Rightarrow> (Inr m, w2)) = (Inl e, w1)"
    using lock_span_handle_stale by blast
  then show ?thesis
    using assms(2) al s by (auto simp: otel_span_get_baggage_var_def Let_def split: if_splits)
qed

lemma stale_add_link:
  assumes "span_at w (sp_idx sp) = None" "otel_span_add_link sdk (Some sp) ls lc kvs w = Some (r, w')"
  shows "(\<exists>e. r = Inl e) \<and> same_world w w'"
proof -
  obtain fine w0 where al: "(if kvs = [] then (True, w) else try_alloc sdk w) = (fine, w0)" by fastforce
  then have s0: "same_world w w0" by (auto split: if_splits dest: try_alloc_same)
  have rec: "fst (otel_span_is_recording sdk (Some sp) w) \<noteq> Inr 0"
    using stale_value(2) [OF assms(1)] by (metis prod.collapse sum.distinct(1))
  have lock: "(\<exists>e. r' = Inl e) \<and> w'' = w1"
    if "same_world w w1" "lock_span_handle INVALID_SPAN sp w1 k = (r', w'')"
    for w1 k w'' and r' :: "int outcome"
    using that lock_span_handle_stale [of w1 sp INVALID_SPAN k] same_world_at(1) [OF that(1)] assms(1) by auto
  show ?thesis
  proof (cases "value_add_all sdk ''Unable to add link'' [] kvs w0")
    case None
    then show ?thesis using assms(2) al rec s0 by (auto simp: otel_span_add_link_def split: if_splits)
  next
    case (Some x)
    then obtain rr w1 where x: "value_add_all sdk ''Unable to add link'' [] kvs w0 = Some (rr, w1)" by (cases x) auto
    have s1: "same_world w w1" using value_add_all_same [OF x] s0 same_world_trans by blast
    show ?thesis
      using assms(2) al rec s0 s1 x
      by (auto simp: otel_span_add_link_def split: if_splits sum.splits dest!: lock [OF s1])
  qed
qed

lemma stale_inject:
  assumes "span_at w (sp_idx sp) = None" "otel_span_inject_carrier sdk p nm (Some sp) c w = (r, m, w')"
  shows "(\<exists>e. r = Inl e) \<and> w' = w"
  using assms by (auto simp: otel_span_inject_carrier_def lock_span_handle_def span_at_def split: option.splits)



text \<open>The operations that add data to a span.\<close>

fun records_data :: "'d span_op \<Rightarrow> bool" where
  "records_data (Op_set_attribute_var _ _ _) = True"
| "records_data (Op_set_attribute_kv_var _) = True"
| "records_data (Op_set_attribute_kv_n _ _) = True"
| "records_data (Op_add_event_var _ _ _ _ _) = True"
| "records_data (Op_add_event_kv_var _ _ _) = True"
| "records_data (Op_add_event_kv_n _ _ _ _) = True"
| "records_data (Op_add_link _ _ _) = True"
| "records_data (Op_set_status _ _) = True"
| "records_data (Op_record_exception _ _ _ _ _) = True"
| "records_data _ = False"

lemma set_attribute_loop_idle: "set_attribute_loop s False args n w = (Inr (n + int (length args)), w)"
  by (induction args arbitrary: n) auto

lemma add_event_loop_idle: "add_event_loop sdk False attr args n w = (Inr (attr, n + int (length args)), w)"
  by (induction args arbitrary: n) auto

text \<open>
  A span that does not record discards data at no cost.  On a live span whose SDK span is not
  recording, every operation that adds data (attributes, events, links, status, exceptions) is
  defined whatever its arguments, makes no SDK call, allocates nothing and changes nothing; and the
  setters still report the number of pairs they were given.
\<close>
theorem not_recording_discards:
  assumes "span_at w (sp_idx sp) = Some h" and "\<not> is_recording sdk (calls w) (sh_span h)"
    and "records_data op"
  shows "(\<exists>r. run_span_op sdk op (Some sp) w = Some (r, w)) \<and>
    (kvs \<noteq> [] \<longrightarrow> otel_span_set_attribute_kv_var sdk (Some sp) kvs w = (Inr (int (length kvs)), w)) \<and>
    (n \<noteq> 0 \<longrightarrow> otel_span_set_attribute_kv_n sdk (Some sp) (Some kvs) n w = (Inr (int_of_size n), w)) \<and>
    otel_span_add_event_kv_var sdk (Some sp) (Some nm) ts kvs w = (Inr (int (length kvs)), w)"
proof (intro conjI impI)
  note live = lock_span_handle_live [OF assms(1)]
  obtain m where m: "otel_span w = Some m" "otel_map_find m (sp_idx sp) = Some h"
    using assms(1) by (auto simp: span_at_def split: option.splits)
  note idle = live assms(2) set_attribute_loop_idle add_event_loop_idle finish_event_def Let_def
  show "\<exists>r. run_span_op sdk op (Some sp) w = Some (r, w)"
    using assms(3)
  proof (cases op)
    case (Op_add_event_var nm ts k v a)
    then show ?thesis by (cases nm) (auto simp: otel_span_add_event_var_def idle)
  next
    case (Op_add_event_kv_var nm ts kvs)
    then show ?thesis by (cases nm) (auto simp: otel_span_add_event_kv_var_def idle)
  next
    case (Op_add_event_kv_n nm ts kv n)
    then show ?thesis by (cases nm) (auto simp: otel_span_add_event_kv_n_def idle)
  next
    case (Op_set_attribute_kv_n kv n)
    then show ?thesis by (cases kv) (auto simp: otel_span_set_attribute_kv_n_def idle)
  next
    case (Op_add_link ls lc kvs)
    have "fst (otel_span_is_recording sdk (Some sp) w) = Inr 0"
      by (simp add: otel_span_is_recording_def live assms(2))
    then show ?thesis using Op_add_link by (auto simp: otel_span_add_link_def)
  next
    case (Op_record_exception ty msg st ts kvs)
    then show ?thesis using m assms(2)
      by (auto simp: otel_span_record_exception_def)
  qed (auto simp: otel_span_set_attribute_var_def otel_span_set_attribute_kv_var_def otel_span_set_status_def idle)
  show "kvs \<noteq> [] \<Longrightarrow> otel_span_set_attribute_kv_var sdk (Some sp) kvs w = (Inr (int (length kvs)), w)"
    by (simp add: otel_span_set_attribute_kv_var_def idle kv_pairs_def)
  show "n \<noteq> 0 \<Longrightarrow> otel_span_set_attribute_kv_n sdk (Some sp) (Some kvs) n w = (Inr (int_of_size n), w)"
    by (simp add: otel_span_set_attribute_kv_n_def idle)
  show "otel_span_add_event_kv_var sdk (Some sp) (Some nm) ts kvs w = (Inr (int (length kvs)), w)"
    by (simp add: otel_span_add_event_kv_var_def idle kv_pairs_def)
qed

lemma not_recording_discards_witness:
  "\<exists>r. run_span_op (demo_sdk\<lparr>is_recording := (\<lambda>_ _. False)\<rparr>) (Op_record_exception (Some ''E'') None None None
      [\<lparr>ck_key = None, ck_value = C_null\<rparr>]) (Some demo_span) demo_world = Some (r, demo_world)"
  using not_recording_discards [of demo_world demo_span "\<lparr>sh_span = 7, sh_baggage = None\<rparr>"
      "demo_sdk\<lparr>is_recording := (\<lambda>_ _. False)\<rparr>" "Op_record_exception (Some ''E'') None None None
      [\<lparr>ck_key = None, ck_value = C_null\<rparr>]"]
  by (simp add: demo_span_at demo_span_def)

section \<open>Baggage\<close>

text \<open>The pairs of a variadic call, up to the first null value, and the baggage they build.\<close>

fun given_pairs :: "(string \<times> string option) list \<Rightarrow> (string \<times> string) list" where
  "given_pairs [] = []"
| "given_pairs ((k, None) # args) = []"
| "given_pairs ((k, Some v) # args) = (k, v) # given_pairs args"

definition add_pairs :: "('d, 'b, 't) sdk \<Rightarrow> (string \<times> string) list \<Rightarrow> 'b \<Rightarrow> 'b" where
  "add_pairs sdk ps b = fold (\<lambda>(k, v) b. bag_set sdk b k v) ps b"

text \<open>A pair that is accepted: a name and a value with text.  Of a \<open>kv\<close> entry, only string and data
  values have one.\<close>

definition proper_pair :: "string option \<Rightarrow> string option \<Rightarrow> (string \<times> string) option" where
  "proper_pair k v = (if str_is_valid k \<and> str_is_valid v then Some (c_str k, c_str v) else None)"

definition kv_pair :: "'d ckv \<Rightarrow> (string \<times> string) option" where
  "kv_pair kv = (case ck_value kv of
     C_string s \<Rightarrow> proper_pair (ck_key kv) s | C_data s \<Rightarrow> proper_pair (ck_key kv) s | _ \<Rightarrow> None)"

definition var_pairs :: "string option \<Rightarrow> string option \<Rightarrow> (string \<times> string option) list \<Rightarrow> (string \<times> string) list option" where
  "var_pairs key val args =
     those (proper_pair key val # map (\<lambda>(k, v). proper_pair (Some k) (Some v)) (given_pairs args))"

text \<open>What a call with these pairs (\<open>None\<close>: some pair is refused) does to span \<open>sp\<close> with handle \<open>h\<close>.\<close>

definition baggage_set ::
  "('d, 'b, 't) sdk \<Rightarrow> otelc_span \<Rightarrow> 'b span_handle \<Rightarrow> ('d, 'b, 't) world \<Rightarrow> (string \<times> string) list option \<Rightarrow>
   int outcome \<times> ('d, 'b, 't) world \<Rightarrow> bool" where
  "baggage_set sdk sp h w pairs out = (case pairs of
     None \<Rightarrow> (\<exists>e. fst out = Inl e) \<and> snd out = w
   | Some ps \<Rightarrow> fst out = Inr (int (length ps)) \<and> (ps = [] \<longrightarrow> snd out = w) \<and>
       (\<forall>j. span_at (snd out) j = (if j = sp_idx sp \<and> ps \<noteq> []
          then Some (h\<lparr>sh_baggage := Some (add_pairs sdk ps (span_baggage sdk h))\<rparr>) else span_at w j)))"

text \<open>What the loops leave.\<close>

definition pairs_added :: "('d, 'b, 't) sdk \<Rightarrow> 'b \<Rightarrow> int \<Rightarrow> (string \<times> string) list option \<Rightarrow> ('b \<times> int) outcome \<Rightarrow> bool" where
  "pairs_added sdk bag n pairs out = (case pairs of
     None \<Rightarrow> \<exists>e. out = Inl e
   | Some ps \<Rightarrow> out = Inr (add_pairs sdk ps bag, n + int (length ps)))"

lemma pairs_added_Nil: "pairs_added sdk bag n (Some []) (Inr (bag, n))"
  by (simp add: pairs_added_def add_pairs_def)

lemma pairs_added_Cons:
  "pairs_added sdk (bag_set sdk bag k v) (n + 1) (those ps) out \<Longrightarrow>
   pairs_added sdk bag n (those (Some (k, v) # ps)) out"
  by (cases "those ps") (simp_all add: pairs_added_def add_pairs_def)

lemma pairs_refused: "pairs_added sdk bag n (those (None # ps)) (Inl e)"
  by (simp add: pairs_added_def)

lemma baggage_var_loop_spec:
  "pairs_added sdk bag n (those (map (\<lambda>(k, v). proper_pair (Some k) (Some v)) (given_pairs args)))
     (baggage_var_loop sdk bag args n)"
proof (induction sdk bag args n rule: baggage_var_loop.induct)
  case (3 sdk bag k v args n)
  then show ?case
    using pairs_added_Cons pairs_refused by (auto simp: proper_pair_def simp del: those.simps)
qed (simp_all add: pairs_added_Nil)

lemma baggage_kv_pair:
  "baggage_kv sdk bag kv = (case kv_pair kv of
     Some (k, v) \<Rightarrow> Inr (bag_set sdk bag k v) | None \<Rightarrow> baggage_kv sdk bag kv)"
  "kv_pair kv = None \<Longrightarrow> \<exists>e. baggage_kv sdk bag kv = Inl e"
  by (auto simp: baggage_kv_def kv_pair_def proper_pair_def split: cvalue.splits)

lemma baggage_kv_loop_spec:
  "pairs_added sdk bag n (those (map kv_pair kvs)) (baggage_kv_loop sdk bag kvs n)"
proof (induction kvs arbitrary: bag n)
  case Nil
  then show ?case by (simp add: pairs_added_Nil)
next
  case (Cons kv kvs)
  show ?case
  proof (cases "kv_pair kv")
    case None
    then show ?thesis
      using baggage_kv_pair(2) [OF None, of sdk bag] pairs_refused by (auto simp del: those.simps)
  next
    case (Some p)
    obtain k v where p: "p = (k, v)" by fastforce
    then have "baggage_kv sdk bag kv = Inr (bag_set sdk bag k v)"
      using baggage_kv_pair(1) [of sdk bag kv] Some by simp
    then show ?thesis
      using pairs_added_Cons [OF Cons.IH] Some p by (simp del: those.simps)
  qed
qed

lemma span_update_at:
  assumes "world_ok w" "span_at w (sp_idx sp) = Some h" "n > 0"
  shows "span_at (snd (span_update_baggage sp h bag n w)) j =
    (if j = sp_idx sp then Some (h\<lparr>sh_baggage := Some bag\<rparr>) else span_at w j)"
proof -
  from assms(2) obtain m where m: "otel_span w = Some m" by (auto simp: span_at_def split: option.splits)
  then have "handle_inv m" using assms(1) by (auto simp: world_ok_def dest: store_okD)
  then show ?thesis using m assms(3) by (simp add: span_update_baggage_def span_at_def put_find)
qed

lemma update_after_loop:
  assumes "world_ok w" "span_at w (sp_idx sp) = Some h" "pairs_added sdk (span_baggage sdk h) 0 pairs out"
  shows "baggage_set sdk sp h w pairs
    (case out of Inl e \<Rightarrow> (Inl e, w) | Inr (bag, n) \<Rightarrow> span_update_baggage sp h bag n w)"
proof (cases pairs)
  case None
  then show ?thesis using assms(3) by (auto simp: pairs_added_def baggage_set_def)
next
  case (Some ps)
  then have out: "out = Inr (add_pairs sdk ps (span_baggage sdk h), int (length ps))"
    using assms(3) by (simp add: pairs_added_def)
  show ?thesis
  proof (cases "ps = []")
    case True
    then show ?thesis using Some out by (simp add: baggage_set_def span_update_baggage_def)
  next
    case False
    then have "int (length ps) > 0" by simp
    then show ?thesis
      using False Some out span_update_at [OF assms(1,2)]
      by (auto simp: baggage_set_def) (simp add: span_update_baggage_def)
  qed
qed

text \<open>
  C28: Setting baggage is all or nothing, whichever of the four functions does it.  On a live span a call
  either fails because one of the pairs it is given is refused (an empty name or value, or a \<open>kv\<close>
  value that is no text) or because it is given none, and changes nothing; or it reports the number
  of its pairs and stores, in one step, the baggage extended by all of them in order, while no other
  span's handle changes.  The variadic form takes the pairs up to the first null value, the array
  form the entries below \<open>(int)kv_len\<close> (a length of 2^31 and more is negative as \<open>int\<close>: no entry is
  taken, and the call reports 0 pairs).
\<close>
theorem set_baggage_all_or_nothing:
  assumes "world_ok w" and "span_at w (sp_idx sp) = Some h"
  shows "baggage_set sdk sp h w (those [proper_pair key val]) (otel_span_set_baggage sdk (Some sp) key val w) \<and>
    baggage_set sdk sp h w (var_pairs key val args) (otel_span_set_baggage_var sdk (Some sp) key val args w) \<and>
    baggage_set sdk sp h w (if kvs = [] then None else those (map kv_pair kvs))
      (otel_span_set_baggage_kv_var sdk (Some sp) kvs w) \<and>
    baggage_set sdk sp h w
      (case kv of None \<Rightarrow> None | Some xs \<Rightarrow> if n = 0 then None else those (map kv_pair (kv_prefix xs n)))
      (otel_span_set_baggage_kv_n sdk (Some sp) kv n w)"
proof (intro conjI)
  note live = lock_span_handle_live [OF assms(2)]
  note after = update_after_loop [OF assms]
  have refused: "baggage_set sdk sp h w None (Inl e, w)" for e by (simp add: baggage_set_def)
  show "baggage_set sdk sp h w (those [proper_pair key val]) (otel_span_set_baggage sdk (Some sp) key val w)"
    using after [of sdk "those [proper_pair key val]" "Inr (bag_set sdk (span_baggage sdk h) (c_str key) (c_str val), 1)"]
    by (auto simp: otel_span_set_baggage_def live proper_pair_def pairs_added_def add_pairs_def)
      (simp_all add: baggage_set_def)
  show "baggage_set sdk sp h w (var_pairs key val args) (otel_span_set_baggage_var sdk (Some sp) key val args w)"
  proof (cases "str_is_valid key \<and> str_is_valid val")
    case True
    then obtain k v where kv: "key = Some k" "k \<noteq> []" "val = Some v" "v \<noteq> []" by (cases key; cases val) auto
    then have "var_pairs key val args =
        those (map (\<lambda>(k, v). proper_pair (Some k) (Some v)) (given_pairs ((k, Some v) # args)))"
      by (simp add: var_pairs_def)
    then show ?thesis
      using after [OF baggage_var_loop_spec [of sdk "span_baggage sdk h" 0 "(k, Some v) # args"]] kv
      by (simp add: otel_span_set_baggage_var_def live del: baggage_var_loop.simps given_pairs.simps)
  next
    case False
    then show ?thesis
      by (auto simp: otel_span_set_baggage_var_def var_pairs_def proper_pair_def baggage_set_def)
  qed
  show "baggage_set sdk sp h w (if kvs = [] then None else those (map kv_pair kvs))
      (otel_span_set_baggage_kv_var sdk (Some sp) kvs w)"
    using after [OF baggage_kv_loop_spec]
    by (cases "kvs = []") (simp_all add: otel_span_set_baggage_kv_var_def live refused)
  show "baggage_set sdk sp h w
      (case kv of None \<Rightarrow> None | Some xs \<Rightarrow> if n = 0 then None else those (map kv_pair (kv_prefix xs n)))
      (otel_span_set_baggage_kv_n sdk (Some sp) kv n w)"
    using after [OF baggage_kv_loop_spec]
    by (cases kv; cases "n = 0") (simp_all add: otel_span_set_baggage_kv_n_def live refused)
qed

lemma set_baggage_all_or_nothing_witness:
  "\<exists>w'. otel_span_set_baggage_var demo_sdk (Some demo_span) (Some ''a'') (Some ''1'') [(''b'', Some ''2'')] demo_world =
     (Inr 2, w') \<and> span_at w' 0 = Some \<lparr>sh_span = 7, sh_baggage = Some [(''b'', ''2''), (''a'', ''1'')]\<rparr>"
proof -
  obtain r w' where x: "otel_span_set_baggage_var demo_sdk (Some demo_span) (Some ''a'') (Some ''1'') [(''b'', Some ''2'')] demo_world = (r, w')"
    by fastforce
  have at: "span_at demo_world (sp_idx demo_span) = Some \<lparr>sh_span = 7, sh_baggage = None\<rparr>"
    by (simp add: demo_span_at demo_span_def)
  have "baggage_set demo_sdk demo_span \<lparr>sh_span = 7, sh_baggage = None\<rparr> demo_world
      (Some [(''a'', ''1''), (''b'', ''2'')]) (r, w')"
    using set_baggage_all_or_nothing [OF demo_world_ok at, of demo_sdk "Some ''a''" "Some ''1''" "[(''b'', Some ''2'')]"] x
    by (simp add: var_pairs_def proper_pair_def)
  then show ?thesis
    using x by (simp add: baggage_set_def add_pairs_def span_baggage_def demo_sdk_def demo_span_def)
qed

text \<open>
  C30: What was set as baggage is what is read.  For an SDK whose baggage returns a value set under a key
  and leaves the other keys alone, after \<open>otel_span_set_baggage\<close> succeeded, \<open>otel_span_get_baggage\<close>
  returns a copy of that value for the key, or reports that the copy could not be allocated, and
  reads every other key as it would have before the call.
\<close>
theorem baggage_read_back:
  assumes "\<And>b k x j. k \<noteq> [] \<Longrightarrow> x \<noteq> [] \<Longrightarrow> bag_get sdk (bag_set sdk b k x) j = (if j = k then Some x else bag_get sdk b j)"
    and "world_ok w" and "span_at w (sp_idx sp) = Some h"
    and "otel_span_set_baggage sdk (Some sp) (Some key) (Some v) w = (Inr n, w')"
    and "j \<noteq> []"
  shows "n = 1 \<and> fst (otel_span_get_baggage sdk (Some sp) (Some j) w') =
    (if j = key then (if oom sdk (tried w') then raise ''Unable to allocate memory for baggage value'' else Inr (Some v))
     else fst (otel_span_get_baggage sdk (Some sp) (Some j) w))"
proof -
  note live = lock_span_handle_live [OF assms(3)]
  have kv: "key \<noteq> []" "v \<noteq> []"
    using assms(4) by (auto simp: otel_span_set_baggage_def split: if_splits)
  then have upd: "(Inr n, w') = span_update_baggage sp h (bag_set sdk (span_baggage sdk h) key v) 1 w"
    using assms(4) by (simp add: otel_span_set_baggage_def live)
  then have n: "n = 1" "tried w' = tried w" by (simp_all add: span_update_baggage_def)
  let ?h = "h\<lparr>sh_baggage := Some (bag_set sdk (span_baggage sdk h) key v)\<rparr>"
  have "span_at w' (sp_idx sp) = Some ?h"
    using span_update_at [OF assms(2,3), of 1] upd by (metis snd_conv zero_less_one)
  note live' = lock_span_handle_live [OF this]
  have "bag_get sdk (span_baggage sdk ?h) j = (if j = key then Some v else bag_get sdk (span_baggage sdk h) j)"
    using assms(1) [OF kv, of "span_baggage sdk h" j] by (simp add: span_baggage_def)
  then show ?thesis
    using n assms(5) by (auto simp: otel_span_get_baggage_def live live' try_alloc_def Let_def split: option.splits)
qed

lemma baggage_read_back_witness:
  "fst (otel_span_get_baggage demo_sdk (Some demo_span) (Some ''user'')
     (snd (otel_span_set_baggage demo_sdk (Some demo_span) (Some ''user'') (Some ''x'') demo_world))) = Inr (Some ''x'')"
proof -
  obtain r w' where x: "otel_span_set_baggage demo_sdk (Some demo_span) (Some ''user'') (Some ''x'') demo_world = (r, w')"
    by fastforce
  have at: "span_at demo_world (sp_idx demo_span) = Some \<lparr>sh_span = 7, sh_baggage = None\<rparr>"
    by (simp add: demo_span_at demo_span_def)
  have "r = Inr 1"
    using x by (auto simp: otel_span_set_baggage_def lock_span_handle_live [OF at] span_update_baggage_def)
  then have "fst (otel_span_get_baggage demo_sdk (Some demo_span) (Some ''user'') w') = Inr (Some ''x'')"
    using baggage_read_back [OF _ demo_world_ok at, of demo_sdk "''user''" "''x''" 1 w' "''user''"] x
    by (simp add: demo_sdk_def)
  then show ?thesis by (simp add: x)
qed

end
