(* ===== verification/Otel_Tracer.thy ===== *)
theory Otel_Tracer
  imports Otel_SpanLaws Otel_Config
begin

text \<open>
  Tracers (\<open>src/tracer.cpp\<close>): the life of the two handle maps, which exist while a tracer does,
  starting spans, extracting span contexts, flushing, starting and destroying a tracer.  The
  clock is an argument; a carrier's text map is its list of entries.  \<open>ReleaseProvider\<close> stands for
  the release of a provider that was installed, or was about to be; one that is dropped earlier in a
  failing start has met no caller and is not in the list of calls.
\<close>

section \<open>The life of the handle maps\<close>

text \<open>\<open>new_nothrow\<close> of a map: null when the allocation or the constructor throws.\<close>

definition new_map ::
  "('d, 'b, 't) sdk \<Rightarrow> size_t \<Rightarrow> int64 \<Rightarrow> ('d, 'b, 't) world \<Rightarrow> 'a otel_handle option \<times> ('d, 'b, 't) world" where
  "new_map sdk num_shards base w =
     (let (fine, w1) = try_alloc sdk w in
      (if fine then (case otel_handle_new num_shards of Inl _ \<Rightarrow> None | Inr m \<Rightarrow> Some (m\<lparr>hid := base\<rparr>)) else None, w1))"

definition otel_tracer_handle_init ::
  "('d, 'b, 't) sdk \<Rightarrow> size_t \<Rightarrow> ('d, 'b, 't) world \<Rightarrow> int \<times> ('d, 'b, 't) world" where
  "otel_tracer_handle_init sdk num_shards w =
     (let w1 = (case otel_span w of
            Some _ \<Rightarrow> w
          | None \<Rightarrow> (case new_map sdk num_shards (otel_span_id_base w) w of (m, w') \<Rightarrow> w'\<lparr>otel_span := m\<rparr>))
      in if otel_span w1 = None then (OTELC_RET_ERROR, w1)
      else
        let w2 = (case otel_span_context w1 of
            Some _ \<Rightarrow> w1
          | None \<Rightarrow> (case new_map sdk num_shards (otel_span_context_id_base w1) w1 of (m, w') \<Rightarrow> w'\<lparr>otel_span_context := m\<rparr>))
        in if otel_span_context w2 = None then (OTELC_RET_ERROR, w2) else (OTELC_RET_OK, w2))"

definition otel_tracer_register ::
  "('d, 'b, 't) sdk \<Rightarrow> size_t \<Rightarrow> ('d, 'b, 't) world \<Rightarrow> int \<times> ('d, 'b, 't) world" where
  "otel_tracer_register sdk num_shards w =
     otel_tracer_handle_init sdk num_shards (w\<lparr>otel_tracer_count := otel_tracer_count w + 1\<rparr>)"

text \<open>\<open>otel_tracer_unregister\<close>: \<open>now\<close> is the monotonic clock.  The last tracer ends what is left.\<close>

definition end_all :: "timespec \<Rightarrow> 'b span_handle otel_handle \<Rightarrow> ('d, 'b, 't) world \<Rightarrow> ('d, 'b, 't) world" where
  "end_all now m w =
     snd (for_each_locked (\<lambda>_ h w. call (End (sh_span h) (Some (timespec_to_duration (Some now)))) w) m w)"

definition otel_tracer_unregister :: "timespec \<Rightarrow> ('d, 'b, 't) world \<Rightarrow> ('d, 'b, 't) world" where
  "otel_tracer_unregister now w0 =
     (let w = w0\<lparr>otel_tracer_count := otel_tracer_count w0 - 1\<rparr> in
      if otel_tracer_count w \<noteq> 0 then w
      else
        let w1 = (case otel_span_context w of
              None \<Rightarrow> w
            | Some m \<Rightarrow> w\<lparr>otel_span_context_id_base := hid (fst (clear_locked m)), otel_span_context := None\<rparr>)
        in (case otel_span w1 of
              None \<Rightarrow> w1
            | Some m \<Rightarrow> (end_all now m w1)\<lparr>otel_span_id_base := hid m, otel_span := None\<rparr>))"

section \<open>The tracer\<close>

definition OTELC_FLUSH_TIMEOUT_MS :: int where "OTELC_FLUSH_TIMEOUT_MS = 5000"
definition OTELC_FLUSH_TIMEOUT_MS_MAX :: int where "OTELC_FLUSH_TIMEOUT_MS_MAX = 600000"

text \<open>The implementation's provider is an SDK object; its tracer and propagator are there or not.\<close>

record tracer_impl =
  ti_provider :: "nat option"
  ti_tracer :: bool
  ti_propagator :: bool
  ti_exporters :: "nat list"

record otelc_tracer =
  tr_enabled :: bool
  tr_flush_timeout :: int
  tr_scope_name :: "string option"
  tr_yaml_prefix :: "string option"
  tr_impl :: "tracer_impl option"

text \<open>C division truncates; \<open>count\<close> is cast to \<open>int\<close>.\<close>

definition otel_tracer_flush_budget :: "int \<Rightarrow> size_t \<Rightarrow> int" where
  "otel_tracer_flush_budget flush_timeout n =
     (let r = (if n > 1 then c_quot flush_timeout (int_of_size n) else flush_timeout) in if r < 1 then 1 else r)"

section \<open>Starting a span\<close>

text \<open>The span kinds in the order of \<open>otelc_span_kind_t\<close>.\<close>

definition span_kind_map :: "span_kind list" where
  "span_kind_map = [kInternal, kInternal, kServer, kClient, kProducer, kConsumer]"

record 'd otelc_span_link =
  ln_span :: "otelc_span option"
  ln_context :: "otelc_span_context option"
  ln_kv :: "'d ckv list"

text \<open>The parent: \<open>Inr\<close> the SDK parent and the baggage the new span inherits.\<close>

definition span_parent ::
  "('d, 'b, 't) sdk \<Rightarrow> otelc_span option \<Rightarrow> otelc_span_context option \<Rightarrow> ('d, 'b, 't) world \<Rightarrow>
   (('b, 't) parent \<times> 'b option) outcome" where
  "span_parent sdk parent_span parent_context w =
     (case parent_span of
        Some ps \<Rightarrow> (case span_at w (sp_idx ps) of
            None \<Rightarrow> raise ''Invalid parent span''
          | Some h \<Rightarrow> Inr (Parent_span (get_context sdk (sh_span h)), sh_baggage h))
      | None \<Rightarrow> (case parent_context of
            None \<Rightarrow> Inr (No_parent, None)
          | Some pc \<Rightarrow> (case context_at w (sx_idx pc) of
                None \<Rightarrow> raise ''Invalid parent span context''
              | Some c \<Rightarrow> Inr (Parent_context c, Some (cx_baggage c)))))"

text \<open>The target of link \<open>i\<close>.\<close>

definition link_ctx ::
  "('d, 'b, 't) sdk \<Rightarrow> nat \<Rightarrow> 'd otelc_span_link \<Rightarrow> ('d, 'b, 't) world \<Rightarrow> 't span_ctx outcome" where
  "link_ctx sdk i l w =
     (case (ln_span l, ln_context l) of
        (Some _, Some _) \<Rightarrow> raisef ''Link[%zu]: span and context are mutually exclusive'' [Arg_int (int i)]
      | (None, None) \<Rightarrow> raisef ''Link[%zu]: one of span or context must be specified'' [Arg_int (int i)]
      | (Some ls, None) \<Rightarrow> (case span_at w (sp_idx ls) of
            None \<Rightarrow> raisef ''Link[%zu]: invalid span'' [Arg_int (int i)]
          | Some h \<Rightarrow> Inr (get_context sdk (sh_span h)))
      | (None, Some lc) \<Rightarrow> (case context_at w (sx_idx lc) of
            None \<Rightarrow> raisef ''Link[%zu]: invalid span context'' [Arg_int (int i)]
          | Some c \<Rightarrow> Inr (cx_span c)))"

text \<open>The attributes of a link: reserved, then added; a throw fails the call.\<close>

definition link_attrs ::
  "('d, 'b, 't) sdk \<Rightarrow> 'd ckv list \<Rightarrow> ('d, 'b, 't) world \<Rightarrow> ('d attrs outcome \<times> ('d, 'b, 't) world) option" where
  "link_attrs sdk kvs w =
     (if kvs = [] then Some (Inr [], w)
      else let (fine, w1) = try_alloc sdk w in
        if \<not> fine then Some (raise ''Unable to allocate link attributes'', w1)
        else value_add_all sdk ''Unable to add link attribute'' [] kvs w1)"

fun build_links ::
  "('d, 'b, 't) sdk \<Rightarrow> nat \<Rightarrow> 'd otelc_span_link list \<Rightarrow> ('t span_ctx \<times> 'd attrs) list \<Rightarrow> ('d, 'b, 't) world \<Rightarrow>
   (('t span_ctx \<times> 'd attrs) list outcome \<times> ('d, 'b, 't) world) option" where
  "build_links sdk i [] acc w = Some (Inr acc, w)"
| "build_links sdk i (l # ls) acc w =
     (case link_ctx sdk i l w of
        Inl e \<Rightarrow> Some (Inl e, w)
      | Inr c \<Rightarrow> (case link_attrs sdk (ln_kv l) w of
            None \<Rightarrow> None
          | Some (Inl e, w1) \<Rightarrow> Some (Inl e, w1)
          | Some (Inr attr, w1) \<Rightarrow>
              let (fine, w2) = try_alloc sdk w1 in
              if \<not> fine then Some (raise ''Unable to add link entry'', w2)
              else build_links sdk (Suc i) ls (acc @ [(c, attr)]) w2))"

text \<open>Everything after the parent and the links are known: the C structure, the SDK span, the handle,
  its registration.  Each failure undoes what was done.\<close>

definition finish_start ::
  "('d, 'b, 't) sdk \<Rightarrow> string \<Rightarrow> ('b, 't) start_options \<Rightarrow> ('t span_ctx \<times> 'd attrs) list \<Rightarrow> 'b option \<Rightarrow>
   ('d, 'b, 't) world \<Rightarrow> otelc_span outcome \<times> ('d, 'b, 't) world" where
  "finish_start sdk name opts links baggage w =
     (case otel_span_new sdk w of
        (None, w1) \<Rightarrow> (raise ''Unable to allocate memory for span'', w1)
      | (Some sp, w1) \<Rightarrow> (case sdk_start_span sdk (calls w1) of
            None \<Rightarrow> (raise ''Unable to start new span'', snd (otel_nolock_span_destroy (Some sp) w1))
          | Some s \<Rightarrow>
              let (fine, w2) = try_alloc sdk (call (StartSpan s name opts links) w1) in
              if \<not> fine
              then (raise ''Unable to allocate memory for span handle'',
                    snd (otel_nolock_span_destroy (Some sp) (call (End s None) w2)))
              else
                let (fine, w3) = try_alloc sdk w2 in
                (case otel_span w3 of
                   None \<Rightarrow> (silent, w3)
                 | Some m \<Rightarrow> (case handle_emplace (\<not> fine) (sp_idx sp) \<lparr>sh_span = s, sh_baggage = baggage\<rparr>
                       ''Unable to add span: duplicate id'' ''Unable to add span'' m of
                       (m1, Inl e) \<Rightarrow> (Inl (Some e), ext_free (sp_addr sp) (call (End s None) (w3\<lparr>otel_span := Some m1\<rparr>)))
                     | (m1, Inr _) \<Rightarrow> (Inr sp, w3\<lparr>otel_span := Some m1\<rparr>)))))"

definition otel_tracer_start_span_with_options ::
  "('d, 'b, 't) sdk \<Rightarrow> otelc_tracer option \<Rightarrow> string option \<Rightarrow> otelc_span option \<Rightarrow> otelc_span_context option \<Rightarrow>
   timespec option \<Rightarrow> timespec option \<Rightarrow> int \<Rightarrow> 'd otelc_span_link list \<Rightarrow> ('d, 'b, 't) world \<Rightarrow>
   (otelc_span outcome \<times> ('d, 'b, 't) world) option" where
  "otel_tracer_start_span_with_options sdk tracer name parent_span parent_context ts_steady ts_system kind links w =
     (case tracer of
        None \<Rightarrow> Some (silent, w)
      | Some t \<Rightarrow>
          if \<not> tr_enabled t then Some (silent, w)
          else if \<not> str_is_valid name then Some (raise ''Invalid operation name'', w)
          else if parent_span \<noteq> None \<and> parent_context \<noteq> None
          then Some (raise ''Parameters parent_span and parent_context are mutually exclusive'', w)
          else (case tr_impl t of
              None \<Rightarrow> Some (raise ''Invalid tracer'', w)
            | Some impl \<Rightarrow>
                if \<not> ti_tracer impl then Some (raise ''Invalid tracer'', w)
                else if \<not> (0 \<le> kind \<and> kind \<le> 5) then Some (raisef ''Invalid span kind: %d'' [Arg_int kind], w)
                else (case span_parent sdk parent_span parent_context w of
                    Inl e \<Rightarrow> Some (Inl e, w)
                  | Inr (par, baggage) \<Rightarrow>
                      let (fine, w0) = (if links = [] then (True, w) else try_alloc sdk w) in
                      if \<not> fine then Some (raise ''Unable to allocate links vector'', w0)
                      else (case build_links sdk 0 links [] w0 of
                          None \<Rightarrow> None
                        | Some (Inl e, w1) \<Rightarrow> Some (Inl e, w1)
                        | Some (Inr lv, w1) \<Rightarrow>
                            Some (finish_start sdk (c_str name)
                              \<lparr>so_system_time = event_time ts_system, so_steady_time = event_time ts_steady,
                               so_kind = span_kind_map ! nat kind, so_parent = par\<rparr> lv baggage w1)))))"

definition otel_tracer_start_span ::
  "('d, 'b, 't) sdk \<Rightarrow> otelc_tracer option \<Rightarrow> string option \<Rightarrow> ('d, 'b, 't) world \<Rightarrow>
   (otelc_span outcome \<times> ('d, 'b, 't) world) option" where
  "otel_tracer_start_span sdk tracer name w =
     otel_tracer_start_span_with_options sdk tracer name None None None None 0 [] w"

section \<open>Extracting a span context\<close>

definition otel_span_context_add ::
  "('d, 'b, 't) sdk \<Rightarrow> ('b, 't) otel_ctx \<Rightarrow> ('d, 'b, 't) world \<Rightarrow> otelc_span_context outcome \<times> ('d, 'b, 't) world" where
  "otel_span_context_add sdk c w = register_span_context sdk ''Unable to allocate memory for span context'' c w"

definition otel_tracer_extract_carrier_cb ::
  "('d, 'b, 't) sdk \<Rightarrow> string option \<Rightarrow> string option \<Rightarrow> carrier \<times> ('d, 'b, 't) world \<Rightarrow>
   int \<times> carrier \<times> ('d, 'b, 't) world" where
  "otel_tracer_extract_carrier_cb sdk key val s =
     (case s of (c, w) \<Rightarrow>
      (case (key, val) of
         (Some k, Some v) \<Rightarrow>
           let (fine, w1) = try_alloc sdk w in
           if \<not> fine then (OTELC_RET_ERROR, c, w1) else (OTELC_RET_OK, map_emplace k v c, w1)
       | _ \<Rightarrow> (OTELC_RET_ERROR, c, w)))"

fun carrier_entries ::
  "('d, 'b, 't) sdk \<Rightarrow> nat \<Rightarrow> (string option \<times> string option) list \<Rightarrow> carrier \<Rightarrow> ('d, 'b, 't) world \<Rightarrow>
   carrier outcome \<times> ('d, 'b, 't) world" where
  "carrier_entries sdk i [] c w = (Inr c, w)"
| "carrier_entries sdk i ((k, v) # es) c w =
     (if k = None \<or> v = None then (raisef ''Invalid text map carrier entry %zu'' [Arg_int (int i)], w)
      else let (fine, w1) = try_alloc sdk w in
        if \<not> fine then (raise ''Unable to add carrier entry'', w1)
        else carrier_entries sdk (Suc i) es (map_emplace (c_str k) (c_str v) c) w1)"

text \<open>A reader: its entries, whether one of its arrays is null, and its callback, which walks entries of
  its own with the function it is given.\<close>

record 's carrier_reader =
  cr_entries :: "(string option \<times> string option) list"
  cr_null_array :: bool
  cr_foreach_key :: "((string option \<Rightarrow> string option \<Rightarrow> 's \<Rightarrow> int \<times> 's) \<Rightarrow> 's \<Rightarrow> int \<times> 's) option"

definition otel_tracer_extract_carrier ::
  "('d, 'b, 't) sdk \<Rightarrow> string \<Rightarrow> otelc_tracer option \<Rightarrow> (carrier \<times> ('d, 'b, 't) world) carrier_reader option \<Rightarrow>
   ('d, 'b, 't) world \<Rightarrow> otelc_span_context outcome \<times> ('d, 'b, 't) world" where
  "otel_tracer_extract_carrier sdk carrier_name tracer reader w =
     (case tracer of
        None \<Rightarrow> (silent, w)
      | Some t \<Rightarrow>
          if \<not> tr_enabled t then (silent, w)
          else (case reader of
              None \<Rightarrow> (raise ''Invalid carrier'', w)
            | Some rdr \<Rightarrow>
                if cr_entries rdr \<noteq> [] \<and> cr_null_array rdr then (raise ''Invalid text map carrier data'', w)
                else
                  let (data, w1) = (case cr_foreach_key rdr of
                        None \<Rightarrow> carrier_entries sdk 0 (cr_entries rdr) [] w
                      | Some foreach \<Rightarrow> (case foreach (otel_tracer_extract_carrier_cb sdk) ([], w) of
                            (rc, c, w1) \<Rightarrow>
                              (if rc = OTELC_RET_ERROR
                               then raisef ''Unable to add a key-value pair to %s carrier'' [Arg_str carrier_name]
                               else Inr c, w1)))
                  in (case data of
                      Inl e \<Rightarrow> (Inl e, w1)
                    | Inr c \<Rightarrow> (case tr_impl t of
                          None \<Rightarrow> (raise ''Tracer propagator not configured'', w1)
                        | Some impl \<Rightarrow>
                            if \<not> ti_propagator impl then (raise ''Tracer propagator not configured'', w1)
                            else
                              let (fine, w2) = try_alloc sdk w1 in
                              if \<not> fine
                              then (raisef ''Unable to allocate memory for %s context'' [Arg_str carrier_name], w2)
                              else otel_span_context_add sdk (sdk_extract sdk c) w2))))"

definition otel_tracer_extract_text_map ::
  "('d, 'b, 't) sdk \<Rightarrow> otelc_tracer option \<Rightarrow> (carrier \<times> ('d, 'b, 't) world) carrier_reader option \<Rightarrow>
   ('d, 'b, 't) world \<Rightarrow> otelc_span_context outcome \<times> ('d, 'b, 't) world" where
  "otel_tracer_extract_text_map sdk = otel_tracer_extract_carrier sdk ''a text map''"

definition otel_tracer_extract_http_headers ::
  "('d, 'b, 't) sdk \<Rightarrow> otelc_tracer option \<Rightarrow> (carrier \<times> ('d, 'b, 't) world) carrier_reader option \<Rightarrow>
   ('d, 'b, 't) world \<Rightarrow> otelc_span_context outcome \<times> ('d, 'b, 't) world" where
  "otel_tracer_extract_http_headers sdk = otel_tracer_extract_carrier sdk ''an HTTP headers''"

section \<open>Switching, flushing and shutting down\<close>

definition otel_tracer_enabled ::
  "('d, 'b, 't) sdk \<Rightarrow> otelc_tracer option \<Rightarrow> ('d, 'b, 't) world \<Rightarrow> bool outcome" where
  "otel_tracer_enabled sdk tracer w =
     (case tracer of
        None \<Rightarrow> silent
      | Some t \<Rightarrow> (case tr_impl t of
            None \<Rightarrow> raise ''Invalid tracer''
          | Some impl \<Rightarrow>
              if \<not> ti_tracer impl then raise ''Invalid tracer''
              else if \<not> tr_enabled t then Inr False
              else Inr (sdk_tracer_enabled sdk (calls w))))"

definition otel_tracer_set_enabled :: "otelc_tracer option \<Rightarrow> bool \<Rightarrow> int outcome \<times> otelc_tracer option" where
  "otel_tracer_set_enabled tracer b =
     (case tracer of
        None \<Rightarrow> (silent, None)
      | Some t \<Rightarrow> (Inr OTELC_RET_OK, Some (t\<lparr>tr_enabled := b\<rparr>)))"

definition otel_tracer_set_flush_timeout ::
  "otelc_tracer option \<Rightarrow> int \<Rightarrow> int outcome \<times> otelc_tracer option" where
  "otel_tracer_set_flush_timeout tracer v =
     (case tracer of
        None \<Rightarrow> (silent, None)
      | Some t \<Rightarrow>
          if \<not> (0 \<le> v \<and> v \<le> OTELC_FLUSH_TIMEOUT_MS_MAX)
          then (raisef ''Invalid flush timeout: %d'' [Arg_int v], Some t)
          else (Inr OTELC_RET_OK, Some (t\<lparr>tr_flush_timeout := v\<rparr>)))"

text \<open>\<open>OTEL_PROVIDER_OP\<close>: \<open>op\<close> makes the SDK call, whose answer is asked of \<open>answer\<close>.  No timeout is
  the longest duration.\<close>

definition OTEL_PROVIDER_OP ::
  "(nat \<Rightarrow> int \<Rightarrow> ('d, 'b, 't) sdk_call) \<Rightarrow> (('d, 'b, 't) sdk_call list \<Rightarrow> bool) \<Rightarrow> string \<Rightarrow>
   nat option option \<Rightarrow> timespec option \<Rightarrow> ('d, 'b, 't) world \<Rightarrow> int outcome \<times> ('d, 'b, 't) world" where
  "OTEL_PROVIDER_OP op answer msg impl timeout w =
     (case impl of
        None \<Rightarrow> (raise msg, w)
      | Some None \<Rightarrow> (raise msg, w)
      | Some (Some p) \<Rightarrow>
          let us = (if timeout = None then LONG_MAX else timespec_to_duration_us timeout) in
          ((if answer (calls w) then Inr OTELC_RET_OK else raise msg), call (op p us) w))"

definition otel_tracer_force_flush ::
  "('d, 'b, 't) sdk \<Rightarrow> otelc_tracer option \<Rightarrow> timespec option \<Rightarrow> ('d, 'b, 't) world \<Rightarrow> int outcome \<times> ('d, 'b, 't) world" where
  "otel_tracer_force_flush sdk tracer timeout w =
     (case tracer of
        None \<Rightarrow> (silent, w)
      | Some t \<Rightarrow> OTEL_PROVIDER_OP ForceFlush (sdk_force_flush sdk) ''Unable to force flush tracer provider''
          (map_option ti_provider (tr_impl t)) timeout w)"

definition otel_tracer_shutdown ::
  "('d, 'b, 't) sdk \<Rightarrow> otelc_tracer option \<Rightarrow> timespec option \<Rightarrow> ('d, 'b, 't) world \<Rightarrow> int outcome \<times> ('d, 'b, 't) world" where
  "otel_tracer_shutdown sdk tracer timeout w =
     (case tracer of
        None \<Rightarrow> (silent, w)
      | Some t \<Rightarrow> OTEL_PROVIDER_OP ProviderShutdown (sdk_shutdown sdk) ''Unable to shut down tracer provider''
          (map_option ti_provider (tr_impl t)) timeout w)"

section \<open>Starting a tracer\<close>

text \<open>A build run in the world; an SDK object it creates is named by the number of allocations tried.\<close>

definition run_build :: "('d, 'b, 't) sdk \<Rightarrow> 'a build \<Rightarrow> ('d, 'b, 't) world \<Rightarrow> 'a outcome \<times> ('d, 'b, 't) world" where
  "run_build sdk m w = (case m (oom sdk) (tried w) of (r, n) \<Rightarrow> (r, w\<lparr>tried := n\<rparr>))"

definition numbered :: "'a build \<Rightarrow> (nat \<times> 'a) build" where
  "numbered m = (\<lambda>orc n. case m orc n of (Inl e, n') \<Rightarrow> (Inl e, n') | (Inr x, n') \<Rightarrow> (Inr (n', x), n'))"

definition of_result :: "'a result \<Rightarrow> 'a build" where
  "of_result r = (\<lambda>orc n. (lift_result r, n))"

text \<open>The throwing container operation of the \<open>try\<close> blocks.\<close>

definition or_throw :: "string \<Rightarrow> unit build" where
  "or_throw f = bbind (make_nothrow ()) (or_stop f)"

type_synonym pipeline = "(nat \<times> exporter) list \<times> processor list"

definition add_pipeline ::
  "'d :: ord cfg \<Rightarrow> string option \<Rightarrow> string option \<Rightarrow> pipeline \<Rightarrow> pipeline build" where
  "add_pipeline c exporter_name processor_name p =
     bbind (numbered (otel_tracer_exporter_create (Some c) exporter_name)) (\<lambda>(xid, e).
     bbind (otel_tracer_processor_create (Some c) e processor_name) (\<lambda>proc.
     bbind (or_throw ''Unable to add processor'') (\<lambda>_. give (fst p @ [(xid, e)], snd p @ [proc]))))"

text \<open>The name of the exporter paired with processor \<open>i\<close>: the last one serves the rest.\<close>

definition exporter_name_at :: "'d cfg \<Rightarrow> string \<Rightarrow> int \<Rightarrow> int \<Rightarrow> string build" where
  "exporter_name_at c path_e count_exporters i =
     (if \<not> yaml_is_sequence (cf_fyd c) (Some path_e) then give []
      else if i < count_exporters
      then of_result (yaml_get_sequence_value (cf_fyd c) (Some path_e) i (Some OTEL_YAML_BUFSIZ))
      else if count_exporters > 0
      then of_result (yaml_get_sequence_value (cf_fyd c) (Some path_e) (count_exporters - 1) (Some OTEL_YAML_BUFSIZ))
      else give [])"

fun pipeline_loop ::
  "'d :: ord cfg \<Rightarrow> string \<Rightarrow> string \<Rightarrow> int \<Rightarrow> nat list \<Rightarrow> pipeline \<Rightarrow> pipeline build" where
  "pipeline_loop c path_p path_e count_exporters [] p = give p"
| "pipeline_loop c path_p path_e count_exporters (i # is) p =
     bbind (of_result (yaml_get_sequence_value (cf_fyd c) (Some path_p) (int i) (Some OTEL_YAML_BUFSIZ)))
       (\<lambda>processor_name.
     bbind (exporter_name_at c path_e count_exporters (int i)) (\<lambda>exporter_name.
     bbind (add_pipeline c (Some exporter_name) (Some processor_name) p)
       (pipeline_loop c path_p path_e count_exporters is)))"

definition tracer_pipeline :: "'d :: ord cfg \<Rightarrow> pipeline build" where
  "tracer_pipeline c =
     (let path_p = OTEL_YAML_PATH c OTEL_YAML_PROCESSORS; path_e = OTEL_YAML_PATH c OTEL_YAML_EXPORTERS in
      if yaml_is_sequence (cf_fyd c) (Some path_p)
      then bbind (of_result (yaml_get_sequence_len (cf_fyd c) (Some path_p))) (\<lambda>count.
           bbind (if yaml_is_sequence (cf_fyd c) (Some path_e)
                  then of_result (yaml_get_sequence_len (cf_fyd c) (Some path_e)) else give 0) (\<lambda>count_exporters.
           pipeline_loop c path_p path_e count_exporters [0..<nat count] ([], [])))
      else add_pipeline c None None ([], []))"

text \<open>The files of the exporters that write one.\<close>

fun exporter_file :: "exporter \<Rightarrow> string option" where
  "exporter_file (Exp_ostream (File_exporter f)) = Some f"
| "exporter_file _ = None"

fun otel_exporter_files_open ::
  "('d, 'b, 't) sdk \<Rightarrow> (nat \<times> exporter) list \<Rightarrow> ('d, 'b, 't) world \<Rightarrow> unit outcome \<times> ('d, 'b, 't) world" where
  "otel_exporter_files_open sdk [] w = (Inr (), w)"
| "otel_exporter_files_open sdk ((xid, e) # es) w =
     (case exporter_file e of
        None \<Rightarrow> otel_exporter_files_open sdk es w
      | Some f \<Rightarrow>
          if file_opens sdk (calls w) f then otel_exporter_files_open sdk es (call (OpenFile xid f) w)
          else (raisef ''%s: %s'' [Arg_str f, Arg_str (os_error sdk)], call (OpenFile xid f) w))"

fun otel_exporter_files_truncate :: "(nat \<times> exporter) list \<Rightarrow> ('d, 'b, 't) world \<Rightarrow> ('d, 'b, 't) world" where
  "otel_exporter_files_truncate [] w = w"
| "otel_exporter_files_truncate ((xid, e) # es) w =
     otel_exporter_files_truncate es (case exporter_file e of None \<Rightarrow> w | Some f \<Rightarrow> call (TruncateFile xid f) w)"

definition shutdown_exporters :: "nat list \<Rightarrow> ('d, 'b, 't) world \<Rightarrow> ('d, 'b, 't) world" where
  "shutdown_exporters es w = fold (\<lambda>e. call (ExporterShutdown e)) es w"

definition release_provider :: "nat option \<Rightarrow> ('d, 'b, 't) world \<Rightarrow> ('d, 'b, 't) world" where
  "release_provider p w = (case p of None \<Rightarrow> w | Some p \<Rightarrow> call (ReleaseProvider p) w)"

text \<open>The previous pipeline is flushed before the files are reopened; its answer is ignored.\<close>

definition flush_previous :: "otelc_tracer \<Rightarrow> tracer_impl \<Rightarrow> ('d, 'b, 't) world \<Rightarrow> ('d, 'b, 't) world" where
  "flush_previous t impl w =
     (case ti_provider impl of
        None \<Rightarrow> w
      | Some p \<Rightarrow>
          if tr_flush_timeout t > 0
          then call (ForceFlush p (1000 * otel_tracer_flush_budget (tr_flush_timeout t)
                 (of_nat (length (ti_exporters impl))))) w
          else w)"

text \<open>The propagators: two parts, the list they are put in, the composite.\<close>

definition make_propagator :: "unit build" where
  "make_propagator =
     bbind (make_nothrow ()) (\<lambda>http. bbind (make_nothrow ()) (\<lambda>baggage.
     if http = None \<or> baggage = None then stop ''Unable to allocate memory for propagators'' []
     else bbind (or_throw ''Unable to add propagator'') (\<lambda>_.
       bbind (make_nothrow ()) (or_stop ''Unable to allocate memory for composite propagator''))))"

text \<open>The installation: two reference counts are allocated; a failure drops whatever is installed, the
  previous propagator excepted.  \<open>ReleaseProvider\<close> is the drop of an installed provider; a provider that
  was never installed (its reference count could not be allocated, or the start failed earlier) is
  destroyed by the pointer that owns it, which is no call of the list.\<close>

definition install_tracer ::
  "('d, 'b, 't) sdk \<Rightarrow> nat \<Rightarrow> (nat \<times> exporter) list \<Rightarrow> tracer_impl \<Rightarrow> ('d, 'b, 't) world \<Rightarrow>
   unit outcome \<times> tracer_impl \<times> ('d, 'b, 't) world" where
  "install_tracer sdk provider exporters impl w =
     (let (fine1, w1) = try_alloc sdk w; w2 = release_provider (ti_provider impl) w1;
          cleared = impl\<lparr>ti_provider := None, ti_tracer := False, ti_exporters := []\<rparr> in
      if \<not> fine1 then (raise ''Unable to install tracer state'', cleared, w2)
      else let (fine2, w3) = try_alloc sdk w2 in
        if \<not> fine2 then (raise ''Unable to install tracer state'', cleared, release_provider (Some provider) w3)
        else (Inr (), \<lparr>ti_provider = Some provider, ti_tracer = True, ti_propagator = True,
                ti_exporters = map fst exporters\<rparr>, w3))"

definition swap_pipeline ::
  "('d, 'b, 't) sdk \<Rightarrow> nat \<Rightarrow> (nat \<times> exporter) list \<Rightarrow> tracer_impl \<Rightarrow> ('d, 'b, 't) world \<Rightarrow>
   unit outcome \<times> tracer_impl \<times> ('d, 'b, 't) world" where
  "swap_pipeline sdk provider exporters impl w =
     (if \<not> sdk_get_tracer sdk (calls w) then (raise ''Unable to get tracer from provider'', impl, w)
      else (case run_build sdk make_propagator w of
          (Inl e, w1) \<Rightarrow> (Inl e, impl, w1)
        | (Inr _, w1) \<Rightarrow> (case otel_exporter_files_open sdk exporters w1 of
              (Inl e, w2) \<Rightarrow> (Inl e, impl, w2)
            | (Inr _, w2) \<Rightarrow>
                install_tracer sdk provider exporters impl
                  (otel_exporter_files_truncate exporters (shutdown_exporters (ti_exporters impl) w2)))))"

text \<open>The scope name and the flush timeout: \<open>Inl\<close> an early return, with its value.\<close>

definition read_start_options ::
  "('d, 'b, 't) sdk \<Rightarrow> 'e cfg \<Rightarrow> otelc_tracer \<Rightarrow> ('d, 'b, 't) world \<Rightarrow>
   (int outcome + unit) \<times> otelc_tracer \<times> ('d, 'b, 't) world" where
  "read_start_options sdk c t w =
     (case yaml_find (cf_fyd c) True (Some ''OpenTelemetry tracer instrumentation scope'')
             (Some (OTEL_YAML_PATH c ''/scope_name'')) (Some OTEL_YAML_BUFSIZ) of
        Inl e \<Rightarrow> (Inl (Inl (Some e)), t, w)
      | Inr None \<Rightarrow> (Inl (Inr 0), t, w)
      | Inr (Some scope_name) \<Rightarrow>
          let (fine, w1) = try_alloc sdk w in
          if \<not> fine
          then (Inl (raise ''Unable to allocate memory for scope name''), t\<lparr>tr_scope_name := None\<rparr>, w1)
          else
            let t1 = t\<lparr>tr_scope_name := Some scope_name\<rparr> in
            (case yaml_find (cf_fyd c) False (Some ''OpenTelemetry tracer flush timeout'')
                    (Some (OTEL_YAML_PATH c ''/flush_timeout'')) (Some OTEL_YAML_BUFSIZ) of
               Inr (Some s) \<Rightarrow>
                 (case otelc_strtoi (Some s) True True 0 0 OTELC_FLUSH_TIMEOUT_MS_MAX of
                    Strtoi_ok v _ \<Rightarrow> (Inr (), t1\<lparr>tr_flush_timeout := v\<rparr>, w1)
                  | _ \<Rightarrow> (Inl (raisef ''%s: invalid flush timeout'' [Arg_str s]), t1, w1))
             | _ \<Rightarrow> (Inr (), t1, w1)))"

text \<open>\<open>None\<close>: a tracer without a prefix would print a null pointer.\<close>

definition otel_tracer_start ::
  "('d, 'b, 't) sdk \<Rightarrow> 'e :: {zero, one, ord} cfg \<Rightarrow> otelc_tracer option \<Rightarrow> ('d, 'b, 't) world \<Rightarrow>
   (int outcome \<times> otelc_tracer option \<times> ('d, 'b, 't) world) option" where
  "otel_tracer_start sdk ctx tracer w =
     (case tracer of
        None \<Rightarrow> Some (silent, None, w)
      | Some t \<Rightarrow> (case tr_yaml_prefix t of
            None \<Rightarrow> None
          | Some prefix \<Rightarrow>
              let c = ctx\<lparr>cf_prefix := prefix\<rparr> in
              Some (case read_start_options sdk c t w of
                (Inl r, t1, w1) \<Rightarrow> (r, Some t1, w1)
              | (Inr _, t1, w1) \<Rightarrow> (case run_build sdk (otel_sampler_create (Some c)) w1 of
                    (Inl e, w2) \<Rightarrow> (Inl e, Some t1, w2)
                  | (Inr smp, w2) \<Rightarrow> (case tr_impl t1 of
                        None \<Rightarrow> (raise ''Tracer implementation state not allocated'', Some t1, w2)
                      | Some impl \<Rightarrow>
                          (case run_build sdk (bbind (tracer_pipeline c) (\<lambda>(exporters, processors).
                                 bbind (numbered (otel_tracer_provider_create (Some c) processors smp))
                                   (\<lambda>(provider, _). give (exporters, provider))))
                                 (flush_previous t1 impl w2) of
                             (Inl e, w3) \<Rightarrow> (Inl e, Some t1, w3)
                           | (Inr (exporters, provider), w3) \<Rightarrow>
                               (case swap_pipeline sdk provider exporters impl w3 of
                                  (Inl e, impl1, w4) \<Rightarrow> (Inl e, Some (t1\<lparr>tr_impl := Some impl1\<rparr>), w4)
                                | (Inr _, impl1, w4) \<Rightarrow>
                                    (Inr OTELC_RET_OK, Some (t1\<lparr>tr_impl := Some impl1\<rparr>), w4))))))))"

section \<open>Creating and destroying a tracer\<close>

text \<open>\<open>in_time\<close>: the flush came back before the deadline.\<close>

definition otel_tracer_destroy ::
  "('d, 'b, 't) sdk \<Rightarrow> timespec \<Rightarrow> bool \<Rightarrow> otelc_tracer option \<Rightarrow> ('d, 'b, 't) world \<Rightarrow> ('d, 'b, 't) world" where
  "otel_tracer_destroy sdk now in_time tracer w =
     (case tracer of
        None \<Rightarrow> w
      | Some t \<Rightarrow>
          let w1 = otel_tracer_unregister now w in
          (case tr_impl t of
             None \<Rightarrow> w1
           | Some impl \<Rightarrow>
               let (flushed, w2) = (case ti_provider impl of
                     None \<Rightarrow> (False, w1)
                   | Some p \<Rightarrow>
                       if tr_flush_timeout t > 0
                       then (sdk_force_flush sdk (calls w1) \<and> in_time,
                             call (ForceFlush p (1000 * otel_tracer_flush_budget (tr_flush_timeout t)
                               (of_nat (length (ti_exporters impl))))) w1)
                       else (False, w1));
                   w3 = (if flushed then w2 else shutdown_exporters (ti_exporters impl) w2)
               in release_provider (ti_provider impl) w3))"

definition otel_tracer_new ::
  "('d, 'b, 't) sdk \<Rightarrow> ('d, 'b, 't) world \<Rightarrow> otelc_tracer option \<times> ('d, 'b, 't) world" where
  "otel_tracer_new sdk w =
     (let (fine1, w1) = try_alloc sdk w in
      if \<not> fine1 then (None, w1)
      else let (fine2, w2) = try_alloc sdk w1 in
        if \<not> fine2 then (None, w2)
        else (Some \<lparr>tr_enabled = True, tr_flush_timeout = OTELC_FLUSH_TIMEOUT_MS, tr_scope_name = None,
                 tr_yaml_prefix = None,
                 tr_impl = Some \<lparr>ti_provider = None, ti_tracer = False, ti_propagator = False, ti_exporters = []\<rparr>\<rparr>, w2))"

text \<open>\<open>ctx\<close> with the name it selects; the tracer destroyed on a failure has no provider to flush.\<close>

definition otelc_tracer_create ::
  "('d, 'b, 't) sdk \<Rightarrow> size_t \<Rightarrow> timespec \<Rightarrow> ('e cfg \<times> string option) option \<Rightarrow> ('d, 'b, 't) world \<Rightarrow>
   otelc_tracer outcome \<times> ('d, 'b, 't) world" where
  "otelc_tracer_create sdk num_shards now ctx w =
     (case ctx of
        None \<Rightarrow> (raise ''Invalid context'', w)
      | Some (c, name) \<Rightarrow> (case otel_tracer_new sdk w of
            (None, w1) \<Rightarrow> (raise ''Unable to allocate memory for tracer'', w1)
          | (Some t, w1) \<Rightarrow> (case otel_tracer_register sdk num_shards w1 of
                (rc, w2) \<Rightarrow>
                  if rc = OTELC_RET_ERROR
                  then (raise ''Unable to allocate memory for tracer handle'',
                        otel_tracer_destroy sdk now True (Some t) w2)
                  else (case yaml_resolve_prefix (cf_map_oom c) (cf_fyd c) (Some ''/signals/traces'') name
                          (Some OTEL_YAML_NAME_DEFAULT) True of
                      Inl e \<Rightarrow> (Inl (Some e), otel_tracer_destroy sdk now True (Some t) w2)
                    | Inr prefix \<Rightarrow> (Inr (t\<lparr>tr_yaml_prefix := Some prefix\<rparr>), w2)))))"

end
