(* ===== verification/Otel_Meter.thy ===== *)
theory Otel_Meter
  imports Otel_Tracer
begin

text \<open>
  Meters (\<open>src/meter.cpp\<close>, \<open>include/meter.h\<close>): views, instruments with their index by name, the
  recording of values, the callbacks of observable instruments, starting and destroying a meter.
  The two handle maps and the index live in the instance.  An outer \<open>None\<close> is undefined behaviour:
  an instance without its implementation, a union member read under another tag, a null key.
\<close>

section \<open>Types\<close>

definition instrument_types :: "otelc_metric_instrument_t list" where
  "instrument_types =
     [COUNTER_UINT64, COUNTER_DOUBLE, HISTOGRAM_UINT64, HISTOGRAM_DOUBLE, UDCOUNTER_INT64, UDCOUNTER_DOUBLE,
      OBSERVABLE_COUNTER_INT64, OBSERVABLE_COUNTER_DOUBLE, OBSERVABLE_GAUGE_INT64, OBSERVABLE_GAUGE_DOUBLE,
      OBSERVABLE_UDCOUNTER_INT64, OBSERVABLE_UDCOUNTER_DOUBLE, GAUGE_INT64, GAUGE_DOUBLE]"

text \<open>The enumerator of an \<open>int\<close>, if it is one.\<close>

definition metric_instrument :: "int \<Rightarrow> otelc_metric_instrument_t option" where
  "metric_instrument t = (if 0 \<le> t \<and> t < 14 then Some (instrument_types ! nat t) else None)"

definition aggregation_names :: "(string \<times> otelc_metric_aggregation_type_t) list" where
  "aggregation_names =
     [(''drop'', AGGR_DROP), (''histogram'', AGGR_HISTOGRAM), (''last_value'', AGGR_LAST_VALUE), (''sum'', AGGR_SUM),
      (''default'', AGGR_DEFAULT), (''exp_histogram'', AGGR_BASE2_EXPONENTIAL_HISTOGRAM)]"

definition metric_aggregation :: "int \<Rightarrow> otelc_metric_aggregation_type_t option" where
  "metric_aggregation a = (if 0 \<le> a \<and> a < 6 then Some (snd (aggregation_names ! nat a)) else None)"

definition otelc_meter_aggr_parse :: "string option \<Rightarrow> otelc_metric_aggregation_type_t option" where
  "otelc_meter_aggr_parse name =
     (case name of
        None \<Rightarrow> None
      | Some s \<Rightarrow> map_option snd (find (\<lambda>(n, _). strcasecmp_eq n s) aggregation_names))"

fun otel_meter_instrument_type_map :: "otelc_metric_instrument_t \<Rightarrow> sdk_instrument_type" where
  "otel_meter_instrument_type_map COUNTER_UINT64 = kCounter"
| "otel_meter_instrument_type_map COUNTER_DOUBLE = kCounter"
| "otel_meter_instrument_type_map HISTOGRAM_UINT64 = kHistogram"
| "otel_meter_instrument_type_map HISTOGRAM_DOUBLE = kHistogram"
| "otel_meter_instrument_type_map UDCOUNTER_INT64 = kUpDownCounter"
| "otel_meter_instrument_type_map UDCOUNTER_DOUBLE = kUpDownCounter"
| "otel_meter_instrument_type_map OBSERVABLE_COUNTER_INT64 = kObservableCounter"
| "otel_meter_instrument_type_map OBSERVABLE_COUNTER_DOUBLE = kObservableCounter"
| "otel_meter_instrument_type_map OBSERVABLE_GAUGE_INT64 = kObservableGauge"
| "otel_meter_instrument_type_map OBSERVABLE_GAUGE_DOUBLE = kObservableGauge"
| "otel_meter_instrument_type_map OBSERVABLE_UDCOUNTER_INT64 = kObservableUpDownCounter"
| "otel_meter_instrument_type_map OBSERVABLE_UDCOUNTER_DOUBLE = kObservableUpDownCounter"
| "otel_meter_instrument_type_map GAUGE_INT64 = kGauge"
| "otel_meter_instrument_type_map GAUGE_DOUBLE = kGauge"

text \<open>\<open>OTEL_METRIC_INSTRUMENT_IS_OBSERVABLE\<close>, on the \<open>int\<close> and on an enumerator.\<close>

definition int_is_observable :: "int \<Rightarrow> bool" where
  "int_is_observable t \<longleftrightarrow> 6 \<le> t \<and> t \<le> 11"

text \<open>The adapter \<open>OTEL_METER_OBSERVABLE_DISPATCH\<close> picks; a synchronous type has none.\<close>

fun observable_adapter :: "otelc_metric_instrument_t \<Rightarrow> observable_cb option" where
  "observable_adapter OBSERVABLE_COUNTER_INT64 = Some Int64_cb"
| "observable_adapter OBSERVABLE_COUNTER_DOUBLE = Some Double_cb"
| "observable_adapter OBSERVABLE_GAUGE_INT64 = Some Int64_cb"
| "observable_adapter OBSERVABLE_GAUGE_DOUBLE = Some Double_cb"
| "observable_adapter OBSERVABLE_UDCOUNTER_INT64 = Some Int64_cb"
| "observable_adapter OBSERVABLE_UDCOUNTER_DOUBLE = Some Double_cb"
| "observable_adapter _ = None"

definition is_observable :: "otelc_metric_instrument_t \<Rightarrow> bool" where
  "is_observable ty \<longleftrightarrow> observable_adapter ty \<noteq> None"

section \<open>State\<close>

record instrument_handle =
  ih_name :: string
  ih_type :: otelc_metric_instrument_t
  ih_object :: nat

record 'd view_handle =
  vh_name :: string
  vh_desc :: string
  vh_instrument_name :: string
  vh_instrument_unit :: string
  vh_type :: otelc_metric_instrument_t
  vh_aggregation :: otelc_metric_aggregation_type_t
  vh_bounds :: "'d list"

text \<open>\<open>mi_meter\<close> is the provider the SDK meter was obtained from.\<close>

record 'd meter_impl =
  mi_provider :: "nat option"
  mi_meter :: "nat option"
  mi_instrument :: "instrument_handle otel_handle"
  mi_view :: "'d view_handle otel_handle"
  mi_index :: "(string \<times> int64) list"
  mi_exporters :: "nat list"

record 'd otelc_meter =
  mt_enabled :: bool
  mt_flush_timeout :: int
  mt_scope_name :: "string option"
  mt_yaml_prefix :: "string option"
  mt_impl :: "'d meter_impl option"

text \<open>A container's \<open>emplace\<close> whose allocation went well; the peak size is refreshed separately.\<close>

definition map_emplace :: "int64 \<Rightarrow> 'a \<Rightarrow> 'a otel_handle \<Rightarrow> 'a otel_handle \<times> bool" where
  "map_emplace k v h = (case shard_emplace k v (get_shard h k) of (m, fresh) \<Rightarrow> (set_shard k m h, fresh))"

section \<open>Views\<close>

definition otel_meter_get_view_id :: "'d view_handle otel_handle \<Rightarrow> string \<Rightarrow> int64 option" where
  "otel_meter_get_view_id views name =
     map_option fst (find (\<lambda>(_, v). strcasecmp_eq (vh_name v) name) (handle_entries views))"

text \<open>The SDK objects of a view: the boundaries' configuration, two selectors, the view.\<close>

definition bounds_config :: "'d list \<Rightarrow> 'd list option build" where
  "bounds_config bounds =
     (if bounds = [] then give None
      else bbind (make_nothrow ()) (\<lambda>config.
           bbind (or_throw ''Unable to create histogram aggregation config'') (\<lambda>_.
           bbind (or_stop ''Unable to allocate memory for histogram aggregation config'' config) (\<lambda>_.
           bbind (or_throw ''Unable to add histogram view boundaries'') (\<lambda>_. give (Some bounds))))))"

definition view_objects :: "string \<Rightarrow> 'd view_handle \<Rightarrow> 'd sdk_view build" where
  "view_objects scope v =
     bbind (bounds_config (vh_bounds v)) (\<lambda>config.
     bbind (make_nothrow ()) (\<lambda>instrument_selector.
     bbind (or_stop ''Unable to allocate memory for instrument selector'' instrument_selector) (\<lambda>_.
     bbind (make_nothrow ()) (\<lambda>meter_selector.
     bbind (or_stop ''Unable to allocate memory for meter selector'' meter_selector) (\<lambda>_.
     bbind (make_nothrow \<lparr>sv_type = otel_meter_instrument_type_map (vh_type v),
              sv_instrument_name = vh_instrument_name v, sv_instrument_unit = vh_instrument_unit v,
              sv_scope = scope, sv_name = vh_name v, sv_desc = vh_desc v,
              sv_aggregation = vh_aggregation v, sv_bounds = config\<rparr>)
           (or_stop ''Unable to allocate memory for view''))))))"

definition otel_meter_view_register ::
  "('d, 'b, 't) sdk \<Rightarrow> string option \<Rightarrow> nat option \<Rightarrow> 'd view_handle option \<Rightarrow> ('d, 'b, 't) world \<Rightarrow>
   int outcome \<times> ('d, 'b, 't) world" where
  "otel_meter_view_register sdk scope_name provider view w =
     (case (provider, view, scope_name) of
        (None, _, _) \<Rightarrow> (raise ''Unable to get meter provider'', w)
      | (Some _, None, _) \<Rightarrow> (raise ''Invalid view handle'', w)
      | (Some _, Some _, None) \<Rightarrow> (raise ''Meter instrumentation scope name not set'', w)
      | (Some p, Some v, Some scope) \<Rightarrow> (case run_build sdk (view_objects scope v) w of
            (Inl e, w1) \<Rightarrow> (Inl e, w1)
          | (Inr sv, w1) \<Rightarrow> (Inr OTELC_RET_OK, call (AddView p sv) w1)))"

text \<open>The checks of \<open>otel_meter_add_view\<close> on its arguments.\<close>

definition view_arguments ::
  "int \<Rightarrow> int \<Rightarrow> 'd list option \<Rightarrow> nat \<Rightarrow> (otelc_metric_instrument_t \<times> otelc_metric_aggregation_type_t) outcome" where
  "view_arguments instrument_type aggregation_type bounds bounds_num =
     (case (metric_instrument instrument_type, metric_aggregation aggregation_type) of
        (None, _) \<Rightarrow> raisef ''Invalid OpenTelemetry meter instrument type: %d'' [Arg_int instrument_type]
      | (Some _, None) \<Rightarrow> raisef ''Invalid OpenTelemetry meter aggregation type: %d'' [Arg_int aggregation_type]
      | (Some ty, Some aggr) \<Rightarrow>
          if bounds = None \<and> bounds_num > 0
          then raisef ''Invalid histogram view boundaries: no array for %zu entries'' [Arg_int (int bounds_num)]
          else if bounds \<noteq> None \<and> bounds_num = 0
          then raise ''Invalid number of histogram view boundaries: 0''
          else if bounds \<noteq> None \<and> otel_meter_instrument_type_map ty \<noteq> kHistogram
          then raisef ''Histogram view boundaries given for a non-histogram instrument type: %d'' [Arg_int instrument_type]
          else if bounds \<noteq> None \<and> aggr \<noteq> AGGR_DEFAULT \<and> aggr \<noteq> AGGR_HISTOGRAM
          then raisef ''Histogram view boundaries given for a non-histogram aggregation type: %d'' [Arg_int aggregation_type]
          else Inr (ty, aggr))"

text \<open>The part under the exclusive lock: record the view, then register it, undoing the record on a
  failure.\<close>

definition insert_view ::
  "('d, 'b, 't) sdk \<Rightarrow> string option \<Rightarrow> nat \<Rightarrow> 'd view_handle \<Rightarrow> 'd meter_impl \<Rightarrow> ('d, 'b, 't) world \<Rightarrow>
   int64 outcome \<times> 'd meter_impl \<times> ('d, 'b, 't) world" where
  "insert_view sdk scope_name provider v impl w =
     (let (fine1, w1) = try_alloc sdk w in
      if \<not> fine1 then (raise ''Unable to allocate memory for view handle'', impl, w1)
      else let (fine2, w2) = try_alloc sdk w1 in
        if \<not> fine2 then (raise ''Unable to allocate memory for view handle specification'', impl, w2)
        else let (fine3, w3) = try_alloc sdk w2 in
          if \<not> fine3 then (raise ''Unable to add meter instrument view'', impl, w3)
          else (case map_emplace (hid (mi_view impl)) v (mi_view impl) of
              (views, False) \<Rightarrow>
                (raisef ''Unable to add meter instrument view: duplicate id %ld'' [Arg_int (sint (hid (mi_view impl)))], impl, w3)
            | (views, True) \<Rightarrow> (case otel_meter_view_register sdk scope_name (Some provider) (Some v) w3 of
                  (Inl e, w4) \<Rightarrow> (Inl e, impl\<lparr>mi_view := handle_erase (hid (mi_view impl)) views\<rparr>, w4)
                | (Inr _, w4) \<Rightarrow>
                    (Inr (hid views),
                     impl\<lparr>mi_view := (update_peak_size 0 views)\<lparr>hid := hid views + 1\<rparr>\<rparr>, w4))))"

definition otel_meter_add_view ::
  "('d, 'b, 't) sdk \<Rightarrow> 'd otelc_meter option \<Rightarrow> string option \<Rightarrow> string option \<Rightarrow> string option \<Rightarrow> string option \<Rightarrow>
   int \<Rightarrow> int \<Rightarrow> 'd list option \<Rightarrow> nat \<Rightarrow> ('d, 'b, 't) world \<Rightarrow>
   (int64 outcome \<times> 'd otelc_meter option \<times> ('d, 'b, 't) world) option" where
  "otel_meter_add_view sdk meter view_name view_desc instrument_name instrument_unit instrument_type
     aggregation_type bounds bounds_num w =
     (case meter of
        None \<Rightarrow> Some (silent, None, w)
      | Some m \<Rightarrow>
          if \<not> mt_enabled m then Some (silent, Some m, w)
          else (case (view_name, instrument_name) of
              (None, _) \<Rightarrow> Some (raise ''Invalid view name'', Some m, w)
            | (Some _, None) \<Rightarrow> Some (raise ''Invalid instrument name'', Some m, w)
            | (Some vname, Some iname) \<Rightarrow>
                (case view_arguments instrument_type aggregation_type bounds bounds_num of
                   Inl e \<Rightarrow> Some (Inl e, Some m, w)
                 | Inr (ty, aggr) \<Rightarrow> (case mt_impl m of
                     None \<Rightarrow> None
                   | Some impl \<Rightarrow> Some (case otel_meter_get_view_id (mi_view impl) vname of
                       Some view_id \<Rightarrow> (Inr view_id, Some m, w)
                     | None \<Rightarrow>
                         if mt_scope_name m = None
                         then (raise ''Meter instrumentation scope name not set'', Some m, w)
                         else (case mi_provider impl of
                             None \<Rightarrow> (raise ''Unable to get meter provider'', Some m, w)
                           | Some provider \<Rightarrow>
                               (case insert_view sdk (mt_scope_name m) provider
                                      \<lparr>vh_name = vname, vh_desc = c_str view_desc, vh_instrument_name = iname,
                                       vh_instrument_unit = c_str instrument_unit, vh_type = ty, vh_aggregation = aggr,
                                       vh_bounds = take bounds_num (case bounds of None \<Rightarrow> [] | Some bs \<Rightarrow> bs)\<rparr> impl w of
                                  (r, impl1, w1) \<Rightarrow> (r, Some (m\<lparr>mt_impl := Some impl1\<rparr>), w1))))))))"

section \<open>Instruments\<close>

fun int_string :: "int \<Rightarrow> string" where
  "int_string i = (if i < 0 then CHR ''-'' # dec_string (nat (- i)) else dec_string (nat i))"

text \<open>The key of an instrument: its name folded to lower case, a slash, its type.  It is empty when its
  buffer cannot be allocated.\<close>

definition instrument_key :: "string \<Rightarrow> int \<Rightarrow> string" where
  "instrument_key name type = map to_lower name @ CHR ''/'' # int_string type"

definition otel_meter_instrument_key ::
  "('d, 'b, 't) sdk \<Rightarrow> string \<Rightarrow> int \<Rightarrow> ('d, 'b, 't) world \<Rightarrow> string \<times> ('d, 'b, 't) world" where
  "otel_meter_instrument_key sdk name type w =
     (let (fine, w1) = try_alloc sdk w in (if fine then instrument_key name type else [], w1))"

definition otel_nolock_meter_find_instrument :: "'d meter_impl \<Rightarrow> string \<Rightarrow> int64 option" where
  "otel_nolock_meter_find_instrument impl key = map_of (mi_index impl) key"

definition otel_meter_get_instrument ::
  "('d, 'b, 't) sdk \<Rightarrow> 'd otelc_meter option \<Rightarrow> string option \<Rightarrow> int \<Rightarrow> ('d, 'b, 't) world \<Rightarrow>
   (int64 outcome \<times> ('d, 'b, 't) world) option" where
  "otel_meter_get_instrument sdk meter name type w =
     (case meter of
        None \<Rightarrow> Some (silent, w)
      | Some m \<Rightarrow> (case name of
            None \<Rightarrow> Some (raise ''Invalid instrument name'', w)
          | Some s \<Rightarrow> (case otel_meter_instrument_key sdk s type w of
                (key, w1) \<Rightarrow>
                  if key = [] then Some (raise ''Unable to allocate memory for instrument key'', w1)
                  else (case mt_impl m of
                      None \<Rightarrow> None
                    | Some impl \<Rightarrow> (case otel_nolock_meter_find_instrument impl key of
                          Some instrument_id \<Rightarrow> Some (Inr instrument_id, w1)
                        | None \<Rightarrow> Some (raisef ''Instrument not found: %s type %d'' [Arg_str s, Arg_int type], w1))))))"

text \<open>Callbacks: \<open>data\<close> is the address of a descriptor.\<close>

definition otel_nolock_meter_add_instrument_callback ::
  "instrument_handle \<Rightarrow> nat option \<Rightarrow> ('d, 'b, 't) world \<Rightarrow> int outcome \<times> ('d, 'b, 't) world" where
  "otel_nolock_meter_add_instrument_callback instrument data w =
     (case data of
        None \<Rightarrow> (raise ''Invalid observable callback descriptor'', w)
      | Some d \<Rightarrow>
          (Inr OTELC_RET_OK, case observable_adapter (ih_type instrument) of
             None \<Rightarrow> w | Some cb \<Rightarrow> call (AddCallback (ih_object instrument) cb d) w))"

text \<open>\<open>OTEL_LOCK_INSTRUMENT_HANDLE\<close>: \<open>idx\<close> is an \<open>int\<close>.\<close>

definition with_instrument ::
  "'d otelc_meter \<Rightarrow> int32 \<Rightarrow> ('d, 'b, 't) world \<Rightarrow>
   (instrument_handle \<Rightarrow> ('a outcome \<times> ('d, 'b, 't) world) option) \<Rightarrow> ('a outcome \<times> ('d, 'b, 't) world) option" where
  "with_instrument m idx w k =
     (case mt_impl m of
        None \<Rightarrow> None
      | Some impl \<Rightarrow> (case otel_map_find (mi_instrument impl) (scast idx) of
            None \<Rightarrow> Some (raisef ''Invalid OpenTelemetry meter instrument index: %d'' [Arg_int (sint idx)], w)
          | Some h \<Rightarrow> k h))"

definition otel_meter_add_instrument_callback ::
  "'d otelc_meter option \<Rightarrow> int32 \<Rightarrow> nat option \<Rightarrow> ('d, 'b, 't) world \<Rightarrow>
   (int outcome \<times> ('d, 'b, 't) world) option" where
  "otel_meter_add_instrument_callback meter idx data w =
     (case meter of
        None \<Rightarrow> Some (silent, w)
      | Some m \<Rightarrow>
          if data = None then Some (raise ''Invalid observable callback descriptor'', w)
          else with_instrument m idx w (\<lambda>h. Some (otel_nolock_meter_add_instrument_callback h data w)))"

definition otel_meter_remove_instrument_callback ::
  "'d otelc_meter option \<Rightarrow> int32 \<Rightarrow> nat option \<Rightarrow> ('d, 'b, 't) world \<Rightarrow>
   (int outcome \<times> ('d, 'b, 't) world) option" where
  "otel_meter_remove_instrument_callback meter idx data w =
     (case meter of
        None \<Rightarrow> Some (silent, w)
      | Some m \<Rightarrow> (case data of
            None \<Rightarrow> Some (raise ''Invalid observable callback descriptor'', w)
          | Some d \<Rightarrow> with_instrument m idx w (\<lambda>h. Some (Inr OTELC_RET_OK,
              case observable_adapter (ih_type h) of
                None \<Rightarrow> w | Some cb \<Rightarrow> call (RemoveCallback (ih_object h) cb d) w))))"

section \<open>Creating an instrument\<close>

text \<open>A request, and the steps the locks separate: the probe under the shared lock, the checks a new
  instrument needs, the probe under the creation mutex, the SDK instrument with its handle, and the
  insertion under the exclusive lock.\<close>

record instrument_request =
  rq_name :: string
  rq_desc :: string
  rq_unit :: string
  rq_type :: int
  rq_data :: "nat option"

definition rq_key :: "instrument_request \<Rightarrow> string" where
  "rq_key r = instrument_key (rq_name r) (rq_type r)"

definition check_request :: "('d, 'b, 't) sdk \<Rightarrow> instrument_request \<Rightarrow> unit outcome" where
  "check_request sdk r =
     (if rq_data r = None \<and> int_is_observable (rq_type r)
      then raise ''Missing observable callback for observable instrument''
      else if rq_data r \<noteq> None \<and> \<not> int_is_observable (rq_type r)
      then raise ''Unexpected callback function for synchronous instrument''
      else if \<not> valid_name sdk (rq_name r) then raisef ''Invalid instrument name: %s'' [Arg_str (rq_name r)]
      else if \<not> valid_unit sdk (rq_unit r) then raisef ''Invalid instrument unit: %s'' [Arg_str (rq_unit r)]
      else if \<not> valid_description sdk (rq_desc r)
      then raisef ''Invalid instrument description: %s'' [Arg_str (rq_desc r)]
      else Inr ())"

text \<open>A null handle is not constructed, so it asks nothing of the SDK; a handle whose SDK instrument is
  null, or whose name could not be stored, is not valid.\<close>

definition build_instrument ::
  "('d, 'b, 't) sdk \<Rightarrow> nat \<Rightarrow> instrument_request \<Rightarrow> ('d, 'b, 't) world \<Rightarrow>
   instrument_handle outcome \<times> ('d, 'b, 't) world" where
  "build_instrument sdk meter_ptr r w =
     (case metric_instrument (rq_type r) of
        None \<Rightarrow> (raisef ''Invalid OpenTelemetry meter instrument type: %d'' [Arg_int (rq_type r)], w)
      | Some ty \<Rightarrow>
          let (fine1, w1) = try_alloc sdk w in
          if \<not> fine1 then (raise ''Unable to allocate memory for instrument handle'', w1)
          else
            let bad = raisef ''Unable to create OpenTelemetry instrument of type %d'' [Arg_int (rq_type r)] in
            (case sdk_create_instrument sdk (calls w1) of
               None \<Rightarrow> (bad, snd (try_alloc sdk w1))
             | Some obj \<Rightarrow>
                 let (fine2, w2) = try_alloc sdk (call (CreateInstrument meter_ptr obj ty (rq_name r) (rq_desc r) (rq_unit r)) w1) in
                 if \<not> fine2 then (bad, w2)
                 else (Inr \<lparr>ih_name = rq_name r, ih_type = ty, ih_object = obj\<rparr>, w2)))"

text \<open>\<open>emplace\<close> of the index keeps an entry that is there already.\<close>

definition insert_instrument ::
  "('d, 'b, 't) sdk \<Rightarrow> instrument_request \<Rightarrow> instrument_handle \<Rightarrow> 'd meter_impl \<Rightarrow> ('d, 'b, 't) world \<Rightarrow>
   int64 outcome \<times> 'd meter_impl \<times> ('d, 'b, 't) world" where
  "insert_instrument sdk r h impl w =
     (let i = hid (mi_instrument impl); (fine1, w1) = try_alloc sdk w in
      if \<not> fine1 then (raise ''Unable to create meter instrument'', impl, w1)
      else (case map_emplace i h (mi_instrument impl) of
          (instruments, False) \<Rightarrow>
            (raisef ''Unable to create meter instrument: duplicate id %ld'' [Arg_int (sint i)], impl, w1)
        | (instruments, True) \<Rightarrow>
            (case (if rq_data r = None then (Inr OTELC_RET_OK, w1)
                   else otel_nolock_meter_add_instrument_callback h (rq_data r) w1) of
               (Inl _, w2) \<Rightarrow>
                 (raise ''Unable to register instrument callback'', impl\<lparr>mi_instrument := handle_erase i instruments\<rparr>, w2)
             | (Inr _, w2) \<Rightarrow>
                 let (fine2, w3) = try_alloc sdk w2 in
                 if \<not> fine2
                 then (raise ''Unable to create meter instrument'', impl\<lparr>mi_instrument := handle_erase i instruments\<rparr>, w3)
                 else
                   (Inr i,
                    impl\<lparr>mi_instrument := (update_peak_size 0 instruments)\<lparr>hid := i + 1\<rparr>,
                      mi_index := (if map_of (mi_index impl) (rq_key r) = None
                                   then (rq_key r, i) # mi_index impl else mi_index impl)\<rparr>, w3))))"

text \<open>The whole operation, when no other thread comes between its steps: the second probe then repeats
  the first.\<close>

definition create_new_instrument ::
  "('d, 'b, 't) sdk \<Rightarrow> nat \<Rightarrow> instrument_request \<Rightarrow> 'd meter_impl \<Rightarrow> ('d, 'b, 't) world \<Rightarrow>
   int64 outcome \<times> 'd meter_impl \<times> ('d, 'b, 't) world" where
  "create_new_instrument sdk meter_ptr r impl w =
     (case check_request sdk r of
        Inl e \<Rightarrow> (Inl e, impl, w)
      | Inr _ \<Rightarrow> (case otel_nolock_meter_find_instrument impl (rq_key r) of
            Some instrument_id \<Rightarrow> (Inr instrument_id, impl, w)
          | None \<Rightarrow> (case build_instrument sdk meter_ptr r w of
                (Inl e, w1) \<Rightarrow> (Inl e, impl, w1)
              | (Inr h, w1) \<Rightarrow> insert_instrument sdk r h impl w1)))"

definition otel_meter_create_instrument ::
  "('d, 'b, 't) sdk \<Rightarrow> 'd otelc_meter option \<Rightarrow> string option \<Rightarrow> string option \<Rightarrow> string option \<Rightarrow> int \<Rightarrow>
   nat option \<Rightarrow> ('d, 'b, 't) world \<Rightarrow> int64 outcome \<times> 'd otelc_meter option \<times> ('d, 'b, 't) world" where
  "otel_meter_create_instrument sdk meter name desc unit type data w =
     (case meter of
        None \<Rightarrow> (silent, None, w)
      | Some m \<Rightarrow>
          if \<not> mt_enabled m then (silent, Some m, w)
          else (case name of
              None \<Rightarrow> (raise ''Invalid instrument name'', Some m, w)
            | Some s \<Rightarrow>
                let r = \<lparr>rq_name = s, rq_desc = c_str desc, rq_unit = c_str unit, rq_type = type, rq_data = data\<rparr> in
                (case mt_impl m of
                   None \<Rightarrow> (raise ''Invalid meter'', Some m, w)
                 | Some impl \<Rightarrow> (case mi_meter impl of
                       None \<Rightarrow> (raise ''Invalid meter'', Some m, w)
                     | Some meter_ptr \<Rightarrow> (case otel_meter_instrument_key sdk s type w of
                           (key, w1) \<Rightarrow>
                             if key = []
                             then (raise ''Unable to allocate memory for instrument key'', Some m, w1)
                             else (case otel_nolock_meter_find_instrument impl key of
                                 Some instrument_id \<Rightarrow> (Inr instrument_id, Some m, w1)
                               | None \<Rightarrow> (case create_new_instrument sdk meter_ptr r impl w1 of
                                     (res, impl1, w2) \<Rightarrow> (res, Some (m\<lparr>mt_impl := Some impl1\<rparr>), w2))))))))"

section \<open>Recording values\<close>

datatype expected_value = Any_value | Is_uint64 | Is_int64 | Is_double

text \<open>The type of value an instrument takes.  \<open>meter.cpp\<close> has the table twice, as the check of the value and
  in the choice of the recording; both read it here.\<close>

fun expected_type :: "otelc_metric_instrument_t \<Rightarrow> expected_value" where
  "expected_type COUNTER_UINT64 = Is_uint64"
| "expected_type HISTOGRAM_UINT64 = Is_uint64"
| "expected_type COUNTER_DOUBLE = Is_double"
| "expected_type HISTOGRAM_DOUBLE = Is_double"
| "expected_type UDCOUNTER_DOUBLE = Is_double"
| "expected_type UDCOUNTER_INT64 = Is_int64"
| "expected_type GAUGE_INT64 = Is_int64"
| "expected_type GAUGE_DOUBLE = Is_double"
| "expected_type _ = Any_value"

fun has_type :: "'d cvalue \<Rightarrow> expected_value \<Rightarrow> bool" where
  "has_type (C_uint64 _) Is_uint64 = True"
| "has_type (C_int64 _) Is_int64 = True"
| "has_type (C_double _) Is_double = True"
| "has_type _ _ = False"

text \<open>The tags the mismatch message prints.\<close>

fun expected_tag :: "expected_value \<Rightarrow> int" where
  "expected_tag Any_value = 0"
| "expected_tag Is_int64 = 3"
| "expected_tag Is_uint64 = 5"
| "expected_tag Is_double = 6"

fun cvalue_tag :: "'d cvalue \<Rightarrow> int" where
  "cvalue_tag C_null = 0"
| "cvalue_tag (C_bool _) = 1"
| "cvalue_tag (C_int32 _) = 2"
| "cvalue_tag (C_int64 _) = 3"
| "cvalue_tag (C_uint32 _) = 4"
| "cvalue_tag (C_uint64 _) = 5"
| "cvalue_tag (C_double _) = 6"
| "cvalue_tag (C_string _) = 7"
| "cvalue_tag (C_data _) = 8"
| "cvalue_tag (C_other t) = t"

definition otel_meter_instrument_value_type :: "'d cvalue \<Rightarrow> otelc_metric_instrument_t \<Rightarrow> int outcome" where
  "otel_meter_instrument_value_type value type =
     (let expected = expected_type type in
      if expected = Any_value \<or> has_type value expected then Inr OTELC_RET_OK
      else (case (expected, value) of
          (Is_uint64, C_int64 i) \<Rightarrow>
            if sint i < 0 then raise ''Negative int64 value cannot be used for a uint64 instrument'' else Inr OTELC_RET_OK
        | _ \<Rightarrow> raisef ''Value type mismatch: instrument expects %d, got %d''
                 [Arg_int (expected_tag expected), Arg_int (cvalue_tag value)]))"

text \<open>What is recorded: the union member the instrument's type reads; \<open>None\<close> if it is not the active one.\<close>

fun value_for :: "expected_value \<Rightarrow> 'd cvalue \<Rightarrow> 'd measurement option" where
  "value_for Is_uint64 (C_int64 i) = Some (Meas_uint64 (ucast i))"
| "value_for Is_uint64 (C_uint64 u) = Some (Meas_uint64 u)"
| "value_for Is_int64 (C_int64 i) = Some (Meas_int64 i)"
| "value_for Is_double (C_double d) = Some (Meas_double d)"
| "value_for _ _ = None"

definition otel_meter_update_instrument ::
  "'d otelc_meter option \<Rightarrow> int32 \<Rightarrow> 'd cvalue option \<Rightarrow> ('d, 'b, 't) world \<Rightarrow>
   (int outcome \<times> ('d, 'b, 't) world) option" where
  "otel_meter_update_instrument meter idx value w =
     (case meter of
        None \<Rightarrow> Some (silent, w)
      | Some m \<Rightarrow> (case value of
            None \<Rightarrow> Some (raise ''Invalid value'', w)
          | Some v \<Rightarrow> with_instrument m idx w (\<lambda>h.
              (case otel_meter_instrument_value_type v (ih_type h) of
                 Inl e \<Rightarrow> Some (Inl e, w)
               | Inr _ \<Rightarrow>
                   if is_observable (ih_type h) then Some (Inr (sint idx), w)
                   else (case value_for (expected_type (ih_type h)) v of
                       None \<Rightarrow> None
                     | Some x \<Rightarrow> Some (Inr (sint idx), call (Measure (ih_object h) x []) w))))))"

definition metric_attributes ::
  "('d, 'b, 't) sdk \<Rightarrow> 'd ckv list \<Rightarrow> ('d, 'b, 't) world \<Rightarrow> ('d attrs outcome \<times> ('d, 'b, 't) world) option" where
  "metric_attributes sdk kvs w =
     (if kvs = [] then Some (Inr [], w)
      else let (fine, w1) = try_alloc sdk w in
        if \<not> fine then Some (raise ''Unable to allocate metric attributes'', w1)
        else value_add_all sdk ''Unable to add metric attribute'' [] kvs w1)"

definition otel_meter_update_instrument_kv_n ::
  "('d, 'b, 't) sdk \<Rightarrow> 'd otelc_meter option \<Rightarrow> int32 \<Rightarrow> 'd cvalue option \<Rightarrow> 'd ckv list \<Rightarrow> ('d, 'b, 't) world \<Rightarrow>
   (int outcome \<times> ('d, 'b, 't) world) option" where
  "otel_meter_update_instrument_kv_n sdk meter idx value kvs w =
     (case meter of
        None \<Rightarrow> Some (silent, w)
      | Some m \<Rightarrow> (case value of
            None \<Rightarrow> Some (raise ''Invalid value'', w)
          | Some v \<Rightarrow> with_instrument m idx w (\<lambda>h.
              (case otel_meter_instrument_value_type v (ih_type h) of
                 Inl e \<Rightarrow> Some (Inl e, w)
               | Inr _ \<Rightarrow>
                   if is_observable (ih_type h) then Some (Inr (sint idx), w)
                   else (case metric_attributes sdk kvs w of
                       None \<Rightarrow> None
                     | Some (Inl e, w1) \<Rightarrow> Some (Inl e, w1)
                     | Some (Inr attr, w1) \<Rightarrow> (case value_for (expected_type (ih_type h)) v of
                           None \<Rightarrow> None
                         | Some x \<Rightarrow> Some (Inr (sint idx), call (Measure (ih_object h) x attr) w1)))))))"

text \<open>The adapters of observable instruments (\<open>OTEL_METER_OBSERVABLE_CB\<close>): the callback, a function on the
  value it finds, runs on a zero of its type and what it leaves is observed.\<close>

definition otel_meter_observable_int64_cb :: "('d cvalue \<Rightarrow> 'd cvalue) option \<Rightarrow> 'd measurement option option" where
  "otel_meter_observable_int64_cb state =
     (case state of
        None \<Rightarrow> Some None
      | Some f \<Rightarrow> (case f (C_int64 0) of C_int64 i \<Rightarrow> Some (Some (Meas_int64 i)) | _ \<Rightarrow> None))"

definition otel_meter_observable_double_cb ::
  "('d :: zero cvalue \<Rightarrow> 'd cvalue) option \<Rightarrow> 'd measurement option option" where
  "otel_meter_observable_double_cb state =
     (case state of
        None \<Rightarrow> Some None
      | Some f \<Rightarrow> (case f (C_double 0) of C_double d \<Rightarrow> Some (Some (Meas_double d)) | _ \<Rightarrow> None))"

section \<open>Switching, flushing and shutting down\<close>

definition otel_meter_enabled :: "'d otelc_meter option \<Rightarrow> bool outcome" where
  "otel_meter_enabled meter =
     (case meter of
        None \<Rightarrow> silent
      | Some m \<Rightarrow> (case mt_impl m of
            None \<Rightarrow> raise ''Invalid meter''
          | Some impl \<Rightarrow> if mi_meter impl = None then raise ''Invalid meter'' else Inr (mt_enabled m)))"

definition otel_meter_set_enabled :: "'d otelc_meter option \<Rightarrow> bool \<Rightarrow> int outcome \<times> 'd otelc_meter option" where
  "otel_meter_set_enabled meter b =
     (case meter of
        None \<Rightarrow> (silent, None)
      | Some m \<Rightarrow> (Inr OTELC_RET_OK, Some (m\<lparr>mt_enabled := b\<rparr>)))"

definition otel_meter_set_flush_timeout ::
  "'d otelc_meter option \<Rightarrow> int \<Rightarrow> int outcome \<times> 'd otelc_meter option" where
  "otel_meter_set_flush_timeout meter v =
     (case meter of
        None \<Rightarrow> (silent, None)
      | Some m \<Rightarrow>
          if \<not> (0 \<le> v \<and> v \<le> OTELC_FLUSH_TIMEOUT_MS_MAX)
          then (raisef ''Invalid flush timeout: %d'' [Arg_int v], Some m)
          else (Inr OTELC_RET_OK, Some (m\<lparr>mt_flush_timeout := v\<rparr>)))"

definition otel_meter_force_flush ::
  "('d, 'b, 't) sdk \<Rightarrow> 'd otelc_meter option \<Rightarrow> timespec option \<Rightarrow> ('d, 'b, 't) world \<Rightarrow> int outcome \<times> ('d, 'b, 't) world" where
  "otel_meter_force_flush sdk meter timeout w =
     (case meter of
        None \<Rightarrow> (silent, w)
      | Some m \<Rightarrow> OTEL_PROVIDER_OP ForceFlush (sdk_force_flush sdk) ''Unable to force flush meter provider''
          (map_option mi_provider (mt_impl m)) timeout w)"

definition otel_meter_shutdown ::
  "('d, 'b, 't) sdk \<Rightarrow> 'd otelc_meter option \<Rightarrow> timespec option \<Rightarrow> ('d, 'b, 't) world \<Rightarrow> int outcome \<times> ('d, 'b, 't) world" where
  "otel_meter_shutdown sdk meter timeout w =
     (case meter of
        None \<Rightarrow> (silent, w)
      | Some m \<Rightarrow> OTEL_PROVIDER_OP ProviderShutdown (sdk_shutdown sdk) ''Unable to shut down meter provider''
          (map_option mi_provider (mt_impl m)) timeout w)"

section \<open>Starting a meter\<close>

text \<open>The flush of the previous provider, with the whole budget.\<close>

definition flush_provider :: "nat option \<Rightarrow> int \<Rightarrow> ('d, 'b, 't) world \<Rightarrow> ('d, 'b, 't) world" where
  "flush_provider provider budget w =
     (case provider of
        None \<Rightarrow> w
      | Some p \<Rightarrow> if budget > 0 then call (ForceFlush p (1000 * budget)) w else w)"

text \<open>\<open>flush_timeout\<close> of the configuration: absent leaves the one in force.\<close>

definition read_flush_timeout :: "string \<Rightarrow> 'd cfg \<Rightarrow> int \<Rightarrow> int outcome" where
  "read_flush_timeout desc c current =
     (case yaml_find (cf_fyd c) False (Some desc) (Some (OTEL_YAML_PATH c ''/flush_timeout'')) (Some OTEL_YAML_BUFSIZ) of
        Inr (Some s) \<Rightarrow>
          (case otelc_strtoi (Some s) True True 0 0 OTELC_FLUSH_TIMEOUT_MS_MAX of
             Strtoi_ok v _ \<Rightarrow> Inr v
           | _ \<Rightarrow> raisef ''%s: invalid flush timeout'' [Arg_str s])
      | _ \<Rightarrow> Inr current)"

type_synonym metric_pipeline = "(nat \<times> exporter) list \<times> metric_reader list"

definition add_reader ::
  "'d :: ord cfg \<Rightarrow> string option \<Rightarrow> string option \<Rightarrow> metric_pipeline \<Rightarrow> metric_pipeline build" where
  "add_reader c exporter_name reader_name p =
     bbind (numbered (otel_meter_exporter_create (Some c) exporter_name)) (\<lambda>(xid, e).
     bbind (otel_meter_reader_create (Some c) e reader_name) (\<lambda>reader.
     bbind (or_throw ''Unable to add metric reader'') (\<lambda>_. give (fst p @ [(xid, e)], snd p @ [reader]))))"

text \<open>The exporters drive; an empty reader name is no name.\<close>

fun reader_loop ::
  "'d :: ord cfg \<Rightarrow> string \<Rightarrow> string \<Rightarrow> int \<Rightarrow> nat list \<Rightarrow> metric_pipeline \<Rightarrow> metric_pipeline build" where
  "reader_loop c path_e path_r count_readers [] p = give p"
| "reader_loop c path_e path_r count_readers (i # is) p =
     bbind (of_result (yaml_get_sequence_value (cf_fyd c) (Some path_e) (int i) (Some OTEL_YAML_BUFSIZ)))
       (\<lambda>exporter_name.
     bbind (exporter_name_at c path_r count_readers (int i)) (\<lambda>reader_name.
     bbind (add_reader c (Some exporter_name) (if reader_name \<noteq> [] then Some reader_name else None) p)
       (reader_loop c path_e path_r count_readers is)))"

definition meter_pipeline :: "'d :: ord cfg \<Rightarrow> metric_pipeline build" where
  "meter_pipeline c =
     (let path_e = OTEL_YAML_PATH c OTEL_YAML_EXPORTERS; path_r = OTEL_YAML_PATH c OTEL_YAML_READERS in
      if yaml_is_sequence (cf_fyd c) (Some path_e)
      then bbind (of_result (yaml_get_sequence_len (cf_fyd c) (Some path_e))) (\<lambda>count.
           bbind (if yaml_is_sequence (cf_fyd c) (Some path_r)
                  then of_result (yaml_get_sequence_len (cf_fyd c) (Some path_r)) else give 0) (\<lambda>count_readers.
           reader_loop c path_e path_r count_readers [0..<nat count] ([], [])))
      else add_reader c None None ([], []))"

text \<open>Every recorded view is registered with the new provider, in the order in which the map lists them
  (the iteration order of \<open>std::unordered_map\<close>, which the standard leaves open, is the list order here).\<close>

fun register_views ::
  "('d, 'b, 't) sdk \<Rightarrow> string option \<Rightarrow> nat \<Rightarrow> (int64 \<times> 'd view_handle) list \<Rightarrow> ('d, 'b, 't) world \<Rightarrow>
   unit outcome \<times> ('d, 'b, 't) world" where
  "register_views sdk scope_name provider [] w = (Inr (), w)"
| "register_views sdk scope_name provider ((_, v) # vs) w =
     (case otel_meter_view_register sdk scope_name (Some provider) (Some v) w of
        (Inl e, w1) \<Rightarrow> (Inl e, w1)
      | (Inr _, w1) \<Rightarrow> register_views sdk scope_name provider vs w1)"

definition install_meter ::
  "('d, 'b, 't) sdk \<Rightarrow> string option \<Rightarrow> nat \<Rightarrow> (nat \<times> exporter) list \<Rightarrow> 'd meter_impl \<Rightarrow> ('d, 'b, 't) world \<Rightarrow>
   int outcome \<times> 'd meter_impl \<times> ('d, 'b, 't) world" where
  "install_meter sdk scope_name provider exporters impl w =
     (if \<not> sdk_get_meter sdk (calls w) then (raise ''Unable to get meter from provider'', impl, w)
      else (case register_views sdk scope_name provider (handle_entries (mi_view impl)) w of
          (Inl e, w1) \<Rightarrow> (Inl e, impl, w1)
        | (Inr _, w1) \<Rightarrow> (case otel_exporter_files_open sdk exporters w1 of
              (Inl e, w2) \<Rightarrow> (Inl e, impl, w2)
            | (Inr _, w2) \<Rightarrow>
                (Inr OTELC_RET_OK,
                 impl\<lparr>mi_provider := Some provider, mi_meter := Some provider, mi_exporters := map fst exporters\<rparr>,
                 release_provider (mi_provider impl)
                   (otel_exporter_files_truncate exporters (shutdown_exporters (mi_exporters impl) w2))))))"

text \<open>The part under the creation mutex.\<close>

definition start_locked ::
  "('d, 'b, 't) sdk \<Rightarrow> 'e :: ord cfg \<Rightarrow> string \<Rightarrow> 'd otelc_meter \<Rightarrow> 'd meter_impl \<Rightarrow> ('d, 'b, 't) world \<Rightarrow>
   int outcome \<times> 'd otelc_meter \<times> ('d, 'b, 't) world" where
  "start_locked sdk c scope_name m impl w =
     (let (fine, w1) = try_alloc sdk w in
      if \<not> fine then (raise ''Unable to allocate memory for scope name'', m\<lparr>mt_scope_name := None\<rparr>, w1)
      else let m1 = m\<lparr>mt_scope_name := Some scope_name\<rparr> in
        (case read_flush_timeout ''OpenTelemetry meter flush timeout'' c (mt_flush_timeout m1) of
           Inl e \<Rightarrow> (Inl e, m1, w1)
         | Inr timeout \<Rightarrow>
             let m2 = m1\<lparr>mt_flush_timeout := timeout\<rparr> in
             (case run_build sdk (bbind (meter_pipeline c) (\<lambda>(exporters, readers).
                     bbind (numbered (otel_meter_provider_create (Some c) readers))
                       (\<lambda>(provider, _). give (exporters, provider)))) w1 of
                (Inl e, w2) \<Rightarrow> (Inl e, m2, w2)
              | (Inr (exporters, provider), w2) \<Rightarrow>
                  (case install_meter sdk (mt_scope_name m2) provider exporters impl w2 of
                     (r, impl1, w3) \<Rightarrow> (r, m2\<lparr>mt_impl := Some impl1\<rparr>, w3)))))"

text \<open>\<open>None\<close>: a meter without a prefix would print a null pointer.\<close>

definition otel_meter_start ::
  "('d, 'b, 't) sdk \<Rightarrow> 'e :: ord cfg \<Rightarrow> 'd otelc_meter option \<Rightarrow> ('d, 'b, 't) world \<Rightarrow>
   (int outcome \<times> 'd otelc_meter option \<times> ('d, 'b, 't) world) option" where
  "otel_meter_start sdk ctx meter w =
     (case meter of
        None \<Rightarrow> Some (silent, None, w)
      | Some m \<Rightarrow> (case mt_yaml_prefix m of
            None \<Rightarrow> None
          | Some prefix \<Rightarrow>
              let c = ctx\<lparr>cf_prefix := prefix\<rparr> in
              Some (case yaml_find (cf_fyd c) True (Some ''OpenTelemetry meter instrumentation scope'')
                      (Some (OTEL_YAML_PATH c ''/scope_name'')) (Some OTEL_YAML_BUFSIZ) of
                Inl e \<Rightarrow> (Inl (Some e), Some m, w)
              | Inr None \<Rightarrow> (Inr 0, Some m, w)
              | Inr (Some scope_name) \<Rightarrow> (case mt_impl m of
                    None \<Rightarrow> (raise ''Meter implementation state not allocated'', Some m, w)
                  | Some impl \<Rightarrow>
                      (case start_locked sdk c scope_name m impl (flush_provider (mi_provider impl) (mt_flush_timeout m) w) of
                         (r, m1, w1) \<Rightarrow> (r, Some m1, w1))))))"

section \<open>Creating and destroying a meter\<close>

text \<open>The result lists the handles deleted.\<close>

definition otel_meter_destroy ::
  "('d, 'b, 't) sdk \<Rightarrow> 'd otelc_meter option \<Rightarrow> ('d, 'b, 't) world \<Rightarrow>
   ('d view_handle list \<times> instrument_handle list) \<times> ('d, 'b, 't) world" where
  "otel_meter_destroy sdk meter w =
     (case meter of
        None \<Rightarrow> (([], []), w)
      | Some m \<Rightarrow> (case mt_impl m of
            None \<Rightarrow> (([], []), w)
          | Some impl \<Rightarrow>
              let w1 = flush_provider (mi_provider impl) (mt_flush_timeout m) w;
                  flushed = (mt_flush_timeout m > 0 \<and> mi_provider impl \<noteq> None \<and> sdk_force_flush sdk (calls w));
                  w2 = (if flushed then w1 else shutdown_exporters (mi_exporters impl) w1)
              in ((snd (clear_locked (mi_view impl)), snd (clear_locked (mi_instrument impl))),
                  release_provider (mi_provider impl) w2)))"

text \<open>The implementation's constructor: two maps of one shard.\<close>

definition otel_meter_impl_new :: "'d meter_impl option" where
  "otel_meter_impl_new =
     (case (otel_handle_new 1, otel_handle_new 1) of
        (Inr instruments, Inr views) \<Rightarrow>
          Some \<lparr>mi_provider = None, mi_meter = None, mi_instrument = instruments, mi_view = views, mi_index = [],
                mi_exporters = []\<rparr>
      | _ \<Rightarrow> None)"

definition otel_meter_new ::
  "('d, 'b, 't) sdk \<Rightarrow> ('d, 'b, 't) world \<Rightarrow> 'd otelc_meter option \<times> ('d, 'b, 't) world" where
  "otel_meter_new sdk w =
     (let (fine1, w1) = try_alloc sdk w in
      if \<not> fine1 then (None, w1)
      else let (fine2, w2) = try_alloc sdk w1 in
        (case (if fine2 then otel_meter_impl_new else None) of
           None \<Rightarrow> (None, w2)
         | Some impl \<Rightarrow>
             (Some \<lparr>mt_enabled = True, mt_flush_timeout = OTELC_FLUSH_TIMEOUT_MS, mt_scope_name = None,
                mt_yaml_prefix = None, mt_impl = Some impl\<rparr>, w2)))"

definition otelc_meter_create ::
  "('d, 'b, 't) sdk \<Rightarrow> ('e cfg \<times> string option) option \<Rightarrow> ('d, 'b, 't) world \<Rightarrow>
   'd otelc_meter outcome \<times> ('d, 'b, 't) world" where
  "otelc_meter_create sdk ctx w =
     (case ctx of
        None \<Rightarrow> (raise ''Invalid context'', w)
      | Some (c, name) \<Rightarrow> (case otel_meter_new sdk w of
            (None, w1) \<Rightarrow> (raise ''Unable to allocate memory for meter'', w1)
          | (Some m, w1) \<Rightarrow> (case yaml_resolve_prefix (cf_map_oom c) (cf_fyd c) (Some ''/signals/metrics'') name
                (Some OTEL_YAML_NAME_DEFAULT) True of
                Inl e \<Rightarrow> (Inl (Some e), snd (otel_meter_destroy sdk (Some m) w1))
              | Inr prefix \<Rightarrow> (Inr (m\<lparr>mt_yaml_prefix := Some prefix\<rparr>), w1))))"

end
