(* ===== verification/Otel_Logger.thy ===== *)
theory Otel_Logger
  imports Otel_Meter
begin

text \<open>
  Loggers (\<open>src/logger.cpp\<close>, \<open>include/logger.h\<close>): the severity levels, building and emitting a log
  record from text or from a typed value, with the identifiers of a span, and the life of a logger.
  An outer \<open>None\<close> is undefined behaviour: a null attribute key, a body value no reader accepts.
\<close>

section \<open>Severity levels\<close>

text \<open>\<open>OTELC_LOG_SEVERITY_DEFINES\<close>: name and SDK level of the enumerators, in order.\<close>

definition severity_table :: "(string \<times> severity) list" where
  "severity_table =
     [(''INVALID'', kInvalid),
      (''TRACE'', kTrace), (''TRACE2'', kTrace2), (''TRACE3'', kTrace3), (''TRACE4'', kTrace4),
      (''DEBUG'', kDebug), (''DEBUG2'', kDebug2), (''DEBUG3'', kDebug3), (''DEBUG4'', kDebug4),
      (''INFO'', kInfo), (''INFO2'', kInfo2), (''INFO3'', kInfo3), (''INFO4'', kInfo4),
      (''WARN'', kWarn), (''WARN2'', kWarn2), (''WARN3'', kWarn3), (''WARN4'', kWarn4),
      (''ERROR'', kError), (''ERROR2'', kError2), (''ERROR3'', kError3), (''ERROR4'', kError4),
      (''FATAL'', kFatal), (''FATAL2'', kFatal2), (''FATAL3'', kFatal3), (''FATAL4'', kFatal4)]"

definition OTELC_LOG_SEVERITY_INVALID :: int where "OTELC_LOG_SEVERITY_INVALID = 0"
definition OTELC_LOG_SEVERITY_TRACE :: int where "OTELC_LOG_SEVERITY_TRACE = 1"

text \<open>The two tables of the code pair each enumerator with its level and with its name.\<close>

definition severity_levels :: "(int \<times> severity) list" where
  "severity_levels = zip (map int [0..<length severity_table]) (map snd severity_table)"

definition severity_names :: "(string \<times> int) list" where
  "severity_names = zip (map fst severity_table) (map int [0..<length severity_table])"

definition otel_logger_severity :: "int \<Rightarrow> severity" where
  "otel_logger_severity s =
     (case find (\<lambda>(n, _). n = s) severity_levels of None \<Rightarrow> kInvalid | Some (_, level) \<Rightarrow> level)"

definition otelc_logger_severity_parse :: "string option \<Rightarrow> int" where
  "otelc_logger_severity_parse name =
     (case name of
        None \<Rightarrow> OTELC_LOG_SEVERITY_INVALID
      | Some s \<Rightarrow> (case find (\<lambda>(n, _). strcasecmp_eq n s) severity_names of
            None \<Rightarrow> OTELC_LOG_SEVERITY_INVALID
          | Some (_, sev) \<Rightarrow> sev))"

section \<open>State\<close>

text \<open>\<open>gi_logger\<close> is the provider the SDK logger was obtained from.\<close>

record logger_impl =
  gi_provider :: "nat option"
  gi_logger :: "nat option"
  gi_exporters :: "nat list"

record otelc_logger =
  lg_enabled :: bool
  lg_min_severity :: int
  lg_flush_timeout :: int
  lg_scope_name :: "string option"
  lg_yaml_prefix :: "string option"
  lg_impl :: "logger_impl option"

text \<open>The SDK logger an operation works on.\<close>

definition sdk_logger :: "otelc_logger \<Rightarrow> nat outcome" where
  "sdk_logger l =
     (case lg_impl l of
        None \<Rightarrow> raise ''Invalid logger''
      | Some impl \<Rightarrow> (case gi_logger impl of None \<Rightarrow> raise ''Invalid logger'' | Some g \<Rightarrow> Inr g))"

definition invalid_severity :: "int \<Rightarrow> 'a outcome" where
  "invalid_severity s = raisef ''Invalid log severity level: %d'' [Arg_int s]"

section \<open>Switches\<close>

definition otel_logger_enabled ::
  "('d, 'b, 't) sdk \<Rightarrow> otelc_logger option \<Rightarrow> int \<Rightarrow> ('d, 'b, 't) world \<Rightarrow> bool outcome" where
  "otel_logger_enabled sdk logger s w =
     (case logger of
        None \<Rightarrow> silent
      | Some l \<Rightarrow> (case sdk_logger l of
            Inl e \<Rightarrow> Inl e
          | Inr g \<Rightarrow>
              if \<not> lg_enabled l then Inr False
              else if otel_logger_severity s = kInvalid then invalid_severity s
              else Inr (sdk_log_enabled sdk (calls w) g (otel_logger_severity s))))"

definition otel_logger_set_enabled :: "otelc_logger option \<Rightarrow> bool \<Rightarrow> int outcome \<times> otelc_logger option" where
  "otel_logger_set_enabled logger b =
     (case logger of
        None \<Rightarrow> (silent, None)
      | Some l \<Rightarrow> (Inr OTELC_RET_OK, Some (l\<lparr>lg_enabled := b\<rparr>)))"

definition otel_logger_set_min_severity ::
  "otelc_logger option \<Rightarrow> int \<Rightarrow> ('d, 'b, 't) world \<Rightarrow> int outcome \<times> otelc_logger option \<times> ('d, 'b, 't) world" where
  "otel_logger_set_min_severity logger s w =
     (case logger of
        None \<Rightarrow> (silent, None, w)
      | Some l \<Rightarrow> (case sdk_logger l of
            Inl e \<Rightarrow> (Inl e, Some l, w)
          | Inr g \<Rightarrow>
              if otel_logger_severity s = kInvalid then (invalid_severity s, Some l, w)
              else (Inr OTELC_RET_OK, Some (l\<lparr>lg_min_severity := s\<rparr>),
                    call (SetMinimumSeverity g (otel_logger_severity s)) w)))"

definition otel_logger_set_flush_timeout ::
  "otelc_logger option \<Rightarrow> int \<Rightarrow> int outcome \<times> otelc_logger option" where
  "otel_logger_set_flush_timeout logger v =
     (case logger of
        None \<Rightarrow> (silent, None)
      | Some l \<Rightarrow>
          if \<not> (0 \<le> v \<and> v \<le> OTELC_FLUSH_TIMEOUT_MS_MAX)
          then (raisef ''Invalid flush timeout: %d'' [Arg_int v], Some l)
          else (Inr OTELC_RET_OK, Some (l\<lparr>lg_flush_timeout := v\<rparr>)))"

section \<open>Building a record\<close>

text \<open>What a caller says of a record besides its body; an identifier is an array with its size.\<close>

record 'd log_request =
  rc_severity :: int
  rc_event_id :: int
  rc_event_name :: "string option"
  rc_span_id :: "8 word list option"
  rc_trace_id :: "8 word list option"
  rc_flags :: "8 word"
  rc_ts :: "timespec option"
  rc_ts_obs :: "timespec option"
  rc_attrs :: "'d ckv list"

text \<open>An identifier that is missing or too short is all zeros.\<close>

definition id_bytes :: "nat \<Rightarrow> 8 word list option \<Rightarrow> 8 word list" where
  "id_bytes n x =
     (case x of None \<Rightarrow> replicate n 0 | Some bs \<Rightarrow> if n \<le> length bs then take n bs else replicate n 0)"

text \<open>The attributes set on a record one after the other (\<open>SetAttribute\<close> of the SDK does not throw).\<close>

fun record_attributes :: "'d attrs \<Rightarrow> 'd ckv list \<Rightarrow> 'd attrs outcome option" where
  "record_attributes attrs [] = Some (Inr attrs)"
| "record_attributes attrs (kv # kvs) =
     (if ck_value kv = C_null \<or> in_value_range (ck_value kv)
      then (case ck_key kv of
          None \<Rightarrow> None
        | Some k \<Rightarrow> record_attributes (attrs @ [(k, cvalue_visit (ck_value kv))]) kvs)
      else Some (raise ''Unable to add attribute''))"

text \<open>\<open>Inr None\<close>: the SDK does not want records of this severity.\<close>

definition otel_logger_record_create ::
  "('d, 'b, 't) sdk \<Rightarrow> nat \<Rightarrow> 'd log_request \<Rightarrow> ('d, 'b, 't) world \<Rightarrow> 'd log_record option outcome option" where
  "otel_logger_record_create sdk g rq w =
     (let severity = otel_logger_severity (rc_severity rq) in
      if severity = kInvalid then Some (invalid_severity (rc_severity rq))
      else if \<not> sdk_log_enabled sdk (calls w) g severity then Some (Inr None)
      else if \<not> sdk_create_record sdk (calls w) then Some (raise ''Unable to create log record'')
      else (case record_attributes [] (rc_attrs rq) of
          None \<Rightarrow> None
        | Some (Inl e) \<Rightarrow> Some (Inl e)
        | Some (Inr attrs) \<Rightarrow> Some (Inr (Some
            \<lparr>lr_severity = severity, lr_span_id = id_bytes 8 (rc_span_id rq), lr_trace_id = id_bytes 16 (rc_trace_id rq),
             lr_flags = rc_flags rq,
             lr_time = (if rc_ts rq = None then None else Some (timespec_to_duration (rc_ts rq))),
             lr_observed = (if rc_ts_obs rq = None then None else Some (timespec_to_duration (rc_ts_obs rq))),
             lr_event = (if rc_event_id rq > 0 then Some (rc_event_id rq, c_str (rc_event_name rq)) else None),
             lr_attrs = attrs, lr_body = None\<rparr>))))"

section \<open>Logging\<close>

text \<open>\<open>expand\<close> is \<open>vasprintf\<close> with the arguments of the call.\<close>

definition otel_logger_log_v ::
  "('d, 'b, 't) sdk \<Rightarrow> (string \<Rightarrow> string option) \<Rightarrow> otelc_logger option \<Rightarrow> 'd log_request \<Rightarrow> string option \<Rightarrow>
   ('d, 'b, 't) world \<Rightarrow> (int outcome \<times> ('d, 'b, 't) world) option" where
  "otel_logger_log_v sdk expand logger rq format w =
     (case logger of
        None \<Rightarrow> Some (silent, w)
      | Some l \<Rightarrow>
          if \<not> lg_enabled l then Some (Inr 0, w)
          else (case format of
              None \<Rightarrow> Some (raise ''Invalid format string'', w)
            | Some f \<Rightarrow> (case sdk_logger l of
                Inl e \<Rightarrow> Some (Inl e, w)
              | Inr g \<Rightarrow> (case otel_logger_record_create sdk g rq w of
                    None \<Rightarrow> None
                  | Some (Inl e) \<Rightarrow> Some (Inl e, w)
                  | Some (Inr None) \<Rightarrow> Some (Inr 0, w)
                  | Some (Inr (Some r)) \<Rightarrow> (case expand f of
                        None \<Rightarrow> Some (raise ''Unable to allocate memory for log body'', w)
                      | Some body \<Rightarrow> Some (Inr (int (length body)),
                          call (EmitLogRecord g (r\<lparr>lr_body := Some (Vis_str body)\<rparr>)) w))))))"

definition otel_logger_log ::
  "('d, 'b, 't) sdk \<Rightarrow> (string \<Rightarrow> string option) \<Rightarrow> otelc_logger option \<Rightarrow> 'd log_request \<Rightarrow> string option \<Rightarrow>
   ('d, 'b, 't) world \<Rightarrow> (int outcome \<times> ('d, 'b, 't) world) option" where
  "otel_logger_log sdk expand logger rq format w =
     (case logger of
        None \<Rightarrow> Some (silent, w)
      | Some l \<Rightarrow> otel_logger_log_v sdk expand (Some l) rq format w)"

text \<open>The identifiers of a span; zeros when it has none to give.\<close>

definition otel_logger_span_extract ::
  "('d, 'b, 't) sdk \<Rightarrow> otelc_span option \<Rightarrow> ('d, 'b, 't) world \<Rightarrow>
   (8 word list \<times> 8 word list \<times> 8 word) \<times> ('d, 'b, 't) world" where
  "otel_logger_span_extract sdk span w =
     (case span of
        None \<Rightarrow> ((replicate 8 0, replicate 16 0, 0), w)
      | Some sp \<Rightarrow> (case otel_span_get_id sdk (Some sp) (Some 8) (Some 16) True w of
            (Inr (Some s, Some t, Some f), w1) \<Rightarrow> ((s, t, f), w1)
          | (_, w1) \<Rightarrow> ((replicate 8 0, replicate 16 0, 0), w1)))"

definition with_span_ids :: "8 word list \<times> 8 word list \<times> 8 word \<Rightarrow> 'd log_request \<Rightarrow> 'd log_request" where
  "with_span_ids ids rq =
     (case ids of (s, t, f) \<Rightarrow> rq\<lparr>rc_span_id := Some s, rc_trace_id := Some t, rc_flags := f\<rparr>)"

definition otel_logger_log_span ::
  "('d, 'b, 't) sdk \<Rightarrow> (string \<Rightarrow> string option) \<Rightarrow> otelc_logger option \<Rightarrow> 'd log_request \<Rightarrow> otelc_span option \<Rightarrow>
   string option \<Rightarrow> ('d, 'b, 't) world \<Rightarrow> (int outcome \<times> ('d, 'b, 't) world) option" where
  "otel_logger_log_span sdk expand logger rq span format w =
     (case logger of
        None \<Rightarrow> Some (silent, w)
      | Some l \<Rightarrow> (case otel_logger_span_extract sdk span w of
            (ids, w1) \<Rightarrow> otel_logger_log_v sdk expand (Some l) (with_span_ids ids rq) format w1))"

definition otel_logger_log_body ::
  "('d, 'b, 't) sdk \<Rightarrow> otelc_logger option \<Rightarrow> 'd log_request \<Rightarrow> 'd cvalue option \<Rightarrow>
   ('d, 'b, 't) world \<Rightarrow> (int outcome \<times> ('d, 'b, 't) world) option" where
  "otel_logger_log_body sdk logger rq body w =
     (case logger of
        None \<Rightarrow> Some (silent, w)
      | Some l \<Rightarrow>
          if \<not> lg_enabled l then Some (Inr 0, w)
          else (case body of
              None \<Rightarrow> Some (raise ''Invalid body value'', w)
            | Some b \<Rightarrow> (case sdk_logger l of
                Inl e \<Rightarrow> Some (Inl e, w)
              | Inr g \<Rightarrow> (case otel_logger_record_create sdk g rq w of
                    None \<Rightarrow> None
                  | Some (Inl e) \<Rightarrow> Some (Inl e, w)
                  | Some (Inr None) \<Rightarrow> Some (Inr 0, w)
                  | Some (Inr (Some r)) \<Rightarrow>
                      if b = C_null
                      then Some (Inr OTELC_RET_OK, call (EmitLogRecord g (r\<lparr>lr_body := Some (Vis_str [])\<rparr>)) w)
                      else if in_value_range b
                      then Some (Inr OTELC_RET_OK, call (EmitLogRecord g (r\<lparr>lr_body := Some (cvalue_visit b)\<rparr>)) w)
                      else Some (raisef ''Invalid body value type: %d'' [Arg_int (cvalue_tag b)], w)))))"

definition otel_logger_log_body_span ::
  "('d, 'b, 't) sdk \<Rightarrow> otelc_logger option \<Rightarrow> 'd log_request \<Rightarrow> otelc_span option \<Rightarrow> 'd cvalue option \<Rightarrow>
   ('d, 'b, 't) world \<Rightarrow> (int outcome \<times> ('d, 'b, 't) world) option" where
  "otel_logger_log_body_span sdk logger rq span body w =
     (case logger of
        None \<Rightarrow> Some (silent, w)
      | Some l \<Rightarrow> (case otel_logger_span_extract sdk span w of
            (ids, w1) \<Rightarrow> otel_logger_log_body sdk (Some l) (with_span_ids ids rq) body w1))"

section \<open>Flushing and shutting down\<close>

definition otel_logger_force_flush ::
  "('d, 'b, 't) sdk \<Rightarrow> otelc_logger option \<Rightarrow> timespec option \<Rightarrow> ('d, 'b, 't) world \<Rightarrow> int outcome \<times> ('d, 'b, 't) world" where
  "otel_logger_force_flush sdk logger timeout w =
     (case logger of
        None \<Rightarrow> (silent, w)
      | Some l \<Rightarrow> OTEL_PROVIDER_OP ForceFlush (sdk_force_flush sdk) ''Unable to force flush logger provider''
          (map_option gi_provider (lg_impl l)) timeout w)"

definition otel_logger_shutdown ::
  "('d, 'b, 't) sdk \<Rightarrow> otelc_logger option \<Rightarrow> timespec option \<Rightarrow> ('d, 'b, 't) world \<Rightarrow> int outcome \<times> ('d, 'b, 't) world" where
  "otel_logger_shutdown sdk logger timeout w =
     (case logger of
        None \<Rightarrow> (silent, w)
      | Some l \<Rightarrow> OTEL_PROVIDER_OP ProviderShutdown (sdk_shutdown sdk) ''Unable to shut down logger provider''
          (map_option gi_provider (lg_impl l)) timeout w)"

section \<open>Starting a logger\<close>

definition add_log_pipeline ::
  "'d :: ord cfg \<Rightarrow> string option \<Rightarrow> string option \<Rightarrow> pipeline \<Rightarrow> pipeline build" where
  "add_log_pipeline c exporter_name processor_name p =
     bbind (numbered (otel_logger_exporter_create (Some c) exporter_name)) (\<lambda>(xid, e).
     bbind (otel_logger_processor_create (Some c) e processor_name) (\<lambda>proc.
     bbind (or_throw ''Unable to add processor'') (\<lambda>_. give (fst p @ [(xid, e)], snd p @ [proc]))))"

fun log_pipeline_loop ::
  "'d :: ord cfg \<Rightarrow> string \<Rightarrow> string \<Rightarrow> int \<Rightarrow> nat list \<Rightarrow> pipeline \<Rightarrow> pipeline build" where
  "log_pipeline_loop c path_p path_e count_exporters [] p = give p"
| "log_pipeline_loop c path_p path_e count_exporters (i # is) p =
     bbind (of_result (yaml_get_sequence_value (cf_fyd c) (Some path_p) (int i) (Some OTEL_YAML_BUFSIZ)))
       (\<lambda>processor_name.
     bbind (exporter_name_at c path_e count_exporters (int i)) (\<lambda>exporter_name.
     bbind (add_log_pipeline c (Some exporter_name) (Some processor_name) p)
       (log_pipeline_loop c path_p path_e count_exporters is)))"

definition logger_pipeline :: "'d :: ord cfg \<Rightarrow> pipeline build" where
  "logger_pipeline c =
     (let path_p = OTEL_YAML_PATH c OTEL_YAML_PROCESSORS; path_e = OTEL_YAML_PATH c OTEL_YAML_EXPORTERS in
      if yaml_is_sequence (cf_fyd c) (Some path_p)
      then bbind (of_result (yaml_get_sequence_len (cf_fyd c) (Some path_p))) (\<lambda>count.
           bbind (if yaml_is_sequence (cf_fyd c) (Some path_e)
                  then of_result (yaml_get_sequence_len (cf_fyd c) (Some path_e)) else give 0) (\<lambda>count_exporters.
           log_pipeline_loop c path_p path_e count_exporters [0..<nat count] ([], [])))
      else add_log_pipeline c None None ([], []))"

text \<open>The new logger takes the minimum severity before anything of the old pipeline is touched.\<close>

definition install_logger ::
  "('d, 'b, 't) sdk \<Rightarrow> int \<Rightarrow> nat \<Rightarrow> (nat \<times> exporter) list \<Rightarrow> logger_impl \<Rightarrow> ('d, 'b, 't) world \<Rightarrow>
   int outcome \<times> logger_impl \<times> ('d, 'b, 't) world" where
  "install_logger sdk min_severity provider exporters impl w =
     (if \<not> sdk_get_logger sdk (calls w) then (raise ''Unable to get logger from provider'', impl, w)
      else if otel_logger_severity min_severity = kInvalid then (invalid_severity min_severity, impl, w)
      else (case otel_exporter_files_open sdk exporters
                (call (SetMinimumSeverity provider (otel_logger_severity min_severity)) w) of
          (Inl e, w1) \<Rightarrow> (Inl e, impl, w1)
        | (Inr _, w1) \<Rightarrow>
            (Inr OTELC_RET_OK,
             \<lparr>gi_provider = Some provider, gi_logger = Some provider, gi_exporters = map fst exporters\<rparr>,
             release_provider (gi_provider impl)
               (otel_exporter_files_truncate exporters (shutdown_exporters (gi_exporters impl) w1)))))"

text \<open>The minimum severity of the configuration: absent leaves the one in force.\<close>

definition read_min_severity :: "'d cfg \<Rightarrow> int \<Rightarrow> int outcome" where
  "read_min_severity c current =
     (case yaml_find (cf_fyd c) False (Some ''OpenTelemetry logger min severity'')
             (Some (OTEL_YAML_PATH c ''/min_severity'')) (Some OTEL_YAML_BUFSIZ) of
        Inr (Some s) \<Rightarrow>
          if otelc_logger_severity_parse (Some s) = OTELC_LOG_SEVERITY_INVALID
          then raisef ''%s: invalid minimum log severity level'' [Arg_str s]
          else Inr (otelc_logger_severity_parse (Some s))
      | _ \<Rightarrow> Inr current)"

text \<open>The options: \<open>Inl\<close> an early return, with its value.\<close>

definition read_logger_options ::
  "('d, 'b, 't) sdk \<Rightarrow> 'e cfg \<Rightarrow> otelc_logger \<Rightarrow> ('d, 'b, 't) world \<Rightarrow>
   (int outcome + unit) \<times> otelc_logger \<times> ('d, 'b, 't) world" where
  "read_logger_options sdk c l w =
     (case yaml_find (cf_fyd c) True (Some ''OpenTelemetry logger scope'')
             (Some (OTEL_YAML_PATH c ''/scope_name'')) (Some OTEL_YAML_BUFSIZ) of
        Inl e \<Rightarrow> (Inl (Inl (Some e)), l, w)
      | Inr None \<Rightarrow> (Inl (Inr 0), l, w)
      | Inr (Some scope_name) \<Rightarrow>
          let (fine, w1) = try_alloc sdk w in
          if \<not> fine
          then (Inl (raise ''Unable to allocate memory for scope name''), l\<lparr>lg_scope_name := None\<rparr>, w1)
          else
            let l1 = l\<lparr>lg_scope_name := Some scope_name\<rparr> in
            (case read_min_severity c (lg_min_severity l1) of
               Inl e \<Rightarrow> (Inl (Inl e), l1, w1)
             | Inr s \<Rightarrow>
                 let l2 = l1\<lparr>lg_min_severity := s\<rparr> in
                 (case read_flush_timeout ''OpenTelemetry logger flush timeout'' c (lg_flush_timeout l2) of
                    Inl e \<Rightarrow> (Inl (Inl e), l2, w1)
                  | Inr v \<Rightarrow> (Inr (), l2\<lparr>lg_flush_timeout := v\<rparr>, w1))))"

text \<open>\<open>None\<close>: a logger without a prefix would print a null pointer.\<close>

definition otel_logger_start ::
  "('d, 'b, 't) sdk \<Rightarrow> 'e :: ord cfg \<Rightarrow> otelc_logger option \<Rightarrow> ('d, 'b, 't) world \<Rightarrow>
   (int outcome \<times> otelc_logger option \<times> ('d, 'b, 't) world) option" where
  "otel_logger_start sdk ctx logger w =
     (case logger of
        None \<Rightarrow> Some (silent, None, w)
      | Some l \<Rightarrow> (case lg_yaml_prefix l of
            None \<Rightarrow> None
          | Some prefix \<Rightarrow>
              let c = ctx\<lparr>cf_prefix := prefix\<rparr> in
              Some (case read_logger_options sdk c l w of
                (Inl r, l1, w1) \<Rightarrow> (r, Some l1, w1)
              | (Inr _, l1, w1) \<Rightarrow> (case lg_impl l1 of
                    None \<Rightarrow> (raise ''Logger implementation state not allocated'', Some l1, w1)
                  | Some impl \<Rightarrow>
                      (case run_build sdk (bbind (logger_pipeline c) (\<lambda>(exporters, processors).
                             bbind (numbered (otel_logger_provider_create (Some c) processors))
                               (\<lambda>(provider, _). give (exporters, provider))))
                             (flush_provider (gi_provider impl) (lg_flush_timeout l1) w1) of
                         (Inl e, w2) \<Rightarrow> (Inl e, Some l1, w2)
                       | (Inr (exporters, provider), w2) \<Rightarrow>
                           (case install_logger sdk (lg_min_severity l1) provider exporters impl w2 of
                              (r, impl1, w3) \<Rightarrow> (r, Some (l1\<lparr>lg_impl := Some impl1\<rparr>), w3)))))))"

section \<open>Creating and destroying a logger\<close>

definition otel_logger_destroy ::
  "('d, 'b, 't) sdk \<Rightarrow> otelc_logger option \<Rightarrow> ('d, 'b, 't) world \<Rightarrow> ('d, 'b, 't) world" where
  "otel_logger_destroy sdk logger w =
     (case logger of
        None \<Rightarrow> w
      | Some l \<Rightarrow> (case lg_impl l of
            None \<Rightarrow> w
          | Some impl \<Rightarrow>
              let w1 = flush_provider (gi_provider impl) (lg_flush_timeout l) w;
                  flushed = (lg_flush_timeout l > 0 \<and> gi_provider impl \<noteq> None \<and> sdk_force_flush sdk (calls w))
              in release_provider (gi_provider impl)
                   (if flushed then w1 else shutdown_exporters (gi_exporters impl) w1)))"

definition otel_logger_new ::
  "('d, 'b, 't) sdk \<Rightarrow> ('d, 'b, 't) world \<Rightarrow> otelc_logger option \<times> ('d, 'b, 't) world" where
  "otel_logger_new sdk w =
     (let (fine1, w1) = try_alloc sdk w in
      if \<not> fine1 then (None, w1)
      else let (fine2, w2) = try_alloc sdk w1 in
        if \<not> fine2 then (None, w2)
        else (Some \<lparr>lg_enabled = True, lg_min_severity = OTELC_LOG_SEVERITY_TRACE,
                 lg_flush_timeout = OTELC_FLUSH_TIMEOUT_MS, lg_scope_name = None, lg_yaml_prefix = None,
                 lg_impl = Some \<lparr>gi_provider = None, gi_logger = None, gi_exporters = []\<rparr>\<rparr>, w2))"

definition otelc_logger_create ::
  "('d, 'b, 't) sdk \<Rightarrow> ('e cfg \<times> string option) option \<Rightarrow> ('d, 'b, 't) world \<Rightarrow>
   otelc_logger outcome \<times> ('d, 'b, 't) world" where
  "otelc_logger_create sdk ctx w =
     (case ctx of
        None \<Rightarrow> (raise ''Invalid context'', w)
      | Some (c, name) \<Rightarrow> (case otel_logger_new sdk w of
            (None, w1) \<Rightarrow> (raise ''Unable to allocate memory for logger'', w1)
          | (Some l, w1) \<Rightarrow> (case yaml_resolve_prefix (cf_map_oom c) (cf_fyd c) (Some ''/signals/logs'') name
                (Some OTEL_YAML_NAME_DEFAULT) True of
                Inl e \<Rightarrow> (Inl (Some e), otel_logger_destroy sdk (Some l) w1)
              | Inr prefix \<Rightarrow> (Inr (l\<lparr>lg_yaml_prefix := Some prefix\<rparr>), w1))))"

end
