(* ===== verification/Otel_Library.thy ===== *)
theory Otel_Library
  imports Otel_Logger
begin

text \<open>
  The library as a whole (\<open>util.cpp\<close>): contexts made from a configuration file, the check of a
  configuration without a context, the process-wide settings (allocation and thread callbacks, the
  handler of SDK messages, the shard count of the span maps), and their tear-down.

  \<^item> Function pointers and the caller's opaque pointers are numbers, null is \<open>None\<close>.
  \<^item> Memory blocks and open documents are numbered by the attempts to make them; \<open>lib_blocks\<close> and
    \<open>lib_docs\<close> hold those not released yet.  \<open>no_mem n\<close> says whether attempt \<open>n\<close> fails.
  \<^item> The file system and the YAML parser are the arguments \<open>read_file\<close> and \<open>parse\<close> of \<open>yaml_open\<close>.
\<close>

section \<open>Process-wide settings\<close>

datatype log_handler = Default_handler | Empty_handler | Custom_handler nat "nat option" bool

record library =
  otelc_ext_malloc :: "nat option"
  otelc_ext_free :: "nat option"
  otelc_ext_thread_id :: "nat option"
  lib_log_handler :: log_handler
  lib_log_level :: int
  otel_handle_map_shards :: size_t
  otel_handle_map_shards_applied :: bool
  lib_blocks :: "nat set"
  lib_docs :: "nat set"
  lib_tried :: nat

definition OTEL_HANDLE_MAP_SHARDS :: size_t where
  "OTEL_HANDLE_MAP_SHARDS = 256"

definition library_loaded :: library where
  "library_loaded = \<lparr>otelc_ext_malloc = None, otelc_ext_free = None, otelc_ext_thread_id = None,
     lib_log_handler = Default_handler, lib_log_level = 2, otel_handle_map_shards = OTEL_HANDLE_MAP_SHARDS,
     otel_handle_map_shards_applied = False, lib_blocks = {}, lib_docs = {}, lib_tried = 0\<rparr>"

text \<open>In a callback field \<open>None\<close> is the library's own function.\<close>

definition otelc_ext_init :: "nat option \<Rightarrow> nat option \<Rightarrow> nat option \<Rightarrow> library \<Rightarrow> library" where
  "otelc_ext_init func_malloc func_free func_thread_id lib =
     (let lib1 = (if func_malloc = None \<or> func_free = None
                  then lib\<lparr>otelc_ext_malloc := None, otelc_ext_free := None\<rparr>
                  else lib\<lparr>otelc_ext_malloc := func_malloc, otelc_ext_free := func_free\<rparr>)
      in lib1\<lparr>otelc_ext_thread_id := func_thread_id\<rparr>)"

definition lib_alloc :: "(nat \<Rightarrow> bool) \<Rightarrow> library \<Rightarrow> nat option \<times> library" where
  "lib_alloc no_mem lib =
     (if no_mem (lib_tried lib) then (None, lib\<lparr>lib_tried := Suc (lib_tried lib)\<rparr>)
      else (Some (lib_tried lib),
            lib\<lparr>lib_tried := Suc (lib_tried lib), lib_blocks := insert (lib_tried lib) (lib_blocks lib)\<rparr>))"

definition lib_free :: "nat \<Rightarrow> library \<Rightarrow> library" where
  "lib_free b lib = lib\<lparr>lib_blocks := lib_blocks lib - {b}\<rparr>"

text \<open>Handlers are shared objects the SDK owns; only making one can fail.\<close>

definition otelc_log_set_handler ::
  "(nat \<Rightarrow> bool) \<Rightarrow> nat option \<Rightarrow> nat option \<Rightarrow> bool \<Rightarrow> library \<Rightarrow> library" where
  "otelc_log_set_handler no_mem handler ctx forward_attr lib =
     (let fine = (\<not> no_mem (lib_tried lib)); lib1 = lib\<lparr>lib_tried := Suc (lib_tried lib)\<rparr> in
      case handler of
        None \<Rightarrow> lib1\<lparr>lib_log_handler := (if fine then Default_handler else Empty_handler)\<rparr>
      | Some h \<Rightarrow> if fine then lib1\<lparr>lib_log_handler := Custom_handler h ctx forward_attr\<rparr> else lib1)"

definition otelc_log_set_level :: "int \<Rightarrow> library \<Rightarrow> library" where
  "otelc_log_set_level level lib = lib\<lparr>lib_log_level := level\<rparr>"

definition otelc_lib_shutdown :: "(nat \<Rightarrow> bool) \<Rightarrow> library \<Rightarrow> library" where
  "otelc_lib_shutdown no_mem lib =
     (otelc_ext_init None None None (otelc_log_set_handler no_mem None None False lib))
       \<lparr>otel_handle_map_shards := OTEL_HANDLE_MAP_SHARDS, otel_handle_map_shards_applied := False\<rparr>"

section \<open>Messages of the SDK\<close>

text \<open>An attribute of a message: a scalar or text, a vector, or a variant without a value.\<close>

datatype 'd log_attr = Log_scalar "'d visited" | Log_vector | Log_valueless

definition c_view :: "string \<Rightarrow> string" where
  "c_view s = takeWhile (\<lambda>c. c \<noteq> CHR 0x00) s"

fun kv_value_of :: "'d visited \<Rightarrow> 'd cvalue" where
  "kv_value_of (Vis_bool b) = C_bool b"
| "kv_value_of (Vis_int32 i) = C_int32 i"
| "kv_value_of (Vis_int64 i) = C_int64 i"
| "kv_value_of (Vis_uint32 i) = C_uint32 i"
| "kv_value_of (Vis_uint64 i) = C_uint64 i"
| "kv_value_of (Vis_double d) = C_double d"
| "kv_value_of (Vis_str s) = C_string (Some (c_view s))"

text \<open>The loop over the attributes: the array and how much of it is filled.  A cell outside the
  array would be undefined behaviour, \<open>None\<close>.\<close>

fun handle_attributes ::
  "(string \<times> 'd log_attr) list \<Rightarrow> 'd ckv list \<Rightarrow> nat \<Rightarrow> ('d ckv list \<times> nat) option" where
  "handle_attributes [] attr attr_len = Some (attr, attr_len)"
| "handle_attributes ((k, v) # it) attr attr_len = (case v of
       Log_valueless \<Rightarrow> handle_attributes it attr attr_len
     | Log_vector \<Rightarrow>
         if attr_len < length attr
         then handle_attributes it (attr[attr_len := (attr ! attr_len)\<lparr>ck_key := Some (c_view k)\<rparr>]) attr_len
         else None
     | Log_scalar x \<Rightarrow>
         if attr_len < length attr
         then handle_attributes it (attr[attr_len := \<lparr>ck_key = Some (c_view k), ck_value = kv_value_of x\<rparr>]) (Suc attr_len)
         else None)"

record 'd log_message =
  lm_level :: int
  lm_file :: "string option"
  lm_line :: int
  lm_msg :: "string option"
  lm_attrs :: "'d ckv list option"
  lm_attr_len :: nat
  lm_ctx :: "nat option"

text \<open>\<open>Handle\<close>: the one call it makes of the C callback.\<close>

definition otel_log_handler_Handle ::
  "bool \<Rightarrow> nat option \<Rightarrow> bool \<Rightarrow> int \<Rightarrow> string option \<Rightarrow> int \<Rightarrow> string option \<Rightarrow> (string \<times> 'd log_attr) list \<Rightarrow>
     'd log_message option" where
  "otel_log_handler_Handle fails ctx forward_attr level file line msg attributes =
     (let plain = \<lparr>lm_level = level, lm_file = file, lm_line = line, lm_msg = msg, lm_attrs = None, lm_attr_len = 0,
                   lm_ctx = ctx\<rparr> in
      if \<not> forward_attr \<or> attributes = [] then Some plain
      else if fails then Some plain
      else map_option (\<lambda>(attr, attr_len). plain\<lparr>lm_attrs := Some attr, lm_attr_len := attr_len\<rparr>)
             (handle_attributes attributes
                (replicate (length attributes) \<lparr>ck_key = None, ck_value = C_null\<rparr>) 0))"

section \<open>Contexts\<close>

record otelc_ctx =
  cx_block :: nat
  cx_name_block :: nat
  cx_name :: string
  cx_fyd :: "(nat \<times> yaml_node) option"
  cx_nstate :: "otelc_ctx_name list"

definition otel_signal_bases :: "string list" where
  "otel_signal_bases = [''/signals/traces'', ''/signals/metrics'', ''/signals/logs'']"

definition signal_names :: "string list" where
  "signal_names = [''traces'', ''metrics'', ''logs'']"

fun nstate_msg :: "otelc_ctx_name \<Rightarrow> string" where
  "nstate_msg CTX_NAME_UNSET_DEFAULT = ''Name not set; the default entry serves''"
| "nstate_msg CTX_NAME_FOUND = ''Name set; the named entry was found''"
| "nstate_msg CTX_NAME_DEFAULT = ''Name set; entry absent, the default entry serves''"
| "nstate_msg CTX_NAME_FLAT = ''Name set; no entry, no default; the flat layout serves''"
| "nstate_msg CTX_NAME_NOT_FOUND = ''Name set; nothing matches, signal creation fails''"
| "nstate_msg CTX_NAME_UNSET_FLAT = ''Name not set; no default; the flat layout serves''"
| "nstate_msg CTX_NAME_UNSET_NOT_FOUND = ''Name not set; nothing matches, signal creation fails''"
| "nstate_msg CTX_NAME_ABSENT = ''Signal section not present''"

fun nstate_code :: "otelc_ctx_name \<Rightarrow> int" where
  "nstate_code CTX_NAME_UNSET_DEFAULT = 0" | "nstate_code CTX_NAME_FOUND = 1"
| "nstate_code CTX_NAME_DEFAULT = 2" | "nstate_code CTX_NAME_FLAT = 3"
| "nstate_code CTX_NAME_NOT_FOUND = 4" | "nstate_code CTX_NAME_UNSET_FLAT = 5"
| "nstate_code CTX_NAME_UNSET_NOT_FOUND = 6" | "nstate_code CTX_NAME_ABSENT = 7"

definition otelc_load_handle_map_shards :: "yaml_node option \<Rightarrow> bool \<Rightarrow> library \<Rightarrow> unit result \<times> library" where
  "otelc_load_handle_map_shards fyd flag_apply lib =
     (case yaml_find fyd False (Some ''handle_map_shards'') (Some ''/handle_map_shards'') (Some OTEL_YAML_BUFSIZ) of
        Inl e \<Rightarrow> (Inl e, lib)
      | Inr None \<Rightarrow> (ok (), lib)
      | Inr (Some buf) \<Rightarrow>
          let (v, endptr, errno) = strtol buf 0 in
          if endptr \<noteq> Some [] \<or> errno \<noteq> No_error \<or> \<not> (1 \<le> v \<and> v \<le> 65536) \<or> v AND (v - 1) \<noteq> 0
          then (failf ''%s: invalid handle_map_shards (must be a power of two in 1..65536)'' [Arg_str buf], lib)
          else (ok (), if flag_apply \<and> \<not> otel_handle_map_shards_applied lib
                       then lib\<lparr>otel_handle_map_shards_applied := True, otel_handle_map_shards := of_int v\<rparr>
                       else lib))"

text \<open>A document that is opened gets the number of the attempt.\<close>

definition open_doc ::
  "(nat \<Rightarrow> bool) \<Rightarrow> (string \<Rightarrow> string option) \<Rightarrow> (string \<Rightarrow> string + yaml_node) \<Rightarrow> string \<Rightarrow> library \<Rightarrow>
     (nat \<times> yaml_node) result \<times> library" where
  "open_doc no_mem read_file parse f lib =
     (let n = lib_tried lib; lib1 = lib\<lparr>lib_tried := Suc n\<rparr> in
      case yaml_open read_file parse (no_mem n) (Some f) of
        Inl e \<Rightarrow> (Inl e, lib1)
      | Inr t \<Rightarrow> (ok (n, t), lib1\<lparr>lib_docs := insert n (lib_docs lib1)\<rparr>))"

definition yaml_close :: "(nat \<times> yaml_node) option \<Rightarrow> library \<Rightarrow> library" where
  "yaml_close fyd lib = (case fyd of None \<Rightarrow> lib | Some (d, _) \<Rightarrow> lib\<lparr>lib_docs := lib_docs lib - {d}\<rparr>)"

definition bad_name :: "string option \<Rightarrow> bool" where
  "bad_name name = (case name of None \<Rightarrow> False | Some n \<Rightarrow> CHR ''%'' \<in> set n)"

definition ctx_name_of :: "string option \<Rightarrow> string" where
  "ctx_name_of name = (case name of None \<Rightarrow> OTEL_YAML_NAME_DEFAULT
     | Some n \<Rightarrow> if n = [] then OTEL_YAML_NAME_DEFAULT else n)"

fun validate_signals :: "yaml_node \<Rightarrow> string \<Rightarrow> bool \<Rightarrow> (string \<times> string) list \<Rightarrow> unit result" where
  "validate_signals t ctx_name name_set [] = ok ()"
| "validate_signals t ctx_name name_set ((base, sig) # sigs) =
     (let nstate = yaml_probe_nstate (Some t) (Some base) (Some ctx_name) name_set in
      if nstate = CTX_NAME_NOT_FOUND \<or> nstate = CTX_NAME_UNSET_NOT_FOUND
      then failf ''%s signal: %s'' [Arg_str sig, Arg_str (nstate_msg nstate)]
      else validate_signals t ctx_name name_set sigs)"

definition otelc_cfg_validate ::
  "(nat \<Rightarrow> bool) \<Rightarrow> (string \<Rightarrow> string option) \<Rightarrow> (string \<Rightarrow> string + yaml_node) \<Rightarrow> string option \<Rightarrow>
     string option \<Rightarrow> library \<Rightarrow> unit result \<times> library" where
  "otelc_cfg_validate no_mem read_file parse cfgfile name lib =
     (case cfgfile of
        None \<Rightarrow> (fail ''Invalid configuration file path'', lib)
      | Some f \<Rightarrow>
          if bad_name name then (failf ''%s: invalid character in YAML context name'' [Arg_str (the name)], lib)
          else (case open_doc no_mem read_file parse f lib of
              (Inl e, lib1) \<Rightarrow> (Inl e, lib1)
            | (Inr (d, t), lib1) \<Rightarrow>
                let (r, lib2) = otelc_load_handle_map_shards (Some t) False lib1 in
                (rbind r (\<lambda>_. validate_signals t (ctx_name_of name) (str_is_valid name)
                                 (zip otel_signal_bases signal_names)),
                 yaml_close (Some (d, t)) lib2)))"

definition otelc_init ::
  "(nat \<Rightarrow> bool) \<Rightarrow> (string \<Rightarrow> string option) \<Rightarrow> (string \<Rightarrow> string + yaml_node) \<Rightarrow> string option \<Rightarrow>
     string option \<Rightarrow> library \<Rightarrow> otelc_ctx result \<times> library" where
  "otelc_init no_mem read_file parse cfgfile name lib =
     (case cfgfile of
        None \<Rightarrow> (fail ''Invalid configuration file path'', lib)
      | Some f \<Rightarrow>
          if bad_name name then (failf ''%s: invalid character in YAML context name'' [Arg_str (the name)], lib)
          else (case lib_alloc no_mem lib of
              (None, lib1) \<Rightarrow> (fail ''Unable to allocate memory for context'', lib1)
            | (Some b, lib1) \<Rightarrow> (case lib_alloc no_mem lib1 of
                (None, lib2) \<Rightarrow> (fail ''Unable to allocate memory for context name'', lib_free b lib2)
              | (Some nb, lib2) \<Rightarrow> (case open_doc no_mem read_file parse f lib2 of
                  (Inl e, lib3) \<Rightarrow> (Inl e, lib_free b (lib_free nb lib3))
                | (Inr (d, t), lib3) \<Rightarrow>
                    (case otelc_load_handle_map_shards (Some t) True lib3 of
                       (Inl e, lib4) \<Rightarrow> (Inl e, lib_free b (lib_free nb (yaml_close (Some (d, t)) lib4)))
                     | (Inr _, lib4) \<Rightarrow>
                         (ok \<lparr>cx_block = b, cx_name_block = nb, cx_name = ctx_name_of name, cx_fyd = Some (d, t),
                              cx_nstate = map (\<lambda>base. yaml_probe_nstate (Some t) (Some base) (Some (ctx_name_of name))
                                                        (str_is_valid name)) otel_signal_bases\<rparr>, lib4))))))"

text \<open>The state and the message of a signal; the buffer is as \<open>otelc_strlcpy\<close> leaves it.\<close>

definition otelc_ctx_nstate_get ::
  "otelc_ctx option \<Rightarrow> int \<Rightarrow> string option \<Rightarrow> nat \<Rightarrow> (int \<times> string option) option" where
  "otelc_ctx_nstate_get ctx signal errbuf errsize =
     (let copy = (\<lambda>msg. map_option snd (otelc_strlcpy errbuf errsize (Some (msg @ [CHR 0x00])) 0)) in
      case ctx of
        None \<Rightarrow> map_option (\<lambda>buf. (OTELC_RET_ERROR, buf)) (copy ''Invalid context'')
      | Some c \<Rightarrow>
          if \<not> (0 \<le> signal \<and> signal \<le> 2)
          then map_option (\<lambda>buf. (OTELC_RET_ERROR, buf)) (copy ''Invalid signal'')
          else let s = cx_nstate c ! nat signal in
            map_option (\<lambda>buf. (nstate_code s, buf)) (copy (nstate_msg s)))"

definition otelc_close_cfg :: "otelc_ctx option \<Rightarrow> library \<Rightarrow> otelc_ctx option \<times> library" where
  "otelc_close_cfg ctx lib = (case ctx of
       None \<Rightarrow> (None, lib)
     | Some c \<Rightarrow> (Some (c\<lparr>cx_fyd := None\<rparr>), yaml_close (cx_fyd c) lib))"

section \<open>Tear-down\<close>

text \<open>The views and instruments of the meter that are deleted with it are the last component.\<close>

definition otelc_deinit ::
  "('d, 'b, 't) sdk \<Rightarrow> timespec \<Rightarrow> bool \<Rightarrow> otelc_ctx option \<Rightarrow> otelc_tracer option \<Rightarrow> 'd otelc_meter option \<Rightarrow>
     otelc_logger option \<Rightarrow> library \<times> ('d, 'b, 't) world \<Rightarrow>
     (library \<times> ('d, 'b, 't) world) \<times> 'd view_handle list \<times> instrument_handle list" where
  "otelc_deinit sdk now in_time ctx tracer meter logger = (\<lambda>(lib, w).
     let w1 = otel_logger_destroy sdk logger w;
         (deleted, w2) = otel_meter_destroy sdk meter w1;
         w3 = otel_tracer_destroy sdk now in_time tracer w2;
         lib1 = (case ctx of
             None \<Rightarrow> lib
           | Some c \<Rightarrow> lib_free (cx_block c) (lib_free (cx_name_block c) (yaml_close (cx_fyd c) lib)))
     in ((lib1, w3), deleted))"

section \<open>Statistics\<close>

definition stat_check :: "'a otel_handle \<Rightarrow> nat \<Rightarrow> int64 \<Rightarrow> int64 \<Rightarrow> int64 \<Rightarrow> int64 \<Rightarrow> int" where
  "stat_check p a b c d e =
     (if total_map_size p = a \<and> hid p = b \<and> alloc_fail_cnt p = c \<and> erase_cnt p = d \<and> destroy_cnt p = e then 0 else 1)"

definition otelc_statistics_check ::
  "('d, 'b, 't) world \<Rightarrow> 'd otelc_meter option \<Rightarrow> int \<Rightarrow> nat \<Rightarrow> int64 \<Rightarrow> int64 \<Rightarrow> int64 \<Rightarrow> int64 \<Rightarrow> int" where
  "otelc_statistics_check w meter kind size' n alloc_fail erased destroyed =
     (let impl = (case meter of None \<Rightarrow> None | Some m \<Rightarrow> mt_impl m) in
      case (otel_span w, kind = 0, otel_span_context w, kind = 1, impl) of
        (Some p, True, _) \<Rightarrow> push_bit 0 (stat_check p size' n alloc_fail erased destroyed)
      | (_, _, Some p, True, _) \<Rightarrow> push_bit 1 (stat_check p size' n alloc_fail erased destroyed)
      | (_, _, _, _, Some i) \<Rightarrow>
          if kind = 2 then push_bit 2 (stat_check (mi_instrument i) size' n alloc_fail erased destroyed)
          else if kind = 3 then push_bit 3 (stat_check (mi_view i) size' n alloc_fail erased destroyed)
          else 0
      | _ \<Rightarrow> 0)"

end
