(* ===== verification/Otel_LibraryLaws.thy ===== *)
theory Otel_LibraryLaws
  imports Otel_Library
begin

text \<open>
  Properties of the library as a whole: what every sequence of library calls leaves intact, the
  shard count, the check of a configuration against what the configuration really does, and the
  attributes handed to a message handler.
\<close>

section \<open>Sequences of library calls\<close>

datatype ('d) lib_op =
    Op_ext_init "nat option" "nat option" "nat option"
  | Op_log_handler "nat option" "nat option" bool
  | Op_log_level int
  | Op_validate "string option" "string option"
  | Op_init "string option" "string option"
  | Op_close_cfg nat
  | Op_deinit nat timespec bool "otelc_tracer option" "'d otelc_meter option" "otelc_logger option"
  | Op_shutdown

type_synonym ('d, 'b, 't) lib_state = "library \<times> otelc_ctx option list \<times> ('d, 'b, 't) world"

text \<open>Contexts are named by the order of their creation; a context that was destroyed is \<open>None\<close>.\<close>

fun lib_step ::
  "(nat \<Rightarrow> bool) \<Rightarrow> (string \<Rightarrow> string option) \<Rightarrow> (string \<Rightarrow> string + yaml_node) \<Rightarrow> ('d, 'b, 't) sdk \<Rightarrow>
     'd lib_op \<Rightarrow> ('d, 'b, 't) lib_state \<Rightarrow> ('d, 'b, 't) lib_state" where
  "lib_step no_mem read_file parse sdk (Op_ext_init m f t) (lib, cs, w) = (otelc_ext_init m f t lib, cs, w)"
| "lib_step no_mem read_file parse sdk (Op_log_handler h c a) (lib, cs, w) = (otelc_log_set_handler no_mem h c a lib, cs, w)"
| "lib_step no_mem read_file parse sdk (Op_log_level n) (lib, cs, w) = (otelc_log_set_level n lib, cs, w)"
| "lib_step no_mem read_file parse sdk (Op_validate f name) (lib, cs, w) =
     (snd (otelc_cfg_validate no_mem read_file parse f name lib), cs, w)"
| "lib_step no_mem read_file parse sdk (Op_init f name) (lib, cs, w) =
     (case otelc_init no_mem read_file parse f name lib of
        (Inl _, lib') \<Rightarrow> (lib', cs, w) | (Inr c, lib') \<Rightarrow> (lib', cs @ [Some c], w))"
| "lib_step no_mem read_file parse sdk (Op_close_cfg i) (lib, cs, w) =
     (if i < length cs then let (c, lib') = otelc_close_cfg (cs ! i) lib in (lib', cs[i := c], w) else (lib, cs, w))"
| "lib_step no_mem read_file parse sdk (Op_deinit i now in_time tracer meter logger) (lib, cs, w) =
     (if i < length cs
      then let ((lib', w'), _) = otelc_deinit sdk now in_time (cs ! i) tracer meter logger (lib, w) in (lib', cs[i := None], w')
      else (lib, cs, w))"
| "lib_step no_mem read_file parse sdk Op_shutdown (lib, cs, w) = (otelc_lib_shutdown no_mem lib, cs, w)"

definition lib_run ::
  "(nat \<Rightarrow> bool) \<Rightarrow> (string \<Rightarrow> string option) \<Rightarrow> (string \<Rightarrow> string + yaml_node) \<Rightarrow> ('d, 'b, 't) sdk \<Rightarrow>
     'd lib_op list \<Rightarrow> ('d, 'b, 't) lib_state \<Rightarrow> ('d, 'b, 't) lib_state" where
  "lib_run no_mem read_file parse sdk ops s = fold (lib_step no_mem read_file parse sdk) ops s"

section \<open>What every call keeps\<close>

definition shards_valid :: "size_t \<Rightarrow> bool" where
  "shards_valid n \<longleftrightarrow> (\<exists>k \<le> 16. unat n = 2 ^ k)"

definition settings_ok :: "library \<Rightarrow> bool" where
  "settings_ok lib \<longleftrightarrow> (otelc_ext_malloc lib = None \<longleftrightarrow> otelc_ext_free lib = None) \<and>
     shards_valid (otel_handle_map_shards lib) \<and>
     (\<not> otel_handle_map_shards_applied lib \<longrightarrow> otel_handle_map_shards lib = OTEL_HANDLE_MAP_SHARDS)"

fun ctx_blocks :: "otelc_ctx option \<Rightarrow> nat list" where
  "ctx_blocks None = []"
| "ctx_blocks (Some c) = [cx_block c, cx_name_block c]"

fun ctx_docs :: "otelc_ctx option \<Rightarrow> nat list" where
  "ctx_docs None = []"
| "ctx_docs (Some c) = (case cx_fyd c of None \<Rightarrow> [] | Some (d, _) \<Rightarrow> [d])"

text \<open>The resources numbered by \<open>f\<close> are those of the contexts, each owned once.\<close>

definition owns :: "(otelc_ctx option \<Rightarrow> nat list) \<Rightarrow> otelc_ctx option list \<Rightarrow> nat set \<Rightarrow> nat \<Rightarrow> bool" where
  "owns f cs have n \<longleftrightarrow> distinct (concat (map f cs)) \<and> set (concat (map f cs)) = have \<and> (\<forall>x \<in> have. x < n)"

lemma owns_more: "owns f cs have n \<Longrightarrow> n \<le> m \<Longrightarrow> owns f cs have m"
  by (force simp: owns_def)

lemma owns_same:
  assumes "owns f cs have n" "i < length cs" "f c = f (cs ! i)"
  shows "owns f (cs[i := c]) have n"
proof -
  have "map f (cs[i := c]) = map f cs" using assms(3) by (metis list_update_id map_update)
  then show ?thesis using assms(1) unfolding owns_def by metis
qed

lemma owns_drop:
  assumes "owns f cs have n" "i < length cs" "f c = []"
  shows "owns f (cs[i := c]) (have - set (f (cs ! i))) n"
proof -
  obtain pre post where cs: "cs = pre @ cs ! i # post" "length pre = i"
    using assms(2) id_take_nth_drop by (metis length_take min.absorb4)
  have u: "cs[i := c] = pre @ c # post" using cs by (metis list_update_length)
  obtain a b d where abd: "a = concat (map f pre)" "b = f (cs ! i)" "d = concat (map f post)" by simp
  have "concat (map f cs) = a @ b @ d" using cs(1) unfolding abd by (metis concat.simps(2) concat_append list.simps(9) map_append)
  moreover have "concat (map f (cs[i := c])) = a @ d" by (simp add: u abd assms(3))
  ultimately show ?thesis using assms(1) unfolding owns_def abd(2) [symmetric] by auto
qed

lemma owns_add:
  assumes "owns f cs have n" "distinct (f c)" "\<forall>x \<in> set (f c). n \<le> x \<and> x < m" "n \<le> m"
  shows "owns f (cs @ [c]) (have \<union> set (f c)) m"
  using assms by (force simp: owns_def)

definition lib_inv :: "library \<Rightarrow> otelc_ctx option list \<Rightarrow> bool" where
  "lib_inv lib cs \<longleftrightarrow> settings_ok lib \<and> owns ctx_blocks cs (lib_blocks lib) (lib_tried lib) \<and>
     owns ctx_docs cs (lib_docs lib) (lib_tried lib)"

lemma shards_valid_default: "shards_valid OTEL_HANDLE_MAP_SHARDS"
  by (auto simp: shards_valid_def OTEL_HANDLE_MAP_SHARDS_def intro: exI [of _ 8])

lemma shards_valid_int:
  assumes "1 \<le> v" "v \<le> 65536" "v AND (v - 1) = 0"
  shows "shards_valid (of_int v)"
proof -
  obtain n where n: "v = int n" using assms(1) by (metis nonneg_int_cases order_trans zero_le_one)
  have "n AND (n - 1) = 0"
  proof -
    have "int (n AND (n - 1)) = v AND (v - 1)" using assms(1) n by (simp add: of_nat_and_eq of_nat_diff)
    then show ?thesis using assms(3) by simp
  qed
  then obtain k where k: "n = 2 ^ k" using and_pred_eq_0_iff [of n] n assms(1) by auto
  have "n \<le> 65536" using n assms(2) by simp
  then have "(2 :: nat) ^ k \<le> 2 ^ 16" using k by simp
  then have "k \<le> 16" using power_le_imp_le_exp by (metis numeral_One numeral_less_iff semiring_norm(76))
  moreover have "unat (of_int v :: size_t) = n"
    using n \<open>n \<le> 65536\<close> by (simp add: unat_of_nat take_bit_nat_eq_self_iff flip: take_bit_nat_eq_self_iff)
  ultimately show ?thesis using k by (auto simp: shards_valid_def)
qed

lemma load_shards:
  assumes "otelc_load_handle_map_shards fyd apply_it lib = (r, lib')"
  shows "lib' = lib \<or> (\<exists>v. 1 \<le> v \<and> v \<le> 65536 \<and> v AND (v - 1) = 0 \<and> apply_it \<and> r = ok () \<and>
    \<not> otel_handle_map_shards_applied lib \<and>
    lib' = lib\<lparr>otel_handle_map_shards_applied := True, otel_handle_map_shards := of_int v\<rparr>)"
  using assms by (auto simp: otelc_load_handle_map_shards_def Let_def split: sum.splits option.splits prod.splits if_splits)

lemma load_settings:
  "otelc_load_handle_map_shards fyd apply_it lib = (r, lib') \<Longrightarrow> settings_ok lib \<Longrightarrow> settings_ok lib'"
  using load_shards [of fyd apply_it lib r lib'] shards_valid_int by (auto simp: settings_ok_def)

lemma load_resources:
  "otelc_load_handle_map_shards fyd apply_it lib = (r, lib') \<Longrightarrow>
     lib_blocks lib' = lib_blocks lib \<and> lib_docs lib' = lib_docs lib \<and> lib_tried lib' = lib_tried lib"
  using load_shards [of fyd apply_it lib r lib'] by auto

lemma open_doc_cases:
  assumes "open_doc no_mem read_file parse f lib = (r, lib')"
  shows "(case r of
      Inl e \<Rightarrow> yaml_open read_file parse (no_mem (lib_tried lib)) (Some f) = Inl e \<and> lib' = lib\<lparr>lib_tried := Suc (lib_tried lib)\<rparr>
    | Inr (d, t) \<Rightarrow> d = lib_tried lib \<and> yaml_open read_file parse (no_mem (lib_tried lib)) (Some f) = ok t \<and>
        lib' = lib\<lparr>lib_tried := Suc (lib_tried lib), lib_docs := insert d (lib_docs lib)\<rparr>)"
  using assms by (auto simp: open_doc_def Let_def split: sum.splits)

definition fresh_numbers :: "library \<Rightarrow> bool" where
  "fresh_numbers lib \<longleftrightarrow> (\<forall>x \<in> lib_blocks lib \<union> lib_docs lib. x < lib_tried lib)"

lemma validate_result:
  assumes "otelc_cfg_validate no_mem read_file parse f name lib = (r, lib')" "fresh_numbers lib"
  shows "lib_tried lib \<le> lib_tried lib' \<and> lib' = lib\<lparr>lib_tried := lib_tried lib'\<rparr>"
proof -
  have u: "l = l\<lparr>lib_tried := lib_tried l\<rparr>" for l :: library by simp
  consider "lib' = lib" | g r1 lib1 where "f = Some g" "open_doc no_mem read_file parse g lib = (r1, lib1)"
    "(case r1 of Inl e \<Rightarrow> lib' = lib1
      | Inr (d, t) \<Rightarrow> lib' = yaml_close (Some (d, t)) (snd (otelc_load_handle_map_shards (Some t) False lib1)))"
    using assms(1) by (auto simp: otelc_cfg_validate_def Let_def split: option.splits if_splits prod.splits sum.splits)
  then show ?thesis
  proof cases
    case 2
    show ?thesis
    proof (cases r1)
      case (Inl e)
      then show ?thesis using 2 open_doc_cases [OF 2(2)] by simp
    next
      case (Inr dt)
      obtain d t where dt: "dt = (d, t)" by fastforce
      have l: "snd (otelc_load_handle_map_shards (Some t) False lib1) = lib1"
        using load_shards by (metis prod.collapse)
      have "lib_docs lib1 - {d} = lib_docs lib"
        using open_doc_cases [OF 2(2)] Inr dt assms(2) by (auto simp: fresh_numbers_def)
      then show ?thesis using 2(3) Inr dt open_doc_cases [OF 2(2)] l by (simp add: yaml_close_def)
    qed
  qed simp
qed

text \<open>Every way through \<open>otelc_init\<close>: it fails and has released what it took, or it makes a context.\<close>

lemma init_cases:
  assumes "otelc_init no_mem read_file parse f name lib = (r, lib')" "fresh_numbers lib"
  obtains (failed) e where "r = Inl e" "lib_tried lib \<le> lib_tried lib'" "lib' = lib\<lparr>lib_tried := lib_tried lib'\<rparr>"
  | (made) t g lib3 where "f = Some g" "\<not> bad_name name" "yaml_open read_file parse (no_mem (lib_tried lib + 2)) (Some g) = ok t"
      "lib3 = lib\<lparr>lib_tried := lib_tried lib + 3, lib_blocks := lib_blocks lib \<union> {lib_tried lib, lib_tried lib + 1},
         lib_docs := insert (lib_tried lib + 2) (lib_docs lib)\<rparr>"
      "otelc_load_handle_map_shards (Some t) True lib3 = (ok (), lib')"
      "r = ok \<lparr>cx_block = lib_tried lib, cx_name_block = lib_tried lib + 1, cx_name = ctx_name_of name,
         cx_fyd = Some (lib_tried lib + 2, t),
         cx_nstate = map (\<lambda>base. yaml_probe_nstate (Some t) (Some base) (Some (ctx_name_of name)) (str_is_valid name))
           otel_signal_bases\<rparr>"
proof -
  let ?n = "lib_tried lib"
  have fresh: "?n \<notin> lib_blocks lib" "Suc ?n \<notin> lib_blocks lib" "Suc (Suc ?n) \<notin> lib_docs lib"
    using assms(2) by (auto simp: fresh_numbers_def dest: bspec [of _ _ "Suc ?n"] bspec [of _ _ "Suc (Suc ?n)"])
  show thesis
  proof (cases "f = None \<or> bad_name name \<or> no_mem ?n \<or> no_mem (Suc ?n)")
    case True
    then show thesis
      using assms(1) fresh(1) by (intro failed [of "projl r"])
        (auto simp: otelc_init_def lib_alloc_def lib_free_def split: option.splits if_splits)
  next
    case False
    then obtain g where g: "f = Some g" "\<not> bad_name name" "\<not> no_mem ?n" "\<not> no_mem (Suc ?n)" by auto
    let ?lib2 = "lib\<lparr>lib_tried := Suc (Suc ?n), lib_blocks := insert (Suc ?n) (insert ?n (lib_blocks lib))\<rparr>"
    obtain r3 lib3 where o: "open_doc no_mem read_file parse g ?lib2 = (r3, lib3)" by fastforce
    show thesis
    proof (cases r3)
      case (Inl e)
      then show thesis
        using assms(1) g o open_doc_cases [OF o] fresh(1,2)
        by (intro failed [of e]) (auto simp: otelc_init_def lib_alloc_def lib_free_def)
    next
      case (Inr dt)
      obtain d t where dt: "dt = (d, t)" by fastforce
      obtain r4 lib4 where l: "otelc_load_handle_map_shards (Some t) True lib3 = (r4, lib4)" by fastforce
      note od = open_doc_cases [OF o, unfolded Inr dt sum.case prod.case]
      show thesis
      proof (cases r4)
        case (Inl e)
        then have "lib4 = lib3" using load_shards [OF l] by auto
        then show thesis
          using assms(1) g o od l Inl \<open>r3 = Inr dt\<close> dt fresh
          by (intro failed [of e]) (auto simp: otelc_init_def lib_alloc_def lib_free_def yaml_close_def)
      next
        case (Inr u)
        then show thesis
          using assms(1) g o od l \<open>r3 = Inr dt\<close> dt
          by (intro made [of g t lib3]) (auto simp: otelc_init_def lib_alloc_def insert_commute)
      qed
    qed
  qed
qed

lemma init_settings:
  assumes "otelc_init no_mem read_file parse f name lib = (r, lib')" "fresh_numbers lib"
  shows "(settings_ok lib \<longrightarrow> settings_ok lib') \<and> lib_tried lib \<le> lib_tried lib'"
  using assms
proof (cases rule: init_cases)
  case (failed e)
  have "settings_ok (lib\<lparr>lib_tried := n\<rparr>) = settings_ok lib" for n by (simp add: settings_ok_def)
  then show ?thesis using failed(2,3) by metis
next
  case (made t g lib3)
  have "settings_ok lib3 = settings_ok lib" by (simp add: made(4) settings_ok_def)
  then show ?thesis
    using load_settings [OF made(5)] load_resources [OF made(5)] made(4) by auto
qed

lemma lib_inv_fresh: "lib_inv lib cs \<Longrightarrow> fresh_numbers lib"
  by (auto simp: lib_inv_def owns_def fresh_numbers_def)

lemma lib_inv_counter:
  "lib_inv lib cs \<Longrightarrow> lib_tried lib \<le> n \<Longrightarrow> lib_inv (lib\<lparr>lib_tried := n\<rparr>) cs"
  by (auto simp: lib_inv_def settings_ok_def intro: owns_more)

lemma lib_inv_settings:
  assumes "lib_inv lib cs" "settings_ok lib'" "lib_blocks lib' = lib_blocks lib" "lib_docs lib' = lib_docs lib"
    and "lib_tried lib \<le> lib_tried lib'"
  shows "lib_inv lib' cs"
  using assms by (auto simp: lib_inv_def intro: owns_more)

lemma lib_inv_init:
  assumes "lib_inv lib cs" "otelc_init no_mem read_file parse f name lib = (r, lib')"
  shows "lib_inv lib' (case r of Inl _ \<Rightarrow> cs | Inr c \<Rightarrow> cs @ [Some c])"
  using assms(2) lib_inv_fresh [OF assms(1)]
proof (cases rule: init_cases)
  case (failed e)
  then show ?thesis using lib_inv_counter [OF assms(1), of "lib_tried lib'"] by simp
next
  case (made t g lib3)
  let ?n = "lib_tried lib"
  have ok: "settings_ok lib'" using init_settings [OF assms(2) lib_inv_fresh [OF assms(1)]] assms(1) by (simp add: lib_inv_def)
  have res: "lib_blocks lib' = lib_blocks lib \<union> set [?n, ?n + 1]" "lib_docs lib' = lib_docs lib \<union> set [?n + 2]"
    "lib_tried lib' = ?n + 3"
    using load_resources [OF made(5)] made(4) by auto
  have "owns ctx_blocks (cs @ [Some c]) (lib_blocks lib \<union> set (ctx_blocks (Some c))) (?n + 3)"
    if "ctx_blocks (Some c) = [?n, ?n + 1]" for c
    using assms(1) that by (intro owns_add [where n = ?n]) (simp_all add: lib_inv_def)
  moreover have "owns ctx_docs (cs @ [Some c]) (lib_docs lib \<union> set (ctx_docs (Some c))) (?n + 3)"
    if "ctx_docs (Some c) = [?n + 2]" for c
    using assms(1) that by (intro owns_add [where n = ?n]) (simp_all add: lib_inv_def)
  ultimately show ?thesis
    unfolding made(6) sum.case lib_inv_def res using ok by fastforce
qed

lemma close_docs: "lib_docs (yaml_close (cx_fyd c) lib) = lib_docs lib - set (ctx_docs (Some c))"
  by (auto simp: yaml_close_def split: option.split)

lemma close_other [simp]:
  "lib_blocks (yaml_close fyd lib) = lib_blocks lib" "lib_tried (yaml_close fyd lib) = lib_tried lib"
  "settings_ok (yaml_close fyd lib) = settings_ok lib"
  by (auto simp: yaml_close_def settings_ok_def split: option.split)

lemma lib_inv_close:
  assumes "lib_inv lib cs" "i < length cs" "otelc_close_cfg (cs ! i) lib = (c, lib')"
  shows "lib_inv lib' (cs[i := c])"
proof (cases "cs ! i")
  case None
  then show ?thesis using assms by (simp add: otelc_close_cfg_def list_update_same_conv [THEN iffD2])
next
  case (Some x)
  then have c: "c = Some (x\<lparr>cx_fyd := None\<rparr>)" "lib' = yaml_close (cx_fyd x) lib"
    using assms(3) by (simp_all add: otelc_close_cfg_def)
  show ?thesis
    using assms(1) owns_same [OF _ assms(2), of ctx_blocks "lib_blocks lib" "lib_tried lib" c]
      owns_drop [OF _ assms(2), of ctx_docs "lib_docs lib" "lib_tried lib" c] Some
    by (simp add: lib_inv_def c close_docs)
qed

lemma lib_inv_deinit:
  assumes "lib_inv lib cs" "i < length cs"
    and "otelc_deinit sdk now in_time (cs ! i) tracer meter logger (lib, w) = ((lib', w'), deleted)"
  shows "lib_inv lib' (cs[i := None])"
proof (cases "cs ! i")
  case None
  then show ?thesis
    using assms by (auto simp: otelc_deinit_def Let_def list_update_same_conv [THEN iffD2] split: prod.splits)
next
  case (Some x)
  then have l: "lib' = lib_free (cx_block x) (lib_free (cx_name_block x) (yaml_close (cx_fyd x) lib))"
    using assms(3) by (auto simp: otelc_deinit_def Let_def split: prod.splits)
  have "lib_blocks lib' = lib_blocks lib - set (ctx_blocks (cs ! i))" "lib_docs lib' = lib_docs lib - set (ctx_docs (cs ! i))"
    "lib_tried lib' = lib_tried lib" "settings_ok lib' = settings_ok lib"
    using Some close_docs [of x lib] by (auto simp: l lib_free_def settings_ok_def yaml_close_def split: option.splits)
  then show ?thesis
    using assms(1) owns_drop [OF _ assms(2), of ctx_blocks "lib_blocks lib" "lib_tried lib" None]
      owns_drop [OF _ assms(2), of ctx_docs "lib_docs lib" "lib_tried lib" None]
    by (simp add: lib_inv_def)
qed

lemma settings_calls:
  "settings_ok lib \<Longrightarrow> settings_ok (otelc_ext_init m f t lib)"
  "settings_ok lib \<Longrightarrow> settings_ok (otelc_log_set_handler no_mem h c a lib)"
  "settings_ok lib \<Longrightarrow> settings_ok (otelc_log_set_level n lib)"
  "settings_ok lib \<Longrightarrow> settings_ok (otelc_lib_shutdown no_mem lib)"
  using shards_valid_default
  by (auto simp: otelc_ext_init_def otelc_log_set_handler_def otelc_log_set_level_def otelc_lib_shutdown_def
      settings_ok_def Let_def split: option.split)

lemma resources_calls:
  "lib_blocks (otelc_ext_init m f t lib) = lib_blocks lib \<and> lib_docs (otelc_ext_init m f t lib) = lib_docs lib \<and>
   lib_tried (otelc_ext_init m f t lib) = lib_tried lib"
  "lib_blocks (otelc_log_set_handler no_mem h c a lib) = lib_blocks lib \<and>
   lib_docs (otelc_log_set_handler no_mem h c a lib) = lib_docs lib \<and>
   lib_tried (otelc_log_set_handler no_mem h c a lib) = Suc (lib_tried lib)"
  "lib_blocks (otelc_log_set_level n lib) = lib_blocks lib \<and> lib_docs (otelc_log_set_level n lib) = lib_docs lib \<and>
   lib_tried (otelc_log_set_level n lib) = lib_tried lib"
  "lib_blocks (otelc_lib_shutdown no_mem lib) = lib_blocks lib \<and> lib_docs (otelc_lib_shutdown no_mem lib) = lib_docs lib \<and>
   lib_tried (otelc_lib_shutdown no_mem lib) = Suc (lib_tried lib)"
  by (simp_all add: otelc_ext_init_def otelc_log_set_handler_def otelc_log_set_level_def otelc_lib_shutdown_def
      Let_def split: option.split)

lemma lib_inv_step:
  assumes "lib_inv lib cs" "lib_step no_mem read_file parse sdk x (lib, cs, w) = (lib', cs', w')"
  shows "lib_inv lib' cs'"
proof (cases x)
  case (Op_ext_init m f t)
  then have "lib' = otelc_ext_init m f t lib" "cs' = cs" using assms(2) by simp_all
  then show ?thesis using lib_inv_settings [OF assms(1)] assms(1) settings_calls(1) resources_calls(1) by (metis lib_inv_def le_Suc_eq order_refl)
next
  case (Op_log_handler h c a)
  then have "lib' = otelc_log_set_handler no_mem h c a lib" "cs' = cs" using assms(2) by simp_all
  then show ?thesis using lib_inv_settings [OF assms(1)] assms(1) settings_calls(2) resources_calls(2) by (metis lib_inv_def le_Suc_eq order_refl)
next
  case (Op_log_level n)
  then have "lib' = otelc_log_set_level n lib" "cs' = cs" using assms(2) by simp_all
  then show ?thesis using lib_inv_settings [OF assms(1)] assms(1) settings_calls(3) resources_calls(3) by (metis lib_inv_def le_Suc_eq order_refl)
next
  case (Op_validate f name)
  then obtain r where v: "otelc_cfg_validate no_mem read_file parse f name lib = (r, lib')" "cs' = cs"
    using assms(2) by (cases "otelc_cfg_validate no_mem read_file parse f name lib") auto
  then show ?thesis
    using validate_result [OF v(1) lib_inv_fresh [OF assms(1)]] lib_inv_counter [OF assms(1), of "lib_tried lib'"] by simp
next
  case (Op_init f name)
  obtain r l where i: "otelc_init no_mem read_file parse f name lib = (r, l)" by fastforce
  then show ?thesis using lib_inv_init [OF assms(1) i] assms(2) Op_init by (auto split: sum.splits)
next
  case (Op_close_cfg i)
  then show ?thesis
    using assms lib_inv_close [OF assms(1)] by (auto split: if_splits prod.splits)
next
  case (Op_deinit i now in_time tracer meter logger)
  then show ?thesis
    using assms lib_inv_deinit [OF assms(1)] by (auto split: if_splits prod.splits)
next
  case Op_shutdown
  then have "lib' = otelc_lib_shutdown no_mem lib" "cs' = cs" using assms(2) by simp_all
  then show ?thesis using lib_inv_settings [OF assms(1)] assms(1) settings_calls(4) resources_calls(4) by (metis lib_inv_def le_Suc_eq order_refl)
qed

lemma lib_inv_run:
  assumes "lib_inv lib cs" "lib_run no_mem read_file parse sdk ops (lib, cs, w) = (lib', cs', w')"
  shows "lib_inv lib' cs'"
  using assms
proof (induction ops arbitrary: lib cs w)
  case (Cons x ops)
  obtain l c w1 where s: "lib_step no_mem read_file parse sdk x (lib, cs, w) = (l, c, w1)" by (metis prod_cases3)
  show ?case
    using Cons.IH [OF lib_inv_step [OF Cons.prems(1) s]] Cons.prems(2) s by (simp add: lib_run_def)
qed (simp add: lib_run_def)

lemma shards_valid_new: "shards_valid n \<Longrightarrow> \<exists>h. otel_handle_new n = ok h"
  using word_and_pred_eq_0_iff [of n] by (cases "n = 0") (auto simp: shards_valid_def otel_handle_new_ok)

text \<open>
  C18: No sequence of library calls corrupts the process-wide state.  After any calls whatever, from
  the loading of the library on, with any files, any failing allocations and any order of contexts:
  the allocation callbacks come from one source; the shard count is one the constructor of the span
  maps accepts, at most 65536, and the default one until a key was applied; the memory blocks and
  the open documents are exactly those of the contexts not yet destroyed, each owned by one.
\<close>
theorem library_state_sound:
  assumes "lib_run no_mem read_file parse sdk ops (library_loaded, [], w) = (lib, cs, w')"
  shows "(otelc_ext_malloc lib = None \<longleftrightarrow> otelc_ext_free lib = None) \<and>
    (\<exists>h :: 'a otel_handle. otel_handle_new (otel_handle_map_shards lib) = ok h) \<and>
    unat (otel_handle_map_shards lib) \<le> 65536 \<and>
    (\<not> otel_handle_map_shards_applied lib \<longrightarrow> otel_handle_map_shards lib = OTEL_HANDLE_MAP_SHARDS) \<and>
    lib_blocks lib = set (concat (map ctx_blocks cs)) \<and> distinct (concat (map ctx_blocks cs)) \<and>
    lib_docs lib = set (concat (map ctx_docs cs)) \<and> distinct (concat (map ctx_docs cs))"
proof -
  have "lib_inv library_loaded []"
    using shards_valid_default by (simp add: lib_inv_def settings_ok_def owns_def library_loaded_def)
  note inv = lib_inv_run [OF this assms]
  obtain k where k: "k \<le> 16" "unat (otel_handle_map_shards lib) = 2 ^ k"
    using inv by (auto simp: lib_inv_def settings_ok_def shards_valid_def)
  have "(2 :: nat) ^ k \<le> 2 ^ 16" using k(1) power_increasing [of k 16 "2 :: nat"] by simp
  then have "unat (otel_handle_map_shards lib) \<le> 65536" using k(2) by simp
  then show ?thesis
    using inv shards_valid_new by (auto simp: lib_inv_def settings_ok_def owns_def)
qed

text \<open>A system in which a file holds its own name, and a parser that makes it the shard key of a document.\<close>

abbreviation demo_read :: "string \<Rightarrow> string option" where
  "demo_read \<equiv> \<lambda>f. Some f"

definition demo_parse :: "string \<Rightarrow> string + yaml_node" where
  "demo_parse s = Inr (Y_map [(''handle_map_shards'', Y_val s),
     (''signals'', Y_map [(''traces'', Y_map [(''default'', Y_map [])])])])"

lemma library_state_sound_witness:
  "\<forall>sdk w. \<exists>lib cs w'. lib_run (\<lambda>n. n = 4) demo_read demo_parse sdk
      [Op_ext_init (Some 1) None None, Op_init (Some ''16'') (Some ''web''), Op_init (Some ''32'') None, Op_close_cfg 0]
      (library_loaded, [], w) = (lib, cs, w') \<and>
    unat (otel_handle_map_shards lib) \<le> 65536 \<and> lib_blocks lib = set (concat (map ctx_blocks cs))"
proof (intro allI)
  fix sdk :: "('a, 'b, 'c) sdk" and w :: "('a, 'b, 'c) world"
  obtain lib cs w' where r: "lib_run (\<lambda>n. n = 4) demo_read demo_parse sdk
      [Op_ext_init (Some 1) None None, Op_init (Some ''16'') (Some ''web''), Op_init (Some ''32'') None, Op_close_cfg 0]
      (library_loaded, [], w) = (lib, cs, w')" by (metis prod_cases3)
  then show "\<exists>lib cs w'. lib_run (\<lambda>n. n = 4) demo_read demo_parse sdk
      [Op_ext_init (Some 1) None None, Op_init (Some ''16'') (Some ''web''), Op_init (Some ''32'') None, Op_close_cfg 0]
      (library_loaded, [], w) = (lib, cs, w') \<and>
    unat (otel_handle_map_shards lib) \<le> 65536 \<and> lib_blocks lib = set (concat (map ctx_blocks cs))"
    using library_state_sound [OF r] by blast
qed

section \<open>The check of a configuration\<close>

definition creates_against :: "otelc_ctx \<Rightarrow> string \<Rightarrow> bool" where
  "creates_against c base = is_ok (yaml_resolve_prefix (\<lambda>_. False) (map_option snd (cx_fyd c)) (Some base)
     (Some (cx_name c)) (Some OTEL_YAML_NAME_DEFAULT) True)"

abbreviation served_by_nothing :: "otelc_ctx_name \<Rightarrow> bool" where
  "served_by_nothing s \<equiv> s = CTX_NAME_NOT_FOUND \<or> s = CTX_NAME_UNSET_NOT_FOUND"

lemma probe_unset: "yaml_probe_nstate fyd b name False = yaml_probe_nstate fyd b None False"
  by (simp add: yaml_probe_nstate_def)

lemma signal_usable:
  assumes "b \<in> set otel_signal_bases" "\<not> bad_name name" "length (ctx_name_of name) < 3900"
  shows "served_by_nothing (yaml_probe_nstate (Some t) (Some b) (Some (ctx_name_of name)) (str_is_valid name)) \<longleftrightarrow>
    yaml_node_exists (Some t) b \<and>
    \<not> is_ok (yaml_resolve_prefix (\<lambda>_. False) (Some t) (Some b) (Some (ctx_name_of name)) (Some OTEL_YAML_NAME_DEFAULT) True)"
proof -
  let ?n = "ctx_name_of name"
  let ?name = "if str_is_valid name then Some ?n else None"
  let ?s = "yaml_probe_nstate (Some t) (Some b) (Some ?n) (str_is_valid name)"
  let ?r = "yaml_resolve_prefix (\<lambda>_. False) (Some t) (Some b) (Some ?n) (Some OTEL_YAML_NAME_DEFAULT) True"
  have b: "b \<noteq> []" "length b < 20" using assms(1) by (auto simp: otel_signal_bases_def)
  have n: "CHR ''%'' \<notin> set ?n"
    using assms(2) by (auto simp: bad_name_def ctx_name_of_def OTEL_YAML_NAME_DEFAULT_def split: option.splits)
  have s: "state_prefix b ?n ?s = resolved (Some t) b ?name"
    using yaml_probe_resolved [of b ?n ?name "str_is_valid name" t] b assms(3) probe_unset [of "Some t" "Some b" "Some ?n"]
    by auto
  have same: "resolved (Some t) b ?name = resolved (Some t) b (Some ?n)"
    by (cases name) (auto simp: resolved_def ctx_name_of_def OTEL_YAML_NAME_DEFAULT_def)
  have "result_option ?r = resolved (Some t) b (Some ?n)"
    using yaml_resolve_prefix_resolved [OF b(1) _ _ n, of "Some ?n" t] b(2) assms(3) by simp
  moreover have "is_ok ?r \<longleftrightarrow> result_option ?r \<noteq> None" by (cases ?r) (simp_all add: result_option_def)
  ultimately have "is_ok ?r \<longleftrightarrow> state_prefix b ?n ?s \<noteq> None" using s same by simp
  moreover have "?s = CTX_NAME_ABSENT \<longleftrightarrow> \<not> yaml_node_exists (Some t) b"
    using b by (auto simp: yaml_probe_nstate_def Let_def)
  ultimately show ?thesis by (cases ?s) auto
qed

lemma validate_signals_ok:
  "is_ok (validate_signals t n name_set sigs) \<longleftrightarrow>
     (\<forall>b \<in> set (map fst sigs). \<not> served_by_nothing (yaml_probe_nstate (Some t) (Some b) (Some n) name_set))"
  by (induction t n name_set sigs rule: validate_signals.induct) (auto simp: Let_def)

lemma load_outcome: "fst (otelc_load_handle_map_shards fyd x lib) = fst (otelc_load_handle_map_shards fyd y lib')"
  by (simp add: otelc_load_handle_map_shards_def Let_def split: sum.split option.split prod.split)

text \<open>
  C11: The check of a configuration predicts its use, and touches nothing.  With memory available,
  \<open>otelc_cfg_validate\<close> accepts a file and a name exactly if \<open>otelc_init\<close> makes a context from them
  against which every signal that has a section can be created; and it leaves every process-wide
  setting, the first application of the shard key included, and the resources as they were.
\<close>
theorem validate_predicts_use:
  assumes "fresh_numbers lib" "length (ctx_name_of name) < 3900"
    and "otelc_cfg_validate (\<lambda>_. False) read_file parse f name lib = (r, lib')"
  shows "(is_ok r \<longleftrightarrow> (\<exists>c lib2. otelc_init (\<lambda>_. False) read_file parse f name lib = (ok c, lib2) \<and>
      (\<forall>base \<in> set otel_signal_bases. yaml_node_exists (map_option snd (cx_fyd c)) base \<longrightarrow> creates_against c base))) \<and>
    lib' = lib\<lparr>lib_tried := lib_tried lib'\<rparr>"
proof (cases "f = None \<or> bad_name name")
  case True
  then show ?thesis
    using assms(3) by (auto simp: otelc_cfg_validate_def otelc_init_def split: option.splits)
next
  case False
  then obtain g where g: "f = Some g" "\<not> bad_name name" by auto
  have same: "lib' = lib\<lparr>lib_tried := lib_tried lib'\<rparr>" using validate_result [OF assms(3,1)] by simp
  obtain ri lib2 where i: "otelc_init (\<lambda>_. False) read_file parse f name lib = (ri, lib2)" by fastforce
  have open_ok: "is_ok r \<Longrightarrow> \<exists>t. yaml_open read_file parse False (Some g) = ok t"
    using assms(3) g by (auto simp: otelc_cfg_validate_def open_doc_def Let_def split: sum.splits prod.splits)
  have valid: "is_ok r \<longleftrightarrow> is_ok (fst (otelc_load_handle_map_shards (Some t) True l)) \<and>
      is_ok (validate_signals t (ctx_name_of name) (str_is_valid name) (zip otel_signal_bases signal_names))"
    if "yaml_open read_file parse False (Some g) = ok t" for t l
  proof -
    obtain rl ll where load: "otelc_load_handle_map_shards (Some t) False
        (lib\<lparr>lib_tried := Suc (lib_tried lib), lib_docs := insert (lib_tried lib) (lib_docs lib)\<rparr>) = (rl, ll)"
      by fastforce
    then have "r = rbind rl (\<lambda>_. validate_signals t (ctx_name_of name) (str_is_valid name) (zip otel_signal_bases signal_names))"
      using assms(3) g that by (simp add: otelc_cfg_validate_def open_doc_def Let_def)
    moreover have "fst (otelc_load_handle_map_shards (Some t) True l) = rl"
      using load load_outcome [of "Some t" True l False] by (metis fst_conv)
    ultimately show ?thesis by (cases rl) auto
  qed
  have bases: "map fst (zip otel_signal_bases signal_names) = otel_signal_bases"
    by (simp add: otel_signal_bases_def signal_names_def)
  from i assms(1) show ?thesis
  proof (cases rule: init_cases)
    case (failed e)
    have "\<not> is_ok r"
    proof
      assume r: "is_ok r"
      then obtain t where t: "yaml_open read_file parse False (Some g) = ok t" using open_ok by blast
      have "is_ok (fst (otelc_load_handle_map_shards (Some t) True l))" for l using valid [OF t] r by blast
      then show False
        using i failed(1) g t by (auto simp: otelc_init_def lib_alloc_def open_doc_def Let_def is_ok_iff
            split: sum.splits prod.splits) (metis fst_conv sum.distinct(1))+
    qed
    then show ?thesis using failed(1) i same by auto
  next
    case (made t g' lib3)
    have t: "yaml_open read_file parse False (Some g) = ok t" using made(1,3) g by simp
    have "is_ok r \<longleftrightarrow> (\<forall>b \<in> set otel_signal_bases. \<not> served_by_nothing
        (yaml_probe_nstate (Some t) (Some b) (Some (ctx_name_of name)) (str_is_valid name)))"
      using valid [OF t, of lib3] made(5) by (simp add: validate_signals_ok bases)
    also have "\<dots> \<longleftrightarrow> (\<forall>b \<in> set otel_signal_bases. yaml_node_exists (Some t) b \<longrightarrow>
        is_ok (yaml_resolve_prefix (\<lambda>_. False) (Some t) (Some b) (Some (ctx_name_of name)) (Some OTEL_YAML_NAME_DEFAULT) True))"
      using signal_usable [OF _ g(2) assms(2), of _ t] by blast
    finally show ?thesis using i made(6) same by (auto simp: creates_against_def)
  qed
qed

lemma validate_predicts_use_witness:
  "\<exists>c lib2. otelc_init (\<lambda>_. False) demo_read demo_parse (Some ''8'') (Some ''web'') library_loaded = (ok c, lib2) \<and>
    creates_against c ''/signals/traces''"
proof -
  obtain r lib' where v: "otelc_cfg_validate (\<lambda>_. False) demo_read demo_parse (Some ''8'') (Some ''web'') library_loaded = (r, lib')"
    by fastforce
  have f: "fresh_numbers library_loaded" "length (ctx_name_of (Some ''web'')) < 3900"
    by (simp_all add: fresh_numbers_def library_loaded_def ctx_name_of_def)
  have "is_ok (fst (otelc_cfg_validate (\<lambda>_. False) demo_read demo_parse (Some ''8'') (Some ''web'') library_loaded))"
    by code_simp
  then have "is_ok r" using v by simp
  then obtain c lib2 where c: "otelc_init (\<lambda>_. False) demo_read demo_parse (Some ''8'') (Some ''web'') library_loaded = (ok c, lib2)"
    "\<forall>base \<in> set otel_signal_bases. yaml_node_exists (map_option snd (cx_fyd c)) base \<longrightarrow> creates_against c base"
    using validate_predicts_use [OF f v] by blast
  have "(case fst (otelc_init (\<lambda>_. False) demo_read demo_parse (Some ''8'') (Some ''web'') library_loaded) of
      Inr c \<Rightarrow> yaml_node_exists (map_option snd (cx_fyd c)) ''/signals/traces'' | Inl _ \<Rightarrow> False)"
    by code_simp
  then show ?thesis using c by (auto simp: otel_signal_bases_def)
qed

section \<open>The shard count\<close>

lemma applied_step:
  assumes "lib_inv lib cs" "otel_handle_map_shards_applied lib" "x \<noteq> Op_shutdown"
    and "lib_step no_mem read_file parse sdk x (lib, cs, w) = (lib', cs', w')"
  shows "otel_handle_map_shards_applied lib' \<and> otel_handle_map_shards lib' = otel_handle_map_shards lib"
proof (cases x)
  case (Op_validate f name)
  then have "lib' = snd (otelc_cfg_validate no_mem read_file parse f name lib)" using assms(4) by simp
  then obtain r where "otelc_cfg_validate no_mem read_file parse f name lib = (r, lib')" by (metis prod.collapse)
  then have "lib' = lib\<lparr>lib_tried := lib_tried lib'\<rparr>" using validate_result lib_inv_fresh [OF assms(1)] by blast
  then show ?thesis using assms(2) by (metis library.select_convs(6,7) library.surjective library.update_convs(10))
next
  case (Op_init f name)
  obtain r l where i: "otelc_init no_mem read_file parse f name lib = (r, l)" by fastforce
  then have l: "lib' = l" using assms(4) Op_init by (auto split: sum.splits)
  from i lib_inv_fresh [OF assms(1)] show ?thesis
  proof (cases rule: init_cases)
    case (failed e)
    then show ?thesis using assms(2) l by (metis library.select_convs(6,7) library.surjective library.update_convs(10))
  next
    case (made t g lib3)
    then have "lib' = lib3" using load_shards [OF made(5)] assms(2) l by auto
    then show ?thesis using made(4) assms(2) by simp
  qed
qed (use assms in \<open>auto simp: otelc_ext_init_def otelc_log_set_handler_def otelc_log_set_level_def otelc_close_cfg_def
      otelc_deinit_def lib_free_def yaml_close_def Let_def split: option.splits if_splits prod.splits\<close>)

lemma applied_run:
  assumes "lib_inv lib cs" "otel_handle_map_shards_applied lib" "Op_shutdown \<notin> set ops"
    and "lib_run no_mem read_file parse sdk ops (lib, cs, w) = (lib', cs', w')"
  shows "otel_handle_map_shards lib' = otel_handle_map_shards lib"
  using assms
proof (induction ops arbitrary: lib cs w)
  case (Cons x ops)
  obtain l c w1 where s: "lib_step no_mem read_file parse sdk x (lib, cs, w) = (l, c, w1)" by (metis prod_cases3)
  have "x \<noteq> Op_shutdown" using Cons.prems(3) by auto
  note step = applied_step [OF Cons.prems(1,2) this s]
  have "lib_run no_mem read_file parse sdk ops (l, c, w1) = (lib', cs', w')" using Cons.prems(4) s by (simp add: lib_run_def)
  then show ?case using Cons.IH [OF lib_inv_step [OF Cons.prems(1) s]] step Cons.prems(3) by simp
qed (simp add: lib_run_def)

text \<open>
  C39: The first shard key decides.  Take any state the library can reach in which no key has been
  applied.  When a context is then made from a document with a \<open>handle_map_shards\<close> key, the value of
  the key is the shard count from there on, through any further calls but \<open>otelc_lib_shutdown\<close>:
  other documents, checks and failures do not change the size the span maps are made with.
\<close>
theorem first_shard_key_wins:
  assumes "lib_run no_mem read_file parse sdk before (library_loaded, [], w) = (lib, cs, w1)"
    and "\<not> otel_handle_map_shards_applied lib" "otelc_init no_mem read_file parse f name lib = (ok c, lib1)"
    and "cx_fyd c = Some (d, t)"
    and "yaml_find (Some t) False (Some ''handle_map_shards'') (Some ''/handle_map_shards'') (Some OTEL_YAML_BUFSIZ) = ok (Some buf)"
    and "Op_shutdown \<notin> set after" "lib_run no_mem read_file parse sdk after (lib1, cs @ [Some c], w1) = (lib2, cs2, w2)"
  shows "otel_handle_map_shards lib2 = of_int (fst (strtol buf 0))"
proof -
  have "lib_inv library_loaded []"
    using shards_valid_default by (simp add: lib_inv_def settings_ok_def owns_def library_loaded_def)
  then have inv: "lib_inv lib cs" using lib_inv_run assms(1) by blast
  have inv1: "lib_inv lib1 (cs @ [Some c])" using lib_inv_init [OF inv assms(3)] by simp
  have "otel_handle_map_shards_applied lib1 \<and> otel_handle_map_shards lib1 = of_int (fst (strtol buf 0))"
    using assms(3) lib_inv_fresh [OF inv]
  proof (cases rule: init_cases)
    case (made t' g lib3)
    then have "t' = t" using assms(4) by simp
    moreover have "\<not> otel_handle_map_shards_applied lib3" using made(4) assms(2) by simp
    ultimately show ?thesis
      using made(5) assms(5) by (auto simp: otelc_load_handle_map_shards_def Let_def split: prod.splits if_splits)
  qed simp
  then show ?thesis using applied_run [OF inv1 _ assms(6,7)] by simp
qed

lemma first_shard_key_wins_witness:
  "\<forall>sdk w. \<exists>lib2 cs2 w2. lib_run (\<lambda>_. False) demo_read demo_parse sdk
      [Op_init (Some ''16'') None, Op_init (Some ''32'') None, Op_deinit 0 \<lparr>tv_sec = 0, tv_nsec = 0\<rparr> True None None None]
      (library_loaded, [], w) = (lib2, cs2, w2) \<and> otel_handle_map_shards lib2 = 16"
proof (intro allI)
  fix sdk :: "('a, 'b, 'c) sdk" and w :: "('a, 'b, 'c) world"
  let ?after = "[Op_init (Some ''32'') None, Op_deinit 0 \<lparr>tv_sec = 0, tv_nsec = 0\<rparr> True None None None]"
  have "(case fst (otelc_init (\<lambda>_. False) demo_read demo_parse (Some ''16'') None library_loaded) of
      Inr c \<Rightarrow> cx_fyd c = Some (2, Y_map [(''handle_map_shards'', Y_val ''16''),
        (''signals'', Y_map [(''traces'', Y_map [(''default'', Y_map [])])])]) | Inl _ \<Rightarrow> False)"
    by code_simp
  then obtain c lib1 where i: "otelc_init (\<lambda>_. False) demo_read demo_parse (Some ''16'') None library_loaded = (ok c, lib1)"
    "cx_fyd c = Some (2, Y_map [(''handle_map_shards'', Y_val ''16''),
       (''signals'', Y_map [(''traces'', Y_map [(''default'', Y_map [])])])])"
    by (cases "otelc_init (\<lambda>_. False) demo_read demo_parse (Some ''16'') None library_loaded") (auto split: sum.splits)
  have k: "yaml_find (Some (Y_map [(''handle_map_shards'', Y_val ''16''),
      (''signals'', Y_map [(''traces'', Y_map [(''default'', Y_map [])])])])) False (Some ''handle_map_shards'')
      (Some ''/handle_map_shards'') (Some OTEL_YAML_BUFSIZ) = ok (Some ''16'')" "fst (strtol ''16'' 0) = 16"
    by code_simp+
  have start: "lib_run (\<lambda>_. False) demo_read demo_parse sdk [] (library_loaded, [], w) = (library_loaded, [], w)"
    "\<not> otel_handle_map_shards_applied library_loaded" "Op_shutdown \<notin> set ?after"
    by (simp_all add: lib_run_def library_loaded_def)
  obtain lib2 cs2 w2 where r: "lib_run (\<lambda>_. False) demo_read demo_parse sdk ?after (lib1, [] @ [Some c], w) = (lib2, cs2, w2)"
    by (metis prod_cases3)
  have "otel_handle_map_shards lib2 = 16" using first_shard_key_wins [OF start(1,2) i k(1) start(3) r] k(2) by simp
  then show "\<exists>lib2 cs2 w2. lib_run (\<lambda>_. False) demo_read demo_parse sdk
      [Op_init (Some ''16'') None, Op_init (Some ''32'') None, Op_deinit 0 \<lparr>tv_sec = 0, tv_nsec = 0\<rparr> True None None None]
      (library_loaded, [], w) = (lib2, cs2, w2) \<and> otel_handle_map_shards lib2 = 16"
    using r i(1) by (simp add: lib_run_def)
qed

section \<open>Attributes of a message\<close>

fun forwarded :: "(string \<times> 'd log_attr) list \<Rightarrow> 'd ckv list" where
  "forwarded [] = []"
| "forwarded ((k, v) # as) =
     (case v of Log_scalar x \<Rightarrow> [\<lparr>ck_key = Some (c_view k), ck_value = kv_value_of x\<rparr>] | _ \<Rightarrow> []) @ forwarded as"

lemma handle_attributes_fill:
  assumes "attr_len + length as \<le> length attr"
  shows "\<exists>arr n. handle_attributes as attr attr_len = Some (arr, n) \<and> length arr = length attr \<and>
    n = attr_len + length (forwarded as) \<and> n \<le> attr_len + length as \<and> take n arr = take attr_len attr @ forwarded as"
  using assms
proof (induction as arbitrary: attr attr_len)
  case (Cons a as)
  obtain k v where a: "a = (k, v)" by fastforce
  show ?case
  proof (cases v)
    case (Log_scalar x)
    let ?kv = "\<lparr>ck_key = Some (c_view k), ck_value = kv_value_of x\<rparr>"
    have "take (Suc attr_len) (attr[attr_len := ?kv]) = take attr_len attr @ [?kv]"
      using Cons.prems by (simp add: take_Suc_conv_app_nth)
    then show ?thesis using Cons.IH [of "Suc attr_len" "attr[attr_len := ?kv]"] Cons.prems a Log_scalar by fastforce
  next
    case Log_vector
    let ?attr = "attr[attr_len := (attr ! attr_len)\<lparr>ck_key := Some (c_view k)\<rparr>]"
    show ?thesis using Cons.IH [of attr_len ?attr] Cons.prems a Log_vector by fastforce
  next
    case Log_valueless
    then show ?thesis using Cons.IH [of attr_len attr] Cons.prems a by fastforce
  qed
qed simp

text \<open>
  C40: A message handler gets every attribute it can be given, in order.  \<open>Handle\<close> calls the handler
  once, with the level, place, text and context of the message, whatever the attributes are.  With
  forwarding on and memory available it passes the scalar and text attributes, each with its key and
  type, in their order; vectors are left out; it never writes outside the array.  Otherwise it
  passes none.
\<close>
theorem log_attributes_forwarded:
  "\<exists>m. otel_log_handler_Handle fails ctx forward_attr level file line msg attributes = Some m \<and>
    lm_level m = level \<and> lm_file m = file \<and> lm_line m = line \<and> lm_msg m = msg \<and> lm_ctx m = ctx \<and>
    (if forward_attr \<and> attributes \<noteq> [] \<and> \<not> fails
     then \<exists>arr. lm_attrs m = Some arr \<and> length arr = length attributes \<and> lm_attr_len m \<le> length arr \<and>
       take (lm_attr_len m) arr = forwarded attributes
     else lm_attrs m = None \<and> lm_attr_len m = 0)"
proof -
  obtain arr n where "handle_attributes attributes (replicate (length attributes) \<lparr>ck_key = None, ck_value = C_null\<rparr>) 0 =
      Some (arr, n)" "length arr = length attributes" "n \<le> length attributes" "take n arr = forwarded attributes"
    using handle_attributes_fill [of 0 attributes "replicate (length attributes) \<lparr>ck_key = None, ck_value = C_null\<rparr>"]
    by auto
  then show ?thesis by (auto simp: otel_log_handler_Handle_def Let_def)
qed

end
