(* ===== verification/Otel_Forward.thy ===== *)
theory Otel_Forward
  imports Otel_Tracer
begin

text \<open>
  Allocations are numbered as they are tried and an SDK object takes the number it was created at.
  Builds only go forward in this numbering, and a build that ends with an object it had to allocate
  goes forward strictly, so that the objects of later builds are new.
\<close>

section \<open>Builds only go forward\<close>

text \<open>A build never goes back in the numbering of allocations.\<close>

definition forward :: "'a build \<Rightarrow> bool" where
  "forward m \<longleftrightarrow> (\<forall>orc n. n \<le> snd (m orc n))"

named_theorems forward_intros "builds that only go forward"

lemma forward_basic [forward_intros]:
  "forward (give x)" "forward (stop f args)" "forward (make_nothrow x)" "forward (of_result r)"
  "forward (get_node c mandatory desc path name ys)"
  by (auto simp: forward_def give_def stop_def make_nothrow_def of_result_def get_node_def
      split: prod.split sum.split)

lemma forward_or_stop [forward_intros]: "forward (or_stop f x)"
  by (cases x) (simp_all add: forward_basic)

lemma forward_bbind [forward_intros]:
  assumes "forward m" "\<And>x. forward (f x)"
  shows "forward (bbind m f)"
  unfolding forward_def
proof (intro allI)
  fix orc n
  obtain r n' where m: "m orc n = (r, n')" by fastforce
  then have "n \<le> n'" using assms(1) by (metis forward_def snd_conv)
  moreover have "n' \<le> snd (f x orc n')" for x using assms(2) by (simp add: forward_def)
  ultimately show "n \<le> snd (bbind m f orc n)"
    using m by (cases r) (auto simp: bbind_def intro: order_trans)
qed

lemma forward_cases [forward_intros]:
  "(\<And>a b. forward (g a b)) \<Longrightarrow> forward (case_prod g p)"
  "forward m1 \<Longrightarrow> (\<And>x. forward (h x)) \<Longrightarrow> forward (case_option m1 h q)"
  "forward m1 \<Longrightarrow> forward m2 \<Longrightarrow> forward (if b then m1 else m2)"
  by (simp_all split: prod.split option.split)

lemma forward_numbered [forward_intros]: "forward m \<Longrightarrow> forward (numbered m)"
  by (auto simp: forward_def numbered_def split: prod.split sum.split) (metis snd_conv)+

lemma forward_with_instance [forward_intros]: "(\<And>c. forward (f c)) \<Longrightarrow> forward (with_instance x f)"
  by (cases x) (auto simp: forward_def)

lemma forward_add_headers [forward_intros]: "forward (add_headers kvs acc)"
proof (induction kvs arbitrary: acc)
  case (Cons kv kvs)
  then show ?case by (auto simp: forward_def intro: Suc_leD)
qed (simp add: forward_basic)

lemma forward_assign_attributes [forward_intros]: "forward (assign_attributes kvs attrs r)"
proof (induction kvs arbitrary: attrs r)
  case (Cons kv kvs)
  then show ?case by (cases kv) (auto simp: forward_def intro: Suc_leD)
qed (simp add: forward_basic)

lemmas forward_leaf_defs =
  thread_instrumentation_def parse_content_type_def parse_json_bytes_mapping_def or_throw_def
  EXPORTER_NOT_SUPPORTED_def init_exporter_def exporter_type_def batch_chain_def
  delegate_override_def sampler_ratio_def

lemma forward_leaves [forward_intros]:
  "forward (thread_instrumentation t i)" "forward (parse_content_type s)" "forward (parse_json_bytes_mapping s)"
  "forward (or_throw s)" "forward (EXPORTER_NOT_SUPPORTED s t)" "forward (init_exporter s t e)"
  "forward (exporter_type s c p name)" "forward (batch_chain q)" "forward (delegate_override s t d)"
  "forward (sampler_ratio c' s t)"
  unfolding forward_leaf_defs Let_def by (intro forward_intros)+

lemma forward_options [forward_intros]:
  "forward (otel_exporter_set_otlp_file_options c desc p name)"
  "forward (otel_exporter_set_otlp_grpc_options c desc p e name)"
  "forward (otel_exporter_set_otlp_http_options c desc p e name)"
  "forward (otel_exporter_set_ostream_options c desc p name)"
  unfolding otel_exporter_set_otlp_file_options_def otel_exporter_set_otlp_grpc_options_def
    otel_exporter_set_otlp_http_options_def otel_exporter_set_ostream_options_def Let_def
  by (intro forward_intros)+

lemma forward_exporter_cases [forward_intros]:
  "forward other \<Longrightarrow> forward (exporter_cases s c p name ty other)"
  "forward (memory_exporter s c p name)" "forward (memory_metric_exporter c p name)"
  "forward (zipkin_exporter s c p name)" "forward (elasticsearch_exporter s c p name)"
  unfolding exporter_cases_def memory_exporter_def memory_metric_exporter_def zipkin_exporter_def
    elasticsearch_exporter_def Let_def
  by (intro forward_intros; assumption?)+

lemma forward_samplers [forward_intros]:
  "forward (root_delegate c p d)" "forward (parent_based_sampler c p)" "forward (composite_sampler c p)"
  "forward (otel_sampler_create x)"
  unfolding root_delegate_def otel_sampler_create_def parent_based_sampler_def composite_sampler_def Let_def
  by (intro forward_intros)+

lemma forward_creators [forward_intros]:
  "forward (otel_tracer_exporter_create x name)" "forward (otel_meter_exporter_create x name)"
  "forward (otel_logger_exporter_create x name)" "forward (otel_resource_create x desc p)"
  "forward (processor_create s d x e name)" "forward (otel_tracer_processor_create x e name)"
  "forward (otel_logger_processor_create x e name)" "forward (otel_meter_reader_create x e name)"
  "forward (otel_tracer_provider_create x ps smp)" "forward (otel_meter_provider_create x rs)"
  "forward (otel_logger_provider_create x ps)"
  unfolding otel_tracer_exporter_create_def otel_meter_exporter_create_def otel_logger_exporter_create_def
    otel_resource_create_def otel_tracer_processor_create_def otel_logger_processor_create_def processor_create_def
    otel_meter_reader_create_def otel_tracer_provider_create_def otel_meter_provider_create_def
    otel_logger_provider_create_def Let_def
  by (intro forward_intros)+

lemma forward_exporter_name [forward_intros]: "forward (exporter_name_at c p k i)"
  unfolding exporter_name_at_def by (intro forward_intros)

lemma forward_tracer_pipeline [forward_intros]: "forward (tracer_pipeline c)"
proof -
  have add: "forward (add_pipeline c x y p)" for x y p
    unfolding add_pipeline_def by (intro forward_intros)
  have "forward (pipeline_loop c pp pe k is p)" for pp pe k "is" p
    by (induction "is" arbitrary: p) (simp_all, (intro forward_intros add; assumption?)+)
  then show ?thesis
    unfolding tracer_pipeline_def Let_def using add by (intro forward_intros; blast?)+
qed

section \<open>Builds that allocate\<close>

definition allocates :: "'a build \<Rightarrow> bool" where
  "allocates m \<longleftrightarrow> (\<forall>orc n x n'. m orc n = (Inr x, n') \<longrightarrow> n < n')"

named_theorems allocates_intros "builds whose success takes an allocation"

lemma allocates_stop [allocates_intros]: "allocates (stop f args)"
  by (simp add: allocates_def stop_def)

lemma allocates_make [allocates_intros]: "(\<And>x. forward (f x)) \<Longrightarrow> allocates (bbind (make_nothrow y) f)"
  unfolding allocates_def forward_def bbind_def make_nothrow_def
  by simp (metis Suc_le_lessD snd_conv)

lemma allocates_bbind [allocates_intros]:
  assumes "forward m" "\<And>x. allocates (f x)"
  shows "allocates (bbind m f)"
  unfolding allocates_def
proof (intro allI impI)
  fix orc n x n'
  assume "bbind m f orc n = (Inr x, n')"
  then obtain y k where "m orc n = (Inr y, k)" "f y orc k = (Inr x, n')"
    by (auto simp: bbind_def split: prod.splits sum.splits)
  then have "n \<le> k" "k < n'" using assms by (metis forward_def snd_conv, simp add: allocates_def)
  then show "n < n'" by simp
qed

lemma allocates_cases [allocates_intros]:
  "(\<And>a b. allocates (g a b)) \<Longrightarrow> allocates (case_prod g p)"
  "allocates m1 \<Longrightarrow> allocates m2 \<Longrightarrow> allocates (if b then m1 else m2)"
  by (simp_all split: prod.split)

lemma allocates_with_instance [allocates_intros]: "(\<And>c. allocates (f c)) \<Longrightarrow> allocates (with_instance x f)"
  by (cases x) (simp_all add: allocates_def)

lemma providers_allocate:
  "allocates (otel_tracer_provider_create x ps smp)" "allocates (otel_meter_provider_create x rs)"
  "allocates (otel_logger_provider_create x ps)"
  unfolding otel_tracer_provider_create_def otel_meter_provider_create_def otel_logger_provider_create_def
  by (intro allocates_intros forward_intros)+

text \<open>The provider of a new pipeline is new.\<close>

lemma new_pipeline:
  assumes "forward pipe" "\<And>ps. allocates (prov ps)"
    and "run_build sdk (bbind pipe (\<lambda>(es, ps). bbind (numbered (prov ps)) (\<lambda>(p, _). give (es, p)))) w = (r, w')"
    and "\<And>ps. forward (prov ps)"
  shows "tried w \<le> tried w' \<and> (\<forall>es p. r = Inr (es, p) \<longrightarrow> tried w < p \<and> p \<le> tried w')"
proof -
  let ?m = "bbind pipe (\<lambda>(es, ps). bbind (numbered (prov ps)) (\<lambda>(p, _). give (es, p)))"
  have fwd: "forward ?m"
    by (intro forward_intros assms(1,4))
  have "tried w \<le> tried w'"
    using assms(3) fwd by (auto simp: run_build_def forward_def split: prod.splits) (metis snd_conv)
  moreover have "tried w < p \<and> p \<le> tried w'" if r: "r = Inr (es, p)" for es p
  proof -
    have "?m (oom sdk) (tried w) = (Inr (es, p), tried w')"
      using assms(3) r by (auto simp: run_build_def split: prod.splits)
    then obtain ps k y n where s: "pipe (oom sdk) (tried w) = (Inr (es, ps), k)" "prov ps (oom sdk) k = (Inr y, n)"
      "p = n" "tried w' = n"
      by (auto simp: bbind_def numbered_def give_def split: prod.splits sum.splits)
    then have "tried w \<le> k" "k < n"
      using assms(1,2) by (metis forward_def snd_conv, metis allocates_def)
    then show ?thesis using s by simp
  qed
  ultimately show ?thesis by blast
qed

lemma run_build_forward: "run_build sdk m w = (r, w') \<Longrightarrow> forward m \<Longrightarrow> tried w \<le> tried w'"
  by (auto simp: run_build_def forward_def split: prod.splits) (metis snd_conv)

end
