(* ===== verification/Otel_TracerLaws.thy ===== *)
theory Otel_TracerLaws
  imports Otel_Forward Otel_ConfigLaws
begin

text \<open>
  What the tracer operations guarantee: starting a span is all or nothing, the last tracer to go ends
  what is left and the identifiers it leaves are not handed out again, flush budgets, and starting a
  tracer, which replaces a pipeline only once the new one is complete.
\<close>

section \<open>Fresh handles\<close>

text \<open>Structures are allocated at addresses above the ones in use.\<close>

definition live_ok :: "('d, 'b, 't) world \<Rightarrow> bool" where
  "live_ok w \<longleftrightarrow> (\<forall>a \<in> live w. a \<le> tried w)"

definition later :: "('d, 'b, 't) world \<Rightarrow> ('d, 'b, 't) world \<Rightarrow> bool" where
  "later w w' \<longleftrightarrow> same_world w w' \<and> tried w \<le> tried w'"

lemma later_refl [simp]: "later w w"
  by (simp add: later_def)

lemma later_trans: "later a b \<Longrightarrow> later b c \<Longrightarrow> later a c"
  by (auto simp: later_def intro: same_world_trans)

lemma try_alloc_later: "try_alloc sdk w = (b, w') \<Longrightarrow> later w w'"
  by (auto simp: later_def try_alloc_def)

lemma value_add_later: "value_add sdk msg attr k v w = Some (r, w') \<Longrightarrow> later w w'"
  by (auto simp: value_add_def Let_def split: if_splits option.splits prod.splits dest: try_alloc_later)

lemma value_add_all_later: "value_add_all sdk msg attr kvs w = Some (r, w') \<Longrightarrow> later w w'"
  by (induction sdk msg attr kvs w rule: value_add_all.induct)
    (auto split: option.splits sum.splits prod.splits dest!: value_add_later intro: later_trans)

lemma link_attrs_later: "link_attrs sdk kvs w = Some (r, w') \<Longrightarrow> later w w'"
  by (auto simp: link_attrs_def Let_def split: if_splits prod.splits
      dest!: try_alloc_later value_add_all_later intro: later_trans)

lemma build_links_later: "build_links sdk i ls acc w = Some (r, w') \<Longrightarrow> later w w'"
proof (induction ls arbitrary: i acc w)
  case (Cons l ls)
  from Cons.prems show ?case
    by (auto simp: Let_def split: sum.splits option.splits prod.splits if_splits
        dest!: link_attrs_later try_alloc_later Cons.IH intro: later_trans)
qed simp

lemma later_live_ok: "later w w' \<Longrightarrow> live_ok w \<Longrightarrow> live_ok w'"
  by (force simp: later_def same_world_def live_ok_def)

lemma emplace_ok:
  assumes "store_ok (Some m)" "otel_map_find m k = None" "k < hid m"
  shows "\<exists>m1. handle_emplace False k v d e m = (m1, ok ()) \<and> store_ok (Some m1) \<and> hid m1 = hid m \<and>
    otel_map_find m1 = (otel_map_find m)(k \<mapsto> v)"
proof -
  note m = store_okD [OF assms(1)]
  have eq: "handle_emplace False k v d e m = (handle_insert k v m, ok ())"
    by (simp add: handle_emplace_fresh [OF assms(2)] handle_insert_eq assms(2))
  have f: "otel_map_find (handle_insert k v m) = (otel_map_find m)(k \<mapsto> v)"
    using m assms(2) by (simp add: handle_map_insert)
  have "hm.below (handle_insert k v m) (hid m)"
    using m assms(3) f by (auto simp: hm.below_def split: if_splits)
  moreover have "hid (handle_insert k v m) = hid m"
    by (simp add: handle_insert_eq handle_simps)
  ultimately show ?thesis
    using eq f m by (simp add: store_ok_def handle_inv_insert)
qed

lemma next_id_ok:
  assumes "store_ok (Some m)" "hid m < hid m + 1" "handle_next_id m = (i, m1)"
  shows "i = hid m" "store_ok (Some m1)" "hid m1 = hid m + 1" "otel_map_find m1 = otel_map_find m"
    "otel_map_find m i = None" "i < hid m1"
proof -
  note m = store_okD [OF assms(1)]
  show i: "i = hid m" and h: "hid m1 = hid m + 1" and "otel_map_find m1 = otel_map_find m"
    using assms(3) by (auto simp: handle_next_id_def otel_map_find_def get_shard_def get_shard_index_def)
  then show "otel_map_find m i = None" "i < hid m1"
    using hm.below_fresh [of m "hid m"] m assms(2) by auto
  have "handle_inv m1" using assms(3) m handle_inv_cong [of m1 m] by (auto simp: handle_next_id_def)
  moreover have "hm.below m1 (hid m1)"
    using m assms(2) \<open>otel_map_find m1 = _\<close> h by (auto simp: hm.below_def intro: order_less_trans)
  ultimately show "store_ok (Some m1)" by (simp add: store_ok_def)
qed

section \<open>Starting a span\<close>

text \<open>What a failed start may leave behind: nothing but an SDK span started and ended.\<close>

definition nothing_started :: "('d, 'b, 't) world \<Rightarrow> ('d, 'b, 't) world \<Rightarrow> bool" where
  "nothing_started w w' \<longleftrightarrow>
     world_ok w' \<and> otel_span_context w' = otel_span_context w \<and> live w' = live w \<and>
     (\<forall>i. span_at w' i = span_at w i) \<and>
     (calls w' = calls w \<or> (\<exists>s n opts links. calls w' = [End s None, StartSpan s n opts links] @ calls w))"

text \<open>A new handle under the next identifier, for the one SDK span that was started.\<close>

definition span_started ::
  "('d, 'b, 't) sdk \<Rightarrow> int64 \<Rightarrow> ('b, 't) parent \<Rightarrow> 'b option \<Rightarrow> ('d, 'b, 't) world \<Rightarrow> otelc_span \<Rightarrow>
   ('d, 'b, 't) world \<Rightarrow> bool" where
  "span_started sdk i par baggage w sp w' \<longleftrightarrow>
     world_ok w' \<and> otel_span_context w' = otel_span_context w \<and>
     sp_idx sp = i \<and> sp_addr sp \<notin> live w \<and> live w' = insert (sp_addr sp) (live w) \<and>
     (\<exists>s n opts links. so_parent opts = par \<and> sdk_start_span sdk (calls w) = Some s \<and>
        calls w' = StartSpan s n opts links # calls w \<and>
        (\<forall>j. span_at w' j = (if j = i then Some \<lparr>sh_span = s, sh_baggage = baggage\<rparr> else span_at w j)))"

lemma finish_start_spec:
  assumes w: "world_ok w" "live_ok w" and m: "otel_span w = Some m" and inc: "hid m < hid m + 1"
    and run: "finish_start sdk name opts links baggage w = (r, w')"
  shows "case r of Inl _ \<Rightarrow> nothing_started w w'
    | Inr sp \<Rightarrow> span_started sdk (hid m) (so_parent opts) baggage w sp w'"
proof -
  have st: "store_ok (Some m)" using w(1) m by (simp add: world_ok_def)
  have ctx: "store_ok (otel_span_context w)" using w(1) by (simp add: world_ok_def)
  show ?thesis
  proof (cases "oom sdk (tried w)")
    case True
    have "store_ok (Some (m\<lparr>alloc_fail_cnt := alloc_fail_cnt m + 1\<rparr>))"
      using store_ok_counters [OF st] by simp
    moreover have "otel_map_find (m\<lparr>alloc_fail_cnt := alloc_fail_cnt m + 1\<rparr>) = otel_map_find m"
      by (auto intro: otel_map_find_cong)
    ultimately show ?thesis
      using run True m ctx
      by (auto simp: finish_start_def otel_span_new_def ext_malloc_def nothing_started_def world_ok_def span_at_def)
  next
    case False
    obtain i m1 where ni: "handle_next_id m = (i, m1)" by fastforce
    note n = next_id_ok [OF st inc ni]
    let ?a = "Suc (tried w)"
    let ?sp = "\<lparr>sp_addr = ?a, sp_idx = i\<rparr>"
    let ?w1 = "w\<lparr>tried := ?a, live := insert ?a (live w), otel_span := Some m1\<rparr>"
    have fresh: "?a \<notin> live w" using w(2) by (force simp: live_ok_def)
    have new: "otel_span_new sdk w = (Some ?sp, ?w1)"
      using False m ni by (simp add: otel_span_new_def ext_malloc_def)
    have w1: "world_ok ?w1" using n(2) ctx by (simp add: world_ok_def)
    have at: "span_at ?w1 j = span_at w j" for j using m n(4) by (simp add: span_at_def)
    have undo: "nothing_started w (snd (otel_nolock_span_destroy (Some ?sp) (w1\<lparr>calls := cs\<rparr>)))"
      if "same_world ?w1 w1" "cs = calls w \<or> (\<exists>s n opts links. cs = [End s None, StartSpan s n opts links] @ calls w)"
      for w1 cs
    proof -
      note s = that(1) and cs = that(2)
      obtain k where k: "w1 = ?w1\<lparr>tried := k\<rparr>" using s by (auto simp: same_world_def)
      have "world_ok (w1\<lparr>calls := cs\<rparr>)" "otel_span (w1\<lparr>calls := cs\<rparr>) \<noteq> None"
        using w1 k by (simp_all add: world_ok_def)
      note d = nolock_destroy_at [OF this prod.collapse [symmetric], of ?sp]
      have "span_at (snd (otel_nolock_span_destroy (Some ?sp) (w1\<lparr>calls := cs\<rparr>))) j = span_at w j" for j
        using d(3) [of j] k at [of j] n(5) m by (auto simp: span_at_def)
      then show ?thesis
        using d cs k fresh by (auto simp: nothing_started_def)
    qed
    show ?thesis
    proof (cases "sdk_start_span sdk (calls w)")
      case None
      then have "(r, w') = (raise ''Unable to start new span'', snd (otel_nolock_span_destroy (Some ?sp) (?w1\<lparr>calls := calls w\<rparr>)))"
        using run new by (simp add: finish_start_def)
      then show ?thesis using undo [of ?w1 "calls w"] by simp
    next
      case (Some s)
      let ?c = "StartSpan s name opts links"
      let ?w2 = "?w1\<lparr>tried := Suc ?a, calls := ?c # calls w\<rparr>"
      have two: "try_alloc sdk (call ?c ?w1) = (\<not> oom sdk ?a, ?w2)"
        by (simp add: try_alloc_def call_def)
      show ?thesis
      proof (cases "oom sdk ?a")
        case True
        then have "(r, w') = (raise ''Unable to allocate memory for span handle'',
            snd (otel_nolock_span_destroy (Some ?sp) (?w1\<lparr>tried := Suc ?a, calls := [End s None, ?c] @ calls w\<rparr>)))"
          using run new Some two by (simp add: finish_start_def call_def)
        then show ?thesis using undo [OF same_world_tried [of ?w1 "Suc ?a"], of "[End s None, ?c] @ calls w"] by auto
      next
        case fine: False
        let ?h = "\<lparr>sh_span = s, sh_baggage = baggage\<rparr>"
        let ?w3 = "?w1\<lparr>tried := Suc (Suc ?a), calls := ?c # calls w\<rparr>"
        have three: "try_alloc sdk ?w2 = (\<not> oom sdk (Suc ?a), ?w3)"
          by (simp add: try_alloc_def)
        have none: "otel_map_find m1 i = None" using n by simp
        show ?thesis
        proof (cases "oom sdk (Suc ?a)")
          case True
          then have "w' = ext_free ?a (call (End s None) (?w3\<lparr>otel_span := Some m1\<rparr>))" "\<exists>e. r = Inl e"
            using run new Some two three fine by (auto simp: finish_start_def handle_emplace_failed)
          then show ?thesis
            using w1 at fresh by (auto simp: nothing_started_def world_ok_def span_at_def)
        next
          case False
          obtain m2 where m2: "handle_emplace False i ?h ''Unable to add span: duplicate id'' ''Unable to add span'' m1 = (m2, ok ())"
            "store_ok (Some m2)" "otel_map_find m2 = (otel_map_find m1)(i \<mapsto> ?h)"
            using emplace_ok [OF n(2) none n(6)] by metis
          then have "w' = ?w3\<lparr>otel_span := Some m2\<rparr>" "r = Inr ?sp"
            using run new Some two three fine False by (auto simp: finish_start_def)
          then show ?thesis
            using m2 ctx fresh Some n m by (auto simp: span_started_def world_ok_def span_at_def)
        qed
      qed
    qed
  qed
qed

text \<open>How a start ends: early, or in \<open>finish_start\<close>.\<close>

inductive start_result for sdk name parent_span parent_context w where
  early: "later w w' \<Longrightarrow> start_result sdk name parent_span parent_context w (Inl e) w'"
| reached: "finish_start sdk name opts lv baggage w1 = (r, w') \<Longrightarrow>
    span_parent sdk parent_span parent_context w = Inr (par, baggage) \<Longrightarrow> so_parent opts = par \<Longrightarrow> later w w1 \<Longrightarrow>
    start_result sdk name parent_span parent_context w r w'"

lemma start_span_cases:
  "otel_tracer_start_span_with_options sdk tracer name parent_span parent_context ts_steady ts_system kind links w =
     Some (r, w') \<Longrightarrow> start_result sdk (c_str name) parent_span parent_context w r w'"
  unfolding otel_tracer_start_span_with_options_def Let_def
  by (clarsimp split: option.splits if_splits sum.splits prod.splits)
    ((auto dest!: build_links_later try_alloc_later intro: early later_trans; fail)
      | (rule reached, assumption, assumption, simp, auto dest!: build_links_later try_alloc_later intro: later_trans; fail))+

text \<open>
  C1: Starting a span is all or nothing.  In a well-formed world with live maps, whatever allocations
  fail and whatever the SDK answers, a failed start leaves every handle, structure and context as it
  was and has ended the SDK span if it started one; a successful start allocates one structure, starts
  one SDK span under the requested parent, files it with the inherited baggage under the next
  identifier, and leaves every other handle alone.
\<close>
theorem start_span_all_or_nothing:
  assumes "world_ok w" "live_ok w" "otel_span w = Some m" "hid m < hid m + 1"
    and "otel_tracer_start_span_with_options sdk tracer name parent_span parent_context ts_steady ts_system kind links w =
      Some (r, w')"
  shows "case r of Inl _ \<Rightarrow> nothing_started w w'
    | Inr sp \<Rightarrow> \<exists>par baggage. span_parent sdk parent_span parent_context w = Inr (par, baggage) \<and>
        span_started sdk (hid m) par baggage w sp w'"
proof -
  from start_span_cases [OF assms(5)] show ?thesis
  proof cases
    case (early e)
    then show ?thesis
      using assms(1) same_world_at [of w w'] by (auto simp: nothing_started_def later_def)
  next
    case (reached opts lv baggage w1 par)
    then have "same_world w w1" by (simp add: later_def)
    note at = same_world_at [OF this]
    have "case r of Inl _ \<Rightarrow> nothing_started w1 w' | Inr sp \<Rightarrow> span_started sdk (hid m) (so_parent opts) baggage w1 sp w'"
      using assms at later_live_ok [OF reached(4)] reached(1) by (intro finish_start_spec) simp_all
    then show ?thesis
      using reached(2,3) at by (auto simp: nothing_started_def span_started_def split: sum.splits)
  qed
qed

lemma start_span_all_or_nothing_witness:
  "\<exists>sp w'. otel_tracer_start_span demo_sdk (Some \<lparr>tr_enabled = True, tr_flush_timeout = 5000, tr_scope_name = None,
      tr_yaml_prefix = None, tr_impl = Some \<lparr>ti_provider = Some 3, ti_tracer = True, ti_propagator = True,
      ti_exporters = []\<rparr>\<rparr>) (Some ''op'') demo_world = Some (Inr sp, w') \<and> sp_idx sp = 1 \<and> span_at w' 0 \<noteq> None"
proof -
  let ?t = "\<lparr>tr_enabled = True, tr_flush_timeout = 5000, tr_scope_name = None,
      tr_yaml_prefix = None, tr_impl = Some \<lparr>ti_provider = Some 3, ti_tracer = True, ti_propagator = True,
      ti_exporters = []\<rparr>\<rparr>"
  let ?m = "demo_handle [\<lparr>sh_span = 7, sh_baggage = None :: (string \<times> string) list option\<rparr>]"
  obtain r w' where run: "otel_tracer_start_span_with_options demo_sdk (Some ?t) (Some ''op'') None None None None 0 [] demo_world = Some (r, w')"
    by (auto simp: otel_tracer_start_span_with_options_def span_parent_def intro: prod.exhaust)
  have free: "\<not> oom demo_sdk n" "sdk_start_span demo_sdk cs = Some (length cs)" for n cs
    by (simp_all add: demo_sdk_def)
  have m: "otel_span demo_world = Some ?m" "live_ok demo_world" "hid ?m < hid ?m + 1" "hid ?m = 1"
    by (simp_all add: demo_world_def live_ok_def demo_handle_def)
  have "\<exists>sp. r = Inr sp"
  proof -
    obtain i m1 where ni: "handle_next_id ?m = (i, m1)" by fastforce
    have "otel_map_find m1 i = None"
      using next_id_ok [OF demo_store m(3) ni] by simp
    then show ?thesis
      using run ni m(1) free by (auto simp: otel_tracer_start_span_with_options_def span_parent_def finish_start_def
          otel_span_new_def ext_malloc_def try_alloc_def handle_emplace_fresh)
  qed
  then show ?thesis
    using start_span_all_or_nothing [OF demo_world_ok m(2,1,3) run] run m(4)
    by (auto simp: otel_tracer_start_span_def span_started_def demo_span_at)
qed

section \<open>The last tracer\<close>

definition end_call :: "timespec \<Rightarrow> int64 \<times> 'b span_handle \<Rightarrow> ('d, 'b, 't) sdk_call" where
  "end_call now kv = End (sh_span (snd kv)) (Some (timespec_to_duration (Some now)))"

lemma end_all_calls: "end_all now m w = w\<lparr>calls := rev (map (end_call now) (handle_entries m)) @ calls w\<rparr>"
proof -
  have "fold (\<lambda>(k, h). call (End (sh_span h) (Some (timespec_to_duration (Some now))))) kvs w =
      w\<lparr>calls := rev (map (end_call now) kvs) @ calls w\<rparr>" for kvs
    by (induction kvs arbitrary: w) (auto simp: call_def end_call_def)
  then show ?thesis
    by (simp add: end_all_def for_each_locked_entries case_prod_unfold)
qed

text \<open>
  C16: The last tracer ends every span that is left, once.  Unregistering a tracer while others remain
  only decrements the count; unregistering the last one calls \<open>End\<close> with the time given exactly once
  for each stored handle and for nothing else, drops both maps, remembers their identifier generators
  and frees no structure a caller still holds.
\<close>
theorem last_tracer_ends_spans:
  assumes "world_ok w" "otel_span w = Some m"
  shows "if otel_tracer_count w = 1
    then otel_span (otel_tracer_unregister now w) = None \<and>
      otel_span_context (otel_tracer_unregister now w) = None \<and>
      live (otel_tracer_unregister now w) = live w \<and>
      otel_span_id_base (otel_tracer_unregister now w) = hid m \<and>
      (\<exists>kvs. distinct (map fst kvs) \<and> set kvs = {(k, h). span_at w k = Some h} \<and>
        calls (otel_tracer_unregister now w) = rev (map (end_call now) kvs) @ calls w)
    else otel_tracer_unregister now w = w\<lparr>otel_tracer_count := otel_tracer_count w - 1\<rparr>"
proof (cases "otel_tracer_count w = 1")
  case True
  have inv: "handle_inv m" using assms store_okD [of m] by (simp add: world_ok_def)
  have "distinct (map fst (handle_entries m)) \<and> set (handle_entries m) = {(k, h). span_at w k = Some h}"
    using hm.entries_lookup [OF inv] hm.entries_distinct [OF inv] assms(2) by (simp add: span_at_def)
  then show ?thesis
    using True assms(2)
    by (auto simp: otel_tracer_unregister_def Let_def end_all_calls split: option.split)
qed (simp add: otel_tracer_unregister_def)

lemma last_tracer_ends_spans_witness:
  "\<exists>kvs. set kvs = {(0 :: int64, \<lparr>sh_span = 7, sh_baggage = None\<rparr>)} \<and> distinct (map fst kvs) \<and>
     calls (otel_tracer_unregister \<lparr>tv_sec = 1, tv_nsec = 5\<rparr> demo_world) =
       rev (map (end_call \<lparr>tv_sec = 1, tv_nsec = 5\<rparr>) kvs) @ []"
proof -
  have m: "otel_span demo_world = Some (demo_handle [\<lparr>sh_span = 7, sh_baggage = None\<rparr>])"
    "otel_tracer_count demo_world = 1" "calls demo_world = []"
    by (simp_all add: demo_world_def)
  have "{(k, h). span_at demo_world k = Some h} = {(0, \<lparr>sh_span = 7, sh_baggage = None\<rparr>)}"
    by (auto simp: demo_span_at split: if_splits)
  then show ?thesis
    using last_tracer_ends_spans [OF demo_world_ok m(1), of "\<lparr>tv_sec = 1, tv_nsec = 5\<rparr>"] m by auto
qed

lemma otel_handle_new_find:
  assumes "otel_handle_new n = Inr m"
  shows "handle_inv m \<and> otel_map_find m = Map.empty"
  using otel_handle_new_inv [OF assms] by auto

lemma new_map_some:
  assumes "new_map sdk n base w = (Some m, w')"
  shows "store_ok (Some m) \<and> hid m = base \<and> otel_map_find m = Map.empty \<and> same_world w w'"
proof -
  obtain m0 where m0: "otel_handle_new n = Inr m0" "m = m0\<lparr>hid := base\<rparr>" and w: "try_alloc sdk w = (True, w')"
    using assms by (auto simp: new_map_def split: prod.splits if_splits sum.splits)
  have "handle_inv m" "otel_map_find m = Map.empty"
    using otel_handle_new_find [OF m0(1)] m0(2) handle_inv_cong [of m m0] otel_map_find_cong [of m m0] by auto
  then show ?thesis
    using m0(2) try_alloc_same [OF w] by (auto simp: store_ok_def hm.below_def)
qed

text \<open>
  C17: Identifiers are not reused across a teardown.  When the last tracer has gone and a new one
  registers, the fresh maps are empty and well formed, they continue the generators of the old ones,
  and so every identifier that was ever in use is below the next one handed out: a stale pointer of
  an earlier life never resolves to a later span or context.
\<close>
theorem ids_survive_teardown:
  fixes w :: "('d, 'b, 't) world"
  assumes "world_ok w" "otel_span w = Some m" "otel_span_context w = Some mc" "otel_tracer_count w = 1"
    and "otel_tracer_register sdk n (otel_tracer_unregister now w) = (rc, w')" "rc = OTELC_RET_OK"
  shows "\<exists>m' mc'. otel_span w' = Some m' \<and> otel_span_context w' = Some mc' \<and> world_ok w' \<and>
    otel_tracer_count w' = 1 \<and> hid m' = hid m \<and> hid mc' = hid mc \<and>
    (\<forall>i. span_at w' i = None \<and> context_at w' i = None) \<and>
    (\<forall>i. span_at w i \<noteq> None \<longrightarrow> i < hid m') \<and> (\<forall>i. context_at w i \<noteq> None \<longrightarrow> i < hid mc')"
proof -
  let ?u = "otel_tracer_unregister now w"
  let ?r = "?u\<lparr>otel_tracer_count := otel_tracer_count ?u + 1\<rparr>"
  have u: "otel_span ?u = None" "otel_span_context ?u = None" "otel_tracer_count ?u = 0"
    "otel_span_id_base ?u = hid m" "otel_span_context_id_base ?u = hid (fst (clear_locked mc))"
    using assms(2-4) by (simp_all add: otel_tracer_unregister_def end_all_calls)
  have c: "hid (fst (clear_locked mc)) = hid mc"
    by (simp add: clear_locked_def for_each_locked_def)
  have okc: "OTELC_RET_OK \<noteq> OTELC_RET_ERROR" by (simp add: OTELC_RET_OK_def OTELC_RET_ERROR_def)
  obtain m' w1 mc' w2 where n: "new_map sdk n (hid m) ?r = (Some m', w1)"
    "new_map sdk n (otel_span_context_id_base (w1\<lparr>otel_span := Some m'\<rparr>)) (w1\<lparr>otel_span := Some m'\<rparr>) = (Some mc', w2)"
    "w' = w2\<lparr>otel_span_context := Some mc'\<rparr>"
  proof -
    obtain x :: "'b span_handle otel_handle option" and w1 where x: "new_map sdk n (hid m) ?r = (x, w1)" by fastforce
    have w1c: "otel_span_context w1 = None"
      using x u(2) by (auto simp: new_map_def try_alloc_def)
    obtain m' where m': "x = Some m'"
      using assms(5,6) u x okc
      by (cases x) (auto simp: otel_tracer_register_def otel_tracer_handle_init_def Let_def)
    obtain y :: "('b, 't) otel_ctx otel_handle option" and w2 where y: "new_map sdk n (otel_span_context_id_base (w1\<lparr>otel_span := Some m'\<rparr>)) (w1\<lparr>otel_span := Some m'\<rparr>) = (y, w2)"
      by fastforce
    have r: "(rc, w') = (if y = None then OTELC_RET_ERROR else OTELC_RET_OK, w2\<lparr>otel_span_context := y\<rparr>)"
      using assms(5) u x y m' w1c by (auto simp: otel_tracer_register_def otel_tracer_handle_init_def Let_def)
    show thesis
      using that [of m' w1] x y m' r assms(6) okc by (auto split: if_splits)
  qed
  note s1 = new_map_some [OF n(1)] and s2 = new_map_some [OF n(2)]
  obtain k1 k2 where k: "w1 = ?r\<lparr>tried := k1\<rparr>" "w2 = w1\<lparr>otel_span := Some m'\<rparr>\<lparr>tried := k2\<rparr>"
    using s1 s2 unfolding same_world_def by blast
  have below: "hm.below m (hid m)" "hm.below mc (hid mc)"
    using assms(1-3) store_okD by (auto simp: world_ok_def)
  have below': "(\<forall>i. span_at w i \<noteq> None \<longrightarrow> i < hid m)" "(\<forall>i. context_at w i \<noteq> None \<longrightarrow> i < hid mc)"
    using below assms(2,3) unfolding hm.below_def span_at_def context_at_def by auto
  have fin: "otel_span w' = Some m'" "otel_span_context w' = Some mc'" "otel_tracer_count w' = 1"
    using n(3) k u(3) by simp_all
  have base: "otel_span_context_id_base (w1\<lparr>otel_span := Some m'\<rparr>) = hid mc"
    using k(1) u(5) c by simp
  have ok: "world_ok w'" "\<forall>i. span_at w' i = None \<and> context_at w' i = None"
    using fin s1 s2 by (simp_all add: world_ok_def span_at_def context_at_def)
  show ?thesis
    using fin ok below' s1 s2 base by auto
qed

lemma otel_handle_new_4:
  "otel_handle_new 4 = Inr \<lparr>hid = 0, peak_size = 0, alloc_fail_cnt = 0, erase_cnt = 0, destroy_cnt = 0,
          shards = replicate 4 []\<rparr>"
  by (simp add: otel_handle_new_ok)

lemma ids_survive_teardown_witness:
  "\<exists>w' m'. otel_tracer_register demo_sdk 4 (otel_tracer_unregister \<lparr>tv_sec = 1, tv_nsec = 5\<rparr> demo_world) = (OTELC_RET_OK, w') \<and>
     otel_span w' = Some m' \<and> hid m' = 1 \<and> span_at w' 0 = None"
proof -
  let ?m = "demo_handle [\<lparr>sh_span = 7, sh_baggage = None :: (string \<times> string) list option\<rparr>]"
  let ?mc = "demo_handle [] :: ((string \<times> string) list, unit) otel_ctx otel_handle"
  have m: "otel_span demo_world = Some ?m" "otel_span_context demo_world = Some ?mc"
    "otel_tracer_count demo_world = 1" "hid ?m = 1"
    by (simp_all add: demo_world_def demo_handle_def)
  obtain rc w' where r: "otel_tracer_register demo_sdk 4 (otel_tracer_unregister \<lparr>tv_sec = 1, tv_nsec = 5\<rparr> demo_world) = (rc, w')"
    by fastforce
  have "rc = OTELC_RET_OK"
    using r m(1-3) by (auto simp: otel_tracer_register_def otel_tracer_handle_init_def otel_tracer_unregister_def
        new_map_def try_alloc_def end_all_calls demo_sdk_def Let_def otel_handle_new_4 split: if_splits)
  then show ?thesis
    using ids_survive_teardown [OF demo_world_ok m(1-3) r] m(4) r by auto
qed

section \<open>Flush budgets\<close>

text \<open>
  C24: Flushing every exporter in turn fits the flush timeout.  Each of \<open>n\<close> exporters gets at least one
  millisecond and never more than the whole timeout, and when the timeout allows a millisecond each,
  the budgets together do not exceed it.
\<close>
theorem flush_budget_fits:
  assumes "0 < t" "t \<le> OTELC_FLUSH_TIMEOUT_MS_MAX" "n < 2 ^ 31"
  shows "1 \<le> otel_tracer_flush_budget t (of_nat n) \<and> otel_tracer_flush_budget t (of_nat n) \<le> t \<and>
    (int n \<le> t \<longrightarrow> int n * otel_tracer_flush_budget t (of_nat n) \<le> t)"
proof -
  have small: "unat (of_nat n :: size_t) = n"
    using assms(3) by (simp add: unsigned_of_nat take_bit_nat_eq_self)
  have int: "int_of_size (of_nat n) = int n"
    using assms(3) by (simp add: int_of_size_def unsigned_ucast_eq unsigned_of_nat signed_of_nat take_bit_nat_eq_self signed_take_bit_int_eq_self)
  have gt: "(of_nat n :: size_t) > 1 \<longleftrightarrow> n > 1"
    using small by (simp add: word_less_nat_alt)
  have q: "c_quot t (int n) = t div int n" if "n > 1"
    using that assms(1) by (simp add: c_quot_def)
  have "t div int n \<le> t" "int n * (t div int n) \<le> t" if "n > 1"
    using that assms(1) int_div_less_self [of t "int n"] mult_div_mod_eq [of "int n" t] pos_mod_sign [of "int n" t]
    by (linarith | simp)+
  then show ?thesis
    using assms(1) q gt int by (auto simp: otel_tracer_flush_budget_def Let_def)
qed

lemma flush_budget_fits_witness: "otel_tracer_flush_budget 5000 (of_nat 3) \<le> 5000 \<and> 1 \<le> otel_tracer_flush_budget 5000 (of_nat 3)"
  using flush_budget_fits [of 5000 3] by (simp add: OTELC_FLUSH_TIMEOUT_MS_MAX_def)

section \<open>Starting a tracer\<close>

lemma run_build_same: "run_build sdk m w = (r, w') \<Longrightarrow> same_world w w'"
  by (auto simp: run_build_def split: prod.splits)

lemma run_build_calls: "run_build sdk m w = (r, w') \<Longrightarrow> calls w' = calls w"
  using run_build_same [of sdk m w r w'] same_world_at by blast

lemma yaml_find_mandatory: "yaml_find fyd True desc path n \<noteq> Inr None"
  by (auto simp: yaml_find_def split: option.splits)

lemma read_start_options_same:
  "read_start_options sdk c t w = (r, t', w') \<Longrightarrow>
     same_world w w' \<and> tr_impl t' = tr_impl t \<and> (\<forall>x. r = Inl x \<longrightarrow> (\<exists>e. x = Inl e))"
  using yaml_find_mandatory
  by (auto simp: read_start_options_def Let_def split: sum.splits option.splits prod.splits if_splits strtoi_out.splits
      dest: try_alloc_same)

text \<open>The files of a pipeline, in order.\<close>

definition pipeline_files :: "(nat \<times> exporter) list \<Rightarrow> (nat \<times> string) list" where
  "pipeline_files es = concat (map (\<lambda>(i, e). case exporter_file e of None \<Rightarrow> [] | Some f \<Rightarrow> [(i, f)]) es)"

definition open_call :: "nat \<times> string \<Rightarrow> ('d, 'b, 't) sdk_call" where
  "open_call f = OpenFile (fst f) (snd f)"

definition truncate_call :: "nat \<times> string \<Rightarrow> ('d, 'b, 't) sdk_call" where
  "truncate_call f = TruncateFile (fst f) (snd f)"

lemma pipeline_files_simps [simp]:
  "pipeline_files [] = []"
  "pipeline_files ((i, e) # es) = (case exporter_file e of None \<Rightarrow> [] | Some f \<Rightarrow> [(i, f)]) @ pipeline_files es"
  by (simp_all add: pipeline_files_def)

lemma files_open_calls:
  assumes "otel_exporter_files_open sdk es w = (r, w')"
  shows "\<exists>fs. calls w' = map open_call fs @ calls w \<and> set fs \<subseteq> set (pipeline_files es) \<and>
    (r = Inr () \<longrightarrow> fs = rev (pipeline_files es))"
  using assms
proof (induction es arbitrary: w)
  case (Cons e es)
  obtain i x where e: "e = (i, x)" by fastforce
  show ?case
  proof (cases "exporter_file x")
    case None
    then show ?thesis using Cons.IH [of w] Cons.prems e by auto
  next
    case (Some f)
    show ?thesis
    proof (cases "file_opens sdk (calls w) f")
      case True
      then obtain fs where "calls w' = map open_call fs @ calls (call (OpenFile i f) w)"
        "set fs \<subseteq> set (pipeline_files es)" "r = Inr () \<longrightarrow> fs = rev (pipeline_files es)"
        using Cons.IH [of "call (OpenFile i f) w"] Cons.prems e Some by auto
      then show ?thesis
        using e Some by (intro exI [of _ "fs @ [(i, f)]"]) (auto simp: open_call_def)
    next
      case False
      then show ?thesis
        using Cons.prems e Some by (intro exI [of _ "[(i, f)]"]) (auto simp: open_call_def)
    qed
  qed
qed simp

lemma files_truncate_calls:
  "calls (otel_exporter_files_truncate es w) = map truncate_call (rev (pipeline_files es)) @ calls w"
  by (induction es w rule: otel_exporter_files_truncate.induct) (auto simp: truncate_call_def split: option.splits)

lemma shutdown_calls: "calls (shutdown_exporters es w) = map ExporterShutdown (rev es) @ calls w"
proof -
  have "calls (fold (\<lambda>e. call (ExporterShutdown e)) es w) = map ExporterShutdown (rev es) @ calls w"
    by (induction es arbitrary: w) auto
  then show ?thesis by (simp add: shutdown_exporters_def)
qed

lemma release_calls:
  "calls (release_provider p w) = (case p of None \<Rightarrow> [] | Some p \<Rightarrow> [ReleaseProvider p]) @ calls w"
  by (simp add: release_provider_def split: option.split)

text \<open>How the installation of a pipeline ends.\<close>

definition flushed_only :: "tracer_impl \<Rightarrow> ('d, 'b, 't) sdk_call list \<Rightarrow> bool" where
  "flushed_only impl cs \<longleftrightarrow> cs = [] \<or> (\<exists>p us. ti_provider impl = Some p \<and> cs = [ForceFlush p us])"

text \<open>The flush a start makes: of the provider it replaces, when there is one and the tracer has a
  positive flush timeout, with the budget in microseconds.\<close>

definition flush_calls :: "otelc_tracer \<Rightarrow> tracer_impl \<Rightarrow> ('d, 'b, 't) sdk_call list" where
  "flush_calls t impl = (case ti_provider impl of
     None \<Rightarrow> []
   | Some p \<Rightarrow> if tr_flush_timeout t > 0
       then [ForceFlush p (1000 * otel_tracer_flush_budget (tr_flush_timeout t) (of_nat (length (ti_exporters impl))))]
       else [])"

lemma flush_calls_impl [simp]: "flush_calls (t\<lparr>tr_impl := i\<rparr>) impl = flush_calls t impl"
  by (simp add: flush_calls_def split: option.split)

lemma flush_calls_only: "flushed_only impl (flush_calls t impl)"
  by (simp add: flush_calls_def flushed_only_def split: option.split)

lemma flush_previous_calls: "calls (flush_previous t impl w) = flush_calls t impl @ calls w"
  by (simp add: flush_previous_def flush_calls_def split: option.split)

lemma swap_failure:
  assumes "swap_pipeline sdk p es impl w = (Inl e, impl', w')" "e \<noteq> Some (Err ''Unable to install tracer state'' [])"
  shows "impl' = impl \<and> (\<exists>fs. calls w' = map open_call fs @ calls w \<and> set fs \<subseteq> set (pipeline_files es))"
  using assms
  by (auto simp: swap_pipeline_def install_tracer_def Let_def split: if_splits prod.splits sum.splits
      dest!: run_build_calls files_open_calls)

lemma swap_success:
  assumes "swap_pipeline sdk p es impl w = (Inr u, impl', w')"
  shows "impl' = \<lparr>ti_provider = Some p, ti_tracer = True, ti_propagator = True, ti_exporters = map fst es\<rparr> \<and>
    calls w' = (case ti_provider impl of None \<Rightarrow> [] | Some q \<Rightarrow> [ReleaseProvider q]) @
      map truncate_call (rev (pipeline_files es)) @ map ExporterShutdown (rev (ti_exporters impl)) @
      map open_call (rev (pipeline_files es)) @ calls w"
  using assms
  by (auto simp: swap_pipeline_def install_tracer_def Let_def try_alloc_def release_calls
      files_truncate_calls shutdown_calls split: if_splits prod.splits sum.splits
      dest!: run_build_calls files_open_calls)

lemma read_start_options_tried: "read_start_options sdk c t w = (r, t', w') \<Longrightarrow> tried w \<le> tried w'"
  by (auto simp: read_start_options_def Let_def try_alloc_def split: sum.splits option.splits prod.splits if_splits
      strtoi_out.splits)

lemma flush_previous_tried [simp]: "tried (flush_previous t impl w) = tried w"
  by (simp add: flush_previous_def split: option.split)

text \<open>The stages at which a start can end.\<close>

inductive start_run for sdk t w where
  not_built: "calls w' = cs @ calls w \<Longrightarrow> cs = [] \<or> (\<exists>impl. tr_impl t = Some impl \<and> flushed_only impl cs) \<Longrightarrow>
    tr_impl t' = tr_impl t \<Longrightarrow> tried w \<le> tried w' \<Longrightarrow> start_run sdk t w (Inl e) t' w'"
| swapped: "tr_impl t = Some impl \<Longrightarrow> cs = flush_calls t' impl \<Longrightarrow> calls w3 = cs @ calls w \<Longrightarrow>
    tried w < p \<Longrightarrow> p \<le> tried w3 \<Longrightarrow> swap_pipeline sdk p es impl w3 = (r4, impl', w') \<Longrightarrow> tr_impl t' = Some impl' \<Longrightarrow>
    r = (case r4 of Inl e \<Rightarrow> Inl e | Inr _ \<Rightarrow> Inr OTELC_RET_OK) \<Longrightarrow> start_run sdk t w r t' w'"

lemma start_run_cases:
  assumes "otel_tracer_start sdk ctx (Some t) w = Some (r, Some t', w')"
  shows "start_run sdk t w r t' w'"
proof -
  obtain prefix where prefix: "tr_yaml_prefix t = Some prefix"
    using assms by (auto simp: otel_tracer_start_def split: option.splits)
  let ?c = "ctx\<lparr>cf_prefix := prefix\<rparr>"
  obtain r1 t1 w1 where opts: "read_start_options sdk ?c t w = (r1, t1, w1)"
    by (metis surj_pair)
  note o = read_start_options_same [OF opts]
  have w1: "calls w1 = calls w" using o same_world_at by blast
  have t1: "tried w \<le> tried w1" using read_start_options_tried [OF opts] .
  note start = assms [unfolded otel_tracer_start_def Let_def option.case prefix opts prod.case]
  show ?thesis
  proof (cases r1)
    case (Inl x)
    then show ?thesis
      using start o w1 t1 by (auto intro: not_built [of _ "[]"])
  next
    case (Inr u)
    obtain rs w2 where smp: "run_build sdk (otel_sampler_create (Some ?c)) w1 = (rs, w2)" by fastforce
    have w2: "calls w2 = calls w" using run_build_calls [OF smp] w1 by simp
    have t2: "tried w \<le> tried w2" using run_build_forward [OF smp] forward_samplers(4) t1 by fastforce
    show ?thesis
    proof (cases "\<exists>s impl. rs = Inr s \<and> tr_impl t1 = Some impl")
      case False
      then show ?thesis
        using start Inr smp o w2 t2
        by (cases rs; cases "tr_impl t1") (auto intro: not_built [of _ "[]"])
    next
      case True
      then obtain s impl where ok: "rs = Inr s" "tr_impl t1 = Some impl" by blast
      have impl: "tr_impl t = Some impl" using ok(2) o by simp
      note start = start [unfolded Inr smp ok sum.case prod.case option.case]
      obtain rb w3 where b: "run_build sdk (bbind (tracer_pipeline ?c) (\<lambda>(exporters, processors).
              bbind (numbered (otel_tracer_provider_create (Some ?c) processors s))
                (\<lambda>(provider, _). give (exporters, provider)))) (flush_previous t1 impl w2) = (rb, w3)"
        by fastforce
      have cs: "calls w3 = flush_calls t1 impl @ calls w"
        using flush_previous_calls [of t1 impl w2] run_build_calls [OF b] w2 by simp
      note new = new_pipeline [OF forward_tracer_pipeline providers_allocate(1) b forward_creators(9)]
      have t3: "tried w \<le> tried w3" using new t2 by simp
      note start = start [unfolded b prod.case]
      show ?thesis
      proof (cases rb)
        case (Inl x)
        then show ?thesis
          using start o impl cs t3 flush_calls_only [of impl t1]
            not_built [of w' "flush_calls t1 impl" w t t' sdk x] by auto
      next
        case (Inr ep)
        obtain es p where ep: "ep = (es, p)" by fastforce
        obtain r4 impl1 w4 where sw: "swap_pipeline sdk p es impl w3 = (r4, impl1, w4)" by (metis surj_pair)
        note start = start [unfolded Inr ep sw sum.case prod.case]
        have "w4 = w'" using start by (auto split: sum.splits)
        note sw = sw [unfolded this]
        show ?thesis
          using start new t2 Inr ep cs
          by (intro swapped [OF impl refl _ _ _ sw]) (auto split: sum.splits)
      qed
    qed
  qed
qed

text \<open>
  C7: A start that fails leaves the previous pipeline in place.  Whatever the configuration says and
  whatever fails, until the very last step (the installation, which reports its own error) the
  tracer's provider, exporters and propagator are untouched, and all that has been asked of the
  outside is one flush of the previous provider and the opening of files for appending: no exporter
  was shut down, no file emptied, no provider released.
\<close>
theorem failed_start_keeps_pipeline:
  assumes "otel_tracer_start sdk ctx (Some t) w = Some (Inl e, Some t', w')"
    and "e \<noteq> Some (Err ''Unable to install tracer state'' [])"
  shows "tr_impl t' = tr_impl t \<and>
    (\<exists>fs flush. calls w' = map open_call fs @ flush @ calls w \<and>
      (flush = [] \<or> (\<exists>impl. tr_impl t = Some impl \<and> flushed_only impl flush)))"
  using start_run_cases [OF assms(1)]
proof cases
  case (not_built cs)
  then show ?thesis
    by (intro conjI exI [of _ "[]"] exI [of _ cs]) auto
next
  case (swapped impl cs w3 p es r4 impl')
  then have "r4 = Inl e" by (auto split: sum.splits)
  then obtain fs where "impl' = impl" "calls w' = map open_call fs @ calls w3"
    using swap_failure [of sdk p es impl w3 e impl' w'] swapped assms(2) by auto
  then show ?thesis
    using swapped flush_calls_only by (intro conjI exI [of _ fs] exI [of _ cs]) auto
qed

text \<open>
  C8: A start that succeeds swaps the pipelines in a safe order.  The previous provider is flushed
  first, once and with the budget of the tracer's flush timeout, if there is one and the timeout is
  positive (otherwise it is not flushed); then every file of the new exporters is opened, then the previous exporters are shut down,
  then the files are emptied, and only then is the previous provider released; every file is opened
  and emptied exactly once, every previous exporter shut down exactly once, and the tracer ends up
  with a provider, a tracer, a propagator and the new exporters.
\<close>
theorem start_swaps_in_order:
  assumes "otel_tracer_start sdk ctx (Some t) w = Some (Inr rc, Some t', w')"
  shows "\<exists>impl p es. tr_impl t = Some impl \<and>
    tr_impl t' = Some \<lparr>ti_provider = Some p, ti_tracer = True, ti_propagator = True, ti_exporters = map fst es\<rparr> \<and>
    calls w' = (case ti_provider impl of None \<Rightarrow> [] | Some q \<Rightarrow> [ReleaseProvider q]) @
      map truncate_call (rev (pipeline_files es)) @ map ExporterShutdown (rev (ti_exporters impl)) @
      map open_call (rev (pipeline_files es)) @
      (case ti_provider impl of
         None \<Rightarrow> []
       | Some q \<Rightarrow> if tr_flush_timeout t' > 0
           then [ForceFlush q (1000 * otel_tracer_flush_budget (tr_flush_timeout t')
                   (of_nat (length (ti_exporters impl))))]
           else []) @ calls w"
  using start_run_cases [OF assms]
proof cases
  case (swapped impl cs w3 p es r4 impl')
  then obtain u where "r4 = Inr u" by (auto split: sum.splits)
  then show ?thesis
    using swap_success [of sdk p es impl w3 u impl' w'] swapped(1-7)
    by (intro exI [of _ impl] exI [of _ p] exI [of _ es]) (simp add: flush_calls_def)
qed

definition demo_tracer :: otelc_tracer where
  "demo_tracer = \<lparr>tr_enabled = True, tr_flush_timeout = 5000, tr_scope_name = None, tr_yaml_prefix = Some ''/t'',
     tr_impl = Some \<lparr>ti_provider = Some 3, ti_tracer = True, ti_propagator = True, ti_exporters = [2]\<rparr>\<rparr>"

lemma failed_start_keeps_pipeline_witness:
  "\<exists>t' w'. otel_tracer_start demo_sdk (demo_cfg\<lparr>cf_fyd := None\<rparr>) (Some demo_tracer) demo_world =
     Some (raise ''YAML document name not specified'', Some t', w') \<and> tr_impl t' = tr_impl demo_tracer"
proof -
  have e: "otel_tracer_start demo_sdk (demo_cfg\<lparr>cf_fyd := None\<rparr>) (Some demo_tracer) demo_world =
     Some (raise ''YAML document name not specified'', Some demo_tracer, demo_world)"
    by (simp add: otel_tracer_start_def demo_tracer_def read_start_options_def yaml_find_def Let_def demo_cfg_def)
  show ?thesis
    using failed_start_keeps_pipeline [OF e] e by auto
qed

text \<open>A second start of a tracer whose first pipeline has exporter 2 under provider 3.\<close>

lemma demo_sampler:
  "otel_sampler_create (Some demo_cfg) (\<lambda>_. False) n =
     (Inr (ParentBased AlwaysOff AlwaysOn AlwaysOff AlwaysOn AlwaysOff), n + 6)"
  by (simp add: otel_sampler_create_def parent_based_sampler_def root_delegate_def delegate_override_def
      bbind_def give_def make_nothrow_def str_at_def strcasecmp_eq_def to_lower_def Let_def yaml_run)

lemma demo_exporter:
  "otel_tracer_exporter_create (Some demo_cfg) None (\<lambda>_. False) n = (Inr (Exp_ostream (File_exporter ''out.txt'')), Suc n)"
  by (simp add: otel_tracer_exporter_create_def exporter_type_def exporter_cases_def otel_exporter_set_ostream_options_def
      PATH_MAX_def bbind_def give_def make_nothrow_def str_at_def strcasecmp_eq_def to_lower_def Let_def yaml_run)

lemma demo_processor:
  "otel_tracer_processor_create (Some demo_cfg) e None (\<lambda>_. False) n =
     (Inr (Batch_processor \<lparr>bo_thread = None, bo_max_queue_size = 128, bo_schedule_delay = 5000,
        bo_export_timeout = 30000, bo_max_export_batch_size = 100\<rparr> e), n + 4)"
proof -
  have n: "strtol ''128'' 0 = (128, Some [], No_error)" "strtol ''100'' 0 = (100, Some [], No_error)"
    by code_simp+
  show ?thesis
    by (simp add: otel_tracer_processor_create_def processor_create_def batch_chain_def
        thread_instrumentation_def parse_int64_def n int_at_def
        bbind_def give_def make_nothrow_def str_at_def strcasecmp_eq_def to_lower_def Let_def yaml_run)
qed

lemma demo_provider:
  "otel_tracer_provider_create (Some demo_cfg) ps smp (\<lambda>_. False) n =
     (Inr \<lparr>tp_processors = ps, tp_resource = [(''host'', ''a''), (''zone'', ''z'')], tp_sampler = smp\<rparr>, n + 3)"
proof -
  have w: "yaml_get_sequence (\<lambda>_. False) (Some demo_doc) (Some ''/providers/r/resources'') (Some None) =
      (Some (Some [(''host'', ''a'')]), ok 1)"
    by (simp add: yaml_get_sequence_def ryml_get_node_by_path_def split_on.simps demo_walk demo_child Let_def)
  show ?thesis
    by (simp add: otel_tracer_provider_create_def otel_resource_create_def w bbind_def give_def make_nothrow_def
        map_at_def Let_def yaml_run)
qed

lemma demo_pipeline:
  "tracer_pipeline demo_cfg (\<lambda>_. False) n =
     (Inr ([(Suc n, Exp_ostream (File_exporter ''out.txt''))],
       [Batch_processor \<lparr>bo_thread = None, bo_max_queue_size = 128, bo_schedule_delay = 5000,
        bo_export_timeout = 30000, bo_max_export_batch_size = 100\<rparr> (Exp_ostream (File_exporter ''out.txt''))]), n + 6)"
proof -
  have "\<not> yaml_is_sequence (Some demo_doc) (Some ''/t/processors'')"
    by (simp add: yaml_is_sequence_def ryml_get_node_by_path_def split_on.simps demo_walk demo_child)
  then have "\<not> yaml_is_sequence (cf_fyd demo_cfg) (Some (OTEL_YAML_PATH demo_cfg OTEL_YAML_PROCESSORS))"
    by (simp add: OTEL_YAML_PATH_def demo_cfg_def OTEL_YAML_PROCESSORS_def OTEL_YAML_BUFSIZ_def snprintf_short)
  then show ?thesis
    by (simp add: tracer_pipeline_def Let_def add_pipeline_def bbind_def numbered_def demo_exporter demo_processor
        or_throw_def make_nothrow_def give_def)
qed

lemma start_swaps_in_order_witness:
  "\<exists>t' w' i. otel_tracer_start demo_sdk demo_cfg (Some demo_tracer) demo_world = Some (Inr OTELC_RET_OK, Some t', w') \<and>
     calls w' = [ReleaseProvider 3, TruncateFile i ''out.txt'', ExporterShutdown 2, OpenFile i ''out.txt'',
       ForceFlush 3 (1000 * otel_tracer_flush_budget (tr_flush_timeout t') 1)]"
proof -
  have prefix: "demo_cfg\<lparr>cf_prefix := ''/t''\<rparr> = demo_cfg"
    by (simp add: demo_cfg_def)
  have opts: "read_start_options demo_sdk demo_cfg demo_tracer demo_world =
      (Inr (), demo_tracer\<lparr>tr_scope_name := Some ''app''\<rparr>, demo_world\<lparr>tried := 6\<rparr>)"
  proof -
    have "copy_scalar (Some demo_doc) ''/t/flush_timeout'' OTEL_YAML_BUFSIZ = None"
      "copy_scalar (Some demo_doc) ''/t/scope_name'' OTEL_YAML_BUFSIZ = Some ''app''"
      by (simp_all add: yaml_run)
    then show ?thesis
      by (simp add: read_start_options_def yaml_find_def OTEL_YAML_PATH_def demo_cfg_def OTEL_YAML_BUFSIZ_def
          snprintf_short try_alloc_def demo_sdk_def demo_world_def)
  qed
  have fields: "tr_yaml_prefix demo_tracer = Some ''/t''" "tr_flush_timeout demo_tracer = 5000" "calls demo_world = []"
    "tr_impl demo_tracer = Some \<lparr>ti_provider = Some 3, ti_tracer = True, ti_propagator = True, ti_exporters = [2]\<rparr>"
    by (simp_all add: demo_tracer_def demo_world_def)
  have orc: "oom demo_sdk = (\<lambda>_. False)" "file_opens demo_sdk cs f" "sdk_get_tracer demo_sdk cs" for cs f
    by (simp_all add: demo_sdk_def)
  obtain t' w' where e: "otel_tracer_start demo_sdk demo_cfg (Some demo_tracer) demo_world = Some (Inr OTELC_RET_OK, Some t', w')"
    and x: "\<exists>i us. calls w' = [ReleaseProvider 3, TruncateFile i ''out.txt'', ExporterShutdown 2, OpenFile i ''out.txt'', ForceFlush 3 us]"
    and t': "tr_flush_timeout t' = 5000"
    by (simp add: otel_tracer_start_def prefix opts orc run_build_def demo_sampler demo_pipeline demo_provider bbind_def
        numbered_def give_def swap_pipeline_def make_propagator_def make_nothrow_def or_throw_def install_tracer_def
        try_alloc_def flush_previous_def shutdown_exporters_def release_provider_def fields)
  from start_swaps_in_order [OF e] x show ?thesis
    using e t' by (auto simp: fields)
qed

end
