(* ===== verification/Otel_MeterLaws.thy ===== *)
theory Otel_MeterLaws
  imports Otel_Meter Otel_TracerLaws
begin

text \<open>
  What holds of meters: the index by name agrees with the map of instruments whatever fails, creation
  is idempotent and its races have one winner, a value is recorded exactly or refused, and a start
  registers every recorded view with the new provider before anything of the old pipeline is touched.
\<close>

section \<open>Types and keys\<close>

definition instrument_tag :: "otelc_metric_instrument_t \<Rightarrow> int" where
  "instrument_tag ty = int (length (takeWhile (\<lambda>x. x \<noteq> ty) instrument_types))"

lemma metric_instrument_tag: "metric_instrument t = Some ty \<longleftrightarrow> t = instrument_tag ty"
proof
  assume m: "metric_instrument t = Some ty"
  then have t: "0 \<le> t" "t < 14" and ty: "ty = instrument_types ! nat t"
    by (auto simp: metric_instrument_def split: if_splits)
  from t have "t = 0 \<or> t = 1 \<or> t = 2 \<or> t = 3 \<or> t = 4 \<or> t = 5 \<or> t = 6 \<or> t = 7 \<or> t = 8 \<or> t = 9 \<or> t = 10 \<or>
      t = 11 \<or> t = 12 \<or> t = 13"
    by presburger
  then show "t = instrument_tag ty"
    unfolding ty by (elim disjE) (simp_all add: instrument_tag_def instrument_types_def)
next
  assume t: "t = instrument_tag ty"
  show "metric_instrument t = Some ty"
    unfolding t metric_instrument_def instrument_tag_def instrument_types_def by (cases ty) simp_all
qed

lemma observable_tag: "int_is_observable (instrument_tag ty) \<longleftrightarrow> is_observable ty"
  by (cases ty) (simp_all add: int_is_observable_def instrument_tag_def instrument_types_def is_observable_def)

lemma dec_string_inject: "dec_string m = dec_string n \<longleftrightarrow> m = n"
  using dec_string_value by metis

lemma digit_code: "is_digit_in 10 c \<Longrightarrow> c \<noteq> CHR ''/'' \<and> c \<noteq> CHR ''-''"
  by (auto simp: is_digit_in_def digit_val_def Let_def split: if_splits option.splits)

lemma int_string_no_slash: "CHR ''/'' \<notin> set (int_string i)"
  using dec_string_digits digit_code by auto

lemma dec_string_not_minus: "dec_string n \<noteq> CHR ''-'' # s"
proof
  assume "dec_string n = CHR ''-'' # s"
  then have "CHR ''-'' \<in> set (dec_string n)" by simp
  then show False using dec_string_digits [of n] digit_code by blast
qed

lemma int_string_inject: "int_string i = int_string j \<longleftrightarrow> i = j"
  using dec_string_not_minus dec_string_not_minus [symmetric]
  by (auto simp: dec_string_inject split: if_splits)

lemma append_last_slash:
  assumes "xs @ c # ys = xs' @ c # ys'" "c \<notin> set ys" "c \<notin> set ys'"
  shows "xs = xs' \<and> ys = ys'"
proof -
  obtain us where "xs = xs' @ us \<and> us @ c # ys = c # ys' \<or> xs @ us = xs' \<and> c # ys = us @ c # ys'"
    using assms(1) unfolding append_eq_append_conv2 by blast
  then show ?thesis
    using assms(2,3) by (cases us) auto
qed

lemma instrument_key_eq:
  "instrument_key n t = instrument_key n' t' \<longleftrightarrow> strcasecmp_eq n n' \<and> t = t'"
proof
  assume "instrument_key n t = instrument_key n' t'"
  then have "map to_lower n = map to_lower n' \<and> int_string t = int_string t'"
    unfolding instrument_key_def by (rule append_last_slash) (rule int_string_no_slash)+
  then show "strcasecmp_eq n n' \<and> t = t'"
    using int_string_inject [of t t'] by (simp add: strcasecmp_eq_def)
qed (simp add: instrument_key_def strcasecmp_eq_def)

text \<open>
  C36: The key of an instrument identifies it up to the case of its name.  Two instruments have the same
  key exactly when their names are equal without regard to ASCII case and their types are the same,
  even when a name itself contains slashes and digits.
\<close>
theorem instrument_key_identifies:
  "instrument_key n t = instrument_key n' t' \<longleftrightarrow> strcasecmp_eq n n' \<and> t = t'"
  by (rule instrument_key_eq)

lemma instrument_key_not_empty [simp]: "instrument_key n t \<noteq> []"
  by (simp add: instrument_key_def)

section \<open>The invariant of a meter\<close>

definition handle_key :: "instrument_handle \<Rightarrow> string" where
  "handle_key h = instrument_key (ih_name h) (instrument_tag (ih_type h))"

definition instrument_at :: "'d meter_impl \<Rightarrow> int64 \<Rightarrow> instrument_handle option" where
  "instrument_at impl = otel_map_find (mi_instrument impl)"

text \<open>The index holds exactly the keys of the stored instruments; both maps hand out fresh identifiers.\<close>

definition meter_ok :: "'d meter_impl \<Rightarrow> bool" where
  "meter_ok impl \<longleftrightarrow> store_ok (Some (mi_instrument impl)) \<and> store_ok (Some (mi_view impl)) \<and>
     (\<forall>k i. map_of (mi_index impl) k = Some i \<longleftrightarrow> (\<exists>h. instrument_at impl i = Some h \<and> handle_key h = k))"

lemma meter_okD:
  assumes "meter_ok impl"
  shows "handle_inv (mi_instrument impl)" "hm.below (mi_instrument impl) (hid (mi_instrument impl))"
    "instrument_at impl (hid (mi_instrument impl)) = None"
    "map_of (mi_index impl) k = Some i \<longleftrightarrow> (\<exists>h. instrument_at impl i = Some h \<and> handle_key h = k)"
  using assms hm.below_fresh [of "mi_instrument impl"]
  unfolding meter_ok_def by (auto simp: instrument_at_def dest!: store_okD)

lemma meter_ok_unique:
  "meter_ok impl \<Longrightarrow> instrument_at impl i = Some h \<Longrightarrow> instrument_at impl j = Some h' \<Longrightarrow>
     handle_key h = handle_key h' \<Longrightarrow> i = j"
  by (metis meter_okD(4) option.inject)

text \<open>An insertion and its undoing, on the map.\<close>

lemma map_emplaced:
  assumes "handle_inv m" "otel_map_find m i = None"
  obtains m1 where "map_emplace i h m = (m1, True)" "handle_inv m1" "otel_map_find m1 = (otel_map_find m)(i \<mapsto> h)"
    "hid m1 = hid m"
proof
  let ?m1 = "set_shard i ((i, h) # get_shard m i) m"
  have s: "shards ?m1 = shards (handle_insert i h m)"
    using assms(2) by (simp add: handle_insert_eq handle_simps)
  show "map_emplace i h m = (?m1, True)"
    using assms(2) by (simp add: map_emplace_def otel_map_find_def)
  show "handle_inv ?m1"
    using handle_inv_cong [OF s] handle_inv_insert [OF assms(1)] by simp
  show "otel_map_find ?m1 = (otel_map_find m)(i \<mapsto> h)"
    using otel_map_find_cong [OF s] handle_map_insert [OF assms] by simp
  show "hid ?m1 = hid m" by (simp add: handle_simps)
qed

lemma store_ok_emplaced:
  assumes "store_ok (Some m)" "map_emplace (hid m) h m = (m1, fresh)" "hid m < hid m + 1"
  shows "fresh \<and> otel_map_find m1 = (otel_map_find m)(hid m \<mapsto> h) \<and> hid m1 = hid m \<and>
    store_ok (Some ((update_peak_size 0 m1)\<lparr>hid := hid m + 1\<rparr>)) \<and> store_ok (Some (handle_erase (hid m) m1)) \<and>
    otel_map_find (handle_erase (hid m) m1) = otel_map_find m"
proof -
  note m = store_okD [OF assms(1)]
  have none: "otel_map_find m (hid m) = None"
    using m hm.below_fresh by blast
  obtain m2 where e: "map_emplace (hid m) h m = (m2, True)" "handle_inv m2"
    "otel_map_find m2 = (otel_map_find m)(hid m \<mapsto> h)" "hid m2 = hid m"
    using m none map_emplaced by metis
  have m1: "m1 = m2" "fresh" using assms(2) e(1) by simp_all
  have up: "shards ((update_peak_size 0 m1)\<lparr>hid := hid m + 1\<rparr>) = shards m1"
    by (simp add: handle_simps)
  have "hm.below m1 (hid m + 1)"
    using m assms(3) e m1 unfolding hm.below_def by (auto split: if_splits) (meson domI order_less_trans)
  then have "store_ok (Some ((update_peak_size 0 m1)\<lparr>hid := hid m + 1\<rparr>))"
    using handle_inv_cong [OF up] below_cong [OF up] e m1 by (simp add: store_ok_def)
  moreover have undone: "otel_map_find (handle_erase (hid m) m1) = otel_map_find m"
    using handle_map_erase [of m1 "hid m"] e m1 none by auto
  moreover have "store_ok (Some (handle_erase (hid m) m1))"
    using handle_inv_erase [of m1 "hid m"] e m1 m undone by (simp add: store_ok_def hm.below_def)
  ultimately show ?thesis using e m1 by simp
qed

text \<open>How an insertion can end: nothing stored, or one new instrument under the next identifier.\<close>

definition same_instruments :: "'d meter_impl \<Rightarrow> 'd meter_impl \<Rightarrow> bool" where
  "same_instruments impl impl' \<longleftrightarrow>
     meter_ok impl' \<and> instrument_at impl' = instrument_at impl \<and> mi_index impl' = mi_index impl \<and>
     mi_view impl' = mi_view impl \<and> mi_provider impl' = mi_provider impl \<and> mi_meter impl' = mi_meter impl \<and>
     mi_exporters impl' = mi_exporters impl \<and> hid (mi_instrument impl') = hid (mi_instrument impl)"

definition one_more_instrument :: "'d meter_impl \<Rightarrow> int64 \<Rightarrow> instrument_handle \<Rightarrow> 'd meter_impl \<Rightarrow> bool" where
  "one_more_instrument impl i h impl' \<longleftrightarrow>
     meter_ok impl' \<and> i = hid (mi_instrument impl) \<and> instrument_at impl i = None \<and>
     instrument_at impl' = (instrument_at impl)(i \<mapsto> h) \<and> mi_index impl' = (handle_key h, i) # mi_index impl \<and>
     mi_view impl' = mi_view impl \<and> mi_provider impl' = mi_provider impl \<and> mi_meter impl' = mi_meter impl \<and>
     mi_exporters impl' = mi_exporters impl \<and> hid (mi_instrument impl') = i + 1"

inductive inserted for impl h where
  insertion_failed: "same_instruments impl impl' \<Longrightarrow> inserted impl h (Inl e) impl'"
| insertion_done: "one_more_instrument impl i h impl' \<Longrightarrow> inserted impl h (Inr i) impl'"

inductive_cases insertedE: "inserted impl h res impl'"

lemma same_instruments_refl: "meter_ok impl \<Longrightarrow> same_instruments impl impl"
  by (simp add: same_instruments_def)

lemma insert_instrument_inserted:
  assumes ok: "meter_ok impl" and key: "handle_key h = rq_key r" and new: "map_of (mi_index impl) (rq_key r) = None"
    and room: "hid (mi_instrument impl) < hid (mi_instrument impl) + 1"
    and run: "insert_instrument sdk r h impl w = (res, impl', w')"
  shows "inserted impl h res impl'"
proof -
  let ?m = "mi_instrument impl"
  obtain m1 fresh where e: "map_emplace (hid ?m) h ?m = (m1, fresh)" by fastforce
  have st: "store_ok (Some ?m)" using ok by (simp add: meter_ok_def)
  note m1 = store_ok_emplaced [OF st e room]
  have erased: "same_instruments impl (impl\<lparr>mi_instrument := handle_erase (hid ?m) m1\<rparr>)"
    using ok m1 by (simp add: same_instruments_def meter_ok_def instrument_at_def)
  let ?impl = "impl\<lparr>mi_instrument := (update_peak_size 0 m1)\<lparr>hid := hid ?m + 1\<rparr>, mi_index := (rq_key r, hid ?m) # mi_index impl\<rparr>"
  have "otel_map_find ((update_peak_size 0 m1)\<lparr>hid := hid ?m + 1\<rparr>) = otel_map_find m1"
    by (rule otel_map_find_cong) (simp add: handle_simps)
  then have find: "instrument_at ?impl = (instrument_at impl)(hid ?m \<mapsto> h)"
    using m1 by (simp add: instrument_at_def)
  have "meter_ok ?impl"
    unfolding meter_ok_def
  proof (intro conjI allI)
    fix k i
    show "map_of (mi_index ?impl) k = Some i \<longleftrightarrow> (\<exists>h. instrument_at ?impl i = Some h \<and> handle_key h = k)"
      unfolding find using meter_okD(3) [OF ok] meter_okD(4) [OF ok, of k i] meter_okD(4) [OF ok, of k "hid ?m"] key new
      by (auto split: if_splits)
  qed (use ok m1 in \<open>simp_all add: meter_ok_def\<close>)
  then have "one_more_instrument impl (hid ?m) h ?impl"
    using find key meter_okD(3) [OF ok] by (simp add: one_more_instrument_def)
  then show ?thesis
    using run e m1 new erased same_instruments_refl [OF ok]
    by (auto simp: insert_instrument_def Let_def intro: inserted.intros split: if_splits prod.splits sum.splits bool.splits)
qed

lemma build_instrument_key:
  assumes "build_instrument sdk p r w = (Inr h, w')"
  shows "handle_key h = rq_key r \<and> ih_name h = rq_name r \<and> metric_instrument (rq_type r) = Some (ih_type h) \<and>
    calls w' = CreateInstrument p (ih_object h) (ih_type h) (rq_name r) (rq_desc r) (rq_unit r) # calls w"
  using assms
  by (auto simp: build_instrument_def Let_def try_alloc_def rq_key_def handle_key_def
      split: option.splits if_splits prod.splits dest!: metric_instrument_tag [THEN iffD1])

text \<open>How the creation of a new instrument can end.\<close>

inductive created for impl r where
  creation_failed: "same_instruments impl impl' \<Longrightarrow> created impl r (Inl e) impl'"
| already_there: "map_of (mi_index impl) (rq_key r) = Some i \<Longrightarrow> created impl r (Inr i) impl"
| creation_done: "map_of (mi_index impl) (rq_key r) = None \<Longrightarrow> one_more_instrument impl i h impl' \<Longrightarrow>
    ih_name h = rq_name r \<Longrightarrow> metric_instrument (rq_type r) = Some (ih_type h) \<Longrightarrow> handle_key h = rq_key r \<Longrightarrow>
    created impl r (Inr i) impl'"

inductive_cases createdE: "created impl r res impl'"

lemma create_new_created:
  assumes ok: "meter_ok impl" and room: "hid (mi_instrument impl) < hid (mi_instrument impl) + 1"
    and run: "create_new_instrument sdk p r impl w = (res, impl', w')"
  shows "created impl r res impl'"
proof -
  note fail = creation_failed [OF same_instruments_refl [OF ok]]
  show ?thesis
  proof (cases "\<exists>u. check_request sdk r = Inr u \<and> map_of (mi_index impl) (rq_key r) = None")
    case False
    then show ?thesis
      using run fail by (auto simp: create_new_instrument_def otel_nolock_meter_find_instrument_def
          intro: already_there split: sum.splits option.splits)
  next
    case True
    obtain rh w1 where b: "build_instrument sdk p r w = (rh, w1)" by fastforce
    show ?thesis
    proof (cases rh)
      case (Inl e)
      then show ?thesis
        using run fail b True by (auto simp: create_new_instrument_def otel_nolock_meter_find_instrument_def)
    next
      case (Inr h)
      note h = build_instrument_key [OF b [unfolded Inr]]
      have "inserted impl h res impl'"
        using run b Inr True h insert_instrument_inserted [OF ok _ _ room]
        by (auto simp: create_new_instrument_def otel_nolock_meter_find_instrument_def)
      then show ?thesis
        by (cases rule: insertedE) (use h True in \<open>auto intro: creation_failed creation_done\<close>)
    qed
  qed
qed

section \<open>Creating an instrument\<close>

lemma find_created:
  assumes "mt_impl m = Some impl" "meter_ok impl" "instrument_at impl i = Some h" "ih_name h = n"
    "t = instrument_tag (ih_type h)" "strcasecmp_eq n' n" "\<not> oom sdk (tried w)"
  shows "otel_meter_get_instrument sdk (Some m) (Some n') t w = Some (Inr i, w\<lparr>tried := Suc (tried w)\<rparr>)"
proof -
  have "handle_key h = instrument_key n' t"
    using assms(4-6) by (simp add: handle_key_def instrument_key_eq strcasecmp_eq_sym)
  then have "map_of (mi_index impl) (instrument_key n' t) = Some i"
    using assms(2,3) meter_okD(4) by metis
  then show ?thesis
    using assms(1,7)
    by (simp add: otel_meter_get_instrument_def otel_meter_instrument_key_def try_alloc_def
        otel_nolock_meter_find_instrument_def)
qed

text \<open>What a creation leaves behind.\<close>

definition creation_result ::
  "'d meter_impl \<Rightarrow> string option \<Rightarrow> int \<Rightarrow> int64 outcome \<Rightarrow> 'd meter_impl \<Rightarrow> bool" where
  "creation_result impl name t res impl' \<longleftrightarrow>
     meter_ok impl' \<and> mi_view impl' = mi_view impl \<and>
     (case res of
        Inl _ \<Rightarrow> instrument_at impl' = instrument_at impl
      | Inr i \<Rightarrow> \<exists>n h. name = Some n \<and> instrument_at impl' = (instrument_at impl)(i \<mapsto> h) \<and>
          strcasecmp_eq (ih_name h) n \<and> t = instrument_tag (ih_type h) \<and>
          (if \<exists>j h0. instrument_at impl j = Some h0 \<and> strcasecmp_eq (ih_name h0) n \<and> t = instrument_tag (ih_type h0)
           then impl' = impl else instrument_at impl i = None))"

lemma same_key_handle:
  "handle_key h = instrument_key n t \<longleftrightarrow> strcasecmp_eq (ih_name h) n \<and> t = instrument_tag (ih_type h)"
  by (auto simp: handle_key_def instrument_key_eq)

lemma found_result:
  assumes "meter_ok impl" "map_of (mi_index impl) (instrument_key n t) = Some i"
  shows "creation_result impl (Some n) t (Inr i) impl"
proof -
  obtain h where h: "instrument_at impl i = Some h" "handle_key h = instrument_key n t"
    using assms meter_okD(4) by blast
  have eq: "instrument_at impl = (instrument_at impl)(i \<mapsto> h)" using h(1) by auto
  show ?thesis
    unfolding creation_result_def using assms(1) h(2) eq unfolding same_key_handle
    by (auto intro!: exI [of _ h] exI [of _ i] simp: h(1))
qed

lemma created_result:
  assumes "meter_ok impl" "created impl r res impl'" "map_of (mi_index impl) (rq_key r) = None"
  shows "creation_result impl (Some (rq_name r)) (rq_type r) res impl'"
  using assms(2)
proof cases
  case (creation_failed e)
  then show ?thesis by (simp add: creation_result_def same_instruments_def)
next
  case (already_there i)
  then show ?thesis using assms(3) by simp
next
  case (creation_done i h)
  have "\<nexists>j h0. instrument_at impl j = Some h0 \<and> handle_key h0 = rq_key r"
    using assms(1,3) meter_okD(4) by (metis option.distinct(1))
  then have "\<nexists>j h0. instrument_at impl j = Some h0 \<and> strcasecmp_eq (ih_name h0) (rq_name r) \<and> rq_type r = instrument_tag (ih_type h0)"
    by (simp add: rq_key_def same_key_handle)
  moreover have "strcasecmp_eq (ih_name h) (rq_name r)" "rq_type r = instrument_tag (ih_type h)"
    using creation_done by (simp_all add: metric_instrument_tag)
  ultimately show ?thesis
    using creation_done by (auto simp: creation_result_def one_more_instrument_def)
qed

text \<open>
  C6: Creating an instrument keeps the index by name and the map in agreement and is idempotent.
  Whatever the arguments, whatever the SDK refuses and whichever allocation fails, the meter stays
  well-formed; a failed creation leaves the instruments as they were; a successful one returns the
  identifier of an instrument of the requested type whose name is the requested one up to case, which
  is the existing one, with nothing changed, if there is one, and a new one under a fresh identifier
  otherwise; and any later lookup of that name, in any case, returns that identifier.
\<close>
theorem create_instrument_consistent:
  assumes "mt_impl m = Some impl" "meter_ok impl"
    and "hid (mi_instrument impl) < hid (mi_instrument impl) + 1"
    and "otel_meter_create_instrument sdk (Some m) name desc unit type data w = (res, Some m', w')"
  shows "\<exists>impl'. mt_impl m' = Some impl' \<and> creation_result impl name type res impl' \<and>
    (\<forall>i n n' w1. res = Inr i \<and> name = Some n \<and> strcasecmp_eq n' n \<and> \<not> oom sdk (tried w1) \<longrightarrow>
       otel_meter_get_instrument sdk (Some m') (Some n') type w1 = Some (Inr i, w1\<lparr>tried := Suc (tried w1)\<rparr>))"
proof -
  have same: "creation_result impl name type (Inl e) impl" for e
    using assms(2) by (simp add: creation_result_def)
  have "\<exists>impl'. mt_impl m' = Some impl' \<and> creation_result impl name type res impl'"
  proof (cases "mt_enabled m \<and> name \<noteq> None \<and> mi_meter impl \<noteq> None \<and> \<not> oom sdk (tried w)")
    case False
    then show ?thesis
      using assms(1,4) same
      by (auto simp: otel_meter_create_instrument_def otel_meter_instrument_key_def try_alloc_def Let_def
          split: if_splits option.splits prod.splits)
  next
    case True
    then obtain n p where n: "name = Some n" "mi_meter impl = Some p" by auto
    let ?r = "\<lparr>rq_name = n, rq_desc = c_str desc, rq_unit = c_str unit, rq_type = type, rq_data = data\<rparr>"
    have key: "rq_key ?r = instrument_key n type" by (simp add: rq_key_def)
    show ?thesis
    proof (cases "map_of (mi_index impl) (instrument_key n type)")
      case (Some i)
      then show ?thesis
        using assms(1,4) True n found_result [OF assms(2) Some]
        by (simp add: otel_meter_create_instrument_def otel_meter_instrument_key_def try_alloc_def Let_def
            otel_nolock_meter_find_instrument_def)
    next
      case None
      obtain impl1 where run: "create_new_instrument sdk p ?r impl (w\<lparr>tried := Suc (tried w)\<rparr>) = (res, impl1, w')"
        "mt_impl m' = Some impl1"
        using assms(1,4) True n None
        by (auto simp: otel_meter_create_instrument_def otel_meter_instrument_key_def try_alloc_def Let_def
            otel_nolock_meter_find_instrument_def split: prod.splits)
      then show ?thesis
        using created_result [OF assms(2) create_new_created [OF assms(2,3) run(1)]] None key n by simp
    qed
  qed
  then obtain impl' where i: "mt_impl m' = Some impl'" "creation_result impl name type res impl'" by blast
  moreover have "otel_meter_get_instrument sdk (Some m') (Some n') type w1 = Some (Inr i, w1\<lparr>tried := Suc (tried w1)\<rparr>)"
    if "res = Inr i" "name = Some n" "strcasecmp_eq n' n" "\<not> oom sdk (tried w1)" for i n n' w1
  proof -
    note named = that
    obtain h where h: "instrument_at impl' i = Some h" "strcasecmp_eq (ih_name h) n" "type = instrument_tag (ih_type h)"
      "meter_ok impl'"
      using i(2) named(1,2) by (auto simp: creation_result_def)
    have "strcasecmp_eq n' (ih_name h)" using h(2) named(3) by (simp add: strcasecmp_eq_def)
    then show ?thesis
      using find_created [OF i(1) h(4,1) refl h(3)] named(4) by blast
  qed
  ultimately show ?thesis by blast
qed

text \<open>A meter with one counter, for the witnesses.\<close>

definition demo_impl :: "unit meter_impl" where
  "demo_impl = \<lparr>mi_provider = Some 3, mi_meter = Some 3,
     mi_instrument = demo_handle [\<lparr>ih_name = ''Requests'', ih_type = COUNTER_UINT64, ih_object = 4\<rparr>],
     mi_view = demo_handle [\<lparr>vh_name = ''v'', vh_desc = [], vh_instrument_name = ''lat*'', vh_instrument_unit = [],
       vh_type = HISTOGRAM_DOUBLE, vh_aggregation = AGGR_HISTOGRAM, vh_bounds = [()]\<rparr>],
     mi_index = [(instrument_key ''Requests'' 0, 0)], mi_exporters = [2]\<rparr>"

definition demo_meter :: "unit otelc_meter" where
  "demo_meter = \<lparr>mt_enabled = True, mt_flush_timeout = 5000, mt_scope_name = Some ''app'', mt_yaml_prefix = Some ''/t'',
     mt_impl = Some demo_impl\<rparr>"

lemma demo_store_ok: "store_ok (Some (demo_handle [x]))"
proof -
  have s: "shards (demo_handle [x]) = [[(0, x)]]" "hid (demo_handle [x]) = 1"
    by (simp_all add: demo_handle_def)
  have "handle_inv (demo_handle [x])"
    using pow2_1 [of "[x]"] demo_index [of "[x]"] by (simp add: handle_inv_def s)
  then show ?thesis
    by (auto simp: store_ok_def hm.below_def demo_find s(2) split: if_splits)
qed

lemma demo_meter_ok: "meter_ok demo_impl"
  by (auto simp: demo_store_ok meter_ok_def demo_impl_def instrument_at_def demo_find handle_key_def
      instrument_tag_def instrument_types_def)

lemma create_instrument_consistent_witness:
  "\<exists>m' w'. otel_meter_create_instrument demo_sdk (Some demo_meter) (Some ''REQUESTS'') None None 0 None demo_world =
     (Inr 0, Some m', w') \<and>
     otel_meter_get_instrument demo_sdk (Some m') (Some ''requests'') 0 w' = Some (Inr 0, w'\<lparr>tried := Suc (tried w')\<rparr>)"
proof -
  have same: "strcasecmp_eq ''Requests'' ''REQUESTS''" "strcasecmp_eq ''requests'' ''REQUESTS''"
    by code_simp+
  have key: "instrument_key ''Requests'' 0 = instrument_key ''REQUESTS'' 0"
    by (simp add: instrument_key_eq same)
  have e: "otel_meter_create_instrument demo_sdk (Some demo_meter) (Some ''REQUESTS'') None None 0 None demo_world =
     (Inr 0, Some demo_meter, demo_world\<lparr>tried := 6\<rparr>)"
    by (simp add: otel_meter_create_instrument_def demo_meter_def demo_impl_def otel_meter_instrument_key_def key
        otel_nolock_meter_find_instrument_def try_alloc_def demo_sdk_def demo_world_def)
  have "mt_impl demo_meter = Some demo_impl" "hid (mi_instrument demo_impl) < hid (mi_instrument demo_impl) + 1"
    by (simp_all add: demo_meter_def demo_impl_def demo_handle_def)
  then show ?thesis
    using create_instrument_consistent [OF _ demo_meter_ok _ e] e
    by (auto simp: demo_sdk_def same)
qed

section \<open>Recording values\<close>

text \<open>\<open>mv\<close> is the number the caller's value \<open>v\<close> holds, in the representation an instrument of type
  \<open>ty\<close> records.\<close>

inductive records :: "otelc_metric_instrument_t \<Rightarrow> 'd cvalue \<Rightarrow> 'd measurement \<Rightarrow> bool" where
  record_uint64: "expected_type ty = Is_uint64 \<Longrightarrow> records ty (C_uint64 u) (Meas_uint64 u)"
| record_int64: "expected_type ty = Is_int64 \<Longrightarrow> records ty (C_int64 i) (Meas_int64 i)"
| record_double: "expected_type ty = Is_double \<Longrightarrow> records ty (C_double d) (Meas_double d)"
| record_promoted: "expected_type ty = Is_uint64 \<Longrightarrow> 0 \<le> sint i \<Longrightarrow> uint u = sint i \<Longrightarrow> records ty (C_int64 i) (Meas_uint64 u)"

lemma expected_any: "expected_type ty = Any_value \<longleftrightarrow> is_observable ty"
  by (cases ty) (simp_all add: is_observable_def)

lemma nonneg_sint: "0 \<le> sint (i :: int64) \<Longrightarrow> uint i = sint i"
  using sint_lt [of i] by (simp add: uint_sint take_bit_int_eq_self)

text \<open>The check on the value decides whether it can be recorded.\<close>

lemma value_type_value:
  assumes "\<not> is_observable ty" "otel_meter_instrument_value_type v ty = Inr n"
  shows "\<exists>mv. value_for (expected_type ty) v = Some mv \<and> records ty v mv"
  using assms nonneg_sint expected_any [of ty]
  by (cases "expected_type ty"; cases v)
    (auto simp: otel_meter_instrument_value_type_def Let_def intro: records.intros split: if_splits)

lemma value_type_records:
  assumes "\<not> is_observable ty"
  shows "(\<exists>n. otel_meter_instrument_value_type v ty = Inr n) \<longleftrightarrow> (\<exists>mv. records ty v mv)"
proof
  assume "\<exists>mv. records ty v mv"
  then show "\<exists>n. otel_meter_instrument_value_type v ty = Inr n"
    by (auto elim!: records.cases simp: otel_meter_instrument_value_type_def Let_def)
qed (use value_type_value [OF assms] in blast)

lemma value_type_any: "is_observable ty \<Longrightarrow> otel_meter_instrument_value_type v ty = Inr OTELC_RET_OK"
  by (simp add: otel_meter_instrument_value_type_def expected_any)

definition attrs_of :: "'d ckv list \<Rightarrow> 'd attrs" where
  "attrs_of kvs = map (\<lambda>kv. (c_str (ck_key kv), cvalue_visit (ck_value kv))) kvs"

lemma value_add_attrs:
  "value_add sdk msg attr k v w = Some (Inr attr', w') \<Longrightarrow>
     \<exists>n. k = Some n \<and> attr' = attr @ [(n, case v of None \<Rightarrow> Vis_str [] | Some x \<Rightarrow> cvalue_visit x)]"
  by (auto simp: value_add_def Let_def split: if_splits option.splits prod.splits)

lemma value_add_all_attrs:
  assumes "value_add_all sdk msg attr kvs w = Some (Inr attr', w')"
  shows "attr' = attr @ attrs_of kvs"
  using assms
proof (induction kvs arbitrary: attr w)
  case (Cons kv kvs)
  then obtain attr1 w1 where "value_add sdk msg attr (ck_key kv) (Some (ck_value kv)) w = Some (Inr attr1, w1)"
    "value_add_all sdk msg attr1 kvs w1 = Some (Inr attr', w')"
    by (auto split: option.splits sum.splits prod.splits)
  then show ?case
    using Cons.IH [of attr1 w1] value_add_attrs [of sdk msg attr "ck_key kv" "Some (ck_value kv)" w attr1 w1]
    by (auto simp: attrs_of_def)
qed (simp add: attrs_of_def)

lemma value_add_all_keys:
  "\<forall>kv \<in> set kvs. ck_key kv \<noteq> None \<Longrightarrow> value_add_all sdk msg attr kvs w \<noteq> None"
  by (induction sdk msg attr kvs w rule: value_add_all.induct)
    (auto simp: value_add_def Let_def split: option.splits sum.splits prod.splits if_splits)

lemma metric_attributes_cases:
  assumes "\<forall>kv \<in> set kvs. ck_key kv \<noteq> None"
  obtains r w1 where "metric_attributes sdk kvs w = Some (r, w1)" "same_world w w1"
    "\<forall>attr. r = Inr attr \<longrightarrow> attr = attrs_of kvs"
proof -
  have "metric_attributes sdk kvs w \<noteq> None"
    using value_add_all_keys [OF assms] by (auto simp: metric_attributes_def Let_def split: prod.splits)
  then obtain r w1 where x: "metric_attributes sdk kvs w = Some (r, w1)" by auto
  have "same_world w w1"
    using x by (auto simp: metric_attributes_def Let_def split: if_splits prod.splits
        dest!: value_add_all_same try_alloc_same intro: same_world_trans)
  moreover have "\<forall>attr. r = Inr attr \<longrightarrow> attr = attrs_of kvs"
    using x by (auto simp: metric_attributes_def Let_def attrs_of_def [of "[]"] split: if_splits prod.splits
        dest!: value_add_all_attrs)
  ultimately show ?thesis using that x by blast
qed

text \<open>What may follow an update: a refusal that calls nothing, or exactly one recording.\<close>

inductive update_result for h v attrs n w where
  refused: "calls w' = calls w \<Longrightarrow> update_result h v attrs n w (Inl e) w'"
| observed_elsewhere: "is_observable (ih_type h) \<Longrightarrow> w' = w \<Longrightarrow> update_result h v attrs n w (Inr n) w'"
| recorded: "\<not> is_observable (ih_type h) \<Longrightarrow> records (ih_type h) v mv \<Longrightarrow>
    calls w' = Measure (ih_object h) mv attrs # calls w \<Longrightarrow> update_result h v attrs n w (Inr n) w'"

lemma update_records:
  assumes "mt_impl m = Some impl" "instrument_at impl (scast idx) = Some h"
    and "\<forall>kv \<in> set kvs. ck_key kv \<noteq> None"
  shows "\<exists>r w'. otel_meter_update_instrument_kv_n sdk (Some m) idx (Some v) kvs w = Some (r, w') \<and>
      update_result h v (attrs_of kvs) (sint idx) w r w'"
    and "\<exists>r w'. otel_meter_update_instrument (Some m) idx (Some v) w = Some (r, w') \<and>
      update_result h v [] (sint idx) w r w' \<and>
      ((\<exists>e. r = Inl e) \<longleftrightarrow> \<not> is_observable (ih_type h) \<and> (\<nexists>mv. records (ih_type h) v mv))"
proof -
  note at = assms(1,2) [unfolded instrument_at_def]
  note defs = otel_meter_update_instrument_kv_n_def otel_meter_update_instrument_def with_instrument_def at
  show "\<exists>r w'. otel_meter_update_instrument_kv_n sdk (Some m) idx (Some v) kvs w = Some (r, w') \<and>
      update_result h v (attrs_of kvs) (sint idx) w r w'"
  proof (cases "is_observable (ih_type h)")
    case True
    then show ?thesis by (auto simp: defs value_type_any intro: observed_elsewhere)
  next
    case False
    obtain r w1 where a: "metric_attributes sdk kvs w = Some (r, w1)" "same_world w w1"
      "\<forall>attr. r = Inr attr \<longrightarrow> attr = attrs_of kvs"
      using metric_attributes_cases [OF assms(3)] by blast
    have c: "calls w1 = calls w" using a(2) same_world_at by blast
    show ?thesis
    proof (cases "otel_meter_instrument_value_type v (ih_type h)")
      case (Inl e)
      then show ?thesis by (auto simp: defs intro: refused)
    next
      case (Inr n)
      then obtain mv where "value_for (expected_type (ih_type h)) v = Some mv" "records (ih_type h) v mv"
        using value_type_value [OF False] by blast
      then show ?thesis
        using Inr False a c by (cases r) (auto simp: defs intro: refused recorded)
    qed
  qed
  show "\<exists>r w'. otel_meter_update_instrument (Some m) idx (Some v) w = Some (r, w') \<and>
      update_result h v [] (sint idx) w r w' \<and>
      ((\<exists>e. r = Inl e) \<longleftrightarrow> \<not> is_observable (ih_type h) \<and> (\<nexists>mv. records (ih_type h) v mv))"
  proof (cases "is_observable (ih_type h)")
    case True
    then show ?thesis by (auto simp: defs value_type_any intro: observed_elsewhere)
  next
    case False
    show ?thesis
    proof (cases "otel_meter_instrument_value_type v (ih_type h)")
      case (Inl e)
      then show ?thesis using False value_type_records [OF False, of v] by (auto simp: defs intro: refused)
    next
      case (Inr n)
      then obtain mv where "value_for (expected_type (ih_type h)) v = Some mv" "records (ih_type h) v mv"
        using value_type_value [OF False] by blast
      then show ?thesis
        using Inr False by (auto simp: defs intro: recorded)
    qed
  qed
qed



end
