(* ===== verification/Otel_MeterRace.thy ===== *)
theory Otel_MeterRace
  imports Otel_MeterLaws
begin

text \<open>
  Threads that create instruments on one meter at the same time.  A step is what one thread does
  between two lock operations of \<open>otel_meter_create_instrument\<close>: the key, the probe under the shared
  lock with the checks that follow it, taking \<open>create_mutex\<close>, the second probe, the SDK instrument and
  its handle, the insertion under the exclusive lock, giving \<open>create_mutex\<close> back.  The reader-writer lock
  of the instruments itself is added in \<open>Otel_MeterLocks\<close>.
\<close>

section \<open>The step relation\<close>

datatype race_phase =
    Probing | Keyed | Missed | Locked | Building | Built instrument_handle
  | Leaving "int64 outcome" | Finished "int64 outcome"

record ('d, 'b, 't) race =
  rc_impl :: "'d meter_impl"
  rc_world :: "('d, 'b, 't) world"
  rc_owner :: "nat option"
  rc_phase :: "nat \<Rightarrow> race_phase"

abbreviation set_phase :: "nat \<Rightarrow> race_phase \<Rightarrow> ('d, 'b, 't) race \<Rightarrow> ('d, 'b, 't) race" where
  "set_phase t ph s \<equiv> s\<lparr>rc_phase := (rc_phase s)(t := ph)\<rparr>"

text \<open>A step of thread \<open>t\<close>, which makes the request \<open>rq t\<close>; \<open>p\<close> is the meter's SDK meter.\<close>

inductive race_step ::
  "('d, 'b, 't) sdk \<Rightarrow> nat \<Rightarrow> (nat \<Rightarrow> instrument_request) \<Rightarrow> nat \<Rightarrow> ('d, 'b, 't) race \<Rightarrow> ('d, 'b, 't) race \<Rightarrow> bool"
  for sdk p rq t where
  no_key: "rc_phase s t = Probing \<Longrightarrow>
    otel_meter_instrument_key sdk (rq_name (rq t)) (rq_type (rq t)) (rc_world s) = ([], w') \<Longrightarrow>
    race_step sdk p rq t s
      (set_phase t (Finished (raise ''Unable to allocate memory for instrument key'')) (s\<lparr>rc_world := w'\<rparr>))"
| key_made: "rc_phase s t = Probing \<Longrightarrow>
    otel_meter_instrument_key sdk (rq_name (rq t)) (rq_type (rq t)) (rc_world s) = (rq_key (rq t), w') \<Longrightarrow>
    race_step sdk p rq t s (set_phase t Keyed (s\<lparr>rc_world := w'\<rparr>))"
| probe_found: "rc_phase s t = Keyed \<Longrightarrow>
    otel_nolock_meter_find_instrument (rc_impl s) (rq_key (rq t)) = Some i \<Longrightarrow>
    race_step sdk p rq t s (set_phase t (Finished (Inr i)) s)"
| probe_missed: "rc_phase s t = Keyed \<Longrightarrow>
    otel_nolock_meter_find_instrument (rc_impl s) (rq_key (rq t)) = None \<Longrightarrow>
    race_step sdk p rq t s
      (set_phase t (case check_request sdk (rq t) of Inl e \<Rightarrow> Finished (Inl e) | Inr _ \<Rightarrow> Missed) s)"
| acquire: "rc_phase s t = Missed \<Longrightarrow> rc_owner s = None \<Longrightarrow>
    race_step sdk p rq t s (set_phase t Locked (s\<lparr>rc_owner := Some t\<rparr>))"
| recheck_found: "rc_phase s t = Locked \<Longrightarrow>
    otel_nolock_meter_find_instrument (rc_impl s) (rq_key (rq t)) = Some i \<Longrightarrow>
    race_step sdk p rq t s (set_phase t (Leaving (Inr i)) s)"
| recheck_missed: "rc_phase s t = Locked \<Longrightarrow>
    otel_nolock_meter_find_instrument (rc_impl s) (rq_key (rq t)) = None \<Longrightarrow>
    race_step sdk p rq t s (set_phase t Building s)"
| build_failed: "rc_phase s t = Building \<Longrightarrow>
    build_instrument sdk p (rq t) (rc_world s) = (Inl e, w') \<Longrightarrow>
    race_step sdk p rq t s (set_phase t (Leaving (Inl e)) (s\<lparr>rc_world := w'\<rparr>))"
| build_done: "rc_phase s t = Building \<Longrightarrow>
    build_instrument sdk p (rq t) (rc_world s) = (Inr h, w') \<Longrightarrow>
    race_step sdk p rq t s (set_phase t (Built h) (s\<lparr>rc_world := w'\<rparr>))"
| insertion: "rc_phase s t = Built h \<Longrightarrow>
    insert_instrument sdk (rq t) h (rc_impl s) (rc_world s) = (res, impl', w') \<Longrightarrow>
    race_step sdk p rq t s (set_phase t (Leaving res) (s\<lparr>rc_impl := impl', rc_world := w'\<rparr>))"
| give_back: "rc_phase s t = Leaving res \<Longrightarrow>
    race_step sdk p rq t s (set_phase t (Finished res) (s\<lparr>rc_owner := None\<rparr>))"

text \<open>An interleaving of \<open>n\<close> threads.\<close>

inductive race_reaches for sdk p rq n s0 where
  race_start: "race_reaches sdk p rq n s0 s0"
| race_next: "race_reaches sdk p rq n s0 s \<Longrightarrow> t < n \<Longrightarrow> race_step sdk p rq t s s' \<Longrightarrow> race_reaches sdk p rq n s0 s'"

section \<open>The invariant\<close>

text \<open>The result of a thread, once it is decided.\<close>

fun result_of :: "race_phase \<Rightarrow> int64 outcome option" where
  "result_of (Leaving r) = Some r"
| "result_of (Finished r) = Some r"
| "result_of _ = None"

definition undecided :: "nat \<Rightarrow> ('d, 'b, 't) race \<Rightarrow> nat set" where
  "undecided n s = {t. t < n \<and> result_of (rc_phase s t) = None}"

text \<open>The threads that have an SDK instrument in hand, or may have dropped one.\<close>

definition wasted :: "nat \<Rightarrow> ('d, 'b, 't) race \<Rightarrow> nat set" where
  "wasted n s = {t. t < n \<and> ((\<exists>h. rc_phase s t = Built h) \<or> (\<exists>e. result_of (rc_phase s t) = Some (Inl e)))}"

fun is_creation :: "('d, 'b, 't) sdk_call \<Rightarrow> bool" where
  "is_creation (CreateInstrument _ _ _ _ _ _) = True"
| "is_creation _ = False"

definition creations :: "('d, 'b, 't) world \<Rightarrow> nat" where
  "creations w = length (filter is_creation (calls w))"

fun in_creation :: "race_phase \<Rightarrow> bool" where
  "in_creation Locked = True"
| "in_creation Building = True"
| "in_creation (Built _) = True"
| "in_creation (Leaving _) = True"
| "in_creation _ = False"

text \<open>What a thread relies on: the key of a thread that builds is not in the index, a finished thread's is.\<close>

definition thread_ok :: "instrument_request \<Rightarrow> 'd meter_impl \<Rightarrow> race_phase \<Rightarrow> bool" where
  "thread_ok r impl ph = (case ph of
      Building \<Rightarrow> map_of (mi_index impl) (rq_key r) = None
    | Built h \<Rightarrow> map_of (mi_index impl) (rq_key r) = None \<and> handle_key h = rq_key r
    | _ \<Rightarrow> (\<forall>i. result_of ph = Some (Inr i) \<longrightarrow> map_of (mi_index impl) (rq_key r) = Some i))"

definition race_inv ::
  "(nat \<Rightarrow> instrument_request) \<Rightarrow> nat \<Rightarrow> ('d, 'b, 't) race \<Rightarrow> ('d, 'b, 't) race \<Rightarrow> bool" where
  "race_inv rq n s0 s \<longleftrightarrow>
     meter_ok (rc_impl s) \<and>
     (\<forall>t < n. in_creation (rc_phase s t) \<longleftrightarrow> rc_owner s = Some t) \<and> (\<forall>t. rc_owner s = Some t \<longrightarrow> t < n) \<and>
     (\<forall>t < n. thread_ok (rq t) (rc_impl s) (rc_phase s t)) \<and>
     unat (hid (mi_instrument (rc_impl s))) + card (undecided n s) < 2 ^ 64 \<and>
     creations (rc_world s) + length (mi_index (rc_impl s0)) \<le>
       creations (rc_world s0) + length (mi_index (rc_impl s)) + card (wasted n s)"

lemma finite_threads [simp]: "finite (undecided n s)" "finite (wasted n s)"
  by (simp_all add: undecided_def wasted_def)

lemma undecided_step:
  assumes "t < n" "result_of (rc_phase s t) = None" "rc_phase s' = (rc_phase s)(t := ph)"
  shows "undecided n s' = (if result_of ph = None then undecided n s else undecided n s - {t})" "t \<in> undecided n s"
  using assms by (auto simp: undecided_def)

lemma wasted_step:
  assumes "t < n" "result_of (rc_phase s t) = None" "rc_phase s' = (rc_phase s)(t := ph)"
  shows "wasted n s' = (if (\<exists>h. ph = Built h) \<or> (\<exists>e. result_of ph = Some (Inl e)) then insert t (wasted n s) else wasted n s - {t})"
    "t \<in> wasted n s \<longleftrightarrow> (\<exists>h. rc_phase s t = Built h)"
  using assms by (auto simp: wasted_def)

lemma creations_call [simp]: "creations (call c w) = (if is_creation c then Suc (creations w) else creations w)"
  by (simp add: creations_def)

lemma creations_same: "same_world w w' \<Longrightarrow> creations w' = creations w"
  using same_world_at by (metis creations_def)

lemma build_creations:
  "build_instrument sdk p r w = (res, w') \<Longrightarrow>
     creations w' \<le> Suc (creations w)"
  by (auto simp: build_instrument_def Let_def try_alloc_def creations_def call_def split: option.splits if_splits prod.splits)

lemma callback_creations:
  "otel_nolock_meter_add_instrument_callback h d w = (r, w') \<Longrightarrow> creations w' = creations w"
  by (auto simp: otel_nolock_meter_add_instrument_callback_def split: option.splits)

lemma insert_creations:
  assumes "insert_instrument sdk r h impl w = (res, impl', w')"
  shows "creations w' = creations w"
  using assms callback_creations [of h "rq_data r" "snd (try_alloc sdk w)"]
  by (auto simp: insert_instrument_def Let_def try_alloc_def creations_def
      split: if_splits prod.splits bool.splits sum.splits)

text \<open>A step of thread \<open>t\<close> keeps the invariant when it keeps its own part of it, leaves the other threads'
  parts alone and advances the identifiers only when its result is decided.\<close>

lemma race_inv_move:
  assumes inv: "race_inv rq n s0 s" and t: "t < n" "result_of (rc_phase s t) = None"
    and ph: "rc_phase s' = (rc_phase s)(t := ph)" and ok: "meter_ok (rc_impl s')"
    and lock: "in_creation ph \<longleftrightarrow> rc_owner s' = Some t" "\<forall>u. u \<noteq> t \<longrightarrow> (rc_owner s' = Some u \<longleftrightarrow> rc_owner s = Some u)"
    and own: "thread_ok (rq t) (rc_impl s') ph"
    and others: "\<forall>u < n. u \<noteq> t \<longrightarrow> thread_ok (rq u) (rc_impl s) (rc_phase s u) \<longrightarrow> thread_ok (rq u) (rc_impl s') (rc_phase s u)"
    and ids: "unat (hid (mi_instrument (rc_impl s'))) \<le> unat (hid (mi_instrument (rc_impl s))) + (if result_of ph = None then 0 else 1)"
    and count: "creations (rc_world s') + length (mi_index (rc_impl s)) + card (wasted n s) \<le>
      creations (rc_world s) + length (mi_index (rc_impl s')) + card (wasted n s')"
  shows "race_inv rq n s0 s'"
  unfolding race_inv_def
proof (intro conjI)
  note inv = inv [unfolded race_inv_def]
  show "\<forall>u < n. in_creation (rc_phase s' u) \<longleftrightarrow> rc_owner s' = Some u"
    using inv lock ph by simp
  show "\<forall>u. rc_owner s' = Some u \<longrightarrow> u < n"
    using inv lock(2) t(1) by metis
  show "\<forall>u < n. thread_ok (rq u) (rc_impl s') (rc_phase s' u)"
    using inv own others ph by simp
  note u = undecided_step [OF t ph]
  have "card (undecided n s') + (if result_of ph = None then 0 else 1) = card (undecided n s)"
    using u(1) card_Suc_Diff1 [OF finite_threads(1) u(2)] by simp
  then have "unat (hid (mi_instrument (rc_impl s'))) + card (undecided n s') \<le>
      unat (hid (mi_instrument (rc_impl s))) + card (undecided n s)"
    using ids by linarith
  then show "unat (hid (mi_instrument (rc_impl s'))) + card (undecided n s') < 2 ^ 64"
    using inv by linarith
  show "creations (rc_world s') + length (mi_index (rc_impl s0)) \<le>
      creations (rc_world s0) + length (mi_index (rc_impl s')) + card (wasted n s')"
    using inv count by linarith
qed (rule ok)

text \<open>How the set of wasted instruments changes in a step.\<close>

lemma wasted_grows:
  assumes "t < n" "result_of (rc_phase s t) = None" "\<forall>h. rc_phase s t \<noteq> Built h" "rc_phase s' = (rc_phase s)(t := ph)"
  shows "card (wasted n s') = card (wasted n s) + (if (\<exists>h. ph = Built h) \<or> (\<exists>e. result_of ph = Some (Inl e)) then 1 else 0)"
proof -
  note w = wasted_step [OF assms(1,2,4)]
  have "t \<notin> wasted n s" using w(2) assms(3) by blast
  then show ?thesis using w(1) by (auto split: if_splits)
qed

lemma wasted_insertion:
  assumes "t < n" "rc_phase s t = Built h" "rc_phase s' = (rc_phase s)(t := Leaving res)"
  shows "card (wasted n s) = card (wasted n s') + (if \<exists>i. res = Inr i then 1 else 0)"
proof -
  have w: "wasted n s' = (if \<exists>e. res = Inl e then insert t (wasted n s) else wasted n s - {t})" "t \<in> wasted n s"
    using wasted_step [OF assms(1) _ assms(3)] assms(2) by auto
  then show ?thesis
    using card_Suc_Diff1 [OF finite_threads(2) w(2)] by (cases res) (auto simp: insert_absorb)
qed

lemma key_same: "otel_meter_instrument_key sdk nm ty w = (k, w') \<Longrightarrow> same_world w w'"
  by (auto simp: otel_meter_instrument_key_def Let_def split: prod.splits dest: try_alloc_same)

lemma race_inv_quiet:
  assumes inv: "race_inv rq n s0 s" and t: "t < n" "result_of (rc_phase s t) = None" "\<forall>h. rc_phase s t \<noteq> Built h"
    and s': "rc_phase s' = (rc_phase s)(t := ph)" "rc_impl s' = rc_impl s"
    and lock: "in_creation ph \<longleftrightarrow> rc_owner s' = Some t" "\<forall>u. u \<noteq> t \<longrightarrow> (rc_owner s' = Some u \<longleftrightarrow> rc_owner s = Some u)"
    and own: "thread_ok (rq t) (rc_impl s) ph"
    and count: "creations (rc_world s') \<le> creations (rc_world s) + (if (\<exists>h. ph = Built h) \<or> (\<exists>e. result_of ph = Some (Inl e)) then 1 else 0)"
  shows "race_inv rq n s0 s'"
proof (rule race_inv_move [OF inv t(1,2) s'(1) _ lock])
  show "meter_ok (rc_impl s')" using inv s'(2) by (simp add: race_inv_def)
  show "creations (rc_world s') + length (mi_index (rc_impl s)) + card (wasted n s) \<le>
      creations (rc_world s) + length (mi_index (rc_impl s')) + card (wasted n s')"
    using count wasted_grows [OF t s'(1)] s'(2) by simp
qed (use own s'(2) in simp_all)

lemma race_inv_thread:
  assumes "race_inv rq n s0 s" "t < n"
  shows "in_creation (rc_phase s t) \<longleftrightarrow> rc_owner s = Some t" "thread_ok (rq t) (rc_impl s) (rc_phase s t)"
  using assms by (auto simp: race_inv_def)

text \<open>Giving \<open>create_mutex\<close> back changes no result.\<close>

lemma race_inv_give_back:
  assumes inv: "race_inv rq n s0 s" and t: "t < n" "rc_phase s t = Leaving res"
  shows "race_inv rq n s0 (set_phase t (Finished res) (s\<lparr>rc_owner := None\<rparr>))" (is "race_inv rq n s0 ?s'")
proof -
  have own: "rc_owner s = Some t" using race_inv_thread(1) [OF inv t(1)] t(2) by simp
  have r: "result_of (rc_phase ?s' u) = result_of (rc_phase s u)" for u using t(2) by simp
  have b: "rc_phase ?s' u = Built h \<longleftrightarrow> rc_phase s u = Built h" for u h using t(2) by simp
  have sets: "undecided n ?s' = undecided n s" "wasted n ?s' = wasted n s"
    unfolding undecided_def wasted_def r b by simp_all
  have "in_creation (rc_phase ?s' u) \<longleftrightarrow> rc_owner ?s' = Some u" if "u < n" for u
    using race_inv_thread(1) [OF inv that] own by auto
  moreover have "thread_ok (rq u) (rc_impl s) (rc_phase ?s' u)" if "u < n" for u
    using race_inv_thread(2) [OF inv that] race_inv_thread(2) [OF inv t(1)] t(2) by (simp add: thread_ok_def)
  ultimately show ?thesis using inv sets unfolding race_inv_def by simp
qed

lemma race_inv_step:
  assumes inv: "race_inv rq n s0 s" and t: "t < n" and step: "race_step sdk p rq t s s'"
  shows "race_inv rq n s0 s'"
  using step
proof cases
  case (no_key w')
  show ?thesis
    using race_inv_thread [OF inv t] no_key creations_same [OF key_same [OF no_key(3)]]
    by (intro race_inv_quiet [OF inv t, of s' "Finished (raise ''Unable to allocate memory for instrument key'')"])
      (simp_all add: thread_ok_def)
next
  case (key_made w')
  show ?thesis
    using race_inv_thread [OF inv t] key_made creations_same [OF key_same [OF key_made(3)]]
    by (intro race_inv_quiet [OF inv t, of s' Keyed]) (simp_all add: thread_ok_def)
next
  case (probe_found i)
  show ?thesis
    using race_inv_thread [OF inv t] probe_found
    by (intro race_inv_quiet [OF inv t, of s' "Finished (Inr i)"])
      (simp_all add: thread_ok_def otel_nolock_meter_find_instrument_def)
next
  case probe_missed
  show ?thesis
    using race_inv_thread [OF inv t] probe_missed
    by (intro race_inv_quiet [OF inv t, of s' "case check_request sdk (rq t) of Inl e \<Rightarrow> Finished (Inl e) | Inr _ \<Rightarrow> Missed"])
      (simp_all add: thread_ok_def split: sum.splits)
next
  case acquire
  show ?thesis
    using acquire by (intro race_inv_quiet [OF inv t, of s' Locked]) (simp_all add: thread_ok_def)
next
  case (recheck_found i)
  show ?thesis
    using race_inv_thread [OF inv t] recheck_found
    by (intro race_inv_quiet [OF inv t, of s' "Leaving (Inr i)"])
      (simp_all add: thread_ok_def otel_nolock_meter_find_instrument_def)
next
  case recheck_missed
  show ?thesis
    using race_inv_thread [OF inv t] recheck_missed
    by (intro race_inv_quiet [OF inv t, of s' Building])
      (simp_all add: thread_ok_def otel_nolock_meter_find_instrument_def)
next
  case (build_failed e w')
  show ?thesis
    using race_inv_thread [OF inv t] build_failed build_creations [OF build_failed(3)]
    by (intro race_inv_quiet [OF inv t, of s' "Leaving (Inl e)"]) (simp_all add: thread_ok_def)
next
  case (build_done h w')
  show ?thesis
    using race_inv_thread [OF inv t] build_done build_creations [OF build_done(3)]
      build_instrument_key [OF build_done(3)]
    by (intro race_inv_quiet [OF inv t, of s' "Built h"]) (simp_all add: thread_ok_def)
next
  case (insertion h res impl' w')
  have own: "thread_ok (rq t) (rc_impl s) (Built h)" "rc_owner s = Some t" "meter_ok (rc_impl s)"
    using inv race_inv_thread [OF inv t] insertion(2) by (simp_all add: race_inv_def)
  have "t \<in> undecided n s" using insertion t by (simp add: undecided_def)
  then have "0 < card (undecided n s)" by (auto simp: card_gt_0_iff)
  then have "unat (hid (mi_instrument (rc_impl s))) + 1 < 2 ^ LENGTH(64)"
    using inv by (simp add: race_inv_def)
  then have u: "unat (hid (mi_instrument (rc_impl s)) + 1) = unat (hid (mi_instrument (rc_impl s))) + 1"
    by (simp add: unat_word_ariths)
  then have room: "hid (mi_instrument (rc_impl s)) < hid (mi_instrument (rc_impl s)) + 1"
    by (simp add: word_less_nat_alt)
  have ins: "inserted (rc_impl s) h res impl'"
    using insert_instrument_inserted [OF own(3) _ _ room insertion(3)] own(1) by (simp add: thread_ok_def)
  note c = insert_creations [OF insertion(3)]
  have w: "card (wasted n s) = card (wasted n s') + (if \<exists>i. res = Inr i then 1 else 0)"
    by (rule wasted_insertion [OF t insertion(2)]) (simp add: insertion(1))
  have idle: "\<not> in_creation (rc_phase s u)" if "u < n" "u \<noteq> t" for u
    using inv own(2) that by (simp add: race_inv_def)
  from ins show ?thesis
  proof (cases rule: inserted.cases)
    case (insertion_failed e)
    then show ?thesis
      using insertion w c t own idle
      by (intro race_inv_move [OF inv, of t s' "Leaving res"]) (auto simp: same_instruments_def thread_ok_def
          split: race_phase.splits sum.splits)
  next
    case (insertion_done i)
    have "thread_ok (rq v) impl' (rc_phase s v)" if "v < n" "v \<noteq> t" "thread_ok (rq v) (rc_impl s) (rc_phase s v)" for v
      using idle [OF that(1,2)] that(3) insertion_done own(1)
      by (auto simp: thread_ok_def one_more_instrument_def split: race_phase.splits sum.splits)
    then show ?thesis
      using insertion insertion_done w c t own u
      by (intro race_inv_move [OF inv, of t s' "Leaving res"]) (auto simp: one_more_instrument_def thread_ok_def)
  qed
next
  case (give_back res)
  then show ?thesis using race_inv_give_back [OF inv t] by simp
qed

section \<open>One winner\<close>

definition race_initial :: "'d meter_impl \<Rightarrow> ('d, 'b, 't) world \<Rightarrow> ('d, 'b, 't) race" where
  "race_initial impl w = \<lparr>rc_impl = impl, rc_world = w, rc_owner = None, rc_phase = (\<lambda>_. Probing)\<rparr>"

lemma race_reaches_inv:
  assumes "race_reaches sdk p rq n (race_initial impl w) s" "meter_ok impl"
    and "unat (hid (mi_instrument impl)) + n < 2 ^ 64"
  shows "race_inv rq n (race_initial impl w) s"
  using assms(1)
proof induction
  case race_start
  have "undecided n (race_initial impl w) = {..<n}" by (auto simp: undecided_def race_initial_def)
  then show ?case
    using assms(2,3) by (simp add: race_inv_def race_initial_def thread_ok_def)
qed (rule race_inv_step)

lemma race_one_winner:
  assumes "race_reaches sdk p rq n (race_initial impl w) s" "meter_ok impl"
    and "unat (hid (mi_instrument impl)) + n < 2 ^ 64"
  shows "meter_ok (rc_impl s)"
    and "t < n \<Longrightarrow> u < n \<Longrightarrow> rc_phase s t = Finished (Inr i) \<Longrightarrow> rc_phase s u = Finished (Inr j) \<Longrightarrow>
      (i = j \<longleftrightarrow> strcasecmp_eq (rq_name (rq t)) (rq_name (rq u)) \<and> rq_type (rq t) = rq_type (rq u))"
    and "\<forall>t < n. \<exists>i. rc_phase s t = Finished (Inr i) \<Longrightarrow>
      creations (rc_world s) + length (mi_index impl) \<le> creations w + length (mi_index (rc_impl s))"
proof -
  note inv = race_reaches_inv [OF assms]
  show ok: "meter_ok (rc_impl s)" using inv by (simp add: race_inv_def)
  show "i = j \<longleftrightarrow> strcasecmp_eq (rq_name (rq t)) (rq_name (rq u)) \<and> rq_type (rq t) = rq_type (rq u)"
    if t: "t < n" "u < n" "rc_phase s t = Finished (Inr i)" "rc_phase s u = Finished (Inr j)"
  proof -
    have "map_of (mi_index (rc_impl s)) (rq_key (rq t)) = Some i" "map_of (mi_index (rc_impl s)) (rq_key (rq u)) = Some j"
      using race_inv_thread(2) [OF inv t(1)] race_inv_thread(2) [OF inv t(2)] t(3,4) by (simp_all add: thread_ok_def)
    then have "i = j \<longleftrightarrow> rq_key (rq t) = rq_key (rq u)"
      using meter_okD(4) [OF ok] by (metis option.inject)
    then show ?thesis by (simp add: rq_key_def instrument_key_eq)
  qed
  show "creations (rc_world s) + length (mi_index impl) \<le> creations w + length (mi_index (rc_impl s))"
    if "\<forall>t < n. \<exists>i. rc_phase s t = Finished (Inr i)"
  proof -
    have "wasted n s = {}" using that by (force simp: wasted_def)
    then show ?thesis using inv by (simp add: race_inv_def race_initial_def)
  qed
qed

text \<open>
  C5: A race to create instruments has one winner per instrument.  However any number of threads that
  create instruments on one meter interleave, whichever SDK calls and allocations fail: the index and
  the map of instruments agree at every moment; two threads that have succeeded hold the same
  identifier exactly when they asked for the same name, up to case, and type; and when all have
  succeeded, the SDK has been asked for no more instruments than there are new entries, so a thread
  that lost a race created nothing.
\<close>
theorem instrument_race_one_winner:
  assumes "race_reaches sdk p rq n (race_initial impl w) s" "meter_ok impl"
    and "unat (hid (mi_instrument impl)) + n < 2 ^ 64"
  shows "meter_ok (rc_impl s) \<and>
    (\<forall>t u i j. t < n \<and> u < n \<and> rc_phase s t = Finished (Inr i) \<and> rc_phase s u = Finished (Inr j) \<longrightarrow>
      (i = j \<longleftrightarrow> strcasecmp_eq (rq_name (rq t)) (rq_name (rq u)) \<and> rq_type (rq t) = rq_type (rq u))) \<and>
    ((\<forall>t < n. \<exists>i. rc_phase s t = Finished (Inr i)) \<longrightarrow>
      creations (rc_world s) + length (mi_index impl) \<le> creations w + length (mi_index (rc_impl s)))"
  using race_one_winner [OF assms] by blast

section \<open>One thread\<close>

text \<open>The operation called alone is a race of one thread: from each phase on, the thread ends as the
  rest of the operation does.\<close>

definition ends_alone ::
  "('d, 'b, 't) sdk \<Rightarrow> nat \<Rightarrow> instrument_request \<Rightarrow> ('d, 'b, 't) race \<Rightarrow>
   int64 outcome \<times> 'd meter_impl \<times> ('d, 'b, 't) world \<Rightarrow> bool" where
  "ends_alone sdk p r s res \<longleftrightarrow> (\<exists>s'. race_reaches sdk p (\<lambda>_. r) 1 s s' \<and> rc_phase s' 0 = Finished (fst res) \<and>
     rc_impl s' = fst (snd res) \<and> rc_world s' = snd (snd res))"

lemma race_first:
  "race_reaches sdk p rq n s1 s' \<Longrightarrow> t < n \<Longrightarrow> race_step sdk p rq t s s1 \<Longrightarrow> race_reaches sdk p rq n s s'"
  by (induction rule: race_reaches.induct) (auto intro: race_reaches.intros)

lemma alone_step: "race_step sdk p (\<lambda>_. r) 0 s s1 \<Longrightarrow> ends_alone sdk p r s1 res \<Longrightarrow> ends_alone sdk p r s res"
  using race_first [where n = 1 and t = 0] unfolding ends_alone_def by fastforce

lemma alone_done: "rc_phase s 0 = Finished x \<Longrightarrow> ends_alone sdk p r s (x, rc_impl s, rc_world s)"
  unfolding ends_alone_def using race_start by fastforce

lemma leaving_alone: "rc_phase s 0 = Leaving x \<Longrightarrow> ends_alone sdk p r s (x, rc_impl s, rc_world s)"
  using alone_step [OF give_back alone_done] by fastforce

lemma built_alone:
  assumes "rc_phase s 0 = Built h"
  shows "ends_alone sdk p r s (insert_instrument sdk r h (rc_impl s) (rc_world s))"
proof -
  obtain res impl' w' where i: "insert_instrument sdk r h (rc_impl s) (rc_world s) = (res, impl', w')"
    by (metis surj_pair)
  let ?s = "set_phase 0 (Leaving res) (s\<lparr>rc_impl := impl', rc_world := w'\<rparr>)"
  have "ends_alone sdk p r ?s (res, impl', w')" using leaving_alone [of ?s res] by simp
  then show ?thesis
    using alone_step [OF insertion [OF assms i]] i by simp
qed

lemma building_alone:
  assumes "rc_phase s 0 = Building"
  shows "ends_alone sdk p r s (case build_instrument sdk p r (rc_world s) of
      (Inl e, w1) \<Rightarrow> (Inl e, rc_impl s, w1)
    | (Inr h, w1) \<Rightarrow> insert_instrument sdk r h (rc_impl s) w1)"
proof -
  obtain x w1 where b: "build_instrument sdk p r (rc_world s) = (x, w1)" by fastforce
  show ?thesis
  proof (cases x)
    case (Inl e)
    let ?s = "set_phase 0 (Leaving (Inl e)) (s\<lparr>rc_world := w1\<rparr>)"
    have "ends_alone sdk p r ?s (Inl e, rc_impl s, w1)" using leaving_alone [of ?s "Inl e"] by simp
    then show ?thesis using alone_step [OF build_failed [OF assms b [unfolded Inl]]] b Inl by simp
  next
    case (Inr h)
    let ?s = "set_phase 0 (Built h) (s\<lparr>rc_world := w1\<rparr>)"
    have "ends_alone sdk p r ?s (insert_instrument sdk r h (rc_impl s) w1)" using built_alone [of ?s h sdk p r] by simp
    then show ?thesis using alone_step [OF build_done [OF assms b [unfolded Inr]]] b Inr by simp
  qed
qed

lemma locked_alone:
  assumes "rc_phase s 0 = Locked"
  shows "ends_alone sdk p r s (case otel_nolock_meter_find_instrument (rc_impl s) (rq_key r) of
      Some i \<Rightarrow> (Inr i, rc_impl s, rc_world s)
    | None \<Rightarrow> (case build_instrument sdk p r (rc_world s) of
          (Inl e, w1) \<Rightarrow> (Inl e, rc_impl s, w1)
        | (Inr h, w1) \<Rightarrow> insert_instrument sdk r h (rc_impl s) w1))"
proof (cases "otel_nolock_meter_find_instrument (rc_impl s) (rq_key r)")
  case None
  let ?s = "set_phase 0 Building s"
  have e: "rc_phase ?s 0 = Building" "rc_impl ?s = rc_impl s" "rc_world ?s = rc_world s" by simp_all
  show ?thesis
    using alone_step [OF recheck_missed [OF assms None] building_alone [OF e(1), of sdk p r, unfolded e(2,3)]] None
    by simp
next
  case (Some i)
  let ?s = "set_phase 0 (Leaving (Inr i)) s"
  have "ends_alone sdk p r ?s (Inr i, rc_impl s, rc_world s)" using leaving_alone [of ?s "Inr i"] by simp
  then show ?thesis using alone_step [OF recheck_found [OF assms Some]] Some by simp
qed

lemma keyed_alone:
  assumes "rc_phase s 0 = Keyed" "rc_owner s = None"
  shows "ends_alone sdk p r s (case otel_nolock_meter_find_instrument (rc_impl s) (rq_key r) of
       Some i \<Rightarrow> (Inr i, rc_impl s, rc_world s)
     | None \<Rightarrow> create_new_instrument sdk p r (rc_impl s) (rc_world s))"
proof (cases "otel_nolock_meter_find_instrument (rc_impl s) (rq_key r)")
  case (Some i)
  let ?s = "set_phase 0 (Finished (Inr i)) s"
  have "ends_alone sdk p r ?s (Inr i, rc_impl s, rc_world s)" using alone_done [of ?s "Inr i"] by simp
  then show ?thesis using alone_step [OF probe_found [OF assms(1) Some]] Some by simp
next
  case None
  let ?ph = "case check_request sdk r of Inl e \<Rightarrow> Finished (Inl e) | Inr _ \<Rightarrow> Missed"
  let ?s1 = "set_phase 0 ?ph s"
  have "ends_alone sdk p r ?s1 (create_new_instrument sdk p r (rc_impl s) (rc_world s))"
  proof (cases "check_request sdk r")
    case (Inl e)
    then show ?thesis
      using alone_done [of ?s1 "Inl e"] by (simp add: create_new_instrument_def)
  next
    case (Inr u)
    let ?s2 = "set_phase 0 Locked (?s1\<lparr>rc_owner := Some 0\<rparr>)"
    have e: "rc_impl ?s2 = rc_impl s" "rc_world ?s2 = rc_world s" "rc_phase ?s2 0 = Locked" by simp_all
    have "ends_alone sdk p r ?s2 (create_new_instrument sdk p r (rc_impl s) (rc_world s))"
      using locked_alone [OF e(3), of sdk p r, unfolded e(1,2)] by (simp only: create_new_instrument_def Inr sum.case)
    moreover have "race_step sdk p (\<lambda>_. r) 0 ?s1 ?s2"
      by (rule acquire) (simp_all add: assms(2) Inr)
    ultimately show ?thesis using alone_step by blast
  qed
  then show ?thesis using alone_step [OF probe_missed [OF assms(1) None]] None by simp
qed

lemma probing_alone:
  assumes "rc_phase s 0 = Probing" "rc_owner s = None"
    and k: "otel_meter_instrument_key sdk (rq_name r) (rq_type r) (rc_world s) = (key, w1)"
  shows "ends_alone sdk p r s
    (if key = [] then (raise ''Unable to allocate memory for instrument key'', rc_impl s, w1)
     else case otel_nolock_meter_find_instrument (rc_impl s) key of
       Some i \<Rightarrow> (Inr i, rc_impl s, w1)
     | None \<Rightarrow> create_new_instrument sdk p r (rc_impl s) w1)"
proof (cases "key = []")
  case True
  let ?s = "set_phase 0 (Finished (raise ''Unable to allocate memory for instrument key'')) (s\<lparr>rc_world := w1\<rparr>)"
  have "ends_alone sdk p r ?s (raise ''Unable to allocate memory for instrument key'', rc_impl s, w1)"
    using alone_done [of ?s "raise ''Unable to allocate memory for instrument key''"] by simp
  then show ?thesis
    using alone_step [OF no_key [OF assms(1) k [unfolded True]]] True by simp
next
  case False
  then have key: "key = rq_key r"
    using k by (auto simp: otel_meter_instrument_key_def rq_key_def Let_def split: prod.splits if_splits)
  let ?s = "set_phase 0 Keyed (s\<lparr>rc_world := w1\<rparr>)"
  have "rc_phase ?s 0 = Keyed" "rc_owner ?s = None" "rc_impl ?s = rc_impl s" "rc_world ?s = w1"
    by (simp_all add: assms(2))
  note k' = keyed_alone [OF this(1,2), of sdk p r, unfolded this(3,4)]
  show ?thesis
    using alone_step [OF key_made [OF assms(1) k [unfolded key]] k'] False key by simp
qed

lemma creation_is_a_race_of_one:
  assumes "mt_impl m = Some impl" "mi_meter impl = Some p" "mt_enabled m"
    and "otel_meter_create_instrument sdk (Some m) (Some nm) desc unit type data w = (res, Some m', w')"
  shows "\<exists>impl'. mt_impl m' = Some impl' \<and>
    ends_alone sdk p \<lparr>rq_name = nm, rq_desc = c_str desc, rq_unit = c_str unit, rq_type = type, rq_data = data\<rparr>
      (race_initial impl w) (res, impl', w')"
proof -
  let ?r = "\<lparr>rq_name = nm, rq_desc = c_str desc, rq_unit = c_str unit, rq_type = type, rq_data = data\<rparr>"
  obtain key w1 where k: "otel_meter_instrument_key sdk nm type w = (key, w1)" by fastforce
  have "ends_alone sdk p ?r (race_initial impl w)
    (if key = [] then (raise ''Unable to allocate memory for instrument key'', impl, w1)
     else case otel_nolock_meter_find_instrument impl key of
       Some i \<Rightarrow> (Inr i, impl, w1)
     | None \<Rightarrow> create_new_instrument sdk p ?r impl w1)"
  proof -
    have e: "rc_impl (race_initial impl w) = impl" "rc_world (race_initial impl w) = w"
      "rc_phase (race_initial impl w) 0 = Probing" "rc_owner (race_initial impl w) = None"
      "otel_meter_instrument_key sdk (rq_name ?r) (rq_type ?r) (rc_world (race_initial impl w)) = (key, w1)"
      by (simp_all add: race_initial_def k)
    show ?thesis using probing_alone [OF e(3-5), of p] unfolding e(1,2) .
  qed
  then show ?thesis
    using assms k
    by (auto simp: otel_meter_create_instrument_def Let_def split: if_splits option.splits prod.splits)
qed

section \<open>A race\<close>

lemma demo_race:
  "\<exists>s. race_reaches demo_sdk 3 (\<lambda>t. \<lparr>rq_name = (if t = 0 then ''REQUESTS'' else ''requests''), rq_desc = [], rq_unit = [],
       rq_type = 0, rq_data = None\<rparr>) 2 (race_initial demo_impl demo_world) s \<and>
     rc_phase s 0 = Finished (Inr 0) \<and> rc_phase s 1 = Finished (Inr 0)"
proof -
  let ?rq = "\<lambda>t. \<lparr>rq_name = (if t = 0 then ''REQUESTS'' else ''requests''), rq_desc = [], rq_unit = [], rq_type = 0, rq_data = None\<rparr>"
  let ?s0 = "race_initial demo_impl demo_world"
  have same: "strcasecmp_eq ''REQUESTS'' ''Requests''" "strcasecmp_eq ''requests'' ''Requests''"
    by code_simp+
  have key: "instrument_key ''REQUESTS'' 0 = instrument_key ''Requests'' 0" "instrument_key ''requests'' 0 = instrument_key ''Requests'' 0"
    by (simp_all add: instrument_key_eq same)
  let ?s1 = "set_phase 0 Keyed (?s0\<lparr>rc_world := demo_world\<lparr>tried := 6\<rparr>\<rparr>)"
  let ?s2 = "set_phase 1 Keyed (?s1\<lparr>rc_world := demo_world\<lparr>tried := 7\<rparr>\<rparr>)"
  let ?s3 = "set_phase 0 (Finished (Inr 0)) ?s2"
  let ?s4 = "set_phase 1 (Finished (Inr 0)) ?s3"
  have 1: "race_step demo_sdk 3 ?rq 0 ?s0 ?s1"
    by (rule key_made) (simp_all add: race_initial_def otel_meter_instrument_key_def rq_key_def key try_alloc_def
        demo_sdk_def demo_world_def)
  have 2: "race_step demo_sdk 3 ?rq 1 ?s1 ?s2"
    by (rule key_made) (simp_all add: race_initial_def otel_meter_instrument_key_def rq_key_def key try_alloc_def
        demo_sdk_def demo_world_def)
  have 3: "race_step demo_sdk 3 ?rq 0 ?s2 ?s3"
    by (rule probe_found) (simp_all add: race_initial_def rq_key_def key otel_nolock_meter_find_instrument_def demo_impl_def)
  have 4: "race_step demo_sdk 3 ?rq 1 ?s3 ?s4"
    by (rule probe_found) (simp_all add: race_initial_def rq_key_def key otel_nolock_meter_find_instrument_def demo_impl_def)
  have "race_reaches demo_sdk 3 ?rq 2 ?s0 ?s4"
    using race_next [OF race_next [OF race_next [OF race_next [OF race_start _ 1] _ 2] _ 3] _ 4] by simp
  then show ?thesis by (intro exI [of _ ?s4]) simp
qed

lemma demo_race_room: "unat (hid (mi_instrument demo_impl)) + 2 < 2 ^ 64"
  by (simp add: demo_impl_def demo_handle_def)

lemma instrument_race_one_winner_witness:
  "\<exists>s :: (unit, (string \<times> string) list, unit) race. meter_ok (rc_impl s) \<and> rc_phase s 0 = Finished (Inr 0) \<and>
     rc_phase s 1 = Finished (Inr 0) \<and> strcasecmp_eq ''REQUESTS'' ''requests''"
proof -
  obtain s where s: "race_reaches demo_sdk 3 (\<lambda>t. \<lparr>rq_name = (if t = 0 then ''REQUESTS'' else ''requests''), rq_desc = [],
      rq_unit = [], rq_type = 0, rq_data = None\<rparr>) 2 (race_initial demo_impl demo_world) s"
    "rc_phase s 0 = Finished (Inr 0)" "rc_phase s 1 = Finished (Inr 0)"
    using demo_race by blast
  note w = instrument_race_one_winner [OF s(1) demo_meter_ok demo_race_room]
  moreover have "strcasecmp_eq ''REQUESTS'' ''requests''" by code_simp
  ultimately show ?thesis using s(2,3) by blast
qed

end
