(* ===== verification/Otel_SharedMutex.thy ===== *)
theory Otel_SharedMutex
  imports Otel_Prelude
begin

text \<open>
  The writer-preferring reader-writer lock of \<open>include/util.h\<close> (\<open>otel_shared_mutex\<close>), which
  guards the instrument and view maps of a meter.  Every atomic operation of the methods is
  one step of a thread, so any interleaving of any number of threads is a path.  The
  underlying \<open>std::shared_mutex\<close> is its contract: at most one exclusive owner, and no
  exclusive owner while there are shared ones.  \<open>writers_pending_\<close> is a \<open>std::atomic<int>\<close>; it counts
  threads, so it stays far below 2^31 and is an integer here.
\<close>

section \<open>State\<close>

text \<open>Where a thread is inside \<open>lock\<close>, \<open>unlock\<close>, \<open>lock_shared\<close> and \<open>unlock_shared\<close>.\<close>

datatype pc =
    Idle
  | Lock_acquire         \<comment> \<open>counted in \<open>writers_pending_\<close>, blocked in \<open>mutex_.lock()\<close>\<close>
  | Lock_held            \<comment> \<open>\<open>lock\<close> returned\<close>
  | Unlock_sub           \<comment> \<open>\<open>mutex_.unlock()\<close> done, \<open>fetch_sub\<close> next\<close>
  | Shared_load          \<comment> \<open>top of the loop of \<open>lock_shared\<close>\<close>
  | Shared_acquire       \<comment> \<open>saw no pending writer, blocked in \<open>mutex_.lock_shared()\<close>\<close>
  | Shared_held          \<comment> \<open>\<open>lock_shared\<close> returned\<close>
  | Queue_acquire        \<comment> \<open>saw a pending writer, blocked in \<open>mutex_.lock()\<close>\<close>
  | Queue_held           \<comment> \<open>exclusive lock held just to queue, \<open>mutex_.unlock()\<close> next\<close>

record shared_mutex =
  writers_pending :: int
  owner :: "nat option"
  readers :: "nat list"
  pcs :: "nat \<Rightarrow> pc"

definition shared_mutex_init :: shared_mutex where
  "shared_mutex_init = \<lparr>writers_pending = 0, owner = None, readers = [], pcs = (\<lambda>_. Idle)\<rparr>"

section \<open>The underlying mutex\<close>

definition raw_lock :: "nat \<Rightarrow> shared_mutex \<Rightarrow> shared_mutex option" where
  "raw_lock t s = (if owner s = None \<and> readers s = [] then Some (s\<lparr>owner := Some t\<rparr>) else None)"

definition raw_unlock :: "shared_mutex \<Rightarrow> shared_mutex" where
  "raw_unlock s = s\<lparr>owner := None\<rparr>"

definition raw_lock_shared :: "nat \<Rightarrow> shared_mutex \<Rightarrow> shared_mutex option" where
  "raw_lock_shared t s = (if owner s = None then Some (s\<lparr>readers := t # readers s\<rparr>) else None)"

definition raw_unlock_shared :: "nat \<Rightarrow> shared_mutex \<Rightarrow> shared_mutex" where
  "raw_unlock_shared t s = s\<lparr>readers := remove1 t (readers s)\<rparr>"

definition goto :: "nat \<Rightarrow> pc \<Rightarrow> shared_mutex \<Rightarrow> shared_mutex" where
  "goto t p s = s\<lparr>pcs := (pcs s)(t := p)\<rparr>"

section \<open>The methods, one atomic step at a time\<close>

datatype mutex_call = Call_lock | Call_unlock | Call_lock_shared | Call_unlock_shared

text \<open>A thread outside every method starts one; \<open>lock\<close> announces itself in the counter at once.\<close>

fun otel_shared_mutex_call :: "nat \<Rightarrow> mutex_call \<Rightarrow> shared_mutex \<Rightarrow> shared_mutex option" where
  "otel_shared_mutex_call t Call_lock s =
     (if pcs s t = Idle
      then Some (goto t Lock_acquire (s\<lparr>writers_pending := writers_pending s + 1\<rparr>)) else None)"
| "otel_shared_mutex_call t Call_unlock s =
     (if pcs s t = Lock_held then Some (goto t Unlock_sub (raw_unlock s)) else None)"
| "otel_shared_mutex_call t Call_lock_shared s =
     (if pcs s t = Idle then Some (goto t Shared_load s) else None)"
| "otel_shared_mutex_call t Call_unlock_shared s =
     (if pcs s t = Shared_held then Some (goto t Idle (raw_unlock_shared t s)) else None)"

text \<open>The next atomic step inside the method a thread is executing; \<open>None\<close> when it is blocked.\<close>

definition otel_shared_mutex_run :: "nat \<Rightarrow> shared_mutex \<Rightarrow> shared_mutex option" where
  "otel_shared_mutex_run t s = (case pcs s t of
       Lock_acquire \<Rightarrow> map_option (goto t Lock_held) (raw_lock t s)
     | Unlock_sub \<Rightarrow> Some (goto t Idle (s\<lparr>writers_pending := writers_pending s - 1\<rparr>))
     | Shared_load \<Rightarrow>
         Some (goto t (if writers_pending s = 0 then Shared_acquire else Queue_acquire) s)
     | Shared_acquire \<Rightarrow> map_option (goto t Shared_held) (raw_lock_shared t s)
     | Queue_acquire \<Rightarrow> map_option (goto t Queue_held) (raw_lock t s)
     | Queue_held \<Rightarrow> Some (goto t Shared_load (raw_unlock s))
     | _ \<Rightarrow> None)"

inductive mutex_step :: "shared_mutex \<Rightarrow> shared_mutex \<Rightarrow> bool" where
  call: "otel_shared_mutex_call t c s = Some s' \<Longrightarrow> mutex_step s s'"
| run: "otel_shared_mutex_run t s = Some s' \<Longrightarrow> mutex_step s s'"

inductive_cases mutex_stepE: "mutex_step s s'"

inductive mutex_reachable :: "shared_mutex \<Rightarrow> bool" where
  init: "mutex_reachable shared_mutex_init"
| step: "\<lbrakk>mutex_reachable s; mutex_step s s'\<rbrakk> \<Longrightarrow> mutex_reachable s'"

lemmas mutex_defs = otel_shared_mutex_run_def raw_lock_def raw_unlock_def raw_lock_shared_def
  raw_unlock_shared_def goto_def

section \<open>Invariant\<close>

definition writers :: "shared_mutex \<Rightarrow> nat set" where
  "writers s = {t. pcs s t \<in> {Lock_acquire, Lock_held, Unlock_sub}}"

definition exclusive :: "shared_mutex \<Rightarrow> nat set" where
  "exclusive s = {t. pcs s t \<in> {Lock_held, Queue_held}}"

definition sharing :: "shared_mutex \<Rightarrow> nat set" where
  "sharing s = {t. pcs s t = Shared_held}"

definition mutex_inv :: "shared_mutex \<Rightarrow> bool" where
  "mutex_inv s \<longleftrightarrow>
     finite (writers s) \<and> writers_pending s = int (card (writers s)) \<and>
     exclusive s = set_option (owner s) \<and>
     sharing s = set (readers s) \<and> distinct (readers s) \<and>
     (owner s \<noteq> None \<longrightarrow> readers s = [])"

lemmas mutex_sets = writers_def exclusive_def sharing_def

lemma mutex_inv_init: "mutex_inv shared_mutex_init"
  by (simp add: mutex_inv_def mutex_sets shared_mutex_init_def)

lemma goto_sets:
  "writers (goto t p s) = (if p \<in> {Lock_acquire, Lock_held, Unlock_sub}
     then insert t (writers s) else writers s - {t})"
  "exclusive (goto t p s) = (if p \<in> {Lock_held, Queue_held}
     then insert t (exclusive s) else exclusive s - {t})"
  "sharing (goto t p s) = (if p = Shared_held then insert t (sharing s) else sharing s - {t})"
  by (auto simp: mutex_sets goto_def)

lemma goto_fields [simp]:
  "writers_pending (goto t p s) = writers_pending s" "owner (goto t p s) = owner s"
  "readers (goto t p s) = readers s"
  by (simp_all add: goto_def)

lemma update_sets [simp]:
  "writers (s\<lparr>writers_pending := n\<rparr>) = writers s" "writers (s\<lparr>owner := ow\<rparr>) = writers s"
  "writers (s\<lparr>readers := r\<rparr>) = writers s"
  "exclusive (s\<lparr>writers_pending := n\<rparr>) = exclusive s" "exclusive (s\<lparr>owner := ow\<rparr>) = exclusive s"
  "exclusive (s\<lparr>readers := r\<rparr>) = exclusive s"
  "sharing (s\<lparr>writers_pending := n\<rparr>) = sharing s" "sharing (s\<lparr>owner := ow\<rparr>) = sharing s"
  "sharing (s\<lparr>readers := r\<rparr>) = sharing s"
  by (simp_all add: mutex_sets)

lemma pc_sets:
  "t \<in> writers s \<longleftrightarrow> pcs s t \<in> {Lock_acquire, Lock_held, Unlock_sub}"
  "t \<in> exclusive s \<longleftrightarrow> pcs s t \<in> {Lock_held, Queue_held}"
  "t \<in> sharing s \<longleftrightarrow> pcs s t = Shared_held"
  by (simp_all add: mutex_sets)

lemma mutex_inv_call:
  assumes "mutex_inv s" and "otel_shared_mutex_call t c s = Some s'"
  shows "mutex_inv s'"
  using assms pc_sets [of t s]
  by (cases c)
    (auto simp: mutex_inv_def goto_sets raw_unlock_def raw_unlock_shared_def insert_absorb
      split: if_splits)

lemma int_card_pred: "\<lbrakk>finite A; t \<in> A\<rbrakk> \<Longrightarrow> int (card A - Suc 0) = int (card A) - 1"
  using card_gt_0_iff [of A] by auto

lemma mutex_inv_run:
  assumes "mutex_inv s" and "otel_shared_mutex_run t s = Some s'"
  shows "mutex_inv s'"
  using assms pc_sets [of t s]
  by (cases "pcs s t")
    (auto simp: mutex_inv_def goto_sets otel_shared_mutex_run_def raw_lock_def raw_unlock_def
      raw_lock_shared_def card_Diff_singleton insert_absorb int_card_pred split: if_splits)

lemma mutex_inv_reachable: "mutex_reachable s \<Longrightarrow> mutex_inv s"
  by (induction rule: mutex_reachable.induct)
    (auto intro: mutex_inv_init mutex_inv_call mutex_inv_run elim: mutex_stepE)

section \<open>Properties\<close>

text \<open>
  C10: Mutual exclusion in every interleaving: while a thread is between \<open>lock\<close> and \<open>unlock\<close>, no
  other thread is between \<open>lock\<close> and \<open>unlock\<close> or between \<open>lock_shared\<close> and \<open>unlock_shared\<close>; and
  \<open>writers_pending_\<close> is always the number of threads that wait for or hold the lock exclusively.
\<close>
theorem shared_mutex_exclusion:
  assumes "mutex_reachable s" and "pcs s t = Lock_held"
  shows "(\<forall>u. u \<noteq> t \<longrightarrow> pcs s u \<noteq> Lock_held \<and> pcs s u \<noteq> Shared_held \<and> pcs s u \<noteq> Queue_held) \<and>
    writers_pending s = int (card (writers s)) \<and> 0 < writers_pending s"
proof -
  have i: "mutex_inv s"
    using assms(1) by (rule mutex_inv_reachable)
  have "t \<in> exclusive s"
    using assms(2) by (simp add: mutex_sets)
  then have o: "owner s = Some t"
    using i by (auto simp: mutex_inv_def)
  have "exclusive s = {t}" "sharing s = {}"
    using i o by (auto simp: mutex_inv_def)
  then have "\<forall>u. u \<noteq> t \<longrightarrow> pcs s u \<noteq> Lock_held \<and> pcs s u \<noteq> Shared_held \<and> pcs s u \<noteq> Queue_held"
    using pc_sets [of _ s] by blast
  moreover have "t \<in> writers s"
    using assms(2) by (simp add: mutex_sets)
  ultimately show ?thesis
    using i card_gt_0_iff [of "writers s"] by (auto simp: mutex_inv_def)
qed

lemma shared_mutex_exclusion_witness:
  "\<exists>s. mutex_reachable s \<and> pcs s 1 = Lock_held \<and> pcs s 2 = Queue_acquire \<and> pcs s 2 \<noteq> Shared_held"
proof -
  let ?a = "goto 1 Lock_acquire (shared_mutex_init\<lparr>writers_pending := 1\<rparr>)"
  let ?b = "goto 1 Lock_held (?a\<lparr>owner := Some 1\<rparr>)"
  let ?c = "goto 2 Shared_load ?b"
  let ?d = "goto 2 Queue_acquire ?c"
  have s1: "mutex_step shared_mutex_init ?a"
    by (rule mutex_step.call [of 1 Call_lock]) (simp add: shared_mutex_init_def)
  have s2: "mutex_step ?a ?b"
    by (rule mutex_step.run [of 1]) (simp add: mutex_defs shared_mutex_init_def)
  have s3: "mutex_step ?b ?c"
    by (rule mutex_step.call [of 2 Call_lock_shared]) (simp add: goto_def shared_mutex_init_def)
  have s4: "mutex_step ?c ?d"
    by (rule mutex_step.run [of 2]) (simp add: mutex_defs shared_mutex_init_def)
  note reach = mutex_reachable.init [THEN mutex_reachable.step, OF s1, THEN mutex_reachable.step, OF s2]
  note r = reach [THEN mutex_reachable.step, OF s3, THEN mutex_reachable.step, OF s4]
  have pc: "pcs ?d 1 = Lock_held" "pcs ?d 2 = Queue_acquire"
    by (simp_all add: goto_def)
  show ?thesis
    using shared_mutex_exclusion [OF r pc(1)] r pc by (intro exI [of _ ?d]) simp
qed

text \<open>Runs during which the writer \<open>w\<close> waits in \<open>mutex_.lock()\<close> all the time.\<close>

inductive writer_waits :: "nat \<Rightarrow> shared_mutex \<Rightarrow> shared_mutex \<Rightarrow> bool" for w where
  refl: "pcs s w = Lock_acquire \<Longrightarrow> writer_waits w s s"
| step: "\<lbrakk>writer_waits w s s'; mutex_step s' s''; pcs s'' w = Lock_acquire\<rbrakk>
    \<Longrightarrow> writer_waits w s s''"

definition ahead :: "shared_mutex \<Rightarrow> nat set" where
  "ahead s = {t. pcs s t \<in> {Shared_acquire, Shared_held}}"

lemma pending_positive:
  assumes "mutex_inv s" and "pcs s w = Lock_acquire"
  shows "writers_pending s \<noteq> 0"
proof -
  have "w \<in> writers s" using assms(2) by (simp add: mutex_sets)
  then show ?thesis using assms(1) by (auto simp: mutex_inv_def)
qed

lemma ahead_step:
  assumes "mutex_inv s" and "mutex_step s s'" and "pcs s w = Lock_acquire"
  shows "ahead s' \<subseteq> ahead s"
  using assms(2)
proof cases
  case (call t c)
  then show ?thesis
    by (cases c) (auto simp: ahead_def goto_def raw_unlock_def raw_unlock_shared_def split: if_splits)
next
  case (run t)
  then show ?thesis
    using pending_positive [OF assms(1,3)]
    by (cases "pcs s t") (auto simp: ahead_def mutex_defs split: if_splits)
qed

text \<open>
  C32: Writer preference: while a writer is announced and waits for the lock, no further reader
  can enter.  The only readers that can still get the shared lock before it are those that had
  already passed the check of \<open>writers_pending_\<close>; a reader that arrives later queues on the
  exclusive path.
\<close>
theorem shared_mutex_writer_preference:
  assumes "mutex_reachable s" and "writer_waits w s s'"
  shows "ahead s' \<subseteq> ahead s"
proof -
  have "mutex_reachable s' \<and> pcs s' w = Lock_acquire \<and> ahead s' \<subseteq> ahead s"
    using assms(2,1)
  proof induction
    case (step s s' s'')
    then show ?case
      using ahead_step [of s' s'' w] mutex_inv_reachable [of s'] mutex_reachable.step [of s' s'']
      by blast
  qed simp
  then show ?thesis by simp
qed

lemma shared_mutex_writer_preference_witness:
  "\<exists>s s'. mutex_reachable s \<and> writer_waits 1 s s' \<and> pcs s' 2 = Queue_acquire \<and>
     ahead s = {} \<and> ahead s' = {}"
proof -
  let ?a = "goto 1 Lock_acquire (shared_mutex_init\<lparr>writers_pending := 1\<rparr>)"
  let ?b = "goto 2 Shared_load ?a"
  let ?c = "goto 2 Queue_acquire ?b"
  have "mutex_step shared_mutex_init ?a"
    by (rule mutex_step.call [of 1 Call_lock]) (simp add: shared_mutex_init_def)
  then have r: "mutex_reachable ?a"
    by (blast intro: mutex_reachable.intros)
  have "mutex_step ?a ?b"
    by (rule mutex_step.call [of 2 Call_lock_shared]) (simp add: goto_def shared_mutex_init_def)
  moreover have "mutex_step ?b ?c"
    by (rule mutex_step.run [of 2]) (simp add: mutex_defs shared_mutex_init_def)
  moreover have pc: "pcs ?a 1 = Lock_acquire" "pcs ?b 1 = Lock_acquire" "pcs ?c 1 = Lock_acquire"
      "pcs ?c 2 = Queue_acquire" "ahead ?a = {}"
    by (auto simp: goto_def ahead_def shared_mutex_init_def)
  ultimately have w: "writer_waits 1 ?a ?c"
    by (meson writer_waits.intros)
  show ?thesis
    using shared_mutex_writer_preference [OF r w] r w pc by (intro exI [of _ ?a] exI [of _ ?c]) simp
qed

text \<open>
  C33: No deadlock inside the lock: whenever some thread is executing one of the methods and nobody
  is in a critical section, a thread executing a method can take its next step.
\<close>
theorem shared_mutex_progress:
  assumes "mutex_reachable s" and "pcs s t \<noteq> Idle"
    and "\<And>u. pcs s u \<noteq> Lock_held \<and> pcs s u \<noteq> Shared_held"
  shows "\<exists>u s'. otel_shared_mutex_run u s = Some s'"
proof -
  have i: "mutex_inv s"
    using assms(1) by (rule mutex_inv_reachable)
  have "sharing s = {}"
    using assms(3) by (simp add: mutex_sets)
  then have r: "readers s = []"
    using i by (simp add: mutex_inv_def)
  show ?thesis
  proof (cases "owner s")
    case None
    then have "otel_shared_mutex_run t s \<noteq> None"
      using r assms(2) assms(3) [of t]
      by (cases "pcs s t") (auto simp: otel_shared_mutex_run_def raw_lock_def raw_lock_shared_def)
    then show ?thesis by blast
  next
    case (Some u)
    then have "u \<in> exclusive s"
      using i by (simp add: mutex_inv_def)
    then have "pcs s u = Queue_held"
      using assms(3) [of u] by (auto simp: mutex_sets)
    then have "otel_shared_mutex_run u s \<noteq> None"
      by (simp add: otel_shared_mutex_run_def)
    then show ?thesis by blast
  qed
qed

lemma shared_mutex_progress_witness:
  "\<exists>s. mutex_reachable s \<and> pcs s 1 = Lock_acquire \<and> (\<exists>u s'. otel_shared_mutex_run u s = Some s')"
proof -
  let ?a = "goto 1 Lock_acquire (shared_mutex_init\<lparr>writers_pending := 1\<rparr>)"
  have "mutex_step shared_mutex_init ?a"
    by (rule mutex_step.call [of 1 Call_lock]) (simp add: shared_mutex_init_def)
  then have r: "mutex_reachable ?a"
    by (blast intro: mutex_reachable.intros)
  have "pcs ?a u \<noteq> Lock_held \<and> pcs ?a u \<noteq> Shared_held" for u
    by (simp add: goto_def shared_mutex_init_def)
  then show ?thesis
    using shared_mutex_progress [OF r, of 1] r by (intro exI [of _ ?a]) (simp add: goto_def)
qed

end
