(* ===== verification/Otel_MeterLocks.thy ===== *)
theory Otel_MeterLocks
  imports Otel_MeterRace Otel_SharedMutex
begin

text \<open>
  The locks of \<open>otel_meter_create_instrument\<close>: the race of \<open>Otel_MeterRace\<close> together with the
  reader-writer lock of the instruments, one atomic step of the lock at a time, as
  \<open>Otel_SharedMutex\<close> has it.  Between two steps of the race a thread does the lock operation the
  code has there: a \<open>std::shared_lock\<close> or \<open>std::lock_guard\<close> that is constructed, \<open>unlock\<close>ed, or
  destroyed where the function returns.  (\<open>create_mutex\<close> is part of the race.)  Whoever else uses
  the lock is not part of the model.

  The theorem: the race keeps to its steps, nothing is inserted while somebody looks, and the threads
  never lock each other or themselves out.
\<close>

section \<open>The step relation\<close>

datatype guard_op = Lock_shared | Unlock_shared | Lock_exclusive | Unlock_exclusive

fun guard_call :: "guard_op \<Rightarrow> mutex_call" where
  "guard_call Lock_shared = Call_lock_shared"
| "guard_call Unlock_shared = Call_unlock_shared"
| "guard_call Lock_exclusive = Call_lock"
| "guard_call Unlock_exclusive = Call_unlock"

text \<open>
  What is done to the lock after a step from one phase to the next.  The probe is made under a shared
  lock, which is released before the checks or by the return; the second probe likewise, inside
  \<open>create_mutex\<close>; the insertion under the exclusive lock, which the return releases before
  \<open>create_mutex\<close>.
\<close>

fun next_guard :: "race_phase \<Rightarrow> race_phase \<Rightarrow> guard_op option" where
  "next_guard Probing Keyed = Some Lock_shared"
| "next_guard Keyed _ = Some Unlock_shared"
| "next_guard Missed _ = Some Lock_shared"
| "next_guard Locked _ = Some Unlock_shared"
| "next_guard Building (Built _) = Some Lock_exclusive"
| "next_guard (Built _) _ = Some Unlock_exclusive"
| "next_guard _ _ = None"

record ('d, 'b, 't) locked_race =
  lk_race :: "('d, 'b, 't) race"
  lk_mutex :: shared_mutex
  lk_pending :: "nat \<Rightarrow> guard_op option"

text \<open>A lock operation is over when the thread is outside the methods of the lock again.\<close>

definition after_lock :: "nat \<Rightarrow> shared_mutex \<Rightarrow> ('d, 'b, 't) locked_race \<Rightarrow> ('d, 'b, 't) locked_race" where
  "after_lock t m s = s\<lparr>lk_mutex := m,
     lk_pending := (if pcs m t \<in> {Idle, Shared_held, Lock_held} then (lk_pending s)(t := None) else lk_pending s)\<rparr>"

inductive lock_step ::
  "('d, 'b, 't) sdk \<Rightarrow> nat \<Rightarrow> (nat \<Rightarrow> instrument_request) \<Rightarrow> nat \<Rightarrow> ('d, 'b, 't) locked_race \<Rightarrow>
   ('d, 'b, 't) locked_race \<Rightarrow> bool"
  for sdk p rq t where
  work: "lk_pending s t = None \<Longrightarrow> race_step sdk p rq t (lk_race s) r \<Longrightarrow>
    lock_step sdk p rq t s (s\<lparr>lk_race := r,
      lk_pending := (lk_pending s)(t := next_guard (rc_phase (lk_race s) t) (rc_phase r t))\<rparr>)"
| guard_begins: "lk_pending s t = Some g \<Longrightarrow> otel_shared_mutex_call t (guard_call g) (lk_mutex s) = Some m \<Longrightarrow>
    lock_step sdk p rq t s (after_lock t m s)"
| guard_goes_on: "lk_pending s t = Some g \<Longrightarrow> otel_shared_mutex_run t (lk_mutex s) = Some m \<Longrightarrow>
    lock_step sdk p rq t s (after_lock t m s)"

inductive lock_reaches for sdk p rq n s0 where
  lock_start: "lock_reaches sdk p rq n s0 s0"
| lock_next: "lock_reaches sdk p rq n s0 s \<Longrightarrow> t < n \<Longrightarrow> lock_step sdk p rq t s s' \<Longrightarrow> lock_reaches sdk p rq n s0 s'"

definition lock_initial :: "'d meter_impl \<Rightarrow> ('d, 'b, 't) world \<Rightarrow> ('d, 'b, 't) locked_race" where
  "lock_initial impl w = \<lparr>lk_race = race_initial impl w, lk_mutex = shared_mutex_init, lk_pending = (\<lambda>_. None)\<rparr>"

text \<open>Every thread has returned, and the locks are free.\<close>

definition all_returned :: "nat \<Rightarrow> ('d, 'b, 't) locked_race \<Rightarrow> bool" where
  "all_returned n s \<longleftrightarrow> (\<forall>t < n. (\<exists>r. rc_phase (lk_race s) t = Finished r) \<and> lk_pending s t = None) \<and>
     rc_owner (lk_race s) = None \<and> owner (lk_mutex s) = None \<and> readers (lk_mutex s) = [] \<and> writers_pending (lk_mutex s) = 0"

section \<open>The invariant\<close>

fun held_in :: "race_phase \<Rightarrow> pc" where
  "held_in Keyed = Shared_held"
| "held_in Locked = Shared_held"
| "held_in (Built _) = Lock_held"
| "held_in _ = Idle"

text \<open>Where a thread is in the lock.\<close>

definition guards_ok :: "race_phase \<Rightarrow> guard_op option \<Rightarrow> pc \<Rightarrow> bool" where
  "guards_ok ph g c = (case g of
     None \<Rightarrow> c = held_in ph
   | Some Lock_shared \<Rightarrow> held_in ph = Shared_held \<and> c \<in> {Idle, Shared_load, Shared_acquire, Queue_acquire, Queue_held}
   | Some Unlock_shared \<Rightarrow> held_in ph = Idle \<and> c = Shared_held
   | Some Lock_exclusive \<Rightarrow> held_in ph = Lock_held \<and> c \<in> {Idle, Lock_acquire}
   | Some Unlock_exclusive \<Rightarrow> held_in ph = Idle \<and> c \<in> {Lock_held, Unlock_sub})"

definition owner_ok :: "nat \<Rightarrow> ('d, 'b, 't) race \<Rightarrow> bool" where
  "owner_ok n s \<longleftrightarrow> (\<forall>t < n. in_creation (rc_phase s t) \<longleftrightarrow> rc_owner s = Some t) \<and> (\<forall>t. rc_owner s = Some t \<longrightarrow> t < n)"

definition locks_ok :: "nat \<Rightarrow> ('d, 'b, 't) locked_race \<Rightarrow> bool" where
  "locks_ok n s \<longleftrightarrow> mutex_inv (lk_mutex s) \<and> owner_ok n (lk_race s) \<and> (\<forall>t. n \<le> t \<longrightarrow> pcs (lk_mutex s) t = Idle) \<and>
     (\<forall>t < n. guards_ok (rc_phase (lk_race s) t) (lk_pending s t) (pcs (lk_mutex s) t))"

lemma race_step_others: "race_step sdk p rq t s s' \<Longrightarrow> u \<noteq> t \<Longrightarrow> rc_phase s' u = rc_phase s u"
  by (cases rule: race_step.cases) auto

lemma owner_ok_step:
  assumes "owner_ok n s" "t < n" "race_step sdk p rq t s s'"
  shows "owner_ok n s'"
  using assms(3)
proof cases
  case probe_missed
  then show ?thesis using assms(1,2) by (auto simp: owner_ok_def split: sum.split)
qed (use assms(1,2) in \<open>auto simp: owner_ok_def\<close>)

lemma guards_ok_work:
  assumes "race_step sdk p rq t s s'" "guards_ok (rc_phase s t) None c"
  shows "guards_ok (rc_phase s' t) (next_guard (rc_phase s t) (rc_phase s' t)) c"
  using assms
proof cases
  case probe_missed
  then show ?thesis using assms(2) by (auto simp: guards_ok_def split: sum.split)
qed (use assms(2) in \<open>auto simp: guards_ok_def\<close>)

lemma mutex_others:
  "otel_shared_mutex_call t c m = Some m' \<Longrightarrow> u \<noteq> t \<Longrightarrow> pcs m' u = pcs m u"
  "otel_shared_mutex_run t m = Some m' \<Longrightarrow> u \<noteq> t \<Longrightarrow> pcs m' u = pcs m u"
proof -
  show "otel_shared_mutex_call t c m = Some m' \<Longrightarrow> u \<noteq> t \<Longrightarrow> pcs m' u = pcs m u"
    by (cases c) (auto simp: goto_def raw_unlock_def raw_unlock_shared_def split: if_splits)
  show "otel_shared_mutex_run t m = Some m' \<Longrightarrow> u \<noteq> t \<Longrightarrow> pcs m' u = pcs m u"
    by (cases "pcs m t") (auto simp: mutex_defs split: if_splits)
qed

text \<open>One step of the thread's lock operation.\<close>

lemma guards_ok_begin:
  assumes "guards_ok ph (Some g) (pcs m t)" "otel_shared_mutex_call t (guard_call g) m = Some m'"
  shows "guards_ok ph (if pcs m' t \<in> {Idle, Shared_held, Lock_held} then None else Some g) (pcs m' t)"
  using assms by (cases g) (auto simp: guards_ok_def goto_def split: if_splits)

lemma guards_ok_go_on:
  assumes "guards_ok ph (Some g) (pcs m t)" "otel_shared_mutex_run t m = Some m'"
  shows "guards_ok ph (if pcs m' t \<in> {Idle, Shared_held, Lock_held} then None else Some g) (pcs m' t)"
  using assms by (cases g; cases "pcs m t") (auto simp: guards_ok_def mutex_defs split: if_splits)

lemma locks_ok_after_lock:
  assumes "locks_ok n s" "t < n" "mutex_inv m" "\<forall>u. u \<noteq> t \<longrightarrow> pcs m u = pcs (lk_mutex s) u" "lk_pending s t = Some g"
    and "guards_ok (rc_phase (lk_race s) t) (if pcs m t \<in> {Idle, Shared_held, Lock_held} then None else Some g) (pcs m t)"
  shows "locks_ok n (after_lock t m s)"
proof -
  have "guards_ok (rc_phase (lk_race s) u) (lk_pending (after_lock t m s) u) (pcs m u)" if "u < n" for u
    using assms(1,4-6) that by (cases "u = t") (auto simp: locks_ok_def after_lock_def)
  moreover have "n \<le> u \<longrightarrow> pcs m u = Idle" for u
    using assms(1,2,4) by (cases "u = t") (auto simp: locks_ok_def)
  ultimately show ?thesis using assms(1,3) by (auto simp: locks_ok_def after_lock_def)
qed

lemma locks_ok_step:
  assumes "locks_ok n s" "t < n" "lock_step sdk p rq t s s'"
  shows "locks_ok n s'"
proof -
  have t: "guards_ok (rc_phase (lk_race s) t) (lk_pending s t) (pcs (lk_mutex s) t)" "mutex_inv (lk_mutex s)"
    "owner_ok n (lk_race s)"
    using assms(1,2) by (simp_all add: locks_ok_def)
  from assms(3) show ?thesis
  proof cases
    case (work r)
    have "guards_ok (rc_phase r t) (next_guard (rc_phase (lk_race s) t) (rc_phase r t)) (pcs (lk_mutex s) t)"
      using guards_ok_work [OF work(3)] t(1) work(2) by simp
    then show ?thesis
      using assms(1,2) work owner_ok_step [OF t(3) assms(2) work(3)] race_step_others [OF work(3)]
      by (auto simp: locks_ok_def)
  next
    case (guard_begins g m)
    show ?thesis
      unfolding guard_begins(1)
      by (rule locks_ok_after_lock [OF assms(1,2) mutex_inv_call [OF t(2) guard_begins(3)] _ guard_begins(2)])
        (use guards_ok_begin [OF _ guard_begins(3)] t(1) guard_begins(2) mutex_others(1) [OF guard_begins(3)] in auto)
  next
    case (guard_goes_on g m)
    show ?thesis
      unfolding guard_goes_on(1)
      by (rule locks_ok_after_lock [OF assms(1,2) mutex_inv_run [OF t(2) guard_goes_on(3)] _ guard_goes_on(2)])
        (use guards_ok_go_on [OF _ guard_goes_on(3)] t(1) guard_goes_on(2) mutex_others(2) [OF guard_goes_on(3)] in auto)
  qed
qed

lemma locks_ok_reaches: "lock_reaches sdk p rq n (lock_initial impl w) s \<Longrightarrow> locks_ok n s"
proof (induction rule: lock_reaches.induct)
  case lock_start
  then show ?case
    using mutex_inv_init
    by (simp add: locks_ok_def lock_initial_def owner_ok_def race_initial_def guards_ok_def) (simp add: shared_mutex_init_def)
qed (rule locks_ok_step)

text \<open>Without its locks a run is a run of the race.\<close>

lemma lock_reaches_race:
  "lock_reaches sdk p rq n (lock_initial impl w) s \<Longrightarrow> race_reaches sdk p rq n (race_initial impl w) (lk_race s)"
proof (induction rule: lock_reaches.induct)
  case lock_start
  then show ?case by (simp add: lock_initial_def race_start)
next
  case (lock_next s t s')
  from lock_next(3) show ?case
    by cases (use lock_next race_next in \<open>auto simp: after_lock_def\<close>)
qed

section \<open>Progress\<close>

text \<open>How far a thread is from its return.  A reader that goes round the loop of \<open>lock_shared\<close> once
  more comes no nearer.\<close>

fun phase_rank :: "race_phase \<Rightarrow> nat" where
  "phase_rank Probing = 7"
| "phase_rank Keyed = 6"
| "phase_rank Missed = 5"
| "phase_rank Locked = 4"
| "phase_rank Building = 3"
| "phase_rank (Built _) = 2"
| "phase_rank (Leaving _) = 1"
| "phase_rank (Finished _) = 0"

fun pc_rank :: "pc \<Rightarrow> nat" where
  "pc_rank Idle = 6"
| "pc_rank Queue_acquire = 5"
| "pc_rank Queue_held = 4"
| "pc_rank Shared_load = 3"
| "pc_rank Shared_acquire = 2"
| "pc_rank Lock_acquire = 2"
| "pc_rank Shared_held = 2"
| "pc_rank Lock_held = 2"
| "pc_rank Unlock_sub = 1"

definition thread_left :: "('d, 'b, 't) locked_race \<Rightarrow> nat \<Rightarrow> nat" where
  "thread_left s t = 10 * phase_rank (rc_phase (lk_race s) t) +
     (case lk_pending s t of None \<Rightarrow> 0 | Some g \<Rightarrow> pc_rank (pcs (lk_mutex s) t))"

definition moves :: "('d, 'b, 't) sdk \<Rightarrow> nat \<Rightarrow> (nat \<Rightarrow> instrument_request) \<Rightarrow> ('d, 'b, 't) locked_race \<Rightarrow> nat \<Rightarrow> bool" where
  "moves sdk p rq s t \<longleftrightarrow> (\<exists>s'. lock_step sdk p rq t s s' \<and> thread_left s' t < thread_left s t \<and>
     (\<forall>u. u \<noteq> t \<longrightarrow> thread_left s' u = thread_left s u))"

lemma race_step_rank: "race_step sdk p rq t s s' \<Longrightarrow> phase_rank (rc_phase s' t) < phase_rank (rc_phase s t)"
  by (cases rule: race_step.cases) (auto split: sum.split)

lemma race_enabled:
  assumes "\<forall>r. rc_phase s t \<noteq> Finished r" "rc_phase s t = Missed \<longrightarrow> rc_owner s = None"
  shows "\<exists>s'. race_step sdk p rq t s s'"
proof (cases "rc_phase s t")
  case Probing
  obtain fine w' where a: "try_alloc sdk (rc_world s) = (fine, w')" by fastforce
  have "otel_meter_instrument_key sdk (rq_name (rq t)) (rq_type (rq t)) (rc_world s) = (if fine then rq_key (rq t) else [], w')"
    by (simp add: otel_meter_instrument_key_def a rq_key_def)
  then show ?thesis using Probing by (cases fine) (auto dest: no_key key_made)
next
  case Keyed
  then show ?thesis
    by (cases "otel_nolock_meter_find_instrument (rc_impl s) (rq_key (rq t))") (blast intro: probe_found probe_missed)+
next
  case Missed
  then show ?thesis using assms(2) by (blast intro: acquire)
next
  case Locked
  then show ?thesis
    by (cases "otel_nolock_meter_find_instrument (rc_impl s) (rq_key (rq t))") (blast intro: recheck_found recheck_missed)+
next
  case Building
  obtain r w' where "build_instrument sdk p (rq t) (rc_world s) = (r, w')" by fastforce
  then show ?thesis using Building by (cases r) (blast intro: build_failed build_done)+
next
  case (Built h)
  obtain r impl' w' where "insert_instrument sdk (rq t) h (rc_impl s) (rc_world s) = (r, impl', w')"
    by (metis surj_pair)
  then show ?thesis using Built by (blast intro: insertion)
next
  case (Leaving r)
  then show ?thesis by (blast intro: give_back)
qed (use assms(1) in simp)

text \<open>A thread with no lock operation before it takes its next step of the race, unless
  \<open>create_mutex\<close> keeps it waiting.\<close>

lemma work_moves:
  assumes "lk_pending s t = None" "\<forall>r. rc_phase (lk_race s) t \<noteq> Finished r"
    and "rc_phase (lk_race s) t = Missed \<longrightarrow> rc_owner (lk_race s) = None"
  shows "moves sdk p rq s t"
proof -
  obtain r where r: "race_step sdk p rq t (lk_race s) r" using race_enabled [OF assms(2,3)] by blast
  have "pc_rank c \<le> 6" for c by (cases c) simp_all
  then have "pc_rank (pcs (lk_mutex s) t) < 10" by (meson le_less_trans numeral_less_iff semiring_norm)
  then show ?thesis
    unfolding moves_def using work [OF assms(1) r] race_step_rank [OF r] race_step_others [OF r] assms(1)
    by (intro exI [of _ "s\<lparr>lk_race := r, lk_pending := (lk_pending s)(t := next_guard (rc_phase (lk_race s) t) (rc_phase r t))\<rparr>"])
      (auto simp: thread_left_def split: option.split)
qed

lemma guard_moves:
  assumes "lk_pending s t = Some g"
    and "otel_shared_mutex_call t (guard_call g) (lk_mutex s) = Some m \<or> otel_shared_mutex_run t (lk_mutex s) = Some m"
    and "pcs m t \<in> {Idle, Shared_held, Lock_held} \<or> pc_rank (pcs m t) < pc_rank (pcs (lk_mutex s) t)"
  shows "moves sdk p rq s t"
proof -
  have "lock_step sdk p rq t s (after_lock t m s)"
    using assms(1,2) guard_begins guard_goes_on by blast
  moreover have "pcs m u = pcs (lk_mutex s) u" if "u \<noteq> t" for u
    using assms(2) mutex_others that by blast
  moreover have "0 < pc_rank c" for c by (cases c) simp_all
  ultimately show ?thesis
    unfolding moves_def using assms(1,3)
    by (intro exI [of _ "after_lock t m s"]) (auto simp: thread_left_def after_lock_def split: option.split)
qed

text \<open>A thread that holds the lock in any way can go on.\<close>

lemma holder_moves:
  assumes "guards_ok (rc_phase (lk_race s) t) (lk_pending s t) (pcs (lk_mutex s) t)"
    and "pcs (lk_mutex s) t \<in> {Shared_held, Lock_held, Unlock_sub, Queue_held}"
  shows "moves sdk p rq s t"
proof (cases "lk_pending s t")
  case None
  have "rc_phase (lk_race s) t \<noteq> Finished r" "rc_phase (lk_race s) t \<noteq> Missed" for r
    using assms None by (auto simp: guards_ok_def)
  then show ?thesis using work_moves [OF None] by blast
next
  case (Some g)
  have c: "pcs (lk_mutex s) t = Queue_held \<and> g = Lock_shared \<or> pcs (lk_mutex s) t = Shared_held \<and> g = Unlock_shared \<or>
      pcs (lk_mutex s) t \<in> {Lock_held, Unlock_sub} \<and> g = Unlock_exclusive"
    using assms Some by (cases g) (auto simp: guards_ok_def)
  show ?thesis
    using c by (elim disjE conjE insertE)
      (rule guard_moves [OF Some, of "the (if pcs (lk_mutex s) t \<in> {Queue_held, Unlock_sub} then otel_shared_mutex_run t (lk_mutex s)
         else otel_shared_mutex_call t (guard_call g) (lk_mutex s))"]; simp add: mutex_defs)+
qed

text \<open>With the lock free and no writer announced, every lock operation can go on.\<close>

lemma free_moves:
  assumes "guards_ok (rc_phase (lk_race s) t) (lk_pending s t) (pcs (lk_mutex s) t)" "lk_pending s t = Some g"
    and "owner (lk_mutex s) = None" "readers (lk_mutex s) = []"
    and "pcs (lk_mutex s) t = Shared_load \<longrightarrow> writers_pending (lk_mutex s) = 0"
  shows "moves sdk p rq s t"
proof (cases "pcs (lk_mutex s) t \<in> {Shared_held, Lock_held, Unlock_sub, Queue_held}")
  case True
  then show ?thesis using holder_moves assms(1) by blast
next
  case False
  then have c: "pcs (lk_mutex s) t \<in> {Shared_load, Shared_acquire, Queue_acquire, Lock_acquire} \<or>
      pcs (lk_mutex s) t = Idle \<and> g \<in> {Lock_shared, Lock_exclusive}"
    using assms(1,2) by (cases g) (auto simp: guards_ok_def)
  show ?thesis
    using c by (elim disjE conjE insertE)
      ((rule guard_moves [OF assms(2), of "the (if pcs (lk_mutex s) t \<noteq> Idle then otel_shared_mutex_run t (lk_mutex s)
         else otel_shared_mutex_call t (guard_call g) (lk_mutex s))"]; simp add: mutex_defs assms(3-5))+)
qed

text \<open>Somebody can always go on.\<close>

lemma someone_moves:
  assumes ok: "locks_ok n s" and left: "t < n" "lk_pending s t \<noteq> None \<or> (\<forall>r. rc_phase (lk_race s) t \<noteq> Finished r)"
  shows "\<exists>u < n. moves sdk p rq s u"
proof (rule ccontr)
  assume "\<not> ?thesis"
  then have stuck: "\<not> moves sdk p rq s u" if "u < n" for u using that by blast
  let ?m = "lk_mutex s"
  have inv: "mutex_inv ?m" "owner_ok n (lk_race s)"
    and g: "u < n \<Longrightarrow> guards_ok (rc_phase (lk_race s) u) (lk_pending s u) (pcs ?m u)"
    and out: "n \<le> u \<Longrightarrow> pcs ?m u = Idle" for u
    using ok by (simp_all add: locks_ok_def)
  have none: "pcs ?m u \<notin> {Shared_held, Lock_held, Unlock_sub, Queue_held}" for u
  proof (cases "u < n")
    case True
    then show ?thesis using holder_moves [OF g [OF True]] stuck [OF True] by blast
  qed (use out [of u] in simp)
  then have "exclusive ?m = {}" "sharing ?m = {}" by (auto simp: mutex_sets)
  then have free: "owner ?m = None" "readers ?m = []"
    using inv(1) by (cases "owner ?m"; simp add: mutex_inv_def)+
  have idle: "lk_pending s u = None" if u: "u < n" for u
  proof (rule ccontr)
    assume "lk_pending s u \<noteq> None"
    then obtain op where op: "lk_pending s u = Some op" by blast
    then have "writers_pending ?m \<noteq> 0" using free_moves [OF g [OF u] op free] stuck [OF u] by blast
    then obtain v where v: "v \<in> writers ?m" using inv(1) by (cases "writers ?m = {}") (auto simp: mutex_inv_def)
    then have acq: "pcs ?m v = Lock_acquire" using none [of v] by (auto simp: mutex_sets)
    then have "v < n" using out [of v] by (cases "v < n") auto
    moreover have "lk_pending s v = Some Lock_exclusive"
      using g [OF \<open>v < n\<close>] acq
      by (cases "lk_pending s v"; cases "rc_phase (lk_race s) v") (auto simp: guards_ok_def split: guard_op.splits)
    ultimately show False using free_moves [OF g _ free, of v Lock_exclusive] stuck [of v] acq by simp
  qed
  have waiting: "(\<exists>r. rc_phase (lk_race s) u = Finished r) \<or> rc_phase (lk_race s) u = Missed \<and> rc_owner (lk_race s) \<noteq> None"
    if u: "u < n" for u
    using work_moves [OF idle [OF u], of sdk p rq] stuck [OF u] by metis
  have "\<not> (\<exists>r. rc_phase (lk_race s) t = Finished r)" using left(2) idle [OF left(1)] by simp
  then have "rc_owner (lk_race s) \<noteq> None" using waiting [OF left(1)] by simp
  then obtain v where v: "rc_owner (lk_race s) = Some v" by blast
  then have "v < n" "in_creation (rc_phase (lk_race s) v)" using inv(2) by (auto simp: owner_ok_def)
  then show False using waiting [of v] by auto
qed

lemma lock_reaches_trans: "lock_reaches sdk p rq n b c \<Longrightarrow> lock_reaches sdk p rq n a b \<Longrightarrow> lock_reaches sdk p rq n a c"
  by (induction rule: lock_reaches.induct) (auto intro: lock_reaches.intros)

lemma all_can_return:
  assumes "locks_ok n s"
  shows "\<exists>s'. lock_reaches sdk p rq n s s' \<and> locks_ok n s' \<and>
    (\<forall>t < n. (\<exists>r. rc_phase (lk_race s') t = Finished r) \<and> lk_pending s' t = None)"
  using assms
proof (induction "\<Sum>t < n. thread_left s t" arbitrary: s rule: less_induct)
  case less
  show ?case
  proof (cases "\<forall>t < n. (\<exists>r. rc_phase (lk_race s) t = Finished r) \<and> lk_pending s t = None")
    case True
    then show ?thesis using lock_start less(2) by blast
  next
    case False
    then obtain u where u: "u < n" "moves sdk p rq s u" using someone_moves [OF less(2)] by blast
    then obtain s1 where s1: "lock_step sdk p rq u s s1" "thread_left s1 u < thread_left s u"
      "\<forall>v. v \<noteq> u \<longrightarrow> thread_left s1 v = thread_left s v"
      unfolding moves_def by blast
    have "(\<Sum>t < n. thread_left s1 t) < (\<Sum>t < n. thread_left s t)"
    proof (rule sum_strict_mono_ex1)
      show "\<forall>v \<in> {..<n}. thread_left s1 v \<le> thread_left s v" using s1(2,3) by (metis less_imp_le order_refl)
      show "\<exists>v \<in> {..<n}. thread_left s1 v < thread_left s v" using s1(2) u(1) by blast
    qed simp
    then obtain s' where s': "lock_reaches sdk p rq n s1 s'" "locks_ok n s'"
      "\<forall>t < n. (\<exists>r. rc_phase (lk_race s') t = Finished r) \<and> lk_pending s' t = None"
      using less(1) locks_ok_step [OF less(2) u(1) s1(1)] by blast
    then show ?thesis using lock_reaches_trans [OF s'(1) lock_next [OF lock_start u(1) s1(1)]] by blast
  qed
qed

lemma returned_free:
  assumes "locks_ok n s" "\<forall>t < n. (\<exists>r. rc_phase (lk_race s) t = Finished r) \<and> lk_pending s t = None"
  shows "all_returned n s"
proof -
  let ?m = "lk_mutex s"
  have "pcs ?m u = Idle" for u
    using assms by (cases "u < n") (fastforce simp: locks_ok_def guards_ok_def)+
  then have "exclusive ?m = {}" "sharing ?m = {}" "writers ?m = {}" by (simp_all add: mutex_sets)
  moreover have "rc_owner (lk_race s) = None"
  proof (cases "rc_owner (lk_race s)")
    case (Some v)
    then have "v < n" "in_creation (rc_phase (lk_race s) v)" using assms(1) by (auto simp: locks_ok_def owner_ok_def)
    then show ?thesis using assms(2) by force
  qed simp
  ultimately show ?thesis
    using assms by (cases "owner ?m") (auto simp: all_returned_def locks_ok_def mutex_inv_def)
qed

section \<open>The property\<close>

text \<open>
  C37: The locks of the creation do their work and never lock out.  In every interleaving of any number
  of creations, one atomic step of the locks at a time: the run is one of the race (so its winners are
  as stated there); a thread that is about to insert has the lock of the instruments to itself, so
  nobody is about to probe the index or to insert; and from every state reached, all the
  threads can still return, with both locks free.
\<close>
theorem creations_return:
  assumes "lock_reaches sdk p rq n (lock_initial impl w) s"
  shows "race_reaches sdk p rq n (race_initial impl w) (lk_race s) \<and>
    (\<forall>t u h. t < n \<and> u < n \<and> u \<noteq> t \<and> rc_phase (lk_race s) t = Built h \<and> lk_pending s t = None \<longrightarrow>
       lk_pending s u \<noteq> None \<or> rc_phase (lk_race s) u \<noteq> Keyed \<and> rc_phase (lk_race s) u \<noteq> Locked \<and>
         (\<forall>h'. rc_phase (lk_race s) u \<noteq> Built h')) \<and>
    (\<exists>s'. lock_reaches sdk p rq n s s' \<and> all_returned n s')"
proof (intro conjI allI impI)
  note ok = locks_ok_reaches [OF assms]
  show "race_reaches sdk p rq n (race_initial impl w) (lk_race s)" using lock_reaches_race [OF assms] .
  show "\<exists>s'. lock_reaches sdk p rq n s s' \<and> all_returned n s'"
    using all_can_return [OF ok] returned_free by blast
  fix t u h assume a: "t < n \<and> u < n \<and> u \<noteq> t \<and> rc_phase (lk_race s) t = Built h \<and> lk_pending s t = None"
  then have t: "pcs (lk_mutex s) t = Lock_held" using ok by (fastforce simp: locks_ok_def guards_ok_def)
  have inv: "mutex_inv (lk_mutex s)" using ok by (simp add: locks_ok_def)
  then have "owner (lk_mutex s) = Some t"
    using t pc_sets(2) [of t "lk_mutex s"] by (auto simp: mutex_inv_def)
  then have "u \<notin> exclusive (lk_mutex s)" "u \<notin> sharing (lk_mutex s)"
    using inv a by (auto simp: mutex_inv_def)
  then have "pcs (lk_mutex s) u \<noteq> Shared_held \<and> pcs (lk_mutex s) u \<noteq> Lock_held"
    by (auto simp: mutex_sets)
  then show "lk_pending s u \<noteq> None \<or> rc_phase (lk_race s) u \<noteq> Keyed \<and> rc_phase (lk_race s) u \<noteq> Locked \<and>
      (\<forall>h'. rc_phase (lk_race s) u \<noteq> Built h')"
    using ok a by (fastforce simp: locks_ok_def guards_ok_def)
qed

text \<open>Two threads that create the same instrument, when the first has just made its key.\<close>

lemma creations_return_witness:
  "\<exists>(s :: (unit, (string \<times> string) list, unit) locked_race) s'.
     rc_phase (lk_race s) 0 = Keyed \<and> lk_pending s 0 = Some Lock_shared \<and> lock_reaches demo_sdk 3
       (\<lambda>_. \<lparr>rq_name = ''x'', rq_desc = [], rq_unit = [], rq_type = 0, rq_data = None\<rparr>) 2 s s' \<and> all_returned 2 s'"
proof -
  let ?rq = "\<lambda>_ :: nat. \<lparr>rq_name = ''x'', rq_desc = [], rq_unit = [], rq_type = 0, rq_data = None\<rparr>"
  let ?s0 = "lock_initial demo_impl demo_world"
  let ?r = "set_phase 0 Keyed (lk_race ?s0\<lparr>rc_world := demo_world\<lparr>tried := 6\<rparr>\<rparr>)"
  have r: "race_step demo_sdk 3 ?rq 0 (lk_race ?s0) ?r"
    by (rule key_made) (simp_all add: lock_initial_def race_initial_def otel_meter_instrument_key_def rq_key_def try_alloc_def
        demo_sdk_def demo_world_def)
  obtain s1 where s1: "lock_step demo_sdk 3 ?rq 0 ?s0 s1" "rc_phase (lk_race s1) 0 = Keyed" "lk_pending s1 0 = Some Lock_shared"
    by (rule that [OF work [OF _ r]]) (simp_all add: lock_initial_def race_initial_def)
  have "lock_reaches demo_sdk 3 ?rq 2 ?s0 s1"
    by (rule lock_next [OF lock_start _ s1(1)]) simp
  from creations_return [OF this] obtain s' where "lock_reaches demo_sdk 3 ?rq 2 s1 s'" "all_returned 2 s'" by blast
  then show ?thesis using s1(2,3) by blast
qed

end
