(* ===== verification/Otel_Pipeline.thy ===== *)
theory Otel_Pipeline
  imports Otel_Prelude
begin

text \<open>
  The export-pipeline counters of \<open>src/processor.cpp\<close>: the counting exporters and processors that
  wrap the SDK's, and \<open>otelc_pipeline_status_get\<close>.  The counters are atomic 64-bit words; a
  processor and its exporter share one \<open>consumed\<close> counter.  Traces and logs have the same code over
  counters of their own, so one record serves both.  \<open>OnEnd\<close> is also given as its atomic steps, to
  be interleaved with other threads.
\<close>

section \<open>Counters\<close>

record export_counters =
  export_ok :: uint64
  export_fail :: uint64
  records_ok :: uint64
  records_fail :: uint64
  last_export_ms :: int64

record counting_processor =
  produced :: uint64
  max_queue_size :: size_t
  counter :: nat

text \<open>The static members of a signal's classes, its live processors by address and the shared
  \<open>consumed\<close> counters, which outlive the processor.\<close>

record signal_pipeline =
  dropped_count :: uint64
  exports :: export_counters
  current_instance :: "nat option"
  processors :: "nat \<Rightarrow> counting_processor option"
  consumed :: "nat \<Rightarrow> uint64"

record pipeline_world =
  traces :: signal_pipeline
  logs :: signal_pipeline
  metrics :: export_counters

section \<open>Exporters\<close>

text \<open>\<open>Export\<close> of \<open>n\<close> records: \<open>success\<close> is the wrapped exporter's answer, \<open>now\<close> the steady clock.\<close>

definition otel_counting_span_exporter_Export ::
  "nat \<Rightarrow> uint64 \<Rightarrow> bool \<Rightarrow> int64 \<Rightarrow> signal_pipeline \<Rightarrow> signal_pipeline" where
  "otel_counting_span_exporter_Export c n success now s0 =
     (let s = s0\<lparr>consumed := (consumed s0)(c := consumed s0 c + n)\<rparr>; e = exports s in
      s\<lparr>exports :=
        (if success
         then e\<lparr>export_ok := export_ok e + 1, records_ok := records_ok e + n, last_export_ms := now\<rparr>
         else e\<lparr>export_fail := export_fail e + 1, records_fail := records_fail e + n\<rparr>)\<rparr>)"

definition otel_counting_log_exporter_Export ::
  "nat \<Rightarrow> uint64 \<Rightarrow> bool \<Rightarrow> int64 \<Rightarrow> signal_pipeline \<Rightarrow> signal_pipeline" where
  "otel_counting_log_exporter_Export = otel_counting_span_exporter_Export"

definition otel_counting_metric_exporter_Export :: "bool \<Rightarrow> int64 \<Rightarrow> export_counters \<Rightarrow> export_counters" where
  "otel_counting_metric_exporter_Export success now e =
     (if success then e\<lparr>export_ok := export_ok e + 1, last_export_ms := now\<rparr>
      else e\<lparr>export_fail := export_fail e + 1\<rparr>)"

definition last_export_age_ms :: "int64 \<Rightarrow> export_counters \<Rightarrow> int64" where
  "last_export_age_ms now e =
     (let stamp = last_export_ms e in
      if stamp = 0 then -1 else if sint now > sint stamp then now - stamp else 0)"

section \<open>Processors\<close>

text \<open>The constructor and the destructor of the processor at address \<open>p\<close>; \<open>c\<close> is its fresh counter.\<close>

definition otel_counting_span_processor_new ::
  "nat \<Rightarrow> nat \<Rightarrow> size_t \<Rightarrow> signal_pipeline \<Rightarrow> signal_pipeline" where
  "otel_counting_span_processor_new p c n s =
     s\<lparr>processors := (processors s)(p \<mapsto> \<lparr>produced = 0, max_queue_size = n, counter = c\<rparr>),
       consumed := (consumed s)(c := 0), current_instance := Some p\<rparr>"

definition otel_counting_span_processor_delete :: "nat \<Rightarrow> signal_pipeline \<Rightarrow> signal_pipeline" where
  "otel_counting_span_processor_delete p s =
     s\<lparr>processors := (processors s)(p := None),
       current_instance := (if current_instance s = Some p then None else current_instance s)\<rparr>"

definition otel_counting_log_processor_new ::
  "nat \<Rightarrow> nat \<Rightarrow> size_t \<Rightarrow> signal_pipeline \<Rightarrow> signal_pipeline" where
  "otel_counting_log_processor_new = otel_counting_span_processor_new"

definition otel_counting_log_processor_delete :: "nat \<Rightarrow> signal_pipeline \<Rightarrow> signal_pipeline" where
  "otel_counting_log_processor_delete = otel_counting_span_processor_delete"

text \<open>The status readers; a null instance reads as 0.  \<open>queue_depth\<close> loads the two counters one after the
  other, while other threads may change them: \<open>sp\<close> is the state at the load of \<open>produced\<close> and \<open>sc\<close> the
  one at the load of \<open>consumed\<close>, in either order, since the loads are relaxed.  The mutex of the
  instance is held throughout, so the processor is the same.\<close>

definition queue_depth_loads :: "signal_pipeline \<Rightarrow> signal_pipeline \<Rightarrow> int64" where
  "queue_depth_loads sp sc = (case current_instance sp of
      None \<Rightarrow> 0
    | Some p \<Rightarrow> (case processors sp p of
          None \<Rightarrow> 0
        | Some pr \<Rightarrow>
            let pv = produced pr; cv = consumed sc (counter pr) in if pv > cv then pv - cv else 0))"

text \<open>The call when nothing runs beside it.\<close>

definition queue_depth :: "signal_pipeline \<Rightarrow> int64" where
  "queue_depth s = queue_depth_loads s s"

definition queue_capacity :: "signal_pipeline \<Rightarrow> int64" where
  "queue_capacity s = (case current_instance s of
      None \<Rightarrow> 0
    | Some p \<Rightarrow> (case processors s p of None \<Rightarrow> 0 | Some pr \<Rightarrow> max_queue_size pr))"

text \<open>\<open>OnEnd\<close> on a record that is not null: two loads, then one increment.  The loads are relaxed too: the
  one of \<open>consumed\<close> may come first.\<close>

datatype on_end_phase = Idle | Got_produced uint64 | Got_consumed uint64 | Got_both uint64 uint64

fun on_end_step :: "nat \<Rightarrow> on_end_phase \<Rightarrow> signal_pipeline \<Rightarrow> on_end_phase \<times> signal_pipeline" where
  "on_end_step p ph s = (case processors s p of
      None \<Rightarrow> (ph, s)
    | Some pr \<Rightarrow> (case ph of
          Idle \<Rightarrow> (Got_produced (produced pr), s)
        | Got_produced pv \<Rightarrow> (Got_both pv (consumed s (counter pr)), s)
        | Got_consumed cv \<Rightarrow> (Got_both (produced pr) cv, s)
        | Got_both pv cv \<Rightarrow>
            (Idle,
             if pv > cv \<and> pv - cv \<ge> max_queue_size pr
             then s\<lparr>dropped_count := dropped_count s + 1\<rparr>
             else s\<lparr>processors := (processors s)(p \<mapsto> pr\<lparr>produced := produced pr + 1\<rparr>)\<rparr>)))"

definition on_end_reordered :: "nat \<Rightarrow> on_end_phase \<Rightarrow> signal_pipeline \<Rightarrow> on_end_phase \<times> signal_pipeline" where
  "on_end_reordered p ph s = (case (processors s p, ph) of
      (Some pr, Idle) \<Rightarrow> (Got_consumed (consumed s (counter pr)), s)
    | _ \<Rightarrow> on_end_step p ph s)"

text \<open>The handlers themselves: a null record only reaches the wrapped processor.\<close>

definition otel_counting_span_processor_OnEnd :: "nat \<Rightarrow> bool \<Rightarrow> signal_pipeline \<Rightarrow> signal_pipeline" where
  "otel_counting_span_processor_OnEnd p is_null s =
     (if is_null then s
      else case on_end_step p Idle s of (ph1, s1) \<Rightarrow>
        (case on_end_step p ph1 s1 of (ph2, s2) \<Rightarrow> snd (on_end_step p ph2 s2)))"

definition otel_counting_log_processor_OnEmit :: "nat \<Rightarrow> bool \<Rightarrow> signal_pipeline \<Rightarrow> signal_pipeline" where
  "otel_counting_log_processor_OnEmit = otel_counting_span_processor_OnEnd"

section \<open>Status\<close>

record export_status =
  es_dropped :: int64
  es_queue_depth :: int64
  es_queue_capacity :: int64
  es_export_ok :: int64
  es_export_fail :: int64
  es_records_ok :: int64
  es_records_fail :: int64
  es_last_export_ms :: int64

record pipeline_status =
  st_traces :: export_status
  st_logs :: export_status
  st_metrics :: export_status

definition signal_status :: "int64 \<Rightarrow> signal_pipeline \<Rightarrow> export_status" where
  "signal_status now s =
     \<lparr>es_dropped = dropped_count s, es_queue_depth = queue_depth s, es_queue_capacity = queue_capacity s,
      es_export_ok = export_ok (exports s), es_export_fail = export_fail (exports s),
      es_records_ok = records_ok (exports s), es_records_fail = records_fail (exports s),
      es_last_export_ms = last_export_age_ms now (exports s)\<rparr>"

definition otelc_pipeline_status_get :: "int64 \<Rightarrow> pipeline_world \<Rightarrow> pipeline_status" where
  "otelc_pipeline_status_get now w =
     \<lparr>st_traces = signal_status now (traces w), st_logs = signal_status now (logs w),
      st_metrics = \<lparr>es_dropped = -1, es_queue_depth = -1, es_queue_capacity = -1,
        es_export_ok = export_ok (metrics w), es_export_fail = export_fail (metrics w),
        es_records_ok = -1, es_records_fail = -1, es_last_export_ms = last_export_age_ms now (metrics w)\<rparr>\<rparr>"

section \<open>Interleavings\<close>

text \<open>Threads that end spans and an exporting thread, on one processor: an event is one atomic step of
  a thread's \<open>OnEnd\<close>, with its loads in either order, or an export.\<close>

datatype pipe_event = Ends nat | Ends_reordered nat | Exports uint64 bool int64

fun pipe_step ::
  "nat \<Rightarrow> pipe_event \<Rightarrow> on_end_phase list \<times> signal_pipeline \<Rightarrow> on_end_phase list \<times> signal_pipeline" where
  "pipe_step p (Ends t) (ths, s) =
     (if t < length ths then (case on_end_step p (ths ! t) s of (ph, s') \<Rightarrow> (ths[t := ph], s')) else (ths, s))"
| "pipe_step p (Ends_reordered t) (ths, s) =
     (if t < length ths then (case on_end_reordered p (ths ! t) s of (ph, s') \<Rightarrow> (ths[t := ph], s')) else (ths, s))"
| "pipe_step p (Exports n success now) (ths, s) =
     (case processors s p of
        None \<Rightarrow> (ths, s)
      | Some pr \<Rightarrow> (ths, otel_counting_span_exporter_Export (counter pr) n success now s))"

definition pipe_run ::
  "nat \<Rightarrow> pipe_event list \<Rightarrow> on_end_phase list \<times> signal_pipeline \<Rightarrow> on_end_phase list \<times> signal_pipeline" where
  "pipe_run p es st = fold (pipe_step p) es st"

fun pipe_cost :: "pipe_event \<Rightarrow> nat" where
  "pipe_cost (Ends _) = 1"
| "pipe_cost (Ends_reordered _) = 1"
| "pipe_cost (Exports n _ _) = unat n"

section \<open>The depth of the queue\<close>

fun loaded :: "on_end_phase \<Rightarrow> nat option" where
  "loaded Idle = None"
| "loaded (Got_produced pv) = Some (unat pv)"
| "loaded (Got_consumed cv) = None"
| "loaded (Got_both pv cv) = Some (unat pv)"

fun seen_consumed :: "on_end_phase \<Rightarrow> nat option" where
  "seen_consumed (Got_consumed cv) = Some (unat cv)"
| "seen_consumed (Got_both pv cv) = Some (unat cv)"
| "seen_consumed _ = None"

text \<open>The threads that have loaded a value below \<open>x\<close>.\<close>

definition pending_below :: "nat \<Rightarrow> on_end_phase list \<Rightarrow> nat" where
  "pending_below x ths = length (filter (\<lambda>ph. case loaded ph of None \<Rightarrow> False | Some v \<Rightarrow> v < x) ths)"

lemma pending_le: "pending_below x ths \<le> length ths"
  by (simp add: pending_below_def)

lemma filter_update_length:
  assumes "t < length xs"
  shows "length (filter P (xs[t := y])) + (if P (xs ! t) then 1 else 0) = length (filter P xs) + (if P y then 1 else 0)"
  using assms
proof (induction xs arbitrary: t)
  case (Cons x xs)
  then show ?case by (cases t) auto
qed simp

lemma pending_update:
  assumes "t < length ths"
  shows "pending_below x (ths[t := ph]) + (case loaded (ths ! t) of None \<Rightarrow> 0 | Some v \<Rightarrow> if v < x then 1 else 0) =
    pending_below x ths + (case loaded ph of None \<Rightarrow> 0 | Some v \<Rightarrow> if v < x then 1 else 0)"
  using filter_update_length [OF assms, of "\<lambda>ph. case loaded ph of None \<Rightarrow> False | Some v \<Rightarrow> v < x" ph]
  unfolding pending_below_def by (cases "loaded (ths ! t)"; cases "loaded ph") (simp_all split: if_splits)

text \<open>The invariant: \<open>k\<close> bounds the counters; every threshold above the consumed count by a capacity
  leaves room for the increments the threads below it can still make.\<close>

definition pipe_inv :: "nat \<Rightarrow> nat \<Rightarrow> nat \<Rightarrow> nat \<Rightarrow> size_t \<Rightarrow> on_end_phase list \<times> signal_pipeline \<Rightarrow> bool" where
  "pipe_inv n k p c m st \<longleftrightarrow> (case st of (ths, s) \<Rightarrow>
     length ths = n \<and> current_instance s = Some p \<and>
     (\<exists>pv. processors s p = Some \<lparr>produced = pv, max_queue_size = m, counter = c\<rparr> \<and>
       unat pv \<le> k \<and> unat (consumed s c) \<le> k \<and>
       (\<forall>ph \<in> set ths. \<forall>b. seen_consumed ph = Some b \<longrightarrow> b \<le> unat (consumed s c)) \<and>
       (\<forall>x. unat (consumed s c) + unat m \<le> x \<longrightarrow> unat pv + pending_below x ths + 1 \<le> x + n)))"

lemma unat_add_small:
  fixes a :: uint64
  shows "unat a + unat b < 2 ^ 64 \<Longrightarrow> unat (a + b) = unat a + unat b"
  using unat_add_lem [of a b] by simp

lemma sint_small: "unat (a :: int64) < 2 ^ 63 \<Longrightarrow> sint a = int (unat a)"
proof -
  assume "unat a < 2 ^ 63"
  then have "uint a < int (2 ^ 63)"
    by (simp only: unat_eq_nat_uint nat_less_iff [OF uint_ge_0])
  then show ?thesis
    by (simp add: sint_uint signed_take_bit_int_eq_self uint_nat [symmetric] order_trans [OF _ uint_ge_0])
qed

lemma unat_Suc_small: "unat (a :: uint64) < 2 ^ 63 \<Longrightarrow> unat (a + 1) = Suc (unat a)"
  using unat_add_small [of a 1] by simp

lemma set_update_mem: "x \<in> set (xs[i := y]) \<Longrightarrow> x = y \<or> x \<in> set xs"
  using set_update_subset_insert by fastforce

lemma pipe_inv_exports:
  assumes "pipe_inv n k p c m st" "k + unat r < 2 ^ 63"
  shows "pipe_inv n (k + unat r) p c m (pipe_step p (Exports r success now) st)"
proof -
  obtain ths s where st: "st = (ths, s)" by fastforce
  obtain pv where i: "length ths = n" "current_instance s = Some p"
    "processors s p = Some \<lparr>produced = pv, max_queue_size = m, counter = c\<rparr>"
    "unat pv \<le> k" "unat (consumed s c) \<le> k"
    "\<forall>ph \<in> set ths. \<forall>b. seen_consumed ph = Some b \<longrightarrow> b \<le> unat (consumed s c)"
    "\<forall>x. unat (consumed s c) + unat m \<le> x \<longrightarrow> unat pv + pending_below x ths + 1 \<le> x + n"
    using assms(1) st by (auto simp: pipe_inv_def)
  have c: "unat (consumed s c + r) = unat (consumed s c) + unat r"
    using i(5) assms(2) by (intro unat_add_small) simp
  show ?thesis
    using i c by (auto simp: pipe_inv_def st otel_counting_span_exporter_Export_def Let_def intro: trans_le_add1)
qed

text \<open>A thread loads: it takes a new phase, in which what it saw is what is there.\<close>

lemma pipe_inv_load:
  assumes "pipe_inv n k p c m (ths, s)" "t < length ths"
    and "\<And>b. seen_consumed ph = Some b \<Longrightarrow> b = unat (consumed s c) \<or> seen_consumed (ths ! t) = Some b"
    and "\<And>a. loaded ph = Some a \<Longrightarrow> loaded (ths ! t) = None \<Longrightarrow> map_option (\<lambda>pr. unat (produced pr)) (processors s p) = Some a"
    and "loaded (ths ! t) = None \<or> loaded ph = loaded (ths ! t)"
  shows "pipe_inv n (Suc k) p c m (ths[t := ph], s)"
proof -
  obtain pv where i: "length ths = n" "current_instance s = Some p"
    "processors s p = Some \<lparr>produced = pv, max_queue_size = m, counter = c\<rparr>"
    "unat pv \<le> k" "unat (consumed s c) \<le> k"
    "\<forall>ph \<in> set ths. \<forall>b. seen_consumed ph = Some b \<longrightarrow> b \<le> unat (consumed s c)"
    "\<forall>x. unat (consumed s c) + unat m \<le> x \<longrightarrow> unat pv + pending_below x ths + 1 \<le> x + n"
    using assms(1) by (auto simp: pipe_inv_def)
  have "unat pv + pending_below x (ths[t := ph]) + 1 \<le> x + n" if "unat (consumed s c) + unat m \<le> x" for x
    using that i(1,3) i(7) [rule_format, of x] pending_update [OF assms(2), of x ph] pending_le [of x "ths[t := ph]"]
      assms(4,5) by (cases "unat pv < x"; cases "loaded ph"; cases "loaded (ths ! t)") (auto split: if_splits)
  moreover have "b \<le> unat (consumed s c)" if "ph' \<in> set (ths[t := ph])" "seen_consumed ph' = Some b" for ph' b
    using set_update_mem [OF that(1)] that(2) assms(2,3) i(6) nth_mem by (metis order_refl)
  ultimately show ?thesis using i by (auto simp: pipe_inv_def)
qed

lemma pipe_inv_ends:
  assumes "pipe_inv n k p c m st" "Suc k < 2 ^ 63" "m \<noteq> 0" "e = Ends t \<or> e = Ends_reordered t"
  shows "pipe_inv n (Suc k) p c m (pipe_step p e st)"
proof -
  obtain ths s where st: "st = (ths, s)" by fastforce
  let ?C = "unat (consumed s c)"
  note inv = assms(1) [unfolded st]
  obtain pv where i: "length ths = n" "current_instance s = Some p"
    "processors s p = Some \<lparr>produced = pv, max_queue_size = m, counter = c\<rparr>"
    "unat pv \<le> k" "?C \<le> k"
    "\<forall>ph \<in> set ths. \<forall>b. seen_consumed ph = Some b \<longrightarrow> b \<le> ?C"
    "\<forall>x. ?C + unat m \<le> x \<longrightarrow> unat pv + pending_below x ths + 1 \<le> x + n"
    using inv by (auto simp: pipe_inv_def)
  have m: "unat m > 0" using assms(3) by (simp add: unat_gt_0)
  show ?thesis
  proof (cases "t < length ths")
    case False
    then show ?thesis using i assms(4) by (auto simp: pipe_inv_def st)
  next
    case t: True
    note load = pipe_inv_load [OF inv t]
    show ?thesis
    proof (cases "ths ! t")
      case Idle
      have "pipe_inv n (Suc k) p c m (ths[t := Got_produced pv], s)"
        "pipe_inv n (Suc k) p c m (ths[t := Got_consumed (consumed s c)], s)"
        using Idle i(3) by (auto intro!: load)
      then show ?thesis using i(3) t Idle assms(4) by (auto simp: st on_end_reordered_def)
    next
      case (Got_produced a)
      have "pipe_inv n (Suc k) p c m (ths[t := Got_both a (consumed s c)], s)"
        using Got_produced by (auto intro!: load)
      then show ?thesis using i(3) t Got_produced assms(4) by (auto simp: st on_end_reordered_def)
    next
      case (Got_consumed b)
      have "pipe_inv n (Suc k) p c m (ths[t := Got_both pv b], s)"
        using Got_consumed i(3) by (auto intro!: load)
      then show ?thesis using i(3) t Got_consumed assms(4) by (auto simp: st on_end_reordered_def)
    next
      case (Got_both a b)
      have step: "pipe_step p e st = pipe_step p (Ends t) st"
        using assms(4) Got_both i(3) by (auto simp: st on_end_reordered_def)
      have b: "unat b \<le> ?C" using i(6) nth_mem [OF t] Got_both by simp
      have pend: "pending_below x (ths[t := Idle]) + (if unat a < x then 1 else 0) = pending_below x ths" for x
        using pending_update [OF t, of x Idle] Got_both by simp
      show ?thesis
      proof (cases "a > b \<and> a - b \<ge> m")
        case True
        have "unat pv + pending_below x (ths[t := Idle]) + 1 \<le> x + n" if "?C + unat m \<le> x" for x
          using that i(7) [rule_format, of x] pend [of x] by simp
        then show ?thesis
          unfolding step using True i t Got_both by (auto simp: pipe_inv_def st dest!: set_update_mem)
      next
        case False
        have "unat a < unat b + unat m"
          using False m by (auto simp: word_less_nat_alt word_le_nat_alt unat_sub_if' split: if_splits)
        then have low: "unat a < x" if "?C + unat m \<le> x" for x
          using that b by simp
        have "unat (pv + 1) = Suc (unat pv)"
          using i(4) assms(2) by (intro unat_Suc_small) simp
        moreover have "Suc (unat pv) + pending_below x (ths[t := Idle]) + 1 \<le> x + n" if "?C + unat m \<le> x" for x
          using that i(7) [rule_format, of x] pend [of x] low by simp
        ultimately show ?thesis
          unfolding step using False i t Got_both by (auto simp: pipe_inv_def st dest!: set_update_mem)
      qed
    qed
  qed
qed

lemma pipe_inv_run:
  assumes "pipe_inv n k p c m st" "k + sum_list (map pipe_cost es) < 2 ^ 63" "m \<noteq> 0"
  shows "pipe_inv n (k + sum_list (map pipe_cost es)) p c m (pipe_run p es st)"
  using assms
proof (induction es arbitrary: k st)
  case (Cons e es)
  have "pipe_inv n (k + pipe_cost e) p c m (pipe_step p e st)"
  proof (cases e)
    case (Ends t)
    then show ?thesis using Cons.prems pipe_inv_ends [of n k p c m st e t] by simp
  next
    case (Ends_reordered t)
    then show ?thesis using Cons.prems pipe_inv_ends [of n k p c m st e t] by simp
  next
    case (Exports r success now)
    then show ?thesis using Cons.prems pipe_inv_exports [of n k p c m st r success now] by simp
  qed
  from Cons.IH [OF this] Cons.prems show ?case
    by (simp add: pipe_run_def add.assoc)
qed (simp add: pipe_run_def)

text \<open>Meanwhile the counters only grow, \<open>produced\<close> by at most one in every step of a thread.\<close>

definition produced_of :: "nat \<Rightarrow> signal_pipeline \<Rightarrow> nat" where
  "produced_of p s = (case processors s p of None \<Rightarrow> 0 | Some pr \<Rightarrow> unat (produced pr))"

fun thread_steps :: "pipe_event list \<Rightarrow> nat" where
  "thread_steps [] = 0"
| "thread_steps (Exports _ _ _ # es) = thread_steps es"
| "thread_steps (_ # es) = Suc (thread_steps es)"

lemma thread_steps_cost: "thread_steps es \<le> sum_list (map pipe_cost es)"
  by (induction es rule: thread_steps.induct) auto

lemma step_grows:
  assumes "pipe_inv n k p c m st" "k + pipe_cost e < 2 ^ 63"
  shows "unat (consumed (snd st) c) \<le> unat (consumed (snd (pipe_step p e st)) c) \<and>
    produced_of p (snd (pipe_step p e st)) \<le> produced_of p (snd st) + thread_steps [e]"
proof -
  obtain ths s where st: "st = (ths, s)" by fastforce
  obtain pv where i: "processors s p = Some \<lparr>produced = pv, max_queue_size = m, counter = c\<rparr>"
    "unat pv \<le> k" "unat (consumed s c) \<le> k"
    using assms(1) st by (auto simp: pipe_inv_def)
  have small: "unat pv < 2 ^ 63" using i(2) assms(2) by simp
  have ends: "consumed (snd (on_end_step p ph s)) = consumed s" "consumed (snd (on_end_reordered p ph s)) = consumed s"
    "produced_of p (snd (on_end_step p ph s)) \<le> Suc (produced_of p s)"
    "produced_of p (snd (on_end_reordered p ph s)) \<le> Suc (produced_of p s)" for ph
    using i(1) unat_Suc_small [OF small] by (cases ph; simp add: on_end_reordered_def produced_of_def)+
  show ?thesis
  proof (cases e)
    case (Exports r success now)
    have "unat (consumed s c + r) = unat (consumed s c) + unat r"
      using i(3) assms(2) Exports by (intro unat_add_small) simp
    then show ?thesis
      using i Exports by (simp add: st otel_counting_span_exporter_Export_def Let_def produced_of_def)
  next
    case (Ends t)
    then show ?thesis
      using ends(1,3) [of "ths ! t"] by (cases "on_end_step p (ths ! t) s") (simp add: st del: on_end_step.simps)
  next
    case (Ends_reordered t)
    then show ?thesis
      using ends(2,4) [of "ths ! t"] by (cases "on_end_reordered p (ths ! t) s") (simp add: st)
  qed
qed

lemma run_grows:
  assumes "pipe_inv n k p c m st" "k + sum_list (map pipe_cost es) < 2 ^ 63" "m \<noteq> 0"
  shows "unat (consumed (snd st) c) \<le> unat (consumed (snd (pipe_run p es st)) c) \<and>
    produced_of p (snd (pipe_run p es st)) \<le> produced_of p (snd st) + thread_steps es"
  using assms
proof (induction es arbitrary: k st)
  case (Cons e es)
  have one: "pipe_inv n (k + pipe_cost e) p c m (pipe_step p e st)"
    using pipe_inv_run [OF Cons.prems(1), of "[e]"] Cons.prems(2,3) by (simp add: pipe_run_def)
  have "thread_steps (e # es) = thread_steps [e] + thread_steps es" by (cases e) simp_all
  then show ?case
    using step_grows [OF Cons.prems(1), of e] Cons.IH [OF one] Cons.prems by (simp add: pipe_run_def add.assoc)
qed (simp add: pipe_run_def)

lemma depth_bound:
  assumes "current_instance sp = Some p" "processors sp p = Some \<lparr>produced = pv, max_queue_size = m, counter = c\<rparr>"
    and "unat pv \<le> unat (consumed sc c) + b" "unat pv < 2 ^ 63"
  shows "0 \<le> sint (queue_depth_loads sp sc) \<and> sint (queue_depth_loads sp sc) \<le> int b"
proof -
  have u: "unat (queue_depth_loads sp sc) \<le> b" "unat (queue_depth_loads sp sc) \<le> unat pv"
    using assms(1-3) by (auto simp: queue_depth_loads_def Let_def word_less_nat_alt unat_sub_if')
  then have e: "sint (queue_depth_loads sp sc) = int (unat (queue_depth_loads sp sc))"
    using assms(4) by (intro sint_small) simp
  show ?thesis unfolding e using u(1) by (simp only: of_nat_0_le_iff of_nat_le_iff simp_thms)
qed

text \<open>
  C26: The reported queue depth is off by at most one record per racing thread.  \<open>n\<close> threads end
  spans on a fresh processor and interleave, step by atomic step, with each other, with exports and
  with a call of \<open>queue_depth\<close>, which makes its first load after the events \<open>es\<close> and its second after
  \<open>es'\<close> more.  As long as the counters do not overflow, the depth is never negative.  If \<open>produced\<close> is
  loaded first, as the code is written, it never reaches the capacity plus \<open>n\<close>, whatever happens
  between the loads; if the relaxed loads are swapped, it may exceed that by the steps the threads
  made between them, and by no more.
\<close>
theorem queue_depth_overshoot:
  assumes "m \<noteq> 0" "0 < n" "sum_list (map pipe_cost (es @ es')) < 2 ^ 63"
    and "pipe_run p es (replicate n Idle, otel_counting_span_processor_new p c m s0) = (ths, s)"
    and "pipe_run p es' (ths, s) = (ths', s')"
  shows "0 \<le> sint (queue_depth_loads s s') \<and> sint (queue_depth_loads s s') \<le> uint m + int n - 1 \<and>
    0 \<le> sint (queue_depth_loads s' s) \<and> sint (queue_depth_loads s' s) \<le> uint m + int n - 1 + int (thread_steps es') \<and>
    queue_capacity s = m"
proof -
  let ?k = "sum_list (map pipe_cost es)"
  have "pipe_inv n 0 p c m (replicate n Idle, otel_counting_span_processor_new p c m s0)"
    using assms(1,2) by (auto simp: pipe_inv_def otel_counting_span_processor_new_def unat_gt_0 Suc_le_eq pending_below_def)
  from pipe_inv_run [OF this, of es] assms have inv: "pipe_inv n ?k p c m (ths, s)" by simp
  from pipe_inv_run [OF inv, of es'] assms have inv': "pipe_inv n (?k + sum_list (map pipe_cost es')) p c m (ths', s')" by simp
  note grows = run_grows [OF inv, of es', unfolded assms(5) snd_conv]
  obtain pv where s: "current_instance s = Some p" "processors s p = Some \<lparr>produced = pv, max_queue_size = m, counter = c\<rparr>"
    "unat pv \<le> ?k" "unat pv + pending_below (unat (consumed s c) + unat m) ths + 1 \<le> unat (consumed s c) + unat m + n"
    using inv by (auto simp: pipe_inv_def)
  obtain pv' where s': "current_instance s' = Some p" "processors s' p = Some \<lparr>produced = pv', max_queue_size = m, counter = c\<rparr>"
    "unat pv' \<le> ?k + sum_list (map pipe_cost es')"
    using inv' by (auto simp: pipe_inv_def)
  have "unat pv \<le> unat (consumed s' c) + (unat m + n - 1)" "unat pv < 2 ^ 63" "unat pv' < 2 ^ 63"
    "unat pv' \<le> unat (consumed s c) + (unat m + n - 1 + thread_steps es')"
    using s s' grows assms(1-3) by (auto simp: produced_of_def)
  moreover have "queue_capacity s = m" using s by (simp add: queue_capacity_def)
  moreover have "int (unat m + n - 1) = uint m + int n - 1" using assms(2) by (simp add: of_nat_diff)
  ultimately show ?thesis
    using depth_bound [OF s(1,2)] depth_bound [OF s'(1,2)] by (metis of_nat_add)
qed

text \<open>Two threads that both see an empty queue of capacity 1 fill it to 2.\<close>

definition demo_pipeline :: signal_pipeline where
  "demo_pipeline = \<lparr>dropped_count = 0, exports = \<lparr>export_ok = 0, export_fail = 0, records_ok = 0, records_fail = 0,
     last_export_ms = 0\<rparr>, current_instance = None, processors = Map.empty, consumed = (\<lambda>_. 0)\<rparr>"

lemma queue_depth_overshoot_witness:
  "\<exists>ths s ths' s'. pipe_run 1 [Ends 0, Ends 1, Ends 0, Ends_reordered 1, Ends 0, Ends 1] (replicate 2 Idle,
      otel_counting_span_processor_new 1 9 1 demo_pipeline) = (ths, s) \<and>
     pipe_run 1 [Exports 1 True 5, Ends_reordered 0] (ths, s) = (ths', s') \<and>
     queue_depth s = 2 \<and> queue_depth_loads s s' = 1 \<and> sint (queue_depth_loads s s') \<le> 2"
proof -
  let ?st = "(replicate 2 Idle, otel_counting_span_processor_new 1 9 1 demo_pipeline)"
  let ?es = "[Ends 0, Ends 1, Ends 0, Ends_reordered 1, Ends 0, Ends 1]" and ?es' = "[Exports 1 True 5, Ends_reordered 0]"
  obtain ths s where r: "pipe_run 1 ?es ?st = (ths, s)" by fastforce
  obtain ths' s' where r': "pipe_run 1 ?es' (ths, s) = (ths', s')" by fastforce
  have "queue_depth (snd (pipe_run 1 ?es ?st)) = 2"
    "queue_depth_loads (snd (pipe_run 1 ?es ?st)) (snd (pipe_run 1 ?es' (pipe_run 1 ?es ?st))) = 1"
    by code_simp+
  then have "queue_depth s = 2" "queue_depth_loads s s' = 1" using r r' by simp_all
  moreover have "sint (queue_depth_loads s s') \<le> 2"
    using queue_depth_overshoot [OF _ _ _ r r'] by simp
  ultimately show ?thesis using r r' by blast
qed

section \<open>Sequential accounting\<close>

text \<open>What the counters approximate: a queue of bounded length that drops records when it is full, and
  from which an export takes some records.\<close>

datatype queue_event = Ended bool | Exported uint64 bool int64

record ideal_queue =
  iq_length :: nat
  iq_dropped :: nat

fun ideal_step :: "nat \<Rightarrow> queue_event \<Rightarrow> ideal_queue \<Rightarrow> ideal_queue" where
  "ideal_step cap (Ended is_null) q =
     (if is_null then q
      else if iq_length q \<ge> cap then q\<lparr>iq_dropped := Suc (iq_dropped q)\<rparr>
      else q\<lparr>iq_length := Suc (iq_length q)\<rparr>)"
| "ideal_step cap (Exported n _ _) q = q\<lparr>iq_length := iq_length q - unat n\<rparr>"

text \<open>An export only takes records that are in the queue.\<close>

fun exports_queued :: "nat \<Rightarrow> queue_event list \<Rightarrow> ideal_queue \<Rightarrow> bool" where
  "exports_queued cap [] q \<longleftrightarrow> True"
| "exports_queued cap (e # es) q \<longleftrightarrow>
     (case e of Ended _ \<Rightarrow> True | Exported n _ _ \<Rightarrow> unat n \<le> iq_length q) \<and> exports_queued cap es (ideal_step cap e q)"

fun queue_step :: "nat \<Rightarrow> nat \<Rightarrow> queue_event \<Rightarrow> signal_pipeline \<Rightarrow> signal_pipeline" where
  "queue_step p c (Ended is_null) s = otel_counting_span_processor_OnEnd p is_null s"
| "queue_step p c (Exported n success now) s = otel_counting_span_exporter_Export c n success now s"

definition queue_sim :: "nat \<Rightarrow> nat \<Rightarrow> nat \<Rightarrow> size_t \<Rightarrow> ideal_queue \<Rightarrow> signal_pipeline \<Rightarrow> bool" where
  "queue_sim k p c m q s \<longleftrightarrow> current_instance s = Some p \<and> iq_length q \<le> unat m \<and>
     (\<exists>pv. processors s p = Some \<lparr>produced = pv, max_queue_size = m, counter = c\<rparr> \<and> unat pv \<le> k \<and>
       unat pv = unat (consumed s c) + iq_length q) \<and>
     dropped_count s = of_nat (iq_dropped q)"

lemma queue_sim_step:
  assumes "queue_sim k p c m q s" "Suc k < 2 ^ 63" "m \<noteq> 0"
    and "case e of Ended _ \<Rightarrow> True | Exported n _ _ \<Rightarrow> unat n \<le> iq_length q"
  shows "queue_sim (Suc k) p c m (ideal_step (unat m) e q) (queue_step p c e s)"
proof -
  obtain pv where i: "current_instance s = Some p" "iq_length q \<le> unat m" "dropped_count s = of_nat (iq_dropped q)"
    "processors s p = Some \<lparr>produced = pv, max_queue_size = m, counter = c\<rparr>" "unat pv \<le> k"
    "unat pv = unat (consumed s c) + iq_length q"
    using assms(1) by (auto simp: queue_sim_def)
  show ?thesis
  proof (cases e)
    case (Exported n success now)
    have "unat (consumed s c + n) = unat (consumed s c) + unat n"
      using i(5,6) assms(2,4) Exported by (intro unat_add_small) simp
    then show ?thesis
      using i assms(4) Exported
      by (auto simp: queue_sim_def otel_counting_span_exporter_Export_def Let_def)
  next
    case (Ended b)
    have full: "pv > consumed s c \<and> pv - consumed s c \<ge> m \<longleftrightarrow> iq_length q \<ge> unat m"
      using i(6) assms(3) unat_gt_0 [of m] by (auto simp: word_less_nat_alt word_le_nat_alt unat_sub_if')
    have "unat (pv + 1) = Suc (unat pv)"
      using i(5) assms(2) by (intro unat_Suc_small) simp
    then show ?thesis
      using i full Ended by (auto simp: queue_sim_def otel_counting_span_processor_OnEnd_def)
  qed
qed

text \<open>
  C25: The counters are the queue.  When the records of a processor are ended and exported one call at
  a time, and exports take only what is queued, the reported depth is the length of a bounded queue
  that drops what does not fit, it never exceeds the capacity, and the drop counter counts exactly the
  records dropped; null records change nothing.
\<close>
theorem pipeline_counters_refine_queue:
  assumes "m \<noteq> 0" "unat m < 2 ^ 31" "length es < 2 ^ 62"
    and "exports_queued (unat m) es \<lparr>iq_length = 0, iq_dropped = 0\<rparr>"
    and "q = fold (ideal_step (unat m)) es \<lparr>iq_length = 0, iq_dropped = 0\<rparr>"
    and "s = fold (queue_step p c) es (otel_counting_span_processor_new p c m (s0\<lparr>dropped_count := 0\<rparr>))"
  shows "sint (queue_depth s) = int (iq_length q) \<and> iq_length q \<le> unat m \<and> unat (dropped_count s) = iq_dropped q"
proof -
  have run: "queue_sim (k + length es) p c m (fold (ideal_step (unat m)) es q0) (fold (queue_step p c) es s1) \<and>
      iq_dropped (fold (ideal_step (unat m)) es q0) \<le> iq_dropped q0 + length es"
    if "queue_sim k p c m q0 s1" "exports_queued (unat m) es q0" "k + length es < 2 ^ 63" for k q0 s1
    using that
  proof (induction es arbitrary: k q0 s1)
    case (Cons e es)
    from Cons.prems have "queue_sim (Suc k) p c m (ideal_step (unat m) e q0) (queue_step p c e s1)"
      using assms(1) by (intro queue_sim_step) auto
    note ih = Cons.IH [OF this]
    moreover have "iq_dropped (ideal_step (unat m) e q0) \<le> Suc (iq_dropped q0)" by (cases e) auto
    ultimately show ?case using Cons.prems by auto
  qed simp
  have "queue_sim 0 p c m \<lparr>iq_length = 0, iq_dropped = 0\<rparr> (otel_counting_span_processor_new p c m (s0\<lparr>dropped_count := 0\<rparr>))"
    by (simp add: queue_sim_def otel_counting_span_processor_new_def)
  from run [OF this assms(4)] assms(3,5,6) obtain pv where s: "current_instance s = Some p" "iq_length q \<le> unat m"
    "processors s p = Some \<lparr>produced = pv, max_queue_size = m, counter = c\<rparr>"
    "unat pv = unat (consumed s c) + iq_length q" "dropped_count s = of_nat (iq_dropped q)" "iq_dropped q \<le> length es"
    by (auto simp: queue_sim_def)
  have d: "unat (queue_depth s) = iq_length q"
    using s by (auto simp: queue_depth_def queue_depth_loads_def Let_def word_less_nat_alt unat_sub_if')
  then have "sint (queue_depth s) = int (unat (queue_depth s))"
    using s(2) assms(2) by (intro sint_small) simp
  moreover have "unat (dropped_count s) = iq_dropped q"
    using s(5,6) assms(3) by (simp add: unsigned_of_nat take_bit_nat_eq_self)
  ultimately show ?thesis using d s(2) by simp
qed

lemma pipeline_counters_refine_queue_witness:
  "sint (queue_depth (fold (queue_step 1 9) [Ended False, Ended False, Exported 1 True 5, Ended True]
     (otel_counting_span_processor_new 1 9 1 (demo_pipeline\<lparr>dropped_count := 0\<rparr>)))) = 0 \<and>
   dropped_count (fold (queue_step 1 9) [Ended False, Ended False, Exported 1 True 5, Ended True]
     (otel_counting_span_processor_new 1 9 1 (demo_pipeline\<lparr>dropped_count := 0\<rparr>))) = 1"
proof -
  let ?s = "fold (queue_step 1 9) [Ended False, Ended False, Exported 1 True 5, Ended True]
     (otel_counting_span_processor_new 1 9 1 (demo_pipeline\<lparr>dropped_count := 0\<rparr>))"
  have "unat (dropped_count ?s) = unat (1 :: uint64)" "sint (queue_depth ?s) = 0"
    using pipeline_counters_refine_queue [OF _ _ _ _ refl refl, of 1 "[Ended False, Ended False, Exported 1 True 5, Ended True]" 1 9 demo_pipeline]
    by simp_all
  then show ?thesis by (simp only: word_unat_eq_iff)
qed

end
