(* ===== verification/Otel_FileExporter.thy ===== *)
theory Otel_FileExporter
  imports Otel_Config "HOL-Library.Sublist"
begin

text \<open>
  The exporters the library writes itself (\<open>exporter.cpp\<close>, \<open>exporter.h\<close>): an SDK ostream exporter
  over a file stream of its own, which is opened in append mode once the pipeline is complete and
  emptied right before the pipeline replaces the old one.

  \<^item> The stream is its buffer and its two flags, as \<open>std::ofstream\<close> keeps them.  What the system
    does is the argument \<open>disk\<close>: whether an open or a truncation succeeds, how much of a write is
    accepted, and how much of the buffer a put pushes out early.
  \<^item> The wrapped SDK exporter is the argument \<open>inner_exporter\<close>: an operation on it sees whether the
    stream is usable and answers with what it does to the stream, its result and its new state.
  \<^item> A method holds the mutex of its exporter from its first to its last action, so a run is a
    sequence of whole methods, in any order and on any exporters.

  The theorems: what \<open>ForceFlush\<close> promises, and that a replaced pipeline leaves nothing behind in the
  file of its successor, unless bytes the system had refused are still in one of its streams when it
  is destroyed; \<open>Otel_Replacement\<close> joins this with what the starts of a signal call.
\<close>

section \<open>Streams and files\<close>

record disk =
  dk_open :: "nat \<Rightarrow> string \<Rightarrow> bool"
  dk_write :: "nat \<Rightarrow> nat \<Rightarrow> nat"
  dk_truncate :: "nat \<Rightarrow> string \<Rightarrow> bool"
  dk_spill :: "nat \<Rightarrow> nat"

record file_system =
  fs_data :: "string \<Rightarrow> string option"
  fs_calls :: nat

definition content :: "file_system \<Rightarrow> string \<Rightarrow> string" where
  "content fs f = (case fs_data fs f of None \<Rightarrow> [] | Some s \<Rightarrow> s)"

record stream =
  st_open :: bool
  st_bad :: bool
  st_buf :: string

datatype stream_op = Put string | Flush

text \<open>Hand the first \<open>n\<close> characters of the buffer to the system; what it does not take stays, and the stream is bad.\<close>

definition stream_write :: "disk \<Rightarrow> string \<Rightarrow> nat \<Rightarrow> stream \<times> file_system \<Rightarrow> stream \<times> file_system" where
  "stream_write dk f n = (\<lambda>(st, fs).
     let chunk = take n (st_buf st); taken = dk_write dk (fs_calls fs) (length chunk) in
     if chunk = [] then (st, fs)
     else (if taken < length chunk then st\<lparr>st_bad := True\<rparr> else st\<lparr>st_buf := drop n (st_buf st)\<rparr>,
           fs\<lparr>fs_data := (fs_data fs)(f \<mapsto> content fs f @ take taken chunk), fs_calls := Suc (fs_calls fs)\<rparr>))"

fun stream_step :: "disk \<Rightarrow> string \<Rightarrow> stream_op \<Rightarrow> stream \<times> file_system \<Rightarrow> stream \<times> file_system" where
  "stream_step dk f (Put s) (st, fs) =
     (if st_bad st \<or> s = [] then (st, fs)
      else if \<not> st_open st then (st\<lparr>st_bad := True\<rparr>, fs)
      else let buf = st_buf st @ s in stream_write dk f (dk_spill dk (length buf)) (st\<lparr>st_buf := buf\<rparr>, fs))"
| "stream_step dk f Flush (st, fs) =
     (if st_bad st \<or> \<not> st_open st then (st, fs) else stream_write dk f (length (st_buf st)) (st, fs))"

definition stream_open :: "disk \<Rightarrow> string \<Rightarrow> stream \<times> file_system \<Rightarrow> stream \<times> file_system" where
  "stream_open dk f = (\<lambda>(st, fs).
     if st_open st then (st\<lparr>st_bad := True\<rparr>, fs)
     else if dk_open dk (fs_calls fs) f
     then (st\<lparr>st_open := True, st_bad := False\<rparr>,
           fs\<lparr>fs_data := (fs_data fs)(f \<mapsto> content fs f), fs_calls := Suc (fs_calls fs)\<rparr>)
     else (st\<lparr>st_bad := True\<rparr>, fs\<lparr>fs_calls := Suc (fs_calls fs)\<rparr>))"

text \<open>The destruction of the stream closes it: what is still in the buffer is handed to the system once
  more, also when the stream is bad.\<close>

definition stream_close :: "disk \<Rightarrow> string \<Rightarrow> stream \<times> file_system \<Rightarrow> stream \<times> file_system" where
  "stream_close dk f = (\<lambda>(st, fs).
     if \<not> st_open st then (st, fs)
     else let (st', fs') = stream_write dk f (length (st_buf st)) (st, fs) in
       (st'\<lparr>st_open := False, st_buf := []\<rparr>, fs'))"

section \<open>The file exporter\<close>

record ('s, 'b) inner_exporter =
  ie_export :: "'b \<Rightarrow> bool \<Rightarrow> 's \<Rightarrow> stream_op list \<times> bool \<times> 's"
  ie_flush :: "nat \<Rightarrow> bool \<Rightarrow> 's \<Rightarrow> stream_op list \<times> bool \<times> 's"
  ie_shutdown :: "nat \<Rightarrow> bool \<Rightarrow> 's \<Rightarrow> stream_op list \<times> bool \<times> 's"
  ie_temporality :: "nat \<Rightarrow> nat"

record 's otel_file_exporter =
  fx_inner :: 's
  fx_file :: stream
  fx_filename :: string

definition otel_file_exporter_new :: "'s \<Rightarrow> string \<Rightarrow> 's otel_file_exporter" where
  "otel_file_exporter_new s filename =
     \<lparr>fx_inner = s, fx_file = \<lparr>st_open = False, st_bad = False, st_buf = []\<rparr>,
      fx_filename = snprintf_buf PATH_MAX filename\<rparr>"

definition otel_file_exporter_open ::
  "disk \<Rightarrow> 's otel_file_exporter \<times> file_system \<Rightarrow> bool \<times> 's otel_file_exporter \<times> file_system" where
  "otel_file_exporter_open dk = (\<lambda>(x, fs).
     let (st, fs') = stream_open dk (fx_filename x) (fx_file x, fs) in
     (st_open st, x\<lparr>fx_file := st\<rparr>, fs'))"

text \<open>\<open>truncate\<close> goes to the file, not to the stream; its failure is ignored.\<close>

definition otel_file_exporter_truncate ::
  "disk \<Rightarrow> 's otel_file_exporter \<times> file_system \<Rightarrow> 's otel_file_exporter \<times> file_system" where
  "otel_file_exporter_truncate dk = (\<lambda>(x, fs).
     (x, if fs_data fs (fx_filename x) \<noteq> None \<and> dk_truncate dk (fs_calls fs) (fx_filename x)
         then fs\<lparr>fs_data := (fs_data fs)(fx_filename x \<mapsto> []), fs_calls := Suc (fs_calls fs)\<rparr>
         else fs\<lparr>fs_calls := Suc (fs_calls fs)\<rparr>))"

text \<open>The destructor, which is the default one: of what it destroys only the stream acts on the file.\<close>

definition otel_file_exporter_destroy ::
  "disk \<Rightarrow> 's otel_file_exporter \<times> file_system \<Rightarrow> 's otel_file_exporter \<times> file_system" where
  "otel_file_exporter_destroy dk = (\<lambda>(x, fs).
     let (st, fs') = stream_close dk (fx_filename x) (fx_file x, fs) in (x\<lparr>fx_file := st\<rparr>, fs'))"

text \<open>A call of the wrapped exporter, which works on the stream of this one; the line after it flushes the stream.\<close>

definition with_inner ::
  "disk \<Rightarrow> (bool \<Rightarrow> 's \<Rightarrow> stream_op list \<times> bool \<times> 's) \<Rightarrow> 's otel_file_exporter \<times> file_system \<Rightarrow>
     bool \<times> 's otel_file_exporter \<times> file_system" where
  "with_inner dk operation = (\<lambda>(x, fs).
     let (acts, r, s) = operation (\<not> st_bad (fx_file x)) (fx_inner x);
         (st, fs') = fold (stream_step dk (fx_filename x)) acts (fx_file x, fs) in
     (r, x\<lparr>fx_inner := s, fx_file := st\<rparr>, fs'))"

definition file_flush ::
  "disk \<Rightarrow> 's otel_file_exporter \<times> file_system \<Rightarrow> 's otel_file_exporter \<times> file_system" where
  "file_flush dk = (\<lambda>(x, fs).
     let (st, fs') = stream_step dk (fx_filename x) Flush (fx_file x, fs) in (x\<lparr>fx_file := st\<rparr>, fs'))"

subsection \<open>Spans\<close>

definition otel_file_span_exporter_Export ::
  "disk \<Rightarrow> ('s, 'b) inner_exporter \<Rightarrow> 'b \<Rightarrow> 's otel_file_exporter \<times> file_system \<Rightarrow>
     bool \<times> 's otel_file_exporter \<times> file_system" where
  "otel_file_span_exporter_Export dk inner spans xf =
     (let (retval, xf') = with_inner dk (ie_export inner spans) xf in (retval, file_flush dk xf'))"

definition otel_file_span_exporter_ForceFlush ::
  "disk \<Rightarrow> ('s, 'b) inner_exporter \<Rightarrow> nat \<Rightarrow> 's otel_file_exporter \<times> file_system \<Rightarrow>
     bool \<times> 's otel_file_exporter \<times> file_system" where
  "otel_file_span_exporter_ForceFlush dk inner timeout xf =
     (let (retval, xf') = with_inner dk (ie_flush inner timeout) xf; xf'' = file_flush dk xf' in
      (retval \<and> \<not> st_bad (fx_file (fst xf'')), xf''))"

definition otel_file_span_exporter_Shutdown ::
  "disk \<Rightarrow> ('s, 'b) inner_exporter \<Rightarrow> nat \<Rightarrow> 's otel_file_exporter \<times> file_system \<Rightarrow>
     bool \<times> 's otel_file_exporter \<times> file_system" where
  "otel_file_span_exporter_Shutdown dk inner timeout xf =
     (let (retval, xf') = with_inner dk (ie_shutdown inner timeout) xf in (retval, file_flush dk xf'))"

subsection \<open>Metrics\<close>

definition otel_file_metric_exporter_Export ::
  "disk \<Rightarrow> ('s, 'b) inner_exporter \<Rightarrow> 'b \<Rightarrow> 's otel_file_exporter \<times> file_system \<Rightarrow>
     bool \<times> 's otel_file_exporter \<times> file_system" where
  "otel_file_metric_exporter_Export dk inner data xf =
     (let (retval, xf') = with_inner dk (ie_export inner data) xf in (retval, file_flush dk xf'))"

definition otel_file_metric_exporter_GetAggregationTemporality :: "('s, 'b) inner_exporter \<Rightarrow> nat \<Rightarrow> nat" where
  "otel_file_metric_exporter_GetAggregationTemporality inner instrument_type = ie_temporality inner instrument_type"

definition otel_file_metric_exporter_ForceFlush ::
  "disk \<Rightarrow> ('s, 'b) inner_exporter \<Rightarrow> nat \<Rightarrow> 's otel_file_exporter \<times> file_system \<Rightarrow>
     bool \<times> 's otel_file_exporter \<times> file_system" where
  "otel_file_metric_exporter_ForceFlush dk inner timeout xf =
     (let (retval, xf') = with_inner dk (ie_flush inner timeout) xf; xf'' = file_flush dk xf' in
      (retval \<and> \<not> st_bad (fx_file (fst xf'')), xf''))"

definition otel_file_metric_exporter_Shutdown ::
  "disk \<Rightarrow> ('s, 'b) inner_exporter \<Rightarrow> nat \<Rightarrow> 's otel_file_exporter \<times> file_system \<Rightarrow>
     bool \<times> 's otel_file_exporter \<times> file_system" where
  "otel_file_metric_exporter_Shutdown dk inner timeout xf =
     (let (retval, xf') = with_inner dk (ie_shutdown inner timeout) xf in (retval, file_flush dk xf'))"

subsection \<open>Log records\<close>

definition otel_file_log_exporter_Export ::
  "disk \<Rightarrow> ('s, 'b) inner_exporter \<Rightarrow> 'b \<Rightarrow> 's otel_file_exporter \<times> file_system \<Rightarrow>
     bool \<times> 's otel_file_exporter \<times> file_system" where
  "otel_file_log_exporter_Export dk inner records xf =
     (let (retval, xf') = with_inner dk (ie_export inner records) xf in (retval, file_flush dk xf'))"

definition otel_file_log_exporter_ForceFlush ::
  "disk \<Rightarrow> ('s, 'b) inner_exporter \<Rightarrow> nat \<Rightarrow> 's otel_file_exporter \<times> file_system \<Rightarrow>
     bool \<times> 's otel_file_exporter \<times> file_system" where
  "otel_file_log_exporter_ForceFlush dk inner timeout xf =
     (let (retval, xf') = with_inner dk (ie_flush inner timeout) xf; xf'' = file_flush dk xf' in
      (retval \<and> \<not> st_bad (fx_file (fst xf'')), xf''))"

definition otel_file_log_exporter_Shutdown ::
  "disk \<Rightarrow> ('s, 'b) inner_exporter \<Rightarrow> nat \<Rightarrow> 's otel_file_exporter \<times> file_system \<Rightarrow>
     bool \<times> 's otel_file_exporter \<times> file_system" where
  "otel_file_log_exporter_Shutdown dk inner timeout xf =
     (let (retval, xf') = with_inner dk (ie_shutdown inner timeout) xf in (retval, file_flush dk xf'))"

lemmas file_method_defs =
  otel_file_span_exporter_Export_def otel_file_span_exporter_ForceFlush_def otel_file_span_exporter_Shutdown_def
  otel_file_metric_exporter_Export_def otel_file_metric_exporter_ForceFlush_def otel_file_metric_exporter_Shutdown_def
  otel_file_log_exporter_Export_def otel_file_log_exporter_ForceFlush_def otel_file_log_exporter_Shutdown_def

section \<open>Runs\<close>

datatype signal_class = Span_exporter | Metric_exporter | Log_exporter

datatype 'b file_call = Open_file | Truncate_file | Close_file | Export_batch 'b | Force_flush nat | Shut_down nat

fun file_call_run ::
  "disk \<Rightarrow> ('s, 'b) inner_exporter \<Rightarrow> signal_class \<Rightarrow> 'b file_call \<Rightarrow> 's otel_file_exporter \<times> file_system \<Rightarrow>
     bool \<times> 's otel_file_exporter \<times> file_system" where
  "file_call_run dk inner k Open_file xf = otel_file_exporter_open dk xf"
| "file_call_run dk inner k Truncate_file xf = (True, otel_file_exporter_truncate dk xf)"
| "file_call_run dk inner k Close_file xf = (True, otel_file_exporter_destroy dk xf)"
| "file_call_run dk inner k (Export_batch b) xf =
     (case k of Span_exporter \<Rightarrow> otel_file_span_exporter_Export dk inner b xf
      | Metric_exporter \<Rightarrow> otel_file_metric_exporter_Export dk inner b xf
      | Log_exporter \<Rightarrow> otel_file_log_exporter_Export dk inner b xf)"
| "file_call_run dk inner k (Force_flush t) xf =
     (case k of Span_exporter \<Rightarrow> otel_file_span_exporter_ForceFlush dk inner t xf
      | Metric_exporter \<Rightarrow> otel_file_metric_exporter_ForceFlush dk inner t xf
      | Log_exporter \<Rightarrow> otel_file_log_exporter_ForceFlush dk inner t xf)"
| "file_call_run dk inner k (Shut_down t) xf =
     (case k of Span_exporter \<Rightarrow> otel_file_span_exporter_Shutdown dk inner t xf
      | Metric_exporter \<Rightarrow> otel_file_metric_exporter_Shutdown dk inner t xf
      | Log_exporter \<Rightarrow> otel_file_log_exporter_Shutdown dk inner t xf)"

text \<open>Several exporters, of any classes, over one file system; a run names the exporter of every call.\<close>

type_synonym 's file_world = "(nat \<Rightarrow> 's otel_file_exporter) \<times> file_system"

definition world_call ::
  "disk \<Rightarrow> (nat \<Rightarrow> ('s, 'b) inner_exporter) \<Rightarrow> (nat \<Rightarrow> signal_class) \<Rightarrow> nat \<times> 'b file_call \<Rightarrow>
     's file_world \<Rightarrow> bool \<times> 's file_world" where
  "world_call dk inner kinds = (\<lambda>(i, c) (xs, fs).
     let (r, x, fs') = file_call_run dk (inner i) (kinds i) c (xs i, fs) in (r, xs(i := x), fs'))"

definition world_run ::
  "disk \<Rightarrow> (nat \<Rightarrow> ('s, 'b) inner_exporter) \<Rightarrow> (nat \<Rightarrow> signal_class) \<Rightarrow> (nat \<times> 'b file_call) list \<Rightarrow>
     's file_world \<Rightarrow> 's file_world" where
  "world_run dk inner kinds cs w = fold (\<lambda>c w. snd (world_call dk inner kinds c w)) cs w"

section \<open>What reaches the file\<close>

fun act_text :: "stream_op \<Rightarrow> string" where
  "act_text (Put s) = s"
| "act_text Flush = []"

abbreviation acts_text :: "stream_op list \<Rightarrow> string" where
  "acts_text acts \<equiv> concat (map act_text acts)"

text \<open>
  \<open>delivered f t\<close> relates the stream of file \<open>f\<close> and the disk before and after \<open>t\<close> was put: what is
  on the disk only grows, by what was buffered and put, in order; as long as the stream is good the
  rest is in the buffer; a bad stream writes no more.
\<close>

definition delivered :: "string \<Rightarrow> string \<Rightarrow> stream \<times> file_system \<Rightarrow> stream \<times> file_system \<Rightarrow> bool" where
  "delivered f t = (\<lambda>(st, fs) (st', fs').
     st_open st' = st_open st \<and>
     prefix (content fs f) (content fs' f) \<and> prefix (content fs' f) (content fs f @ st_buf st @ t) \<and>
     (if st_bad st then st_bad st' \<and> content fs' f = content fs f
      else \<not> st_bad st' \<longrightarrow> content fs' f @ st_buf st' = content fs f @ st_buf st @ t) \<and>
     (\<not> st_open st \<longrightarrow> st_buf st' = st_buf st))"

definition tidy :: "stream \<Rightarrow> bool" where
  "tidy st \<longleftrightarrow> (\<not> st_open st \<longrightarrow> st_buf st = []) \<and> (st_bad st \<or> st_buf st = [])"

lemma content_update [simp]:
  "content (fs\<lparr>fs_data := (fs_data fs)(f \<mapsto> s), fs_calls := n\<rparr>) g = (if g = f then s else content fs g)"
  by (simp add: content_def)

lemma stream_write_cases:
  obtains chunk rest where "st_buf st = chunk @ rest" "rest = drop n (st_buf st)"
    "stream_write dk f n (st, fs) =
      (if chunk = [] then (st, fs)
       else (if dk_write dk (fs_calls fs) (length chunk) < length chunk then st\<lparr>st_bad := True\<rparr>
             else st\<lparr>st_buf := rest\<rparr>,
             fs\<lparr>fs_data := (fs_data fs)(f \<mapsto> content fs f @ take (dk_write dk (fs_calls fs) (length chunk)) chunk),
               fs_calls := Suc (fs_calls fs)\<rparr>))"
  by (rule that [of "take n (st_buf st)" "drop n (st_buf st)"]) (simp_all add: stream_write_def Let_def)

lemma stream_write_delivered:
  assumes "\<not> st_bad st" "st_open st"
  shows "delivered f [] (st, fs) (stream_write dk f n (st, fs))"
proof -
  obtain chunk rest where c: "st_buf st = chunk @ rest"
    "stream_write dk f n (st, fs) =
      (if chunk = [] then (st, fs)
       else (if dk_write dk (fs_calls fs) (length chunk) < length chunk then st\<lparr>st_bad := True\<rparr>
             else st\<lparr>st_buf := rest\<rparr>,
             fs\<lparr>fs_data := (fs_data fs)(f \<mapsto> content fs f @ take (dk_write dk (fs_calls fs) (length chunk)) chunk),
               fs_calls := Suc (fs_calls fs)\<rparr>))"
    by (rule stream_write_cases [of st n dk f fs])
  have p: "prefix (take m chunk) (chunk @ rest)" for m by (metis append_take_drop_id append_assoc prefixI)
  show ?thesis using assms p unfolding c(2) by (simp add: delivered_def c(1))
qed

lemma stream_write_all:
  assumes "\<not> st_bad st"
  shows "st_bad (fst (stream_write dk f (length (st_buf st)) (st, fs))) \<or>
    st_buf (fst (stream_write dk f (length (st_buf st)) (st, fs))) = []"
  using assms by (auto simp: stream_write_def Let_def)

lemma delivered_trans:
  assumes "delivered f t a b" "delivered f u b c"
  shows "delivered f (t @ u) a c"
proof -
  obtain st fs st1 fs1 st2 fs2 where abc: "a = (st, fs)" "b = (st1, fs1)" "c = (st2, fs2)"
    by (cases a, cases b, cases c) auto
  note d = assms [unfolded abc delivered_def split]
  have "prefix (content fs2 f) (content fs f @ st_buf st @ t @ u)"
  proof (cases "st_bad st1")
    case True
    then show ?thesis using d by (metis append_assoc prefix_append)
  next
    case False
    then have "content fs1 f @ st_buf st1 = content fs f @ st_buf st @ t" using d(1) by meson
    then show ?thesis using d(2) by (metis append_assoc)
  qed
  then show ?thesis
    unfolding abc delivered_def split using d by (auto split: if_splits intro: prefix_order.trans)
qed

lemma delivered_refl: "delivered f [] (st, fs) (st, fs)"
  by (simp add: delivered_def)

lemma stream_step_delivered: "delivered f (act_text a) (st, fs) (stream_step dk f a (st, fs))"
proof (cases a)
  case (Put s)
  consider "st_bad st \<or> s = []" | "\<not> st_bad st" "s \<noteq> []" "\<not> st_open st"
    | "\<not> st_bad st" "s \<noteq> []" "st_open st" by blast
  then show ?thesis
  proof cases
    case 3
    have "delivered f s (st, fs) (st\<lparr>st_buf := st_buf st @ s\<rparr>, fs)" using 3 by (simp add: delivered_def)
    then show ?thesis
      using delivered_trans [OF _ stream_write_delivered, of f s "(st, fs)" "st\<lparr>st_buf := st_buf st @ s\<rparr>" fs] 3 Put
      by (simp add: Let_def)
  qed (auto simp: Put delivered_def)
next
  case Flush
  then show ?thesis using stream_write_delivered delivered_refl by simp
qed

lemma stream_fold_delivered: "delivered f (acts_text acts) a (fold (stream_step dk f) acts a)"
proof (induction acts arbitrary: a)
  case Nil
  show ?case by (cases a) (simp add: delivered_refl)
next
  case (Cons x acts)
  have "delivered f (act_text x) a (stream_step dk f x a)" by (cases a) (simp add: stream_step_delivered)
  then show ?case using delivered_trans Cons.IH [of "stream_step dk f x a"] by fastforce
qed

lemma stream_flush_tidy:
  assumes "st_open st \<or> st_buf st = []"
  shows "tidy (fst (stream_step dk f Flush (st, fs)))"
proof -
  have d: "delivered f [] (st, fs) (stream_step dk f Flush (st, fs))"
    using stream_step_delivered [of f Flush] by simp
  show ?thesis
  proof (cases "st_bad st \<or> \<not> st_open st")
    case True
    then show ?thesis using assms by (auto simp: tidy_def)
  next
    case False
    then show ?thesis
      using stream_write_all [of st dk f fs] d by (auto simp: tidy_def delivered_def split: prod.splits)
  qed
qed

section \<open>Calls and runs\<close>

definition call_acts :: "('s, 'b) inner_exporter \<Rightarrow> 'b file_call \<Rightarrow> bool \<Rightarrow> 's \<Rightarrow> stream_op list \<times> bool \<times> 's" where
  "call_acts inner c = (case c of
       Export_batch b \<Rightarrow> ie_export inner b
     | Force_flush t \<Rightarrow> ie_flush inner t
     | Shut_down t \<Rightarrow> ie_shutdown inner t
     | _ \<Rightarrow> (\<lambda>_ s. ([], True, s)))"

text \<open>What an exporter puts into a good stream when it is called in this order, and its state after.\<close>

fun emitted :: "('s, 'b) inner_exporter \<Rightarrow> 's \<Rightarrow> 'b file_call list \<Rightarrow> string" where
  "emitted inner s [] = []"
| "emitted inner s (c # cs) =
     acts_text (fst (call_acts inner c True s)) @ emitted inner (snd (snd (call_acts inner c True s))) cs"

definition inner_after :: "('s, 'b) inner_exporter \<Rightarrow> 's \<Rightarrow> 'b file_call list \<Rightarrow> 's" where
  "inner_after inner s cs = fold (\<lambda>c s. snd (snd (call_acts inner c True s))) cs s"

abbreviation stream_call :: "'b file_call \<Rightarrow> bool" where
  "stream_call c \<equiv> c \<noteq> Open_file \<and> c \<noteq> Truncate_file \<and> c \<noteq> Close_file"

text \<open>What may happen at any time after the start: the methods, called by the worker threads, and the
  destruction, which comes with the last reference to the exporter.\<close>

abbreviation worker_call :: "'b file_call \<Rightarrow> bool" where
  "worker_call c \<equiv> c \<noteq> Open_file \<and> c \<noteq> Truncate_file"

lemma file_call_data:
  assumes "stream_call c" "file_call_run dk inner k c (x, fs) = (r, x', fs')"
    and "call_acts inner c (\<not> st_bad (fx_file x)) (fx_inner x) = (acts, r0, s)"
  shows "(fx_file x', fs') = stream_step dk (fx_filename x) Flush
      (fold (stream_step dk (fx_filename x)) acts (fx_file x, fs))"
    and "fx_inner x' = s" "fx_filename x' = fx_filename x"
    and "r = (case c of Force_flush t \<Rightarrow> r0 \<and> \<not> st_bad (fx_file x') | _ \<Rightarrow> r0)"
  using assms by (cases c; cases k;
      auto simp: file_method_defs call_acts_def with_inner_def file_flush_def Let_def split: prod.splits)+

lemma file_call_delivered:
  assumes "stream_call c" "file_call_run dk inner k c (x, fs) = (r, x', fs')"
  shows "delivered (fx_filename x) (acts_text (fst (call_acts inner c (\<not> st_bad (fx_file x)) (fx_inner x))))
      (fx_file x, fs) (fx_file x', fs')"
    and "tidy (fx_file x) \<Longrightarrow> tidy (fx_file x')"
proof -
  obtain acts r0 s where a: "call_acts inner c (\<not> st_bad (fx_file x)) (fx_inner x) = (acts, r0, s)"
    by (metis surj_pair)
  obtain st1 fs1 where m: "fold (stream_step dk (fx_filename x)) acts (fx_file x, fs) = (st1, fs1)" by fastforce
  have d1: "delivered (fx_filename x) (acts_text acts) (fx_file x, fs) (st1, fs1)"
    using stream_fold_delivered [of "fx_filename x" acts "(fx_file x, fs)" dk] m by simp
  have e: "(fx_file x', fs') = stream_step dk (fx_filename x) Flush (st1, fs1)"
    using file_call_data(1) [OF assms a] m by simp
  have d2: "delivered (fx_filename x) [] (st1, fs1) (fx_file x', fs')"
    using stream_step_delivered [of "fx_filename x" Flush st1 fs1 dk] e by simp
  show "delivered (fx_filename x) (acts_text (fst (call_acts inner c (\<not> st_bad (fx_file x)) (fx_inner x))))
      (fx_file x, fs) (fx_file x', fs')"
    using delivered_trans [OF d1 d2] a by simp
  assume t: "tidy (fx_file x)"
  then have "st_open st1 \<or> st_buf st1 = []" using d1 by (auto simp: delivered_def tidy_def)
  then show "tidy (fx_file x')" using stream_flush_tidy [of st1 dk "fx_filename x" fs1] e by (metis fst_conv)
qed

text \<open>
  The contract of the wrapped exporters: one that was shut down stays down, whatever is called, and
  puts nothing more.
\<close>

definition silent_when_down :: "('s, 'b) inner_exporter \<Rightarrow> ('s \<Rightarrow> bool) \<Rightarrow> bool" where
  "silent_when_down inner down \<longleftrightarrow>
     (\<forall>t g s. down (snd (snd (ie_shutdown inner t g s)))) \<and>
     (\<forall>c g s. down s \<longrightarrow> acts_text (fst (call_acts inner c g s)) = [] \<and> down (snd (snd (call_acts inner c g s))))"

text \<open>No other exporter has anything left for the file.\<close>

definition only_writer ::
  "(nat \<Rightarrow> 's \<Rightarrow> bool) \<Rightarrow> nat \<Rightarrow> string \<Rightarrow> 's file_world \<Rightarrow> bool" where
  "only_writer down i f w \<longleftrightarrow>
     (\<forall>j. j \<noteq> i \<and> fx_filename (fst w j) = f \<longrightarrow> down j (fx_inner (fst w j)) \<and> tidy (fx_file (fst w j)))"

text \<open>No call opens or empties the file.\<close>

definition spares :: "string \<Rightarrow> 's file_world \<Rightarrow> (nat \<times> 'b file_call) list \<Rightarrow> bool" where
  "spares f w cs \<longleftrightarrow> (\<forall>(j, c) \<in> set cs. worker_call c \<or> fx_filename (fst w j) \<noteq> f)"

text \<open>The exporters of the file, other than \<open>i\<close>, that are destroyed have nothing in their streams.\<close>

definition closes_empty :: "nat \<Rightarrow> string \<Rightarrow> 's file_world \<Rightarrow> (nat \<times> 'b file_call) list \<Rightarrow> bool" where
  "closes_empty i f w cs \<longleftrightarrow> (\<forall>j. j \<noteq> i \<and> fx_filename (fst w j) = f \<and> (j, Close_file) \<in> set cs \<longrightarrow>
     st_buf (fx_file (fst w j)) = [])"

definition calls_of :: "nat \<Rightarrow> (nat \<times> 'b file_call) list \<Rightarrow> 'b file_call list" where
  "calls_of i cs = map snd (filter (\<lambda>c. fst c = i) cs)"

lemma calls_of_simps [simp]:
  "calls_of i [] = []"
  "calls_of i ((j, c) # cs) = (if j = i then c # calls_of i cs else calls_of i cs)"
  "calls_of i (cs @ ds) = calls_of i cs @ calls_of i ds"
  by (simp_all add: calls_of_def)

lemma world_run_simps [simp]:
  "world_run dk inner kinds [] w = w"
  "world_run dk inner kinds (c # cs) w = world_run dk inner kinds cs (snd (world_call dk inner kinds c w))"
  "world_run dk inner kinds (cs @ ds) w = world_run dk inner kinds ds (world_run dk inner kinds cs w)"
  by (simp_all add: world_run_def)

lemma file_call_filename: "file_call_run dk inner k c (x, fs) = (r, x', fs') \<Longrightarrow> fx_filename x' = fx_filename x"
  by (cases c; cases k; auto simp: file_method_defs with_inner_def file_flush_def otel_file_exporter_open_def
      otel_file_exporter_truncate_def otel_file_exporter_destroy_def Let_def split: prod.splits)

lemma world_call_filename: "fx_filename (fst (snd (world_call dk inner kinds c w)) j) = fx_filename (fst w j)"
  by (cases c; cases w) (auto simp: world_call_def dest: file_call_filename split: prod.splits)

lemma world_run_filename [simp]: "fx_filename (fst (world_run dk inner kinds cs w) j) = fx_filename (fst w j)"
  by (induction cs arbitrary: w) (simp_all add: world_call_filename)

lemma stream_step_other: "g \<noteq> f \<Longrightarrow> fs_data (snd (stream_step dk f a (st, fs))) g = fs_data fs g"
  by (cases a) (auto simp: stream_write_def Let_def)

lemma stream_close_other: "g \<noteq> f \<Longrightarrow> content (snd (stream_close dk f (st, fs))) g = content fs g"
  by (auto simp: stream_close_def stream_write_def content_def Let_def)

text \<open>A stream with an empty buffer into which nothing is put stays as it is, and closing it writes nothing.\<close>

lemma stream_fold_empty:
  "acts_text acts = [] \<Longrightarrow> st_buf st = [] \<Longrightarrow> fold (stream_step dk f) acts (st, fs) = (st, fs)"
proof (induction acts)
  case (Cons a acts)
  then have "stream_step dk f a (st, fs) = (st, fs)"
    by (cases a) (simp_all add: stream_write_def Let_def)
  then show ?case using Cons by simp
qed simp

lemma stream_close_empty: "st_buf st = [] \<Longrightarrow> stream_close dk f (st, fs) = (st\<lparr>st_open := False, st_buf := []\<rparr>, fs)"
  by (auto simp: stream_close_def stream_write_def Let_def)

lemma stream_fold_other: "g \<noteq> f \<Longrightarrow> fs_data (snd (fold (stream_step dk f) acts a)) g = fs_data (snd a) g"
proof (induction acts arbitrary: a)
  case (Cons x acts)
  then show ?case using stream_step_other [of g f dk x "fst a" "snd a"] by simp
qed simp

lemma file_call_other:
  assumes "file_call_run dk inner k c (x, fs) = (r, x', fs')" "g \<noteq> fx_filename x"
  shows "content fs' g = content fs g"
proof (cases "stream_call c")
  case False
  then show ?thesis
    using assms stream_close_other [OF assms(2), of dk "fx_file x" fs]
    by (cases c) (auto simp: otel_file_exporter_open_def otel_file_exporter_truncate_def otel_file_exporter_destroy_def
        stream_open_def content_def Let_def split: if_splits prod.splits)
next
  case True
  obtain acts r0 s where a: "call_acts inner c (\<not> st_bad (fx_file x)) (fx_inner x) = (acts, r0, s)"
    by (metis surj_pair)
  show ?thesis
    using file_call_data(1) [OF True assms(1) a] stream_fold_other [OF assms(2), of dk acts "(fx_file x, fs)"]
      stream_step_other [OF assms(2), of dk Flush]
    by (metis content_def prod.collapse snd_conv)
qed

lemma delivered_bad: "st_bad st \<Longrightarrow> delivered f t (st, fs) b \<Longrightarrow> delivered f u (st, fs) b"
  by (auto simp: delivered_def split: prod.splits)

lemma other_call_silent:
  assumes "worker_call c \<or> fx_filename (fst w j) \<noteq> f" "j \<noteq> i" "silent_when_down (inner j) (down j)"
    and "only_writer down i f w" "closes_empty i f w ((j, c) # cs)"
    and "world_call dk inner kinds (j, c) w = (r, w')"
  shows "content (snd w') f = content (snd w) f" "fst w' i = fst w i" "only_writer down i f w'" "closes_empty i f w' cs"
proof -
  obtain xs fs where w: "w = (xs, fs)" by (cases w)
  obtain x' fs' where run: "file_call_run dk (inner j) (kinds j) c (xs j, fs) = (r, x', fs')" "w' = (xs(j := x'), fs')"
    using assms(6) w by (auto simp: world_call_def split: prod.splits)
  have name: "fx_filename x' = fx_filename (xs j)" using file_call_filename [OF run(1)] .
  obtain acts r0 s where a: "call_acts (inner j) c (\<not> st_bad (fx_file (xs j))) (fx_inner (xs j)) = (acts, r0, s)"
    by (metis surj_pair)
  show "fst w' i = fst w i" using run(2) w assms(2) by simp
  have down: "down j (fx_inner (xs j)) \<and> tidy (fx_file (xs j))" if "fx_filename (xs j) = f"
    using assms(2,4) that w by (simp add: only_writer_def)
  have silent: "acts_text acts = [] \<and> down j s" if "fx_filename (xs j) = f"
    using assms(3) down [OF that] a unfolding silent_when_down_def by (metis fst_conv snd_conv)
  have closed: "fx_file x' = (fx_file (xs j))\<lparr>st_open := False, st_buf := []\<rparr> \<and> fs' = fs \<and> fx_inner x' = fx_inner (xs j)"
    if "c = Close_file" "fx_filename (xs j) = f"
    using that run(1) assms(2,5) w stream_close_empty [of "fx_file (xs j)" dk f fs]
    by (auto simp: closes_empty_def otel_file_exporter_destroy_def split: prod.splits)
  have still: "st_buf (fx_file x') = []" if "fx_filename (xs j) = f" "st_buf (fx_file (xs j)) = []"
  proof (cases "c = Close_file")
    case False
    then have c: "stream_call c" using assms(1) that w by simp
    have "(fx_file x', fs') = fold (stream_step dk f) (acts @ [Flush]) (fx_file (xs j), fs)"
      using file_call_data(1) [OF c run(1) a] that by simp
    then show ?thesis
      using stream_fold_empty [of "acts @ [Flush]" "fx_file (xs j)" dk f fs] silent [OF that(1)] that(2) by simp
  qed (use closed that in simp)
  show "content (snd w') f = content (snd w) f"
  proof (cases "fx_filename (xs j) = f")
    case True
    show ?thesis
    proof (cases "c = Close_file")
      case False
      then have "stream_call c" using assms(1) True w by simp
      then have "delivered f [] (fx_file (xs j), fs) (fx_file x', fs')"
        using file_call_delivered(1) [OF _ run(1)] a silent [OF True] True by simp
      then have "prefix (content fs f) (content fs' f) \<and> prefix (content fs' f) (content fs f)"
        using down [OF True] by (auto simp: delivered_def tidy_def)
      then show ?thesis using run(2) w by (simp add: prefix_order.eq_iff)
    qed (use closed True run(2) w in simp)
  next
    case False
    then show ?thesis using file_call_other [OF run(1), of f] run(2) w by simp
  qed
  show "only_writer down i f w'"
    unfolding only_writer_def
  proof (intro allI impI)
    fix l assume l: "l \<noteq> i \<and> fx_filename (fst w' l) = f"
    show "down l (fx_inner (fst w' l)) \<and> tidy (fx_file (fst w' l))"
    proof (cases "l = j")
      case True
      then have n: "fx_filename (xs j) = f" using l run(2) name by simp
      show ?thesis
      proof (cases "c = Close_file")
        case False
        then have "stream_call c" using assms(1) n w by simp
        then show ?thesis
          using True run(2) down [OF n] silent [OF n] file_call_data(2) [OF _ run(1) a]
            file_call_delivered(2) [OF _ run(1)] by simp
      next
        case closing: True
        then show ?thesis using True run(2) down [OF n] closed [OF closing n] by (simp add: tidy_def)
      qed
    next
      case False
      then show ?thesis using l run(2) assms(4) w by (simp add: only_writer_def)
    qed
  qed
  show "closes_empty i f w' cs"
    using assms(5) still w run(2) name by (auto simp: closes_empty_def)
qed

lemma own_call_delivered:
  assumes "stream_call c" "only_writer down i f w" "fx_filename (fst w i) = f"
    and "world_call dk inner kinds (i, c) w = (r, w')"
  shows "delivered f (acts_text (fst (call_acts (inner i) c True (fx_inner (fst w i)))))
      (fx_file (fst w i), snd w) (fx_file (fst w' i), snd w')"
    and "tidy (fx_file (fst w i)) \<Longrightarrow> tidy (fx_file (fst w' i))" "only_writer down i f w'"
    and "\<not> st_bad (fx_file (fst w i)) \<Longrightarrow> fx_inner (fst w' i) = snd (snd (call_acts (inner i) c True (fx_inner (fst w i))))"
proof -
  obtain xs fs where w: "w = (xs, fs)" by (cases w)
  obtain x' fs' where run: "file_call_run dk (inner i) (kinds i) c (xs i, fs) = (r, x', fs')" "w' = (xs(i := x'), fs')"
    using assms(4) w by (auto simp: world_call_def split: prod.splits)
  have d: "delivered f (acts_text (fst (call_acts (inner i) c (\<not> st_bad (fx_file (xs i))) (fx_inner (xs i)))))
      (fx_file (xs i), fs) (fx_file x', fs')"
    using file_call_delivered(1) [OF assms(1) run(1)] assms(3) w by simp
  then show "delivered f (acts_text (fst (call_acts (inner i) c True (fx_inner (fst w i)))))
      (fx_file (fst w i), snd w) (fx_file (fst w' i), snd w')"
    using delivered_bad w run(2) by (cases "st_bad (fx_file (xs i))") auto
  show "tidy (fx_file (fst w i)) \<Longrightarrow> tidy (fx_file (fst w' i))"
    using file_call_delivered(2) [OF assms(1) run(1)] w run(2) by simp
  show "only_writer down i f w'" using assms(2) w run(2) by (simp add: only_writer_def)
  show "\<not> st_bad (fx_file (fst w i)) \<Longrightarrow>
      fx_inner (fst w' i) = snd (snd (call_acts (inner i) c True (fx_inner (fst w i))))"
    using file_call_data(2) [OF assms(1) run(1)] w run(2) by (cases "call_acts (inner i) c True (fx_inner (xs i))") auto
qed

text \<open>A run of calls that spares a file delivers what the one writer of the file emits.\<close>

lemma run_delivers:
  assumes "spares f w cs" "\<forall>j. j \<noteq> i \<longrightarrow> silent_when_down (inner j) (down j)"
    and "only_writer down i f w" "fx_filename (fst w i) = f" "w' = world_run dk inner kinds cs w"
    and "(i, Close_file) \<notin> set cs" "closes_empty i f w cs"
  shows "delivered f (emitted (inner i) (fx_inner (fst w i)) (calls_of i cs))
      (fx_file (fst w i), snd w) (fx_file (fst w' i), snd w') \<and>
    (tidy (fx_file (fst w i)) \<longrightarrow> tidy (fx_file (fst w' i))) \<and> only_writer down i f w' \<and>
    (\<not> st_bad (fx_file (fst w' i)) \<longrightarrow> fx_inner (fst w' i) = inner_after (inner i) (fx_inner (fst w i)) (calls_of i cs))"
  using assms
proof (induction cs arbitrary: w)
  case Nil
  then show ?case by (simp add: delivered_refl inner_after_def)
next
  case (Cons jc cs)
  obtain j c where jc: "jc = (j, c)" by fastforce
  obtain r w1 where call: "world_call dk inner kinds (j, c) w = (r, w1)" by (metis surj_pair)
  have sc: "worker_call c \<or> fx_filename (fst w j) \<noteq> f" and w': "w' = world_run dk inner kinds cs w1"
    using Cons.prems(1,5) jc call by (simp_all add: spares_def)
  have spares: "spares f w1 cs"
    using Cons.prems(1) jc world_call_filename [of dk inner kinds "(j, c)" w] call by (simp add: spares_def)
  have name: "fx_filename (fst w1 i) = f" using world_call_filename [of dk inner kinds "(j, c)" w i] call Cons.prems(4) by simp
  show ?case
  proof (cases "j = i")
    case True
    then have "stream_call c" using sc Cons.prems(4,6) jc by auto
    note own = own_call_delivered [OF this Cons.prems(3,4) call [unfolded True]]
    have "fst w1 l = fst w l" if "l \<noteq> i" for l
      using call True that by (cases w) (auto simp: world_call_def split: prod.splits)
    then have "closes_empty i f w1 cs" using Cons.prems(7) unfolding closes_empty_def by (metis list.set_intros(2))
    with Cons.prems(6) have "(i, Close_file) \<notin> set cs" "closes_empty i f w1 cs" by simp_all
    note ih = Cons.IH [OF spares Cons.prems(2) own(3) name w' this]
    let ?x = "fx_file (fst w i)" and ?x1 = "fx_file (fst w1 i)" and ?x' = "fx_file (fst w' i)"
    let ?a = "call_acts (inner i) c True (fx_inner (fst w i))"
    have bad: "st_bad ?x \<Longrightarrow> st_bad ?x1" "st_bad ?x1 \<Longrightarrow> st_bad ?x'"
      using own(1) ih by (auto simp: delivered_def)
    show ?thesis
    proof (cases "st_bad ?x")
      case False
      then have "fx_inner (fst w1 i) = snd (snd ?a)" using own(4) by simp
      then show ?thesis
        using ih own delivered_trans [OF own(1)] jc True by (auto simp: inner_after_def)
    next
      case B: True
      then show ?thesis
        using ih own delivered_trans [OF own(1)] delivered_bad jc True bad by metis
    qed
  next
    case False
    note other = other_call_silent [where inner = inner, OF sc False _ Cons.prems(3) Cons.prems(7) [unfolded jc] call]
    have o: "content (snd w1) f = content (snd w) f" "fst w1 i = fst w i" "only_writer down i f w1" "closes_empty i f w1 cs"
      using other Cons.prems(2) False by simp_all
    have "(i, Close_file) \<notin> set cs" using Cons.prems(6) by simp
    from Cons.IH [OF spares Cons.prems(2) o(3) name w' this o(4)] show ?thesis
      using jc False o(1,2) by (simp add: delivered_def)
  qed
qed

section \<open>What a flush promises\<close>

lemma accepting_fold:
  assumes "\<forall>t n. n \<le> dk_write dk t n" "st_open (fst a)" "\<not> st_bad (fst a)"
  shows "st_open (fst (fold (stream_step dk f) acts a)) \<and> \<not> st_bad (fst (fold (stream_step dk f) acts a))"
  using assms
proof (induction acts arbitrary: a)
  case (Cons x acts)
  have "\<not> dk_write dk t n < n" for t n using Cons.prems(1) by (simp add: not_less)
  then have "st_open (fst (stream_step dk f x a)) \<and> \<not> st_bad (fst (stream_step dk f x a))"
    using Cons.prems(2,3) by (cases a; cases x) (auto simp: stream_write_def Let_def)
  then show ?case using Cons by simp
qed simp

lemma accepting_call:
  assumes "\<forall>t n. n \<le> dk_write dk t n" "stream_call c" "file_call_run dk inner k c (x, fs) = (r, x', fs')"
    and "st_open (fx_file x)" "\<not> st_bad (fx_file x)"
  shows "st_open (fx_file x') \<and> \<not> st_bad (fx_file x')"
proof -
  obtain acts r0 s where a: "call_acts inner c (\<not> st_bad (fx_file x)) (fx_inner x) = (acts, r0, s)"
    by (metis surj_pair)
  have "(fx_file x', fs') = fold (stream_step dk (fx_filename x)) (acts @ [Flush]) (fx_file x, fs)"
    using file_call_data(1) [OF assms(2,3) a] by simp
  then show ?thesis
    using accepting_fold [OF assms(1), of "(fx_file x, fs)" "fx_filename x" "acts @ [Flush]"] assms(4,5)
    by (metis fst_conv)
qed

lemma accepting_run:
  assumes "\<forall>t n. n \<le> dk_write dk t n" "\<forall>c \<in> set cs. stream_call (snd c)"
    and "st_open (fx_file (fst w i))" "\<not> st_bad (fx_file (fst w i))"
  shows "st_open (fx_file (fst (world_run dk inner kinds cs w) i)) \<and>
    \<not> st_bad (fx_file (fst (world_run dk inner kinds cs w) i))"
  using assms
proof (induction cs arbitrary: w)
  case (Cons jc cs)
  obtain j c where jc: "jc = (j, c)" by fastforce
  have "st_open (fx_file (fst (snd (world_call dk inner kinds jc w)) i)) \<and>
      \<not> st_bad (fx_file (fst (snd (world_call dk inner kinds jc w)) i))"
    using Cons.prems accepting_call [OF Cons.prems(1)] jc
    by (cases w; cases "j = i") (fastforce simp: world_call_def split: prod.splits)+
  then show ?case using Cons by simp
qed simp

lemma emitted_append: "emitted inner s (cs @ [c]) =
    emitted inner s cs @ acts_text (fst (call_acts inner c True (inner_after inner s cs)))"
  by (induction cs arbitrary: s) (simp_all add: inner_after_def)

text \<open>
  C20: A flush that reports success means the file is complete.  Let one exporter be the only writer
  of a file; any calls of any exporters follow, in any order, and then a \<open>ForceFlush\<close> of this one.
  If it returns true, then everything the exporter was given since, the flush included, stands in
  the file behind what was there, complete and in order, however the system answered the writes.
  Conversely, when the system accepts every write, the answer is that of the wrapped exporter.
\<close>
theorem force_flush_means_written:
  assumes "\<forall>j. j \<noteq> i \<longrightarrow> silent_when_down (inner j) (down j)" "only_writer down i (fx_filename (fst w i)) w"
    and "tidy (fx_file (fst w i))" "\<forall>c \<in> set cs. stream_call (snd c)"
    and "world_call dk inner kinds (i, Force_flush t) (world_run dk inner kinds cs w) = (r, w')"
  shows "(r \<longrightarrow> content (snd w') (fx_filename (fst w i)) = content (snd w) (fx_filename (fst w i)) @
        emitted (inner i) (fx_inner (fst w i)) (calls_of i cs @ [Force_flush t])) \<and>
    (st_open (fx_file (fst w i)) \<and> \<not> st_bad (fx_file (fst w i)) \<and> (\<forall>t n. n \<le> dk_write dk t n) \<longrightarrow>
       r = fst (snd (ie_flush (inner i) t True (inner_after (inner i) (fx_inner (fst w i)) (calls_of i cs)))))"
proof -
  let ?w1 = "world_run dk inner kinds cs w" and ?f = "fx_filename (fst w i)" and ?s = "fx_inner (fst w i)"
  let ?all = "cs @ [(i, Force_flush t)]"
  have w': "w' = world_run dk inner kinds ?all w" using assms(5) by simp
  have all: "\<forall>c \<in> set ?all. stream_call (snd c)" using assms(4) by simp
  then have spares: "spares ?f w ?all" "spares ?f w cs" by (auto simp: spares_def)
  have none: "(j, Close_file) \<notin> set ?all" "(j, Close_file) \<notin> set cs" for j using all by auto
  have closes: "closes_empty i ?f w ?all" "closes_empty i ?f w cs"
    unfolding closes_empty_def using none by blast+
  note run = run_delivers [where kinds = kinds and dk = dk, OF _ assms(1,2) refl]
  obtain acts r0 s where a: "call_acts (inner i) (Force_flush t) (\<not> st_bad (fx_file (fst ?w1 i))) (fx_inner (fst ?w1 i)) = (acts, r0, s)"
    by (metis surj_pair)
  have call: "file_call_run dk (inner i) (kinds i) (Force_flush t) (fst ?w1 i, snd ?w1) = (r, fst w' i, snd w')"
    using assms(5) by (cases ?w1) (auto simp: world_call_def split: prod.splits)
  have r: "r \<longleftrightarrow> r0 \<and> \<not> st_bad (fx_file (fst w' i))" using file_call_data(4) [OF _ call a] by simp
  have written: "content (snd w') ?f = content (snd w) ?f @ emitted (inner i) ?s (calls_of i cs @ [Force_flush t])" if r
  proof -
    have good: "\<not> st_bad (fx_file (fst w' i))" using that r by simp
    have d: "delivered ?f (emitted (inner i) ?s (calls_of i ?all)) (fx_file (fst w i), snd w) (fx_file (fst w' i), snd w')"
      "tidy (fx_file (fst w' i))"
      using run [OF spares(1) w' none(1) closes(1)] assms(3) by simp_all
    then have "\<not> st_bad (fx_file (fst w i))" using good by (auto simp: delivered_def)
    then show ?thesis using d good assms(3) by (simp add: delivered_def tidy_def)
  qed
  have answer: "r = fst (snd (ie_flush (inner i) t True (inner_after (inner i) ?s (calls_of i cs))))"
    if "st_open (fx_file (fst w i))" "\<not> st_bad (fx_file (fst w i))" "\<forall>t n. n \<le> dk_write dk t n"
  proof -
    have g: "\<not> st_bad (fx_file (fst ?w1 i))" "\<not> st_bad (fx_file (fst w' i))"
      using accepting_run [OF that(3) assms(4) that(1,2)] accepting_run [OF that(3) all that(1,2)] w' by blast+
    then have "fx_inner (fst ?w1 i) = inner_after (inner i) ?s (calls_of i cs)" using run [OF spares(2) refl none(2) closes(2)] by blast
    then show ?thesis using r a g by (simp add: call_acts_def)
  qed
  show ?thesis using written answer by blast
qed

text \<open>An exporter in the manner of the SDK's: it prints a batch unless it was shut down.  A system that takes everything.\<close>

definition demo_inner :: "nat \<Rightarrow> (bool, string) inner_exporter" where
  "demo_inner _ = \<lparr>ie_export = (\<lambda>b _ s. (if s then [] else [Put b], \<not> s, s)), ie_flush = (\<lambda>_ _ s. ([Flush], True, s)),
     ie_shutdown = (\<lambda>_ _ _. ([], True, True)), ie_temporality = (\<lambda>k. k)\<rparr>"

definition demo_disk :: disk where
  "demo_disk = \<lparr>dk_open = (\<lambda>_ _. True), dk_write = (\<lambda>_ n. n), dk_truncate = (\<lambda>_ _. True), dk_spill = (\<lambda>n. n - 2)\<rparr>"

lemma demo_silent: "silent_when_down (demo_inner j) (\<lambda>s. s)"
  by (auto simp: silent_when_down_def call_acts_def demo_inner_def split: file_call.split)

definition demo_files :: "bool file_world" where
  "demo_files = ((\<lambda>_. otel_file_exporter_new True ''none'')(0 := otel_file_exporter_new False ''out''
     \<lparr>fx_file := \<lparr>st_open = True, st_bad = False, st_buf = []\<rparr>\<rparr>), \<lparr>fs_data = [''out'' \<mapsto> ''a''], fs_calls = 0\<rparr>)"

lemma force_flush_means_written_witness:
  "\<exists>w'. world_call demo_disk demo_inner (\<lambda>_. Span_exporter) (0, Force_flush 5)
      (world_run demo_disk demo_inner (\<lambda>_. Span_exporter) [(0, Export_batch ''bc''), (1, Shut_down 1)] demo_files) = (True, w') \<and>
    content (snd w') ''out'' = ''abc''"
proof -
  let ?cs = "[(0, Export_batch ''bc''), (1, Shut_down 1)] :: (nat \<times> string file_call) list"
  obtain r w' where c: "world_call demo_disk demo_inner (\<lambda>_. Span_exporter) (0, Force_flush 5)
      (world_run demo_disk demo_inner (\<lambda>_. Span_exporter) ?cs demo_files) = (r, w')" by (metis surj_pair)
  have f: "fx_filename (fst demo_files 0) = ''out''" "fx_inner (fst demo_files 0) = False"
    "st_open (fx_file (fst demo_files 0)) \<and> \<not> st_bad (fx_file (fst demo_files 0))" "tidy (fx_file (fst demo_files 0))"
    "content (snd demo_files) ''out'' = ''a''"
    by (simp_all add: demo_files_def otel_file_exporter_new_def snprintf_buf_def PATH_MAX_def tidy_def content_def)
  have o: "only_writer (\<lambda>_ s. s) 0 ''out'' demo_files"
    by (simp add: only_writer_def demo_files_def otel_file_exporter_new_def snprintf_buf_def PATH_MAX_def)
  have accepts: "\<forall>t n. n \<le> dk_write demo_disk t n" by (simp add: demo_disk_def)
  note main = force_flush_means_written [OF _ o [folded f(1)] f(4) _ c, unfolded f]
  have r using main demo_silent f(3) accepts
    by (simp add: demo_inner_def call_acts_def inner_after_def)
  moreover have "content (snd w') ''out'' = ''abc''"
    using main demo_silent \<open>r\<close> by (simp add: demo_inner_def call_acts_def inner_after_def)
  ultimately show ?thesis using c by simp
qed

section \<open>Replacing a pipeline\<close>

lemma file_call_inner:
  "file_call_run dk inner k c (x, fs) = (r, x', fs') \<Longrightarrow>
     fx_inner x' = snd (snd (call_acts inner c (\<not> st_bad (fx_file x)) (fx_inner x)))"
  by (cases c; cases k; auto simp: file_method_defs with_inner_def file_flush_def call_acts_def
      otel_file_exporter_open_def otel_file_exporter_truncate_def otel_file_exporter_destroy_def Let_def split: prod.splits)

lemma file_call_tidy:
  assumes "tidy (fx_file x)" "file_call_run dk inner k c (x, fs) = (r, x', fs')"
  shows "tidy (fx_file x')"
proof (cases "stream_call c")
  case True
  then show ?thesis using file_call_delivered(2) assms by blast
next
  case False
  then show ?thesis
    using assms by (cases c) (auto simp: otel_file_exporter_open_def otel_file_exporter_truncate_def
        otel_file_exporter_destroy_def stream_close_def stream_open_def tidy_def Let_def split: if_splits prod.splits)
qed

lemma world_run_tidy: "\<forall>j. tidy (fx_file (fst w j)) \<Longrightarrow> tidy (fx_file (fst (world_run dk inner kinds cs w) i))"
proof (induction cs arbitrary: w)
  case (Cons jc cs)
  have "\<forall>j. tidy (fx_file (fst (snd (world_call dk inner kinds jc w)) j))"
    using Cons.prems by (cases jc; cases w) (auto simp: world_call_def dest: file_call_tidy split: prod.splits)
  then show ?case using Cons.IH by simp
qed simp

lemma world_run_down:
  assumes "silent_when_down (inner j) down" "(\<exists>t. (j, Shut_down t) \<in> set cs) \<or> down (fx_inner (fst w j))"
  shows "down (fx_inner (fst (world_run dk inner kinds cs w) j))"
  using assms(2)
proof (induction cs arbitrary: w)
  case (Cons kc cs)
  obtain i c where kc: "kc = (i, c)" by fastforce
  obtain r x' fs' where run: "file_call_run dk (inner i) (kinds i) c (fst w i, snd w) = (r, x', fs')"
    by (metis surj_pair)
  have "snd (world_call dk inner kinds kc w) = ((fst w)(i := x'), fs')"
    using run kc by (cases w) (simp add: world_call_def)
  moreover have "i = j \<and> ((\<exists>t. c = Shut_down t) \<or> down (fx_inner (fst w j))) \<Longrightarrow> down (fx_inner x')"
    using file_call_inner [OF run] assms(1) by (auto simp: silent_when_down_def call_acts_def)
  ultimately show ?case using Cons.prems kc Cons.IH [of "((fst w)(i := x'), fs')"] by (cases "i = j") auto
qed simp

lemma truncated_empty:
  assumes "\<forall>n. dk_truncate dk n (fx_filename (fst w i))"
  shows "content (snd (world_run dk inner kinds [(i, Truncate_file)] w)) (fx_filename (fst w i)) = []"
  using assms by (cases w) (auto simp: world_call_def otel_file_exporter_truncate_def content_def split: option.split)

text \<open>Only the exporters that are called matter; one that is not called could as well be mute.\<close>

lemma world_run_inner:
  "\<forall>j \<in> fst ` set cs. inner j = inner' j \<Longrightarrow> world_run dk inner kinds cs w = world_run dk inner' kinds cs w"
proof (induction cs arbitrary: w)
  case (Cons jc cs)
  have "world_call dk inner kinds jc w = world_call dk inner' kinds jc w"
    using Cons.prems by (cases jc) (simp add: world_call_def)
  then show ?case using Cons by simp
qed simp

definition mute :: "('s, 'b) inner_exporter" where
  "mute = \<lparr>ie_export = (\<lambda>_ _ s. ([], True, s)), ie_flush = (\<lambda>_ _ s. ([], True, s)),
     ie_shutdown = (\<lambda>_ _ s. ([], True, s)), ie_temporality = (\<lambda>k. k)\<rparr>"

lemma mute_silent: "silent_when_down mute (\<lambda>_. True)"
  by (simp add: silent_when_down_def call_acts_def mute_def split: file_call.split)

lemma only_caller_delivers:
  assumes "spares f w cs" "\<forall>j. j \<noteq> i \<longrightarrow> silent_when_down (inner j) (down j)" "fx_filename (fst w i) = f"
    and "\<forall>j. j \<noteq> i \<and> fx_filename (fst w j) = f \<longrightarrow> down j (fx_inner (fst w j)) \<or> j \<notin> fst ` set cs"
    and "\<forall>j. tidy (fx_file (fst w j))" "w' = world_run dk inner kinds cs w"
    and "(i, Close_file) \<notin> set cs" "closes_empty i f w cs"
  shows "delivered f (emitted (inner i) (fx_inner (fst w i)) (calls_of i cs))
      (fx_file (fst w i), snd w) (fx_file (fst w' i), snd w') \<and> tidy (fx_file (fst w' i))"
proof -
  define called where "called j \<longleftrightarrow> j = i \<or> j \<in> fst ` set cs" for j
  let ?inner = "\<lambda>j. if called j then inner j else mute" and ?down = "\<lambda>j. if called j then down j else (\<lambda>_. True)"
  have run: "w' = world_run dk ?inner kinds cs w"
    unfolding assms(6) by (rule world_run_inner) (simp add: called_def)
  have silent: "\<forall>j. j \<noteq> i \<longrightarrow> silent_when_down (?inner j) (?down j)"
  proof (intro allI impI)
    show "silent_when_down (?inner j) (?down j)" if "j \<noteq> i" for j
      using assms(2) mute_silent that by (cases "called j") simp_all
  qed
  have "?down j (fx_inner (fst w j))" if "j \<noteq> i \<and> fx_filename (fst w j) = f" for j
    using assms(4) that by (cases "called j") (auto simp: called_def)
  then have writer: "only_writer ?down i f w" using assms(5) by (simp add: only_writer_def)
  have own: "?inner i = inner i" by (simp add: called_def)
  from run_delivers [OF assms(1) silent writer assms(3) run assms(7,8), unfolded own] show ?thesis using assms(5) by blast
qed

text \<open>
  A replaced pipeline leaves nothing behind.  Take new exporters of any classes and any run of calls
  on them, in which every exporter that shares a file with \<open>new\<close> was shut down, or is not called any
  more; then \<open>new\<close> truncates the file, and any calls follow that neither open nor empty it and do not
  destroy \<open>new\<close>.  As long as no exporter that is destroyed then was left with bytes the system had
  refused, the file holds what \<open>new\<close> put after the truncation and no byte from anyone else or from
  before: a prefix of it when the system refused a write, all of it as long as the stream is good.
\<close>
theorem replaced_pipeline_leaves_nothing:
  assumes "w = (\<lambda>j. otel_file_exporter_new (s j) (names j), fs)" "f = fx_filename (fst w new)"
    and "\<forall>j. j \<noteq> new \<longrightarrow> silent_when_down (inner j) (down j)"
    and "\<forall>j. j \<noteq> new \<and> fx_filename (fst w j) = f \<longrightarrow> (\<exists>t. (j, Shut_down t) \<in> set before) \<or> j \<notin> fst ` set after"
    and "\<forall>n. dk_truncate dk n f" "spares f w after"
    and "w1 = world_run dk inner kinds (before @ [(new, Truncate_file)]) w" "w2 = world_run dk inner kinds after w1"
    and "(new, Close_file) \<notin> set after"
    and "\<forall>j. j \<noteq> new \<and> fx_filename (fst w j) = f \<and> (j, Close_file) \<in> set after \<longrightarrow> st_buf (fx_file (fst w1 j)) = []"
  shows "prefix (content (snd w2) f) (emitted (inner new) (fx_inner (fst w1 new)) (calls_of new after)) \<and>
    (\<not> st_bad (fx_file (fst w2 new)) \<longrightarrow>
       content (snd w2) f = emitted (inner new) (fx_inner (fst w1 new)) (calls_of new after))"
proof -
  have fresh: "\<forall>j. tidy (fx_file (fst w j))" by (simp add: assms(1) otel_file_exporter_new_def tidy_def)
  have name: "fx_filename (fst w1 new) = f" "\<And>j. fx_filename (fst w1 j) = fx_filename (fst w j)"
    using assms(2,7) by (simp_all only: world_run_filename)
  have empty: "content (snd w1) f = []"
    using truncated_empty [of dk "world_run dk inner kinds before w" new inner kinds] assms(2,5,7) by simp
  have tidy: "\<forall>j. tidy (fx_file (fst w1 j))" unfolding assms(7) using world_run_tidy [OF fresh] by blast
  have down: "down j (fx_inner (fst w1 j)) \<or> j \<notin> fst ` set after" if "j \<noteq> new \<and> fx_filename (fst w1 j) = f" for j
    using world_run_down [where down = "down j" and inner = inner and j = j and w = w and dk = dk and kinds = kinds
        and cs = "before @ [(new, Truncate_file)]"] assms(3,4,7) that name(2) by (metis Un_iff set_append)
  have "spares f w1 after" using assms(6) by (simp add: spares_def name(2))
  moreover have "closes_empty new f w1 after" using assms(10) by (simp add: closes_empty_def name(2))
  ultimately have "spares f w1 after" "closes_empty new f w1 after" by blast+
  from only_caller_delivers [OF this(1) assms(3) name(1) _ tidy assms(8,9) this(2)] down
  have "delivered f (emitted (inner new) (fx_inner (fst w1 new)) (calls_of new after))
      (fx_file (fst w1 new), snd w1) (fx_file (fst w2 new), snd w2)" "tidy (fx_file (fst w2 new))" by blast+
  then show ?thesis using tidy empty by (auto simp: delivered_def tidy_def split: if_splits)
qed

lemma replaced_pipeline_leaves_nothing_witness:
  "content (snd (world_run demo_disk demo_inner (\<lambda>_. Log_exporter)
      ([(0, Open_file), (0, Export_batch ''old''), (1, Open_file), (1, Export_batch ''new''), (0, Shut_down 9)] @
       [(1, Truncate_file)] @ [(0, Export_batch ''late''), (0, Close_file), (1, Export_batch ''first'')])
      (\<lambda>j. otel_file_exporter_new False (if j < 2 then ''out'' else ''none''), \<lparr>fs_data = [''out'' \<mapsto> ''a''], fs_calls = 0\<rparr>)))
    ''out'' = ''first''"
proof -
  let ?names = "\<lambda>j :: nat. if j < 2 then ''out'' else ''none''" and ?fs = "\<lparr>fs_data = [''out'' \<mapsto> ''a''], fs_calls = 0\<rparr>"
  let ?before = "[(0, Open_file), (0, Export_batch ''old''), (1, Open_file), (1, Export_batch ''new''), (0, Shut_down 9)]
    :: (nat \<times> string file_call) list"
  let ?after = "[(0, Export_batch ''late''), (0, Close_file), (1, Export_batch ''first'')] :: (nat \<times> string file_call) list"
  let ?w = "(\<lambda>j. otel_file_exporter_new False (?names j), ?fs)"
  let ?w1 = "world_run demo_disk demo_inner (\<lambda>_. Log_exporter) (?before @ [(1, Truncate_file)]) ?w"
  let ?w2 = "world_run demo_disk demo_inner (\<lambda>_. Log_exporter) ?after ?w1"
  have f: "''out'' = fx_filename (fst ?w 1)" "fx_inner (fst ?w1 1) = False" "\<not> st_bad (fx_file (fst ?w2 1))"
    "st_buf (fx_file (fst ?w1 0)) = []" by code_simp+
  have "\<forall>j. j \<noteq> 1 \<and> fx_filename (fst ?w j) = ''out'' \<longrightarrow> (\<exists>t. (j, Shut_down t) \<in> set ?before) \<or> j \<notin> fst ` set ?after"
    by (auto simp: otel_file_exporter_new_def snprintf_buf_def PATH_MAX_def less_2_cases_iff)
  moreover have spares: "spares ''out'' ?w ?after" by (simp add: spares_def)
  moreover have "\<forall>j. j \<noteq> 1 \<and> fx_filename (fst ?w j) = ''out'' \<and> (j, Close_file) \<in> set ?after \<longrightarrow>
      st_buf (fx_file (fst ?w1 j)) = []" using f(4) by (simp add: less_2_cases_iff)
  ultimately have "content (snd ?w2) ''out'' = emitted (demo_inner 1) (fx_inner (fst ?w1 1)) (calls_of 1 ?after)"
    using replaced_pipeline_leaves_nothing [OF refl f(1) _ _ _ _ refl refl, of demo_inner "\<lambda>_ s. s" ?before ?after demo_disk
        "\<lambda>_. Log_exporter"] f(3) demo_silent spares by (simp add: demo_disk_def)
  then show ?thesis using f(2) by (simp add: demo_inner_def call_acts_def)
qed

text \<open>
  The condition on refused bytes is needed.  The start of a tracer, and every later one, empties the
  file before it releases the old pipeline, whose streams are closed then or later; closing a stream
  hands the bytes the system had refused to the system again, and they land in the emptied file, in
  front of what the new exporter writes.  Here the system refuses the first writes.
\<close>

definition full_disk :: disk where
  "full_disk = demo_disk\<lparr>dk_write := (\<lambda>t n. if t < 4 then 0 else n)\<rparr>"

lemma refused_bytes_return:
  "content (snd (world_run full_disk demo_inner (\<lambda>_. Span_exporter)
      [(0, Open_file), (0, Export_batch ''old''), (1, Open_file), (0, Shut_down 1), (1, Truncate_file), (0, Close_file),
       (1, Export_batch ''first'')]
      (\<lambda>j. otel_file_exporter_new False (if j < 2 then ''out'' else ''none''), \<lparr>fs_data = Map.empty, fs_calls = 0\<rparr>)))
    ''out'' = ''oldfirst''"
  by code_simp

end
