(* ===== verification/Otel_Restart.thy ===== *)
theory Otel_Restart
  imports Otel_Sdk
begin

text \<open>
  The contract that starting and destroying a signal (tracer, meter or logger) keeps: how a start
  exchanges the pipeline of an instance, and what follows for the whole life of an instance that is
  started any number of times, whether the starts succeed or fail, and is then destroyed.  The contract
  is a locale; its instances are in \<open>Otel_Signals\<close>.
\<close>

section \<open>How a start exchanges the pipeline\<close>

text \<open>The calls that end something; \<open>quiet\<close> calls make none of them.\<close>

fun disruptive :: "('d, 'b, 't) sdk_call \<Rightarrow> bool" where
  "disruptive (ReleaseProvider _) = True"
| "disruptive (ExporterShutdown _) = True"
| "disruptive (TruncateFile _ _) = True"
| "disruptive _ = False"

definition quiet :: "('d, 'b, 't) sdk_call list \<Rightarrow> bool" where
  "quiet cs \<longleftrightarrow> (\<forall>c \<in> set cs. \<not> disruptive c)"

definition truncates :: "('d, 'b, 't) sdk_call list \<Rightarrow> bool" where
  "truncates cs \<longleftrightarrow> (\<forall>c \<in> set cs. \<exists>x f. c = TruncateFile x f)"

definition releasing :: "nat option \<Rightarrow> ('d, 'b, 't) sdk_call list" where
  "releasing p = (case p of None \<Rightarrow> [] | Some q \<Rightarrow> [ReleaseProvider q])"

text \<open>The new calls, newest first, of a start that finds provider \<open>p\<close> with exporters \<open>es\<close> and allocates
  the identifiers above \<open>lo\<close> up to \<open>hi\<close>.  It keeps the pipeline, exchanges it, or, when even the
  installation fails, leaves none.\<close>

inductive exchange for p es lo hi where
  kept: "quiet new \<Longrightarrow> exchange p es lo hi new p es"
| swapped: "quiet before \<Longrightarrow> truncates ts \<Longrightarrow> lo < q \<Longrightarrow> q \<le> hi \<Longrightarrow>
    exchange p es lo hi (releasing p @ ts @ map ExporterShutdown (rev es) @ before) (Some q) es'"
| dropped: "quiet before \<Longrightarrow> truncates ts \<Longrightarrow> new = None \<or> (\<exists>q. new = Some q \<and> lo < q \<and> q \<le> hi) \<Longrightarrow>
    exchange p es lo hi (releasing new @ releasing p @ ts @ map ExporterShutdown (rev es) @ before) None []"

section \<open>The life of a signal\<close>

text \<open>The calls its starts make, newest first, with the installation of each new pipeline.\<close>

datatype ('d, 'b, 't) event = Installed nat "nat list" | Did "('d, 'b, 't) sdk_call"

definition installation :: "nat option \<Rightarrow> nat option \<Rightarrow> nat list \<Rightarrow> ('d, 'b, 't) event list" where
  "installation p p' es = (if p' = p then [] else case p' of None \<Rightarrow> [] | Some q \<Rightarrow> [Installed q es])"

inductive signal_life for start provider_of exporters_of where
  born: "provider_of i = None \<Longrightarrow> exporters_of i = [] \<Longrightarrow> signal_life start provider_of exporters_of i w []"
| used: "signal_life start provider_of exporters_of i w tr \<Longrightarrow> tried w \<le> tried w' \<Longrightarrow>
    provider_of i' = provider_of i \<Longrightarrow> exporters_of i' = exporters_of i \<Longrightarrow>
    signal_life start provider_of exporters_of i' w' tr"
| started: "signal_life start provider_of exporters_of i w tr \<Longrightarrow> start i w i' w' \<Longrightarrow> calls w' = new @ calls w \<Longrightarrow>
    signal_life start provider_of exporters_of i' w'
      (installation (provider_of i) (provider_of i') (exporters_of i') @ map Did new @ tr)"

text \<open>The exporters shut down so far, and the order that is safe: when a file is emptied every exporter
  installed before has been shut down, so none of them can still write into it; and a provider is
  released once, after its exporters.\<close>

definition all_shut :: "nat list \<Rightarrow> ('d, 'b, 't) event list \<Rightarrow> bool" where
  "all_shut es tr \<longleftrightarrow> (\<forall>e \<in> set es. Did (ExporterShutdown e) \<in> set tr)"

fun orderly :: "('d, 'b, 't) event list \<Rightarrow> bool" where
  "orderly [] \<longleftrightarrow> True"
| "orderly (Did (TruncateFile x f) # tr) \<longleftrightarrow>
     (\<forall>q es. Installed q es \<in> set tr \<longrightarrow> all_shut es tr) \<and> orderly tr"
| "orderly (Did (ReleaseProvider p) # tr) \<longleftrightarrow>
     Did (ReleaseProvider p) \<notin> set tr \<and> (\<forall>es. Installed p es \<in> set tr \<longrightarrow> all_shut es tr) \<and> orderly tr"
| "orderly (_ # tr) \<longleftrightarrow> orderly tr"

lemma all_shut_more: "all_shut es tr \<Longrightarrow> all_shut es (new @ tr)"
  by (simp add: all_shut_def)

lemma orderly_quiet: "quiet cs \<Longrightarrow> orderly (map Did cs @ tr) \<longleftrightarrow> orderly tr"
proof (induction cs)
  case (Cons c cs)
  then show ?case by (cases c) (simp_all add: quiet_def)
qed simp

lemma orderly_shutdowns: "orderly (map Did (map ExporterShutdown es) @ tr) \<longleftrightarrow> orderly tr"
  by (induction es) simp_all

lemma orderly_truncates:
  assumes "truncates ts" "\<forall>q es. Installed q es \<in> set tr \<longrightarrow> all_shut es tr"
  shows "orderly (map Did ts @ tr) \<longleftrightarrow> orderly tr"
  using assms(1)
proof (induction ts)
  case (Cons c ts)
  then obtain x f where c: "c = TruncateFile x f" by (auto simp: truncates_def)
  have "all_shut es (map Did ts @ tr)" if "Installed q es \<in> set (map Did ts @ tr)" for q es
    using that assms(2) all_shut_more by fastforce
  then show ?case using Cons c by (auto simp: truncates_def)
qed simp

lemma orderly_releasing:
  "orderly (map Did (releasing p) @ tr) \<longleftrightarrow>
     orderly tr \<and> (\<forall>q. p = Some q \<longrightarrow> Did (ReleaseProvider q) \<notin> set tr \<and> (\<forall>es. Installed q es \<in> set tr \<longrightarrow> all_shut es tr))"
  by (auto simp: releasing_def split: option.split)

lemma releasing_set [simp]: "set (releasing p) = {ReleaseProvider q | q. p = Some q}"
  by (auto simp: releasing_def split: option.split)

section \<open>The contract and what follows from it\<close>

text \<open>What holds of an instance with its history at every moment between two operations.\<close>

definition life_inv :: "nat option \<Rightarrow> nat list \<Rightarrow> nat \<Rightarrow> ('d, 'b, 't) event list \<Rightarrow> bool" where
  "life_inv p es n tr \<longleftrightarrow>
     orderly tr \<and> (p = None \<longrightarrow> es = []) \<and>
     (\<forall>q. p = Some q \<longrightarrow> Installed q es \<in> set tr \<and> Did (ReleaseProvider q) \<notin> set tr) \<and>
     (\<forall>q xs. Installed q xs \<in> set tr \<longrightarrow>
        q \<le> n \<and> (p = Some q \<and> xs = es \<or> Did (ReleaseProvider q) \<in> set tr \<and> all_shut xs tr)) \<and>
     (\<forall>q. Did (ReleaseProvider q) \<in> set tr \<longrightarrow> q \<le> n)"

lemma life_invD:
  assumes "life_inv p es n tr"
  shows "orderly tr" "p = None \<Longrightarrow> es = []"
    "p = Some q \<Longrightarrow> Installed q es \<in> set tr" "p = Some q \<Longrightarrow> Did (ReleaseProvider q) \<notin> set tr"
    "Installed q xs \<in> set tr \<Longrightarrow> q \<le> n"
    "Installed q xs \<in> set tr \<Longrightarrow> p = Some q \<and> xs = es \<or> Did (ReleaseProvider q) \<in> set tr \<and> all_shut xs tr"
    "Did (ReleaseProvider q) \<in> set tr \<Longrightarrow> q \<le> n"
  using assms unfolding life_inv_def by blast+

lemma life_inv_quiet:
  assumes "life_inv p es lo tr" "quiet new" "lo \<le> hi"
  shows "life_inv p es hi (map Did new @ tr)"
proof -
  note inv = life_invD [OF assms(1)]
  have none: "Did (ReleaseProvider q) \<in> set (map Did new @ tr) \<longleftrightarrow> Did (ReleaseProvider q) \<in> set tr"
    "Installed q xs \<in> set (map Did new @ tr) \<longleftrightarrow> Installed q xs \<in> set tr" for q xs
    using assms(2) by (auto simp: quiet_def)
  show ?thesis
    unfolding life_inv_def none orderly_quiet [OF assms(2)]
    using inv assms(3) all_shut_more [of _ tr "map Did new"] order_trans by blast
qed

text \<open>After the shutdowns and the truncation, what is left is to release.\<close>

lemma shut_closing:
  assumes "life_inv p es lo t0"
  shows "Installed q xs \<in> set (map Did (map ExporterShutdown (rev es)) @ t0) \<longrightarrow>
    all_shut xs (map Did (map ExporterShutdown (rev es)) @ t0)"
proof
  assume "Installed q xs \<in> set (map Did (map ExporterShutdown (rev es)) @ t0)"
  then have "p = Some q \<and> xs = es \<or> all_shut xs t0" using life_invD(6) [OF assms] by auto
  then show "all_shut xs (map Did (map ExporterShutdown (rev es)) @ t0)"
    by (auto simp: all_shut_def)
qed

lemma closing_steps:
  assumes "life_inv p es lo t0" "truncates ts"
  defines "t1 \<equiv> map Did ts @ map Did (map ExporterShutdown (rev es)) @ t0"
  shows "orderly t1" "Installed q xs \<in> set t1 \<longleftrightarrow> Installed q xs \<in> set t0"
    "Did (ReleaseProvider q) \<in> set t1 \<longleftrightarrow> Did (ReleaseProvider q) \<in> set t0"
    "Installed q xs \<in> set t1 \<longrightarrow> all_shut xs t1"
proof -
  show "orderly t1"
    using orderly_truncates [OF assms(2)] shut_closing [OF assms(1)] orderly_shutdowns [of "rev es" t0] assms(1)
    unfolding t1_def life_inv_def by blast
  show "Installed q xs \<in> set t1 \<longleftrightarrow> Installed q xs \<in> set t0"
    "Did (ReleaseProvider q) \<in> set t1 \<longleftrightarrow> Did (ReleaseProvider q) \<in> set t0"
    using assms(2) by (auto simp: t1_def truncates_def)
  show "Installed q xs \<in> set t1 \<longrightarrow> all_shut xs t1"
    using shut_closing [OF assms(1), of q xs] all_shut_more by (fastforce simp: t1_def)
qed

text \<open>A closed history: every pipeline installed so far has been shut down and released.\<close>

definition closed_at :: "nat \<Rightarrow> ('d, 'b, 't) event list \<Rightarrow> bool" where
  "closed_at n tr \<longleftrightarrow> orderly tr \<and>
     (\<forall>q xs. Installed q xs \<in> set tr \<longrightarrow> q \<le> n \<and> Did (ReleaseProvider q) \<in> set tr \<and> all_shut xs tr) \<and>
     (\<forall>q. Did (ReleaseProvider q) \<in> set tr \<longrightarrow> q \<le> n)"

lemma closed_atD:
  assumes "closed_at n tr"
  shows "orderly tr" "Installed q xs \<in> set tr \<Longrightarrow> q \<le> n" "Installed q xs \<in> set tr \<Longrightarrow> all_shut xs tr"
    "Installed q xs \<in> set tr \<Longrightarrow> Did (ReleaseProvider q) \<in> set tr" "Did (ReleaseProvider q) \<in> set tr \<Longrightarrow> q \<le> n"
  using assms unfolding closed_at_def by blast+

lemma closed_inv: "closed_at n tr \<Longrightarrow> n \<le> m \<Longrightarrow> life_inv None [] m tr"
  unfolding closed_at_def life_inv_def by (blast intro: order_trans)

lemma closed_installed:
  assumes "closed_at lo tr" "lo < q" "q \<le> hi"
  shows "life_inv (Some q) es hi (Installed q es # tr)"
proof -
  note c = closed_atD [OF assms(1)]
  have old: "x \<le> hi" if "x \<le> lo" for x using that assms(2,3) by simp
  have "Did (ReleaseProvider q) \<notin> set tr" using c(5) [of q] assms(2) by auto
  moreover have "all_shut xs (Installed q es # tr)" if "all_shut xs tr" for xs
    using that by (simp add: all_shut_def)
  ultimately show ?thesis
    unfolding life_inv_def using c old assms(3) by simp
qed

lemma closed_dropped:
  assumes "closed_at lo tr" "lo < x" "x \<le> hi"
  shows "life_inv None [] hi (Did (ReleaseProvider x) # tr)"
proof -
  note c = closed_atD [OF assms(1)]
  have old: "y \<le> hi" if "y \<le> lo" for y using that assms(2,3) by simp
  have "Did (ReleaseProvider x) \<notin> set tr" using c(5) [of x] assms(2) by auto
  moreover have "all_shut xs (Did (ReleaseProvider x) # tr)" if "all_shut xs tr" for xs
    using that by (simp add: all_shut_def)
  ultimately show ?thesis
    unfolding life_inv_def using c old assms(3) by auto
qed

lemma life_inv_closing:
  assumes "life_inv p es lo tr" "quiet before" "truncates ts"
  shows "closed_at lo (map Did (releasing p @ ts @ map ExporterShutdown (rev es) @ before) @ tr)"
proof -
  obtain t0 where t0: "t0 = map Did before @ tr" by simp
  obtain t1 where t1: "t1 = map Did ts @ map Did (map ExporterShutdown (rev es)) @ t0" by simp
  obtain tr1 where tr1: "tr1 = map Did (releasing p) @ t1" by simp
  have inv0: "life_inv p es lo t0" using life_inv_quiet assms(1,2) unfolding t0 by blast
  note c = closing_steps [OF inv0 assms(3), folded t1]
  have "orderly tr1"
    unfolding tr1 orderly_releasing using c life_invD(4) [OF inv0] by blast
  moreover have "q \<le> lo \<and> Did (ReleaseProvider q) \<in> set tr1 \<and> all_shut xs tr1" if "Installed q xs \<in> set tr1" for q xs
  proof -
    have i: "Installed q xs \<in> set t0" "Installed q xs \<in> set t1" using that c(2) by (auto simp: tr1)
    have "Did (ReleaseProvider q) \<in> set tr1"
      using life_invD(6) [OF inv0 i(1)] c(3) by (auto simp: tr1)
    moreover have "all_shut xs tr1" unfolding tr1 using c(4) i(2) all_shut_more by blast
    ultimately show ?thesis using life_invD(5) [OF inv0 i(1)] by blast
  qed
  moreover have "q \<le> lo" if "Did (ReleaseProvider q) \<in> set tr1" for q
    using that life_invD(7) [OF inv0, of q] life_invD(5) [OF inv0 life_invD(3) [OF inv0]] c(3) [of q] by (auto simp: tr1)
  ultimately show ?thesis by (simp add: closed_at_def tr1 t1 t0)
qed

lemma exchange_keeps_inv:
  assumes "exchange p es lo hi new p' es'" "life_inv p es lo tr" "lo \<le> hi"
  shows "life_inv p' es' hi (installation p p' es' @ map Did new @ tr)"
  using assms(1)
proof cases
  case kept
  then show ?thesis using life_inv_quiet assms(2,3) by (simp add: installation_def)
next
  case (swapped before ts q)
  note c = life_inv_closing [OF assms(2) swapped(3,4), folded swapped(1)]
  have "p \<noteq> Some q"
  proof
    assume "p = Some q"
    then have "q \<le> lo" using life_invD(3,5) [OF assms(2)] by blast
    then show False using swapped(5) by simp
  qed
  then show ?thesis
    using swapped(2) closed_installed [OF c swapped(5,6)] by (auto simp: installation_def)
next
  case (dropped before ts q)
  let ?tr1 = "map Did (releasing p @ ts @ map ExporterShutdown (rev es) @ before) @ tr"
  note c = life_inv_closing [OF assms(2) dropped(4,5)]
  show ?thesis
  proof (cases q)
    case None
    then show ?thesis
      using closed_inv [OF c assms(3)] dropped(1-3) by (cases p) (simp_all add: installation_def releasing_def)
  next
    case (Some x)
    then show ?thesis
      using closed_dropped [OF c, of x hi] dropped(1-3,6) by (cases p) (simp_all add: installation_def releasing_def)
  qed
qed

text \<open>A flush of provider \<open>p\<close> among the new calls that answered that everything was delivered.\<close>

definition drained ::
  "(('d, 'b, 't) sdk_call list \<Rightarrow> bool) \<Rightarrow> nat \<Rightarrow> ('d, 'b, 't) sdk_call list \<Rightarrow> ('d, 'b, 't) sdk_call list \<Rightarrow> bool" where
  "drained answer p new cs \<longleftrightarrow> (\<exists>us later earlier. new = later @ ForceFlush p us # earlier \<and> answer (earlier @ cs))"

text \<open>The whole life is in order, and in the end every provider that was ever installed has been released exactly
  once: by a later start, or by the destruction after its exporters were shut down or drained.\<close>

definition settled ::
  "(('d, 'b, 't) sdk_call list \<Rightarrow> bool) \<Rightarrow> ('d, 'b, 't) event list \<Rightarrow> ('d, 'b, 't) world \<Rightarrow> ('d, 'b, 't) world \<Rightarrow> bool" where
  "settled answer tr w w' \<longleftrightarrow> (\<exists>new. calls w' = new @ calls w \<and> orderly tr \<and>
    (\<forall>q es. Installed q es \<in> set tr \<longrightarrow>
       Did (ReleaseProvider q) \<in> set tr \<and> ReleaseProvider q \<notin> set new \<or>
       Did (ReleaseProvider q) \<notin> set tr \<and> (\<exists>rest. new = ReleaseProvider q # rest \<and> ReleaseProvider q \<notin> set rest \<and>
         ((\<forall>e \<in> set es. ExporterShutdown e \<in> set rest) \<or> drained answer q rest (calls w)))))"

locale restartable_signal =
  fixes start :: "'i \<Rightarrow> ('d, 'b, 't) world \<Rightarrow> 'i \<Rightarrow> ('d, 'b, 't) world \<Rightarrow> bool"
    and destroy :: "'i \<Rightarrow> ('d, 'b, 't) world \<Rightarrow> ('d, 'b, 't) world \<Rightarrow> bool"
    and provider_of :: "'i \<Rightarrow> nat option"
    and exporters_of :: "'i \<Rightarrow> nat list"
    and flush_answer :: "('d, 'b, 't) sdk_call list \<Rightarrow> bool"
  assumes start_exchanges: "start i w i' w' \<Longrightarrow> tried w \<le> tried w' \<and> (\<exists>new. calls w' = new @ calls w \<and>
      exchange (provider_of i) (exporters_of i) (tried w) (tried w') new (provider_of i') (exporters_of i'))"
    and destroy_releases: "destroy i w w' \<Longrightarrow> \<exists>new. calls w' = releasing (provider_of i) @ new @ calls w \<and>
      (\<forall>p. ReleaseProvider p \<notin> set new) \<and>
      ((\<forall>e \<in> set (exporters_of i). ExporterShutdown e \<in> set new) \<or>
       (\<exists>p. provider_of i = Some p \<and> drained flush_answer p new (calls w)))"
begin

lemma life_keeps_inv:
  "signal_life start provider_of exporters_of i w tr \<Longrightarrow> life_inv (provider_of i) (exporters_of i) (tried w) tr"
proof (induction rule: signal_life.induct)
  case (born i w)
  then show ?case by (simp add: life_inv_def)
next
  case (used i w tr w' i')
  then show ?case using life_inv_quiet [of _ _ _ tr "[]"] by (simp add: quiet_def)
next
  case (started i w tr i' w' new)
  then obtain new' where "calls w' = new' @ calls w" "tried w \<le> tried w'"
    "exchange (provider_of i) (exporters_of i) (tried w) (tried w') new' (provider_of i') (exporters_of i')"
    using start_exchanges by blast
  then show ?case using exchange_keeps_inv started by fastforce
qed

lemma life_and_death:
  assumes "signal_life start provider_of exporters_of i w tr" "destroy i w w'"
  shows "settled flush_answer tr w w'"
proof -
  note inv = life_keeps_inv [OF assms(1), unfolded life_inv_def]
  obtain new where new: "calls w' = releasing (provider_of i) @ new @ calls w" "\<forall>p. ReleaseProvider p \<notin> set new"
    "(\<forall>e \<in> set (exporters_of i). ExporterShutdown e \<in> set new) \<or>
       (\<exists>p. provider_of i = Some p \<and> drained flush_answer p new (calls w))"
    using destroy_releases [OF assms(2)] by blast
  have "Did (ReleaseProvider q) \<in> set tr \<and> ReleaseProvider q \<notin> set (releasing (provider_of i) @ new) \<or>
       Did (ReleaseProvider q) \<notin> set tr \<and> (\<exists>rest. releasing (provider_of i) @ new = ReleaseProvider q # rest \<and>
         ReleaseProvider q \<notin> set rest \<and>
         ((\<forall>e \<in> set es. ExporterShutdown e \<in> set rest) \<or> drained flush_answer q rest (calls w)))"
    if "Installed q es \<in> set tr" for q es
  proof (cases "provider_of i = Some q")
    case True
    then have "es = exporters_of i \<and> Did (ReleaseProvider q) \<notin> set tr" using inv that by blast
    then show ?thesis using new(2,3) True by (auto simp: releasing_def)
  next
    case False
    then show ?thesis using inv that new(2) by auto
  qed
  then show ?thesis
    unfolding settled_def using new(1) inv by (intro exI [of _ "releasing (provider_of i) @ new"]) auto
qed

end

end
