(* ===== verification/Otel_LoggerLaws.thy ===== *)
theory Otel_LoggerLaws
  imports Otel_Logger Otel_MeterLaws
begin

text \<open>
  What loggers guarantee: severities and their names, the exact record a logging call emits, the
  identifiers of the span it was made for, and the minimum severity as a filter.
\<close>

section \<open>Severities\<close>

lemma find_entry:
  assumes "distinct (map (\<lambda>p. f (fst p)) ps)" "i < length ps" "f (fst (ps ! i)) = x"
  shows "find (\<lambda>(a, _). f a = x) ps = Some (ps ! i)"
proof -
  have "f (fst (ps ! j)) \<noteq> x" if "j < i" for j
    using assms that nth_eq_iff_index_eq [of "map (\<lambda>p. f (fst p)) ps" i j] by auto
  then show ?thesis
    unfolding find_Some_iff using assms(2,3) by (intro exI [of _ i]) (simp add: case_prod_beta)
qed

lemma severity_sizes [simp]:
  "length severity_table = 25" "length severity_levels = 25" "length severity_names = 25"
  by (simp_all add: severity_table_def severity_levels_def severity_names_def)

lemma severity_nth [simp]:
  assumes "i < 25"
  shows "severity_levels ! i = (int i, snd (severity_table ! i))" "severity_names ! i = (fst (severity_table ! i), int i)"
  using assms by (simp_all add: severity_levels_def severity_names_def)

lemma severity_names_distinct: "distinct (map (\<lambda>p. map to_lower (fst p)) severity_names)"
  by code_simp

lemma severity_tags_distinct: "distinct (map fst severity_levels)"
  by code_simp

lemma severity_of_tag: "i < 25 \<Longrightarrow> otel_logger_severity (int i) = snd (severity_table ! i)"
  using find_entry [of "\<lambda>x. x" severity_levels i "int i"] severity_tags_distinct
  by (simp add: otel_logger_severity_def)

lemma severity_of_other: "\<not> (0 \<le> s \<and> s < 25) \<Longrightarrow> otel_logger_severity s = kInvalid"
proof -
  assume s: "\<not> (0 \<le> s \<and> s < 25)"
  have "find (\<lambda>(n, _). n = s) severity_levels = None"
    unfolding find_None_iff using s by (auto simp: in_set_conv_nth)
  then show ?thesis by (simp add: otel_logger_severity_def)
qed

lemma severity_levels_distinct: "distinct (map snd severity_table)"
  by code_simp

lemma severity_invalid: "otel_logger_severity s = kInvalid \<longleftrightarrow> \<not> (0 < s \<and> s < 25)"
proof (cases "0 \<le> s \<and> s < 25")
  case True
  then obtain i where i: "s = int i" "i < 25" using zero_le_imp_eq_int by force
  have "snd (severity_table ! i) = snd (severity_table ! 0) \<longleftrightarrow> i = 0"
    using nth_eq_iff_index_eq [OF severity_levels_distinct, of i 0] i(2) by simp
  moreover have "snd (severity_table ! 0) = kInvalid" by (simp add: severity_table_def)
  ultimately show ?thesis using i severity_of_tag by auto
next
  case False
  then show ?thesis using severity_of_other by auto
qed

lemma parse_severity_name:
  assumes "i < 25" "strcasecmp_eq name (fst (severity_table ! i))"
  shows "otelc_logger_severity_parse (Some name) = int i"
  using find_entry [OF severity_names_distinct, of i "map to_lower name"] assms
  by (simp add: otelc_logger_severity_parse_def strcasecmp_eq_def)

text \<open>
  Severity names, numbers and SDK levels correspond one to one.  The parser returns a severity
  exactly for its own name, in any mixture of upper and lower case; the number is translated to the
  SDK level of that name, which no other number is translated to.
\<close>
theorem severity_names_roundtrip:
  assumes "0 < n" "n < 25"
  shows "(otelc_logger_severity_parse (Some name) = int n \<longleftrightarrow> strcasecmp_eq name (fst (severity_table ! n))) \<and>
    otel_logger_severity (int n) = snd (severity_table ! n) \<and>
    (\<forall>s. otel_logger_severity s = otel_logger_severity (int n) \<longrightarrow> s = int n)"
proof (intro conjI allI impI)
  show "otel_logger_severity (int n) = snd (severity_table ! n)" using assms severity_of_tag by simp
  show "otelc_logger_severity_parse (Some name) = int n \<longleftrightarrow> strcasecmp_eq name (fst (severity_table ! n))"
  proof
    assume p: "otelc_logger_severity_parse (Some name) = int n"
    then obtain a b where f: "find (\<lambda>(m, _). strcasecmp_eq m name) severity_names = Some (a, b)" "b = int n"
      using assms(1) by (auto simp: otelc_logger_severity_parse_def OTELC_LOG_SEVERITY_INVALID_def split: option.splits)
    then obtain i where "i < 25" "strcasecmp_eq (fst (severity_table ! i)) name" "(a, b) = severity_names ! i"
      by (auto simp: find_Some_iff case_prod_beta)
    then show "strcasecmp_eq name (fst (severity_table ! n))"
      using f(2) by (auto simp: strcasecmp_eq_sym)
  qed (rule parse_severity_name [OF assms(2)])
next
  fix s
  assume s: "otel_logger_severity s = otel_logger_severity (int n)"
  then have "otel_logger_severity s \<noteq> kInvalid" using assms by (simp add: severity_invalid)
  then obtain i where i: "s = int i" "i < 25" using severity_invalid zero_le_imp_eq_int by force
  then have "snd (severity_table ! i) = snd (severity_table ! n)" using s assms severity_of_tag by simp
  then show "s = int n"
    using nth_eq_iff_index_eq [OF severity_levels_distinct, of i n] i assms by simp
qed

lemma severity_names_roundtrip_witness:
  "otelc_logger_severity_parse (Some ''Warn2'') = 14 \<and> otel_logger_severity 14 = kWarn2"
proof -
  have "strcasecmp_eq ''Warn2'' (fst (severity_table ! 14))" "snd (severity_table ! 14) = kWarn2"
    by code_simp+
  then show ?thesis using severity_names_roundtrip [of 14 "''Warn2''"] by simp
qed

section \<open>The record of a request\<close>

definition good_values :: "'d ckv list \<Rightarrow> bool" where
  "good_values kvs \<longleftrightarrow> (\<forall>kv \<in> set kvs. ck_value kv = C_null \<or> in_value_range (ck_value kv))"

text \<open>When a record is made for a request, and the record.\<close>

definition record_wanted :: "('d, 'b, 't) sdk \<Rightarrow> nat \<Rightarrow> 'd log_request \<Rightarrow> ('d, 'b, 't) world \<Rightarrow> bool" where
  "record_wanted sdk g rq w \<longleftrightarrow>
     otel_logger_severity (rc_severity rq) \<noteq> kInvalid \<and>
     sdk_log_enabled sdk (calls w) g (otel_logger_severity (rc_severity rq)) \<and>
     sdk_create_record sdk (calls w) \<and> good_values (rc_attrs rq)"

definition requested_record :: "'d log_request \<Rightarrow> 'd visited option \<Rightarrow> 'd log_record" where
  "requested_record rq body =
     \<lparr>lr_severity = otel_logger_severity (rc_severity rq),
      lr_span_id = id_bytes 8 (rc_span_id rq), lr_trace_id = id_bytes 16 (rc_trace_id rq), lr_flags = rc_flags rq,
      lr_time = map_option (\<lambda>t. timespec_to_duration (Some t)) (rc_ts rq),
      lr_observed = map_option (\<lambda>t. timespec_to_duration (Some t)) (rc_ts_obs rq),
      lr_event = (if rc_event_id rq > 0 then Some (rc_event_id rq, c_str (rc_event_name rq)) else None),
      lr_attrs = attrs_of (rc_attrs rq), lr_body = body\<rparr>"

lemma requested_record_body: "(requested_record rq b)\<lparr>lr_body := b'\<rparr> = requested_record rq b'"
  by (simp add: requested_record_def)

lemma record_attributes_result:
  "\<forall>kv \<in> set kvs. ck_key kv \<noteq> None \<Longrightarrow>
     record_attributes attrs kvs = Some (if good_values kvs then Inr (attrs @ attrs_of kvs) else raise ''Unable to add attribute'')"
  by (induction attrs kvs rule: record_attributes.induct) (auto simp: good_values_def attrs_of_def)

lemma record_create_result:
  assumes "\<forall>kv \<in> set (rc_attrs rq). ck_key kv \<noteq> None"
  obtains (made) "record_wanted sdk g rq w" "otel_logger_record_create sdk g rq w = Some (Inr (Some (requested_record rq None)))"
    | (unwanted) "\<not> record_wanted sdk g rq w" "otel_logger_record_create sdk g rq w = Some (Inr None)"
        "otel_logger_severity (rc_severity rq) \<noteq> kInvalid"
        "\<not> sdk_log_enabled sdk (calls w) g (otel_logger_severity (rc_severity rq))"
    | (refused) e where "\<not> record_wanted sdk g rq w" "otel_logger_record_create sdk g rq w = Some (Inl e)"
        "otel_logger_severity (rc_severity rq) = kInvalid \<or>
         sdk_log_enabled sdk (calls w) g (otel_logger_severity (rc_severity rq))"
proof -
  let ?sev = "otel_logger_severity (rc_severity rq)"
  have eq: "otel_logger_record_create sdk g rq w = Some
     (if ?sev = kInvalid then invalid_severity (rc_severity rq)
      else if \<not> sdk_log_enabled sdk (calls w) g ?sev then Inr None
      else if \<not> sdk_create_record sdk (calls w) then raise ''Unable to create log record''
      else if good_values (rc_attrs rq) then Inr (Some (requested_record rq None))
      else raise ''Unable to add attribute'')"
    using record_attributes_result [OF assms, of "[]"]
    by (cases "rc_ts rq"; cases "rc_ts_obs rq") (simp_all add: otel_logger_record_create_def requested_record_def Let_def)
  show thesis
  proof (cases "record_wanted sdk g rq w")
    case True
    then show thesis using made eq by (simp add: record_wanted_def)
  next
    case False
    show thesis
    proof (cases "?sev \<noteq> kInvalid \<and> \<not> sdk_log_enabled sdk (calls w) g ?sev")
      case True
      then show thesis using unwanted False eq by simp
    next
      case not_wanted: False
      obtain e where "otel_logger_record_create sdk g rq w = Some (Inl e)"
        using eq False not_wanted by (auto simp: record_wanted_def invalid_severity_def split: if_splits)
      then show thesis using refused [OF False] not_wanted by blast
    qed
  qed
qed

text \<open>How a logging call ends: with exactly one record, the requested one, or with none.\<close>

definition logs ::
  "('d, 'b, 't) sdk \<Rightarrow> nat \<Rightarrow> 'd log_request \<Rightarrow> 'd visited option \<Rightarrow> int \<Rightarrow> ('d, 'b, 't) world \<Rightarrow>
   int outcome \<Rightarrow> ('d, 'b, 't) world \<Rightarrow> bool" where
  "logs sdk g rq body n w r w' \<longleftrightarrow>
     (if record_wanted sdk g rq w \<and> body \<noteq> None
      then r = Inr n \<and> w' = call (EmitLogRecord g (requested_record rq body)) w
      else w' = w \<and>
        (if otel_logger_severity (rc_severity rq) \<noteq> kInvalid \<and>
            \<not> sdk_log_enabled sdk (calls w) g (otel_logger_severity (rc_severity rq))
         then r = Inr 0 else (\<exists>e. r = Inl e)))"

text \<open>The body a value becomes, if it is one.\<close>

definition value_body :: "'d cvalue \<Rightarrow> 'd visited option" where
  "value_body b = (if b = C_null then Some (Vis_str []) else if in_value_range b then Some (cvalue_visit b) else None)"

lemma log_v_result:
  assumes "sdk_logger l = Inr g" "lg_enabled l" "\<forall>kv \<in> set (rc_attrs rq). ck_key kv \<noteq> None"
  shows "\<exists>r w'. otel_logger_log_v sdk expand (Some l) rq (Some f) w = Some (r, w') \<and>
    logs sdk g rq (map_option Vis_str (expand f)) (int (length (c_str (expand f)))) w r w'"
  using assms(3)
proof (cases rule: record_create_result [of rq sdk g w])
  case made
  then show ?thesis
    using assms(1,2) by (cases "expand f") (auto simp: otel_logger_log_v_def logs_def record_wanted_def
        requested_record_body)
qed (use assms(1,2) in \<open>auto simp: otel_logger_log_v_def logs_def\<close>)

lemma log_body_result:
  assumes "sdk_logger l = Inr g" "lg_enabled l" "\<forall>kv \<in> set (rc_attrs rq). ck_key kv \<noteq> None"
  shows "\<exists>r w'. otel_logger_log_body sdk (Some l) rq (Some b) w = Some (r, w') \<and>
    logs sdk g rq (value_body b) OTELC_RET_OK w r w'"
  using assms(3)
proof (cases rule: record_create_result [of rq sdk g w])
  case made
  then show ?thesis
    using assms(1,2) by (auto simp: otel_logger_log_body_def logs_def record_wanted_def value_body_def
        requested_record_body)
qed (use assms(1,2) in \<open>auto simp: otel_logger_log_body_def logs_def\<close>)

text \<open>
  C12: A logging call emits exactly the requested record, or none.  On an enabled, started logger a
  text whose formatting succeeds and a value that has a body each make one record, with the severity,
  identifiers, times, event, attributes and body of the request, and hand it to the SDK once; the
  call returns the length of the text, or success.  Otherwise nothing is emitted and the SDK is not
  called: the call returns 0 when the SDK does not want the severity, and an error in every other case.
\<close>
theorem log_emits_requested_record:
  assumes "sdk_logger l = Inr g" "lg_enabled l" "\<forall>kv \<in> set (rc_attrs rq). ck_key kv \<noteq> None"
  shows "(\<exists>r w'. otel_logger_log sdk expand (Some l) rq (Some f) w = Some (r, w') \<and>
      logs sdk g rq (map_option Vis_str (expand f)) (int (length (c_str (expand f)))) w r w') \<and>
    (\<exists>r w'. otel_logger_log_body sdk (Some l) rq (Some b) w = Some (r, w') \<and>
      logs sdk g rq (value_body b) OTELC_RET_OK w r w')"
  unfolding otel_logger_log_def option.case by (intro conjI log_v_result log_body_result assms)

definition demo_logger :: otelc_logger where
  "demo_logger = \<lparr>lg_enabled = True, lg_min_severity = 1, lg_flush_timeout = 5000, lg_scope_name = Some ''app'',
     lg_yaml_prefix = Some ''/t'', lg_impl = Some \<lparr>gi_provider = Some 3, gi_logger = Some 3, gi_exporters = [2]\<rparr>\<rparr>"

definition demo_request :: "unit log_request" where
  "demo_request = \<lparr>rc_severity = 9, rc_event_id = 4, rc_event_name = Some ''login'', rc_span_id = None,
     rc_trace_id = Some (replicate 16 7), rc_flags = 1, rc_ts = None, rc_ts_obs = None,
     rc_attrs = [\<lparr>ck_key = Some ''user'', ck_value = C_int64 5\<rparr>]\<rparr>"

lemma demo_logger_sdk: "sdk_logger demo_logger = Inr 3" "lg_enabled demo_logger"
  by (simp_all add: sdk_logger_def demo_logger_def)

lemma demo_request_wanted: "record_wanted demo_sdk 3 demo_request demo_world"
  using severity_invalid [of 9]
  by (simp add: record_wanted_def demo_request_def demo_sdk_def good_values_def)

lemma log_emits_requested_record_witness:
  "\<exists>w'. otel_logger_log demo_sdk Some (Some demo_logger) demo_request (Some ''hello'') demo_world = Some (Inr 5, w') \<and>
     calls w' = [EmitLogRecord 3 (requested_record demo_request (Some (Vis_str ''hello'')))]"
proof -
  have k: "\<forall>kv \<in> set (rc_attrs demo_request). ck_key kv \<noteq> None" by (simp add: demo_request_def)
  show ?thesis
    using log_emits_requested_record [OF demo_logger_sdk k, of demo_sdk Some "''hello''" demo_world C_null]
      demo_request_wanted
    by (auto simp: logs_def demo_world_def)
qed

section \<open>The span a record belongs to\<close>

text \<open>The identifiers of the span a structure stands for: those of its context, or zeros when the
  structure has no handle or the context is not valid.\<close>

definition span_ids ::
  "('d, 'b, 't) sdk \<Rightarrow> ('d, 'b, 't) world \<Rightarrow> otelc_span option \<Rightarrow> 8 word list \<times> 8 word list \<times> 8 word" where
  "span_ids sdk w span =
     (case Option.bind span (\<lambda>sp. span_at w (sp_idx sp)) of
        None \<Rightarrow> (replicate 8 0, replicate 16 0, 0)
      | Some h \<Rightarrow>
          let c = get_context sdk (sh_span h) in
          if ctx_is_valid sdk c then (sc_span_id c, sc_trace_id c, sc_flags c)
          else (replicate 8 0, replicate 16 0, 0))"

lemma span_extract_ids: "otel_logger_span_extract sdk span w = (span_ids sdk w span, w)"
proof (cases span)
  case (Some sp)
  show ?thesis
  proof (cases "span_at w (sp_idx sp)")
    case None
    have "\<exists>e. otel_span_get_id sdk (Some sp) (Some 8) (Some 16) True w = (Inl e, w)"
      unfolding otel_span_get_id_def option.case by (rule lock_span_handle_stale [OF None])
    then show ?thesis using Some None by (auto simp: otel_logger_span_extract_def span_ids_def)
  next
    case (Some h)
    then show ?thesis
      using \<open>span = Some sp\<close>
      by (simp add: otel_logger_span_extract_def otel_span_get_id_def lock_span_handle_live span_ids_def Let_def
          copy_ids_def copy_id_def)
  qed
qed (simp add: otel_logger_span_extract_def span_ids_def)

lemma with_span_ids_simps [simp]:
  "rc_attrs (with_span_ids ids rq) = rc_attrs rq" "rc_severity (with_span_ids ids rq) = rc_severity rq"
  "record_wanted sdk g (with_span_ids ids rq) w = record_wanted sdk g rq w"
  by (simp_all add: with_span_ids_def record_wanted_def split: prod.split)

lemma logs_span:
  assumes "logs sdk g (with_span_ids ids rq) body n w r w'" "length (fst ids) = 8" "length (fst (snd ids)) = 16"
  shows "calls w' = calls w \<or> (\<exists>rec. calls w' = EmitLogRecord g rec # calls w \<and>
    (lr_span_id rec, lr_trace_id rec, lr_flags rec) = ids)"
proof (cases ids)
  case (fields a b c)
  then show ?thesis
    using assms by (auto simp: logs_def requested_record_def with_span_ids_def id_bytes_def split: if_splits)
qed

text \<open>
  C35: A record logged for a span carries the identifiers of that span.  Whatever a logging call with
  a span emits has the span identifier, trace identifier and trace flags of the live span, and zeros
  when the span was ended, was never there or has no valid context; a dead span does not keep the
  record from being emitted, and the spans themselves are left as they are.
\<close>
theorem log_span_carries_ids:
  assumes "sdk_logger l = Inr g" "lg_enabled l" "\<forall>kv \<in> set (rc_attrs rq). ck_key kv \<noteq> None"
    and "\<forall>n. length (sc_span_id (get_context sdk n)) = 8 \<and> length (sc_trace_id (get_context sdk n)) = 16"
  shows "(\<exists>r w'. otel_logger_log_span sdk expand (Some l) rq span (Some f) w = Some (r, w') \<and> otel_span w' = otel_span w \<and>
      (if record_wanted sdk g rq w \<and> expand f \<noteq> None
       then \<exists>rec. calls w' = EmitLogRecord g rec # calls w \<and>
              (lr_span_id rec, lr_trace_id rec, lr_flags rec) = span_ids sdk w span
       else calls w' = calls w)) \<and>
    (\<exists>r w'. otel_logger_log_body_span sdk (Some l) rq span (Some b) w = Some (r, w') \<and> otel_span w' = otel_span w \<and>
      (if record_wanted sdk g rq w \<and> value_body b \<noteq> None
       then \<exists>rec. calls w' = EmitLogRecord g rec # calls w \<and>
              (lr_span_id rec, lr_trace_id rec, lr_flags rec) = span_ids sdk w span
       else calls w' = calls w))"
proof -
  let ?ids = "span_ids sdk w span"
  have len: "length (fst ?ids) = 8" "length (fst (snd ?ids)) = 16"
    using assms(4) by (simp_all add: span_ids_def Let_def split: option.split)
  have k: "\<forall>kv \<in> set (rc_attrs (with_span_ids ?ids rq)). ck_key kv \<noteq> None" using assms(3) by simp
  have carry: "otel_span w' = otel_span w \<and> (if record_wanted sdk g rq w \<and> body \<noteq> None
       then \<exists>rec. calls w' = EmitLogRecord g rec # calls w \<and>
              (lr_span_id rec, lr_trace_id rec, lr_flags rec) = ?ids
       else calls w' = calls w)"
    if "logs sdk g (with_span_ids ?ids rq) body n w r w'" for body n r w'
    using that logs_span [OF that len] by (auto simp: logs_def split: if_splits)
  show ?thesis
    using log_v_result [OF assms(1,2) k, of sdk expand f w] log_body_result [OF assms(1,2) k, of sdk b w] carry
    unfolding otel_logger_log_span_def otel_logger_log_body_span_def option.case span_extract_ids prod.case
    by (metis (no_types, lifting) option.map_disc_iff)
qed

lemma log_span_carries_ids_witness:
  "\<exists>r w' rec. otel_logger_log_span demo_sdk Some (Some demo_logger) demo_request (Some demo_span) (Some ''hello'') demo_world =
     Some (r, w') \<and> calls w' = [EmitLogRecord 3 rec] \<and> lr_span_id rec = replicate 8 1 \<and> lr_trace_id rec = replicate 16 1"
proof -
  have k: "\<forall>kv \<in> set (rc_attrs demo_request). ck_key kv \<noteq> None" by (simp add: demo_request_def)
  have c: "\<forall>n. length (sc_span_id (get_context demo_sdk n)) = 8 \<and> length (sc_trace_id (get_context demo_sdk n)) = 16"
    by (simp add: demo_sdk_def demo_ctx_def)
  have ids: "span_ids demo_sdk demo_world (Some demo_span) = (replicate 8 1, replicate 16 1, 1)"
    using demo_span_at by (simp add: span_ids_def demo_sdk_def demo_ctx_def demo_span_def)
  show ?thesis
    using log_span_carries_ids [OF demo_logger_sdk k c, of Some "Some demo_span" "''hello''" demo_world C_null]
      demo_request_wanted ids demo_calls by auto
qed

section \<open>The minimum severity\<close>

definition severity_rank :: "severity \<Rightarrow> nat" where
  "severity_rank s = length (takeWhile (\<lambda>p. snd p \<noteq> s) severity_table)"

lemma severity_rank_nth: "i < 25 \<Longrightarrow> severity_rank (snd (severity_table ! i)) = i"
proof -
  have "\<forall>i \<in> set [0..<25]. severity_rank (snd (severity_table ! i)) = i" by code_simp
  then show "i < 25 \<Longrightarrow> severity_rank (snd (severity_table ! i)) = i" by simp
qed

lemma severity_rank_tag: "0 < s \<Longrightarrow> s < 25 \<Longrightarrow> severity_rank (otel_logger_severity s) = nat s"
  using severity_of_tag [of "nat s"] severity_rank_nth [of "nat s"] by simp

lemma severity_rank_inverse: "snd (severity_table ! severity_rank s) = s"
  by (cases s) (simp_all add: severity_rank_def severity_table_def)

text \<open>Severities are ordered by their place in the table, as their numbers are.\<close>

instantiation severity :: linorder
begin

definition less_eq_severity :: "severity \<Rightarrow> severity \<Rightarrow> bool" where
  "less_eq_severity s t \<longleftrightarrow> severity_rank s \<le> severity_rank t"

definition less_severity :: "severity \<Rightarrow> severity \<Rightarrow> bool" where
  "less_severity s t \<longleftrightarrow> severity_rank s < severity_rank t"

instance
proof
  fix s t :: severity
  assume "s \<le> t" "t \<le> s"
  then show "s = t" using severity_rank_inverse by (metis less_eq_severity_def order_antisym)
qed (auto simp: less_eq_severity_def less_severity_def)

end

lemma severity_le_iff:
  assumes "0 < m" "m < 25" "0 < s" "s < 25"
  shows "otel_logger_severity m \<le> otel_logger_severity s \<longleftrightarrow> m \<le> s"
  using assms severity_rank_tag by (simp add: less_eq_severity_def nat_le_eq_zle)

text \<open>The minimum set last on the SDK logger of provider \<open>g\<close>, and the behaviour the SDK documents: a severity
  is enabled when it is not below that minimum.\<close>

fun threshold :: "nat \<Rightarrow> ('d, 'b, 't) sdk_call list \<Rightarrow> severity option" where
  "threshold g [] = None"
| "threshold g (SetMinimumSeverity g' s # cs) = (if g' = g then Some s else threshold g cs)"
| "threshold g (_ # cs) = threshold g cs"

text \<open>What the SDK documents of \<open>SetMinimumSeverity\<close> and \<open>Enabled\<close>: after a minimum was set, a severity is
  enabled when it is not below it.  Before that nothing is assumed (the API's logger starts with the
  highest threshold, that is, disabled).\<close>

definition sdk_filters :: "('d, 'b, 't) sdk \<Rightarrow> nat \<Rightarrow> bool" where
  "sdk_filters sdk g \<longleftrightarrow>
     (\<forall>cs m s. threshold g cs = Some m \<longrightarrow> (sdk_log_enabled sdk cs g s \<longleftrightarrow> m \<le> s))"

text \<open>A sequence of texts logged one after the other.\<close>

fun log_all ::
  "('d, 'b, 't) sdk \<Rightarrow> (string \<Rightarrow> string option) \<Rightarrow> otelc_logger \<Rightarrow> ('d log_request \<times> string) list \<Rightarrow>
   ('d, 'b, 't) world \<Rightarrow> ('d, 'b, 't) world option" where
  "log_all sdk expand l [] w = Some w"
| "log_all sdk expand l ((rq, f) # rqs) w =
     (case otel_logger_log sdk expand (Some l) rq (Some f) w of
        None \<Rightarrow> None
      | Some (_, w1) \<Rightarrow> log_all sdk expand l rqs w1)"

definition sound_request :: "(string \<Rightarrow> string option) \<Rightarrow> 'd log_request \<times> string \<Rightarrow> bool" where
  "sound_request expand x \<longleftrightarrow>
     (case x of (rq, f) \<Rightarrow>
        0 < rc_severity rq \<and> rc_severity rq < 25 \<and> (\<forall>kv \<in> set (rc_attrs rq). ck_key kv \<noteq> None) \<and>
        good_values (rc_attrs rq) \<and> expand f \<noteq> None)"

definition emission ::
  "nat \<Rightarrow> (string \<Rightarrow> string option) \<Rightarrow> 'd log_request \<times> string \<Rightarrow> ('d, 'b, 't) sdk_call" where
  "emission g expand x = EmitLogRecord g (requested_record (fst x) (map_option Vis_str (expand (snd x))))"

lemma log_above_minimum:
  assumes "sdk_filters sdk g" "\<forall>cs. sdk_create_record sdk cs" "sdk_logger l = Inr g" "lg_enabled l"
    and "threshold g (calls w) = Some (otel_logger_severity m)" "0 < m" "m < 25" "sound_request expand (rq, f)"
  shows "\<exists>r w'. otel_logger_log sdk expand (Some l) rq (Some f) w = Some (r, w') \<and>
    calls w' = (if m \<le> rc_severity rq then [emission g expand (rq, f)] else []) @ calls w"
proof -
  note sound = assms(8) [unfolded sound_request_def prod.case]
  have "sdk_log_enabled sdk (calls w) g (otel_logger_severity (rc_severity rq)) \<longleftrightarrow> m \<le> rc_severity rq"
    using assms(1,5-7) sound severity_le_iff by (simp add: sdk_filters_def)
  then have "record_wanted sdk g rq w \<longleftrightarrow> m \<le> rc_severity rq"
    using assms(2) sound severity_invalid [of "rc_severity rq"] by (simp add: record_wanted_def)
  then show ?thesis
    using log_v_result [OF assms(3,4), of rq sdk expand f w] sound
    by (auto simp: logs_def emission_def otel_logger_log_def)
qed

text \<open>
  C22: The minimum severity is a filter.  With an SDK that honours a minimum from the moment it is
  given one (whatever it does before), once a minimum has been set on an enabled, started logger,
  any sequence of sound logging calls emits, in order, exactly the records whose severity number is
  not below it.
\<close>
theorem min_severity_filters:
  assumes "sdk_filters sdk g" "\<forall>cs. sdk_create_record sdk cs" "sdk_logger l = Inr g" "lg_enabled l"
    and "otel_logger_set_min_severity (Some l) m w = (Inr rc, Some l', w1)"
    and "\<forall>x \<in> set rqs. sound_request expand x"
  shows "\<exists>w2. log_all sdk expand l' rqs w1 = Some w2 \<and>
    calls w2 = rev (map (emission g expand) (filter (\<lambda>x. m \<le> rc_severity (fst x)) rqs)) @ calls w1"
proof -
  have m: "0 < m" "m < 25" "l' = l\<lparr>lg_min_severity := m\<rparr>" "threshold g (calls w1) = Some (otel_logger_severity m)"
    using assms(3,5) severity_invalid [of m]
    by (auto simp: otel_logger_set_min_severity_def invalid_severity_def split: if_splits)
  have l': "sdk_logger l' = Inr g" "lg_enabled l'"
    using assms(3,4) m(3) by (simp_all add: sdk_logger_def)
  show ?thesis
    using m(4) assms(6)
  proof (induction rqs arbitrary: w1)
    case (Cons x rqs)
    obtain rq f where x: "x = (rq, f)" by fastforce
    have sound: "sound_request expand (rq, f)" using Cons.prems(2) x by simp
    obtain r w2 where s: "otel_logger_log sdk expand (Some l') rq (Some f) w1 = Some (r, w2)"
      "calls w2 = (if m \<le> rc_severity rq then [emission g expand (rq, f)] else []) @ calls w1"
      using log_above_minimum [OF assms(1,2) l' Cons.prems(1) m(1,2) sound] by blast
    then have "threshold g (calls w2) = Some (otel_logger_severity m)"
      using Cons.prems(1) by (simp add: emission_def)
    with Cons.IH [OF this] Cons.prems(2) s show ?case by (auto simp: x)
  qed simp
qed

definition filtering_sdk :: "(unit, (string \<times> string) list, unit) sdk" where
  "filtering_sdk = demo_sdk\<lparr>sdk_log_enabled := (\<lambda>cs g s.
     case threshold g cs of None \<Rightarrow> False | Some m \<Rightarrow> m \<le> s)\<rparr>"

lemma min_severity_filters_witness:
  "\<exists>w2. log_all filtering_sdk Some (demo_logger\<lparr>lg_min_severity := 13\<rparr>)
     [(demo_request, ''info''), (demo_request\<lparr>rc_severity := 17\<rparr>, ''error'')] (call (SetMinimumSeverity 3 kWarn) demo_world) = Some w2 \<and>
     calls w2 = [emission 3 Some (demo_request\<lparr>rc_severity := 17\<rparr>, ''error''), SetMinimumSeverity 3 kWarn]"
proof -
  let ?rqs = "[(demo_request, ''info''), (demo_request\<lparr>rc_severity := 17\<rparr>, ''error'')]"
  have f: "sdk_filters filtering_sdk 3" "\<forall>cs. sdk_create_record filtering_sdk cs"
    by (simp_all add: sdk_filters_def filtering_sdk_def demo_sdk_def)
  have "otel_logger_severity 13 = kWarn" by code_simp
  then have m: "otel_logger_set_min_severity (Some demo_logger) 13 demo_world =
      (Inr OTELC_RET_OK, Some (demo_logger\<lparr>lg_min_severity := 13\<rparr>), call (SetMinimumSeverity 3 kWarn) demo_world)"
    by (simp add: otel_logger_set_min_severity_def demo_logger_sdk)
  have sound: "\<forall>x \<in> set ?rqs. sound_request Some x"
    by (simp add: sound_request_def demo_request_def good_values_def)
  show ?thesis
    using min_severity_filters [OF f demo_logger_sdk m sound] by (simp add: demo_request_def)
qed

end
