(* ===== verification/Otel_Signals.thy ===== *)
theory Otel_Signals
  imports Otel_Restart Otel_TracerLaws Otel_LoggerLaws
begin

text \<open>
  Tracers, meters and loggers as instances of the contract of \<open>Otel_Restart\<close>: their starts exchange
  pipelines in the safe order, and over a whole life no provider leaks and no file is emptied while an
  old exporter can still write into it.
\<close>

section \<open>What the shared steps of a start do\<close>

lemma quiet_append [simp]: "quiet (a @ b) \<longleftrightarrow> quiet a \<and> quiet b"
  by (auto simp: quiet_def)

lemma quiet_Nil [simp]: "quiet []"
  by (simp add: quiet_def)

lemma quiet_open [simp]: "quiet (map open_call fs)"
  by (simp add: quiet_def open_call_def)

lemma truncates_map [simp]: "truncates (map truncate_call fs)"
  by (auto simp: truncates_def truncate_call_def)

lemma release_provider_calls: "calls (release_provider p w) = releasing p @ calls w"
  by (simp add: release_calls releasing_def split: option.split)

lemma exchange_before:
  "exchange p es lo hi new p' es' \<Longrightarrow> quiet cs \<Longrightarrow> exchange p es lo hi (new @ cs) p' es'"
proof (induction rule: exchange.induct)
  case (kept new)
  then show ?case by (simp add: exchange.kept)
next
  case (swapped before ts q es')
  then show ?case using exchange.swapped [of "before @ cs" ts lo q hi p es es'] by simp
next
  case (dropped before ts new)
  then show ?case using exchange.dropped [of "before @ cs" ts new lo hi p es] by simp
qed

lemma exchange_hi: "exchange p es lo hi new p' es' \<Longrightarrow> hi \<le> hi' \<Longrightarrow> exchange p es lo hi' new p' es'"
proof (induction rule: exchange.induct)
  case (dropped before ts new)
  then show ?case by (intro exchange.dropped) auto
qed (auto intro: exchange.intros)

text \<open>The exchange itself, as the three starts make it once the new files are open.\<close>

lemma exchange_calls:
  assumes "calls w1 = pre @ calls w" "quiet pre"
  shows "\<exists>before ts. quiet before \<and> truncates ts \<and>
    calls (otel_exporter_files_truncate es (shutdown_exporters old w1)) =
      ts @ map ExporterShutdown (rev old) @ before @ calls w"
  using assms by (intro exI [of _ pre] exI [of _ "map truncate_call (rev (pipeline_files es))"])
    (simp add: files_truncate_calls shutdown_calls)

lemma files_tried [simp]:
  "tried (otel_exporter_files_truncate es w) = tried w"
  "tried (shutdown_exporters old w) = tried w" "tried (release_provider p w) = tried w"
proof -
  show "tried (otel_exporter_files_truncate es w) = tried w"
    by (induction es w rule: otel_exporter_files_truncate.induct) (auto split: option.split)
  have "tried (fold (\<lambda>e. call (ExporterShutdown e)) old w) = tried w"
    by (induction old arbitrary: w) auto
  then show "tried (shutdown_exporters old w) = tried w" by (simp add: shutdown_exporters_def)
qed (simp add: release_provider_def split: option.split)

lemma files_open_tried: "otel_exporter_files_open sdk es w = (r, w') \<Longrightarrow> tried w' = tried w"
  by (induction sdk es w rule: otel_exporter_files_open.induct) (auto split: option.splits if_splits)

lemma flush_provider_calls:
  "\<exists>cs. calls (flush_provider p b w) = cs @ calls w \<and> quiet cs \<and> tried (flush_provider p b w) = tried w"
  by (auto simp: flush_provider_def quiet_def split: option.split)

text \<open>The end of the three destructors: a flush that delivered everything, or the shutdown of the
  exporters, before the provider is released.\<close>

lemma teardown_law:
  assumes "calls w1 = pre @ calls w" "\<forall>p. ReleaseProvider p \<notin> set pre"
    and "calls w2 = calls w1 \<or> (\<exists>p us. calls w2 = ForceFlush p us # calls w1)"
    and "flushed \<Longrightarrow> \<exists>p us. prov = Some p \<and> calls w2 = ForceFlush p us # calls w1 \<and> answer (calls w1)"
  shows "\<exists>new. calls (release_provider prov (if flushed then w2 else shutdown_exporters es w2)) =
      releasing prov @ new @ calls w \<and> (\<forall>p. ReleaseProvider p \<notin> set new) \<and>
    ((\<forall>e \<in> set es. ExporterShutdown e \<in> set new) \<or> (\<exists>p. prov = Some p \<and> drained answer p new (calls w)))"
proof (cases flushed)
  case True
  then obtain p us where f: "prov = Some p" "calls w2 = ForceFlush p us # pre @ calls w" "answer (pre @ calls w)"
    using assms(1,4) by auto
  then have "drained answer p (ForceFlush p us # pre) (calls w)"
    unfolding drained_def by (intro exI [of _ us] exI [of _ "[]"] exI [of _ pre]) simp
  then show ?thesis
    using f True assms(2) by (intro exI [of _ "ForceFlush p us # pre"]) (simp add: release_provider_calls)
next
  case False
  obtain fl where "calls w2 = fl @ pre @ calls w" "\<forall>p. ReleaseProvider p \<notin> set fl"
  proof -
    from assms(3) show thesis
    proof (elim disjE exE)
      assume "calls w2 = calls w1"
      then show thesis using that [of "[]"] assms(1) by simp
    next
      fix p us
      assume "calls w2 = ForceFlush p us # calls w1"
      then show thesis using that [of "[ForceFlush p us]"] assms(1) by simp
    qed
  qed
  then show ?thesis
    using False assms(2)
    by (intro exI [of _ "map ExporterShutdown (rev es) @ fl @ pre"]) (auto simp: release_provider_calls shutdown_calls)
qed

section \<open>Tracers\<close>

definition tracer_provider_of :: "otelc_tracer \<Rightarrow> nat option" where
  "tracer_provider_of t = (case tr_impl t of None \<Rightarrow> None | Some i \<Rightarrow> ti_provider i)"

definition tracer_exporters_of :: "otelc_tracer \<Rightarrow> nat list" where
  "tracer_exporters_of t = (case tr_impl t of None \<Rightarrow> [] | Some i \<Rightarrow> ti_exporters i)"

text \<open>A start with one of a set of configurations, and a destruction at any time.\<close>

definition tracer_starts ::
  "('d, 'b, 't) sdk \<Rightarrow> 'e :: {zero, one, ord} cfg set \<Rightarrow> otelc_tracer \<Rightarrow> ('d, 'b, 't) world \<Rightarrow> otelc_tracer \<Rightarrow>
   ('d, 'b, 't) world \<Rightarrow> bool" where
  "tracer_starts sdk cfgs t w t' w' \<longleftrightarrow> (\<exists>c \<in> cfgs. \<exists>r. otel_tracer_start sdk c (Some t) w = Some (r, Some t', w'))"

definition tracer_destroys ::
  "('d, 'b, 't) sdk \<Rightarrow> otelc_tracer \<Rightarrow> ('d, 'b, 't) world \<Rightarrow> ('d, 'b, 't) world \<Rightarrow> bool" where
  "tracer_destroys sdk t w w' \<longleftrightarrow> (\<exists>now in_time. w' = otel_tracer_destroy sdk now in_time (Some t) w)"

lemma flushed_only_quiet: "flushed_only impl cs \<Longrightarrow> quiet cs"
  by (auto simp: flushed_only_def quiet_def)

lemma install_tracer_exchange:
  assumes "install_tracer sdk q es impl w = (r, impl', w')" "lo < q" "q \<le> tried w"
  shows "tried w \<le> tried w' \<and>
    (calls w' = releasing (ti_provider impl) @ calls w \<and> ti_provider impl' = Some q \<or>
     (\<exists>new. calls w' = releasing new @ releasing (ti_provider impl) @ calls w \<and> ti_provider impl' = None \<and>
        ti_exporters impl' = [] \<and> (new = None \<or> new = Some q)))"
proof (cases "oom sdk (tried w)")
  case True
  then show ?thesis
    using assms(1) by (auto simp: install_tracer_def Let_def try_alloc_def release_provider_calls releasing_def [of None]
        intro!: exI [of _ None])
next
  case False
  then show ?thesis
    using assms(1) by (cases "oom sdk (Suc (tried w))")
      (auto simp: install_tracer_def Let_def try_alloc_def release_provider_calls intro!: exI [of _ "Some q"])
qed

lemma make_propagator_forward: "forward make_propagator"
  unfolding make_propagator_def by (intro forward_intros)

lemma swap_exchange:
  assumes "swap_pipeline sdk q es impl w = (r, impl', w')" "lo < q" "q \<le> tried w"
  shows "tried w \<le> tried w' \<and> (\<exists>new. calls w' = new @ calls w \<and>
    exchange (ti_provider impl) (ti_exporters impl) lo (tried w') new (ti_provider impl') (ti_exporters impl'))"
proof (cases "sdk_get_tracer sdk (calls w)")
  case False
  then show ?thesis
    using assms(1) by (auto simp: swap_pipeline_def intro: exchange.kept)
next
  case True
  obtain r1 w1 where p: "run_build sdk make_propagator w = (r1, w1)" by fastforce
  have w1: "calls w1 = calls w" "tried w \<le> tried w1"
    using run_build_calls [OF p] run_build_forward [OF p make_propagator_forward] by auto
  obtain r2 w2 where o: "otel_exporter_files_open sdk es w1 = (r2, w2)" by fastforce
  obtain fs where w2: "calls w2 = map open_call fs @ calls w" "tried w \<le> tried w2"
    using files_open_calls [OF o] files_open_tried [OF o] w1 by auto
  show ?thesis
  proof (cases "(\<exists>e. r1 = Inl e) \<or> (\<exists>e. r2 = Inl e)")
    case True
    then show ?thesis
      using assms(1) \<open>sdk_get_tracer sdk (calls w)\<close> p o w1 w2
      by (cases r1; cases r2) (auto simp: swap_pipeline_def intro: exchange.kept)
  next
    case False
    then obtain x y where ok: "r1 = Inr x" "r2 = Inr y" by (cases r1; cases r2) auto
    let ?w3 = "otel_exporter_files_truncate es (shutdown_exporters (ti_exporters impl) w2)"
    obtain before ts where c: "quiet before" "truncates ts"
      "calls ?w3 = ts @ map ExporterShutdown (rev (ti_exporters impl)) @ before @ calls w"
      using exchange_calls [OF w2(1) quiet_open, of es "ti_exporters impl"] by blast
    have i: "install_tracer sdk q es impl ?w3 = (r, impl', w')"
      using assms(1) True p o ok by (simp add: swap_pipeline_def)
    have q: "q \<le> tried ?w3" using assms(3) w2(2) by simp
    note out = install_tracer_exchange [OF i assms(2) q]
    have t: "tried w \<le> tried w'" "q \<le> tried w'" using out w2(2) assms(3) by auto
    from out consider
      (installed) "calls w' = releasing (ti_provider impl) @ calls ?w3" "ti_provider impl' = Some q"
      | (failed) new where "calls w' = releasing new @ releasing (ti_provider impl) @ calls ?w3"
          "ti_provider impl' = None" "ti_exporters impl' = []" "new = None \<or> new = Some q"
      by blast
    then show ?thesis
    proof cases
      case installed
      then show ?thesis
        using t exchange.swapped [OF c(1,2) assms(2) t(2), of "ti_provider impl" "ti_exporters impl" "ti_exporters impl'"]
        by (auto simp: c(3))
    next
      case failed
      then have "new = None \<or> (\<exists>q. new = Some q \<and> lo < q \<and> q \<le> tried w')" using assms(2) t(2) by auto
      from exchange.dropped [OF c(1,2) this, of "ti_provider impl" "ti_exporters impl"]
      show ?thesis using failed t by (auto simp: c(3))
    qed
  qed
qed

lemma tracer_start_exchanges:
  fixes cfgs :: "'e :: {zero, one, ord} cfg set"
  assumes "tracer_starts sdk cfgs t w t' w'"
  shows "tried w \<le> tried w' \<and> (\<exists>new. calls w' = new @ calls w \<and>
    exchange (tracer_provider_of t) (tracer_exporters_of t) (tried w) (tried w') new (tracer_provider_of t') (tracer_exporters_of t'))"
proof -
  obtain c :: "'e cfg" and r where "otel_tracer_start sdk c (Some t) w = Some (r, Some t', w')"
    using assms by (auto simp: tracer_starts_def)
  from start_run_cases [OF this] show ?thesis
  proof cases
    case (not_built cs e)
    then have "quiet cs" using flushed_only_quiet by fastforce
    then show ?thesis
      using not_built by (auto simp: tracer_provider_of_def tracer_exporters_of_def intro: exchange.kept)
  next
    case (swapped impl cs w3 p es r4 impl')
    obtain new where n: "tried w3 \<le> tried w'" "calls w' = new @ calls w3"
      "exchange (ti_provider impl) (ti_exporters impl) (tried w) (tried w') new (ti_provider impl') (ti_exporters impl')"
      using swap_exchange [OF swapped(6,4,5)] by blast
    have "tried w \<le> tried w'" using n(1) swapped(4,5) by simp
    then show ?thesis
      using exchange_before [OF n(3) flushed_only_quiet [OF flush_calls_only]] n(2) swapped(1,2,3,7)
      by (auto simp: tracer_provider_of_def tracer_exporters_of_def)
  qed
qed

lemma unregister_calls:
  "\<exists>cs. calls (otel_tracer_unregister now w) = cs @ calls w \<and> (\<forall>c \<in> set cs. \<exists>s t. c = End s t)"
proof -
  have "\<forall>c \<in> set (rev (map (end_call now) kvs)). \<exists>s t. c = End s t" for kvs
    by (auto simp: end_call_def)
  then show ?thesis
    by (auto simp: otel_tracer_unregister_def Let_def end_all_calls split: option.split)
qed

lemma tracer_destroy_releases:
  assumes "tracer_destroys sdk t w w'"
  shows "\<exists>new. calls w' = releasing (tracer_provider_of t) @ new @ calls w \<and> (\<forall>p. ReleaseProvider p \<notin> set new) \<and>
    ((\<forall>e \<in> set (tracer_exporters_of t). ExporterShutdown e \<in> set new) \<or>
     (\<exists>p. tracer_provider_of t = Some p \<and> drained (sdk_force_flush sdk) p new (calls w)))"
proof -
  obtain now in_time where w': "w' = otel_tracer_destroy sdk now in_time (Some t) w"
    using assms by (auto simp: tracer_destroys_def)
  obtain ends where e: "calls (otel_tracer_unregister now w) = ends @ calls w" "\<forall>c \<in> set ends. \<exists>s t. c = End s t"
    using unregister_calls by blast
  have none: "ReleaseProvider p \<notin> set ends" for p using e(2) by auto
  show ?thesis
  proof (cases "tr_impl t")
    case None
    then show ?thesis
      using e none w' by (simp add: otel_tracer_destroy_def tracer_provider_of_def tracer_exporters_of_def releasing_def)
  next
    case (Some impl)
    let ?w1 = "otel_tracer_unregister now w"
    let ?flush = "\<lambda>p. call (ForceFlush p (1000 * otel_tracer_flush_budget (tr_flush_timeout t)
      (of_nat (length (ti_exporters impl))))) ?w1"
    let ?tries = "\<exists>p. ti_provider impl = Some p \<and> tr_flush_timeout t > 0"
    let ?w2 = "case ti_provider impl of None \<Rightarrow> ?w1 | Some p \<Rightarrow> if tr_flush_timeout t > 0 then ?flush p else ?w1"
    let ?flushed = "?tries \<and> sdk_force_flush sdk (calls ?w1) \<and> in_time"
    have w2: "w' = release_provider (ti_provider impl)
        (if ?flushed then ?w2 else shutdown_exporters (ti_exporters impl) ?w2)"
      using w' Some by (cases "ti_provider impl") (auto simp: otel_tracer_destroy_def Let_def)
    have of: "tracer_provider_of t = ti_provider impl" "tracer_exporters_of t = ti_exporters impl"
      using Some by (simp_all add: tracer_provider_of_def tracer_exporters_of_def)
    show ?thesis
      unfolding w2 of
    proof (rule teardown_law [OF e(1)])
      show "calls ?w2 = calls ?w1 \<or> (\<exists>p us. calls ?w2 = ForceFlush p us # calls ?w1)"
        by (cases "ti_provider impl") auto
      show "\<exists>p us. ti_provider impl = Some p \<and> calls ?w2 = ForceFlush p us # calls ?w1 \<and> sdk_force_flush sdk (calls ?w1)"
        if ?flushed using that by auto
    qed (use none in blast)
  qed
qed

interpretation tracers: restartable_signal "tracer_starts sdk cfgs" "tracer_destroys sdk"
  tracer_provider_of tracer_exporters_of "sdk_force_flush sdk"
  by unfold_locales (rule tracer_start_exchanges tracer_destroy_releases, assumption)+

section \<open>Meters\<close>

definition meter_provider_of :: "'d otelc_meter \<Rightarrow> nat option" where
  "meter_provider_of m = (case mt_impl m of None \<Rightarrow> None | Some i \<Rightarrow> mi_provider i)"

definition meter_exporters_of :: "'d otelc_meter \<Rightarrow> nat list" where
  "meter_exporters_of m = (case mt_impl m of None \<Rightarrow> [] | Some i \<Rightarrow> mi_exporters i)"

definition meter_starts ::
  "('d, 'b, 't) sdk \<Rightarrow> 'e :: ord cfg set \<Rightarrow> 'd otelc_meter \<Rightarrow> ('d, 'b, 't) world \<Rightarrow> 'd otelc_meter \<Rightarrow>
   ('d, 'b, 't) world \<Rightarrow> bool" where
  "meter_starts sdk cfgs m w m' w' \<longleftrightarrow> (\<exists>c \<in> cfgs. \<exists>r. otel_meter_start sdk c (Some m) w = Some (r, Some m', w'))"

definition meter_destroys ::
  "('d, 'b, 't) sdk \<Rightarrow> 'd otelc_meter \<Rightarrow> ('d, 'b, 't) world \<Rightarrow> ('d, 'b, 't) world \<Rightarrow> bool" where
  "meter_destroys sdk m w w' \<longleftrightarrow> w' = snd (otel_meter_destroy sdk (Some m) w)"

lemma meter_pipeline_forward: "forward (meter_pipeline c)"
proof -
  have add: "forward (add_reader c x y p)" for x y p
    unfolding add_reader_def by (intro forward_intros)
  have "forward (reader_loop c pe pr k is p)" for pe pr k "is" p
    by (induction "is" arbitrary: p) (simp_all, (intro forward_intros add; assumption?)+)
  then show ?thesis
    unfolding meter_pipeline_def Let_def using add by (intro forward_intros; blast?)+
qed

text \<open>A step that makes only quiet calls.\<close>

definition quiet_step :: "('d, 'b, 't) world \<Rightarrow> ('d, 'b, 't) world \<Rightarrow> bool" where
  "quiet_step w w' \<longleftrightarrow> tried w \<le> tried w' \<and> (\<exists>cs. calls w' = cs @ calls w \<and> quiet cs)"

lemma quiet_step_refl [simp]: "quiet_step w w"
  by (simp add: quiet_step_def)

lemma quiet_step_trans: "quiet_step a b \<Longrightarrow> quiet_step b c \<Longrightarrow> quiet_step a c"
  unfolding quiet_step_def by (metis append_assoc order_trans quiet_append)

lemma quiet_step_same: "calls w' = calls w \<Longrightarrow> tried w \<le> tried w' \<Longrightarrow> quiet_step w w'"
  by (simp add: quiet_step_def)

lemma quiet_step_call: "\<not> disruptive c \<Longrightarrow> quiet_step w (call c w)"
  unfolding quiet_step_def by (simp add: quiet_def exI [of _ "[c]"])

lemma quiet_step_build: "run_build sdk m w = (r, w') \<Longrightarrow> forward m \<Longrightarrow> quiet_step w w'"
  using run_build_calls run_build_forward by (blast intro: quiet_step_same)

lemma quiet_step_open: "otel_exporter_files_open sdk es w = (r, w') \<Longrightarrow> quiet_step w w'"
  using files_open_calls [of sdk es w r w'] files_open_tried [of sdk es w r w'] by (auto simp: quiet_step_def)

lemma quiet_step_flush: "quiet_step w (flush_provider p b w)"
  using flush_provider_calls [of p b w] by (auto simp: quiet_step_def)

lemma quiet_step_alloc: "try_alloc sdk w = (b, w') \<Longrightarrow> quiet_step w w'"
  by (auto simp: try_alloc_def intro: quiet_step_same)

text \<open>An exchange as the result of quiet preparations and one installation.\<close>

definition exchanges :: "nat option \<Rightarrow> nat list \<Rightarrow> nat \<Rightarrow> ('d, 'b, 't) world \<Rightarrow> ('d, 'b, 't) world \<Rightarrow> nat option \<Rightarrow> nat list \<Rightarrow> bool" where
  "exchanges p es lo w w' p' es' \<longleftrightarrow>
     tried w \<le> tried w' \<and> (\<exists>new. calls w' = new @ calls w \<and> exchange p es lo (tried w') new p' es')"

lemma exchanges_kept: "quiet_step w w' \<Longrightarrow> exchanges p es lo w w' p es"
  by (auto simp: exchanges_def quiet_step_def intro: exchange.kept)

lemma exchanges_before: "quiet_step w0 w \<Longrightarrow> exchanges p es lo w w' p' es' \<Longrightarrow> exchanges p es lo w0 w' p' es'"
  unfolding exchanges_def quiet_step_def using exchange_before by fastforce

lemma exchanges_swapped:
  assumes "quiet_step w w1" "lo < q" "q \<le> tried w1"
    and "w' = release_provider p (otel_exporter_files_truncate new_es (shutdown_exporters es w1))"
  shows "exchanges p es lo w w' (Some q) es'"
proof -
  obtain pre where pre: "calls w1 = pre @ calls w" "quiet pre" "tried w \<le> tried w1"
    using assms(1) by (auto simp: quiet_step_def)
  obtain before ts where c: "quiet before" "truncates ts"
    "calls (otel_exporter_files_truncate new_es (shutdown_exporters es w1)) =
       ts @ map ExporterShutdown (rev es) @ before @ calls w"
    using exchange_calls [OF pre(1,2)] by blast
  have "tried w' = tried w1" using assms(4) by simp
  then show ?thesis
    using exchange.swapped [OF c(1,2) assms(2), of "tried w'" p es es'] assms(3,4) pre(3) c(3)
    by (auto simp: exchanges_def release_provider_calls)
qed

lemma view_objects_forward: "forward (view_objects scope v)"
  unfolding view_objects_def bounds_config_def by (intro forward_intros)

lemma view_register_quiet: "otel_meter_view_register sdk s p v w = (r, w') \<Longrightarrow> quiet_step w w'"
  by (auto simp: otel_meter_view_register_def split: option.splits sum.splits prod.splits
      dest!: quiet_step_build [OF _ view_objects_forward] elim!: quiet_step_trans intro!: quiet_step_call)

lemma register_views_quiet: "register_views sdk s p vs w = (r, w') \<Longrightarrow> quiet_step w w'"
proof (induction vs arbitrary: w)
  case (Cons v vs)
  obtain i x where v: "v = (i, x)" by fastforce
  obtain r1 w1 where one: "otel_meter_view_register sdk s (Some p) (Some x) w = (r1, w1)" by fastforce
  note q = view_register_quiet [OF one]
  show ?case
  proof (cases r1)
    case (Inl e)
    then show ?thesis using Cons.prems one v q by auto
  next
    case (Inr n)
    then have "quiet_step w1 w'" using Cons one v by auto
    then show ?thesis using q quiet_step_trans by blast
  qed
qed auto

lemma install_meter_exchanges:
  assumes "install_meter sdk s q es impl w = (r, impl', w')" "lo < q" "q \<le> tried w"
  shows "exchanges (mi_provider impl) (mi_exporters impl) lo w w' (mi_provider impl') (mi_exporters impl')"
proof (cases "sdk_get_meter sdk (calls w)")
  case False
  then show ?thesis using assms(1) by (auto simp: install_meter_def intro: exchanges_kept)
next
  case True
  obtain r1 w1 where v: "register_views sdk s q (handle_entries (mi_view impl)) w = (r1, w1)" by fastforce
  obtain r2 w2 where o: "otel_exporter_files_open sdk es w1 = (r2, w2)" by fastforce
  have w1: "quiet_step w w1" using register_views_quiet [OF v] .
  have w2: "quiet_step w w2" using quiet_step_trans [OF w1 quiet_step_open [OF o]] .
  show ?thesis
  proof (cases "(\<exists>e. r1 = Inl e) \<or> (\<exists>e. r2 = Inl e)")
    case True
    then show ?thesis
      using assms(1) \<open>sdk_get_meter sdk (calls w)\<close> v o w1 w2
      by (cases r1; cases r2) (auto simp: install_meter_def intro: exchanges_kept)
  next
    case False
    then obtain x y where ok: "r1 = Inr x" "r2 = Inr y" by (cases r1; cases r2) auto
    have "q \<le> tried w2" using assms(3) w2 by (simp add: quiet_step_def)
    note sw = exchanges_swapped [OF w2 assms(2) this refl]
    show ?thesis using assms(1) True v o ok sw by (auto simp: install_meter_def)
  qed
qed

lemma start_locked_exchanges:
  assumes "start_locked sdk c s m impl w = (r, m', w')" "mt_impl m = Some impl"
  shows "exchanges (meter_provider_of m) (meter_exporters_of m) (tried w) w w' (meter_provider_of m') (meter_exporters_of m')"
proof -
  have of: "meter_provider_of m = mi_provider impl" "meter_exporters_of m = mi_exporters impl"
    using assms(2) by (simp_all add: meter_provider_of_def meter_exporters_of_def)
  have kept: ?thesis if "quiet_step w w'" "mt_impl m' = Some impl"
    using exchanges_kept [OF that(1)] that(2) of by (simp add: meter_provider_of_def meter_exporters_of_def)
  obtain fine w1 where a: "try_alloc sdk w = (fine, w1)" by fastforce
  note q1 = quiet_step_alloc [OF a]
  let ?rt = "read_flush_timeout ''OpenTelemetry meter flush timeout'' c (mt_flush_timeout m)"
  show ?thesis
  proof (cases "fine \<and> (\<exists>v. ?rt = Inr v)")
    case False
    then show ?thesis
      using assms a q1 by (intro kept; cases ?rt) (auto simp: start_locked_def Let_def split: if_splits)
  next
    case True
    then obtain v where v: "fine" "?rt = Inr v" by blast
    let ?b = "bbind (meter_pipeline c) (\<lambda>(exporters, readers). bbind (numbered (otel_meter_provider_create (Some c) readers))
                       (\<lambda>(provider, _). give (exporters, provider)))"
    obtain rb w2 where b: "run_build sdk ?b w1 = (rb, w2)" by fastforce
    note new = new_pipeline [OF meter_pipeline_forward providers_allocate(2) b forward_creators(10)]
    have q2: "quiet_step w w2"
      using quiet_step_trans [OF q1 quiet_step_same [OF run_build_calls [OF b]]] new by blast
    show ?thesis
    proof (cases rb)
      case (Inl e)
      then show ?thesis using assms a v b q2 by (intro kept) (auto simp: start_locked_def Let_def)
    next
      case (Inr ep)
      obtain es p where ep: "ep = (es, p)" by fastforce
      obtain r3 impl1 w3 where i: "install_meter sdk (Some s) p es impl w2 = (r3, impl1, w3)" by (metis surj_pair)
      have lt: "tried w < p" "p \<le> tried w2" using new Inr ep q1 by (auto simp: quiet_step_def)
      have "w3 = w'" "mt_impl m' = Some impl1"
        using assms a v b Inr ep i by (auto simp: start_locked_def Let_def)
      then show ?thesis
        using exchanges_before [OF q2 install_meter_exchanges [OF i lt]] of
        by (simp add: meter_provider_of_def meter_exporters_of_def)
    qed
  qed
qed

lemma meter_start_exchanges:
  fixes cfgs :: "'e :: ord cfg set"
  assumes "meter_starts sdk cfgs m w m' w'"
  shows "exchanges (meter_provider_of m) (meter_exporters_of m) (tried w) w w' (meter_provider_of m') (meter_exporters_of m')"
proof -
  obtain ctx :: "'e cfg" and r where start: "otel_meter_start sdk ctx (Some m) w = Some (r, Some m', w')"
    using assms by (auto simp: meter_starts_def)
  then obtain prefix where prefix: "mt_yaml_prefix m = Some prefix"
    by (auto simp: otel_meter_start_def split: option.splits)
  let ?c = "ctx\<lparr>cf_prefix := prefix\<rparr>"
  let ?find = "yaml_find (cf_fyd ?c) True (Some ''OpenTelemetry meter instrumentation scope'')
     (Some (OTEL_YAML_PATH ?c ''/scope_name'')) (Some OTEL_YAML_BUFSIZ)"
  show ?thesis
  proof (cases "\<exists>s impl. ?find = Inr (Some s) \<and> mt_impl m = Some impl")
    case False
    then have "m' = m \<and> w' = w"
      using start prefix by (auto simp: otel_meter_start_def Let_def split: sum.splits option.splits)
    then show ?thesis using exchanges_kept [OF quiet_step_refl] by blast
  next
    case True
    then obtain s impl where f: "?find = Inr (Some s)" "mt_impl m = Some impl" by blast
    let ?w1 = "flush_provider (mi_provider impl) (mt_flush_timeout m) w"
    have "start_locked sdk ?c s m impl ?w1 = (r, m', w')"
      using start prefix f by (auto simp: otel_meter_start_def Let_def split: prod.splits)
    from start_locked_exchanges [OF this f(2)] quiet_step_flush [of w]
    have "exchanges (meter_provider_of m) (meter_exporters_of m) (tried ?w1) w w' (meter_provider_of m') (meter_exporters_of m')"
      by (blast intro: exchanges_before)
    moreover have "tried ?w1 = tried w" using flush_provider_calls [of "mi_provider impl"] by blast
    ultimately show ?thesis by simp
  qed
qed

text \<open>The destructor of meters and loggers flushes with the whole budget.\<close>

lemma flush_teardown:
  fixes prov budget sdk w
  defines "w1 \<equiv> flush_provider prov budget w"
    and "flushed \<equiv> budget > 0 \<and> prov \<noteq> None \<and> sdk_force_flush sdk (calls w)"
  shows "\<exists>new. calls (release_provider prov (if flushed then w1 else shutdown_exporters es w1)) =
      releasing prov @ new @ calls w \<and> (\<forall>p. ReleaseProvider p \<notin> set new) \<and>
    ((\<forall>e \<in> set es. ExporterShutdown e \<in> set new) \<or> (\<exists>p. prov = Some p \<and> drained (sdk_force_flush sdk) p new (calls w)))"
proof (rule teardown_law [of w "[]" w])
  show "calls w1 = calls w \<or> (\<exists>p us. calls w1 = ForceFlush p us # calls w)"
    by (auto simp: w1_def flush_provider_def split: option.split)
  show "\<exists>p us. prov = Some p \<and> calls w1 = ForceFlush p us # calls w \<and> sdk_force_flush sdk (calls w)" if flushed
    using that by (auto simp: flushed_def w1_def flush_provider_def)
qed simp_all

lemma meter_destroy_releases:
  assumes "meter_destroys sdk m w w'"
  shows "\<exists>new. calls w' = releasing (meter_provider_of m) @ new @ calls w \<and> (\<forall>p. ReleaseProvider p \<notin> set new) \<and>
    ((\<forall>e \<in> set (meter_exporters_of m). ExporterShutdown e \<in> set new) \<or>
     (\<exists>p. meter_provider_of m = Some p \<and> drained (sdk_force_flush sdk) p new (calls w)))"
proof (cases "mt_impl m")
  case None
  then show ?thesis
    using assms by (simp add: meter_destroys_def otel_meter_destroy_def meter_provider_of_def meter_exporters_of_def
        releasing_def)
next
  case (Some impl)
  then show ?thesis
    using assms flush_teardown [where prov = "mi_provider impl" and es = "mi_exporters impl" and sdk = sdk and w = w]
    by (simp add: meter_destroys_def otel_meter_destroy_def meter_provider_of_def meter_exporters_of_def Let_def)
qed

interpretation meters: restartable_signal "meter_starts sdk cfgs" "meter_destroys sdk"
  meter_provider_of meter_exporters_of "sdk_force_flush sdk"
  by unfold_locales (rule meter_start_exchanges [unfolded exchanges_def] meter_destroy_releases, assumption)+

section \<open>Loggers\<close>

definition logger_provider_of :: "otelc_logger \<Rightarrow> nat option" where
  "logger_provider_of l = (case lg_impl l of None \<Rightarrow> None | Some i \<Rightarrow> gi_provider i)"

definition logger_exporters_of :: "otelc_logger \<Rightarrow> nat list" where
  "logger_exporters_of l = (case lg_impl l of None \<Rightarrow> [] | Some i \<Rightarrow> gi_exporters i)"

definition logger_starts ::
  "('d, 'b, 't) sdk \<Rightarrow> 'e :: ord cfg set \<Rightarrow> otelc_logger \<Rightarrow> ('d, 'b, 't) world \<Rightarrow> otelc_logger \<Rightarrow>
   ('d, 'b, 't) world \<Rightarrow> bool" where
  "logger_starts sdk cfgs l w l' w' \<longleftrightarrow> (\<exists>c \<in> cfgs. \<exists>r. otel_logger_start sdk c (Some l) w = Some (r, Some l', w'))"

definition logger_destroys ::
  "('d, 'b, 't) sdk \<Rightarrow> otelc_logger \<Rightarrow> ('d, 'b, 't) world \<Rightarrow> ('d, 'b, 't) world \<Rightarrow> bool" where
  "logger_destroys sdk l w w' \<longleftrightarrow> w' = otel_logger_destroy sdk (Some l) w"

lemma logger_pipeline_forward: "forward (logger_pipeline c)"
proof -
  have add: "forward (add_log_pipeline c x y p)" for x y p
    unfolding add_log_pipeline_def by (intro forward_intros)
  have "forward (log_pipeline_loop c pp pe k is p)" for pp pe k "is" p
    by (induction "is" arbitrary: p) (simp_all, (intro forward_intros add; assumption?)+)
  then show ?thesis
    unfolding logger_pipeline_def Let_def using add by (intro forward_intros; blast?)+
qed

lemma read_logger_options_quiet:
  "read_logger_options sdk c l w = (r, l', w') \<Longrightarrow> quiet_step w w' \<and> lg_impl l' = lg_impl l"
  by (auto simp: read_logger_options_def Let_def split: sum.splits option.splits prod.splits if_splits
      dest: quiet_step_alloc)

lemma install_logger_exchanges:
  assumes "install_logger sdk s q es impl w = (r, impl', w')" "lo < q" "q \<le> tried w"
  shows "exchanges (gi_provider impl) (gi_exporters impl) lo w w' (gi_provider impl') (gi_exporters impl')"
proof (cases "sdk_get_logger sdk (calls w) \<and> otel_logger_severity s \<noteq> kInvalid")
  case False
  then show ?thesis
    using assms(1) by (auto simp: install_logger_def intro: exchanges_kept split: if_splits)
next
  case True
  let ?w1 = "call (SetMinimumSeverity q (otel_logger_severity s)) w"
  obtain r2 w2 where o: "otel_exporter_files_open sdk es ?w1 = (r2, w2)" by fastforce
  have w2: "quiet_step w w2"
    using quiet_step_trans [OF quiet_step_call quiet_step_open [OF o]] by simp
  show ?thesis
  proof (cases r2)
    case (Inl e)
    then show ?thesis using assms(1) True o w2 by (auto simp: install_logger_def intro: exchanges_kept)
  next
    case (Inr x)
    have "q \<le> tried w2" using assms(3) w2 by (simp add: quiet_step_def)
    note sw = exchanges_swapped [OF w2 assms(2) this refl]
    show ?thesis using assms(1) True o Inr sw by (auto simp: install_logger_def)
  qed
qed

lemma logger_start_exchanges:
  fixes cfgs :: "'e :: ord cfg set"
  assumes "logger_starts sdk cfgs l w l' w'"
  shows "exchanges (logger_provider_of l) (logger_exporters_of l) (tried w) w w' (logger_provider_of l') (logger_exporters_of l')"
proof -
  obtain ctx :: "'e cfg" and r where start: "otel_logger_start sdk ctx (Some l) w = Some (r, Some l', w')"
    using assms by (auto simp: logger_starts_def)
  then obtain prefix where prefix: "lg_yaml_prefix l = Some prefix"
    by (auto simp: otel_logger_start_def split: option.splits)
  let ?c = "ctx\<lparr>cf_prefix := prefix\<rparr>"
  obtain r1 l1 w1 where opts: "read_logger_options sdk ?c l w = (r1, l1, w1)" by (metis surj_pair)
  note q1 = read_logger_options_quiet [OF opts]
  have kept: ?thesis if "quiet_step w w'" "lg_impl l' = lg_impl l"
    using exchanges_kept [OF that(1)] that(2) by (simp add: logger_provider_of_def logger_exporters_of_def)
  show ?thesis
  proof (cases "\<exists>u impl. r1 = Inr u \<and> lg_impl l1 = Some impl")
    case False
    then show ?thesis
      using start prefix opts q1
      by (intro kept; cases r1; cases "lg_impl l1") (auto simp: otel_logger_start_def Let_def)
  next
    case True
    then obtain u impl where ok: "r1 = Inr u" "lg_impl l1 = Some impl" by blast
    let ?b = "bbind (logger_pipeline ?c) (\<lambda>(exporters, processors).
                bbind (numbered (otel_logger_provider_create (Some ?c) processors))
                  (\<lambda>(provider, _). give (exporters, provider)))"
    obtain rb w2 where b: "run_build sdk ?b (flush_provider (gi_provider impl) (lg_flush_timeout l1) w1) = (rb, w2)"
      by fastforce
    note new = new_pipeline [OF logger_pipeline_forward providers_allocate(3) b forward_creators(11)]
    have q2: "quiet_step w w2"
      using quiet_step_trans [OF conjunct1 [OF q1] quiet_step_trans [OF quiet_step_flush
        quiet_step_same [OF run_build_calls [OF b]]]] new by blast
    note start = start [unfolded otel_logger_start_def option.case Let_def prefix opts prod.case ok sum.case b]
    show ?thesis
    proof (cases rb)
      case (Inl e)
      then show ?thesis using start q1 q2 by (intro kept) auto
    next
      case (Inr ep)
      obtain es p where ep: "ep = (es, p)" by fastforce
      obtain r3 impl1 w3 where i: "install_logger sdk (lg_min_severity l1) p es impl w2 = (r3, impl1, w3)"
        by (metis surj_pair)
      have "tried (flush_provider (gi_provider impl) (lg_flush_timeout l1) w1) = tried w1"
        using flush_provider_calls [of "gi_provider impl"] by blast
      then have lt: "tried w < p" "p \<le> tried w2" using new Inr ep q1 by (auto simp: quiet_step_def)
      have "w3 = w'" "lg_impl l' = Some impl1"
        using start Inr ep i by auto
      then show ?thesis
        using exchanges_before [OF q2 install_logger_exchanges [OF i lt]] ok(2) q1
        by (simp add: logger_provider_of_def logger_exporters_of_def)
    qed
  qed
qed

lemma logger_destroy_releases:
  assumes "logger_destroys sdk l w w'"
  shows "\<exists>new. calls w' = releasing (logger_provider_of l) @ new @ calls w \<and> (\<forall>p. ReleaseProvider p \<notin> set new) \<and>
    ((\<forall>e \<in> set (logger_exporters_of l). ExporterShutdown e \<in> set new) \<or>
     (\<exists>p. logger_provider_of l = Some p \<and> drained (sdk_force_flush sdk) p new (calls w)))"
proof (cases "lg_impl l")
  case None
  then show ?thesis
    using assms by (simp add: logger_destroys_def otel_logger_destroy_def logger_provider_of_def logger_exporters_of_def
        releasing_def)
next
  case (Some impl)
  then show ?thesis
    using assms flush_teardown [where prov = "gi_provider impl" and es = "gi_exporters impl" and sdk = sdk and w = w]
    by (simp add: logger_destroys_def otel_logger_destroy_def logger_provider_of_def logger_exporters_of_def Let_def)
qed

interpretation loggers: restartable_signal "logger_starts sdk cfgs" "logger_destroys sdk"
  logger_provider_of logger_exporters_of "sdk_force_flush sdk"
  by unfold_locales (rule logger_start_exchanges [unfolded exchanges_def] logger_destroy_releases, assumption)+

section \<open>Views survive a restart\<close>

text \<open>The view the SDK is given for a recorded one.\<close>

definition view_of :: "string \<Rightarrow> 'd view_handle \<Rightarrow> 'd sdk_view" where
  "view_of scope v =
     \<lparr>sv_type = otel_meter_instrument_type_map (vh_type v), sv_instrument_name = vh_instrument_name v,
      sv_instrument_unit = vh_instrument_unit v, sv_scope = scope, sv_name = vh_name v, sv_desc = vh_desc v,
      sv_aggregation = vh_aggregation v, sv_bounds = (if vh_bounds v = [] then None else Some (vh_bounds v))\<rparr>"

lemma bounds_config_ok: "bounds_config bs orc n = (Inr c, n') \<Longrightarrow> c = (if bs = [] then None else Some bs)"
  by (auto simp: bounds_config_def bbind_def give_def split: if_splits prod.splits sum.splits)

lemma view_objects_ok: "view_objects scope v orc n = (Inr sv, n') \<Longrightarrow> sv = view_of scope v"
  by (auto simp: view_objects_def view_of_def make_nothrow_def stop_def give_def bbind_def
      split: prod.splits sum.splits if_splits dest!: bounds_config_ok)

lemma view_registered:
  assumes "otel_meter_view_register sdk (Some scope) (Some p) (Some v) w = (Inr rc, w')"
  shows "calls w' = AddView p (view_of scope v) # calls w"
proof -
  obtain sv w1 where b: "run_build sdk (view_objects scope v) w = (Inr sv, w1)" "w' = call (AddView p sv) w1"
    using assms by (auto simp: otel_meter_view_register_def split: prod.splits sum.splits)
  then have "sv = view_of scope v"
    using view_objects_ok by (fastforce simp: run_build_def split: prod.splits)
  then show ?thesis using b run_build_calls by fastforce
qed

lemma views_registered:
  "register_views sdk (Some scope) p vs w = (Inr u, w') \<Longrightarrow>
     calls w' = rev (map (\<lambda>(_, v). AddView p (view_of scope v)) vs) @ calls w"
proof (induction vs arbitrary: w)
  case (Cons v vs)
  obtain i x where v: "v = (i, x)" by fastforce
  obtain n w1 where one: "otel_meter_view_register sdk (Some scope) (Some p) (Some x) w = (Inr n, w1)"
    "register_views sdk (Some scope) p vs w1 = (Inr u, w')"
    using Cons.prems v by (auto split: prod.splits sum.splits)
  then show ?case using Cons.IH [OF one(2)] view_registered [OF one(1)] v by simp
qed simp


text \<open>The meter of the examples, which has one view, restarted on their configuration.\<close>

definition demo_view :: "unit view_handle" where
  "demo_view = \<lparr>vh_name = ''v'', vh_desc = [], vh_instrument_name = ''lat*'', vh_instrument_unit = [],
     vh_type = HISTOGRAM_DOUBLE, vh_aggregation = AGGR_HISTOGRAM, vh_bounds = [()]\<rparr>"

lemma demo_meter_exporter:
  "otel_meter_exporter_create (Some demo_cfg) None (\<lambda>_. False) n = (Inr (Exp_ostream (File_exporter ''out.txt'')), Suc n)"
  by (simp add: otel_meter_exporter_create_def exporter_type_def exporter_cases_def otel_exporter_set_ostream_options_def
      PATH_MAX_def bbind_def give_def make_nothrow_def str_at_def strcasecmp_eq_def to_lower_def Let_def yaml_run)

lemma demo_reader:
  "\<exists>r. otel_meter_reader_create (Some demo_cfg) e None (\<lambda>_. False) n = (Inr r, n + 3)"
  by (simp add: otel_meter_reader_create_def thread_instrumentation_def int_at_def
      bbind_def give_def make_nothrow_def str_at_def Let_def yaml_run)

lemma demo_meter_provider:
  "\<exists>p. otel_meter_provider_create (Some demo_cfg) rs (\<lambda>_. False) n = (Inr p, n + 3)"
proof -
  have w: "yaml_get_sequence (\<lambda>_. False) (Some demo_doc) (Some ''/providers/r/resources'') (Some None) =
      (Some (Some [(''host'', ''a'')]), ok 1)"
    by (simp add: yaml_get_sequence_def ryml_get_node_by_path_def split_on.simps demo_walk demo_child Let_def)
  show ?thesis
    by (simp add: otel_meter_provider_create_def otel_resource_create_def w bbind_def give_def make_nothrow_def
        map_at_def Let_def yaml_run)
qed

lemma demo_meter_pipeline:
  "\<exists>rs. meter_pipeline demo_cfg (\<lambda>_. False) n = (Inr ([(Suc n, Exp_ostream (File_exporter ''out.txt''))], rs), n + 5)"
proof -
  have "\<not> yaml_is_sequence (Some demo_doc) (Some ''/t/exporters'')"
    by (simp add: yaml_is_sequence_def ryml_get_node_by_path_def split_on.simps demo_walk demo_child)
  then have s: "\<not> yaml_is_sequence (cf_fyd demo_cfg) (Some (OTEL_YAML_PATH demo_cfg OTEL_YAML_EXPORTERS))"
    by (simp add: OTEL_YAML_PATH_def demo_cfg_def OTEL_YAML_EXPORTERS_def OTEL_YAML_BUFSIZ_def snprintf_short)
  obtain r where "otel_meter_reader_create (Some demo_cfg) (Exp_ostream (File_exporter ''out.txt'')) None (\<lambda>_. False) (Suc n) =
      (Inr r, Suc n + 3)"
    using demo_reader by blast
  with s show ?thesis
    by (simp add: meter_pipeline_def Let_def add_reader_def bbind_def numbered_def demo_meter_exporter
        or_throw_def make_nothrow_def give_def)
qed

lemma demo_view_objects: "view_objects scope demo_view (\<lambda>_. False) n = (Inr (view_of scope demo_view), n + 6)"
proof -
  have "vh_bounds demo_view \<noteq> []" by (simp add: demo_view_def)
  then show ?thesis
    by (simp add: view_objects_def view_of_def bounds_config_def bbind_def give_def make_nothrow_def or_throw_def)
qed


section \<open>A whole life\<close>

text \<open>
  C2: No pipeline of any signal is leaked, released twice or torn down out of order.  Take any life of a
  tracer, a meter or a logger: any number of starts with any configurations, each of which may fail
  anywhere, with anything else happening in between, and then its destruction.  A file is emptied
  only after every exporter installed before has been shut down; a provider is released only after
  its exporters were shut down; and in the end every provider that was ever installed has been
  released exactly once, the last one after its exporters were shut down or a flush delivered all.
\<close>
theorem pipelines_settled:
  "(signal_life (tracer_starts sdk cfgs) tracer_provider_of tracer_exporters_of t w tr \<and> tracer_destroys sdk t w w' \<longrightarrow>
      settled (sdk_force_flush sdk) tr w w') \<and>
   (signal_life (meter_starts sdk cfgs') meter_provider_of meter_exporters_of m w tr' \<and> meter_destroys sdk m w w' \<longrightarrow>
      settled (sdk_force_flush sdk) tr' w w') \<and>
   (signal_life (logger_starts sdk cfgs') logger_provider_of logger_exporters_of l w tr'' \<and> logger_destroys sdk l w w' \<longrightarrow>
      settled (sdk_force_flush sdk) tr'' w w')"
  using tracers.life_and_death meters.life_and_death loggers.life_and_death by blast

text \<open>A logger that is started on the configuration of the examples and then destroyed.\<close>

definition fresh_logger :: otelc_logger where
  "fresh_logger = \<lparr>lg_enabled = True, lg_min_severity = 1, lg_flush_timeout = 5000, lg_scope_name = None,
     lg_yaml_prefix = Some ''/t'', lg_impl = Some \<lparr>gi_provider = None, gi_logger = None, gi_exporters = []\<rparr>\<rparr>"

lemma demo_log_exporter:
  "otel_logger_exporter_create (Some demo_cfg) None (\<lambda>_. False) n = (Inr (Exp_ostream (File_exporter ''out.txt'')), Suc n)"
  by (simp add: otel_logger_exporter_create_def exporter_type_def exporter_cases_def otel_exporter_set_ostream_options_def
      PATH_MAX_def bbind_def give_def make_nothrow_def str_at_def strcasecmp_eq_def to_lower_def Let_def yaml_run)

lemma demo_log_processor:
  "\<exists>p. otel_logger_processor_create (Some demo_cfg) e None (\<lambda>_. False) n = (Inr p, n + 4)"
proof -
  have n: "strtol ''128'' 0 = (128, Some [], No_error)" "strtol ''100'' 0 = (100, Some [], No_error)"
    by code_simp+
  show ?thesis
    by (simp add: otel_logger_processor_create_def processor_create_def batch_chain_def
        thread_instrumentation_def parse_int64_def n int_at_def
        bbind_def give_def make_nothrow_def str_at_def strcasecmp_eq_def to_lower_def Let_def yaml_run)
qed

lemma demo_log_provider:
  "ps \<noteq> [] \<Longrightarrow> \<exists>p. otel_logger_provider_create (Some demo_cfg) ps (\<lambda>_. False) n = (Inr p, n + 2)"
proof -
  have w: "yaml_get_sequence (\<lambda>_. False) (Some demo_doc) (Some ''/providers/r/resources'') (Some None) =
      (Some (Some [(''host'', ''a'')]), ok 1)"
    by (simp add: yaml_get_sequence_def ryml_get_node_by_path_def split_on.simps demo_walk demo_child Let_def)
  show "ps \<noteq> [] \<Longrightarrow> ?thesis"
    by (simp add: otel_logger_provider_create_def otel_resource_create_def w bbind_def give_def make_nothrow_def
        map_at_def Let_def yaml_run)
qed

lemma demo_log_pipeline:
  "\<exists>ps. ps \<noteq> [] \<and> logger_pipeline demo_cfg (\<lambda>_. False) n =
     (Inr ([(Suc n, Exp_ostream (File_exporter ''out.txt''))], ps), n + 6)"
proof -
  have "\<not> yaml_is_sequence (Some demo_doc) (Some ''/t/processors'')"
    by (simp add: yaml_is_sequence_def ryml_get_node_by_path_def split_on.simps demo_walk demo_child)
  then have s: "\<not> yaml_is_sequence (cf_fyd demo_cfg) (Some (OTEL_YAML_PATH demo_cfg OTEL_YAML_PROCESSORS))"
    by (simp add: OTEL_YAML_PATH_def demo_cfg_def OTEL_YAML_PROCESSORS_def OTEL_YAML_BUFSIZ_def snprintf_short)
  obtain p where "otel_logger_processor_create (Some demo_cfg) (Exp_ostream (File_exporter ''out.txt'')) None (\<lambda>_. False) (Suc n) =
      (Inr p, Suc n + 4)"
    using demo_log_processor by blast
  with s show ?thesis
    by (simp add: logger_pipeline_def Let_def add_log_pipeline_def bbind_def numbered_def demo_log_exporter
        or_throw_def make_nothrow_def give_def)
qed

lemma demo_logger_options:
  "read_logger_options demo_sdk demo_cfg l w = (Inr (), l\<lparr>lg_scope_name := Some ''app''\<rparr>, w\<lparr>tried := Suc (tried w)\<rparr>)"
proof -
  have "copy_scalar (Some demo_doc) ''/t/flush_timeout'' OTEL_YAML_BUFSIZ = None"
    "copy_scalar (Some demo_doc) ''/t/min_severity'' OTEL_YAML_BUFSIZ = None"
    "copy_scalar (Some demo_doc) ''/t/scope_name'' OTEL_YAML_BUFSIZ = Some ''app''"
    by (simp_all add: yaml_run)
  then show ?thesis
    by (simp add: read_logger_options_def read_min_severity_def read_flush_timeout_def yaml_find_def OTEL_YAML_PATH_def
        demo_cfg_def OTEL_YAML_BUFSIZ_def snprintf_short try_alloc_def demo_sdk_def)
qed

lemma flush_provider_one:
  "\<exists>flush. (flush = [] \<or> (\<exists>p us. flush = [ForceFlush p us])) \<and>
     calls (flush_provider p b w) = flush @ calls w \<and> tried (flush_provider p b w) = tried w"
  by (cases p; cases "b > 0") (auto simp: flush_provider_def)

lemma demo_logger_restart:
  assumes "lg_impl l = Some \<lparr>gi_provider = p, gi_logger = p, gi_exporters = es\<rparr>" "lg_yaml_prefix l = Some ''/t''"
    and "lg_min_severity l = 1" "q = tried w + 9" "x = tried w + 2"
  shows "\<exists>l' w' flush. logger_starts demo_sdk {demo_cfg} l w l' w' \<and>
     lg_impl l' = Some \<lparr>gi_provider = Some q, gi_logger = Some q, gi_exporters = [x]\<rparr> \<and>
     lg_yaml_prefix l' = Some ''/t'' \<and> lg_min_severity l' = 1 \<and> tried w' = q \<and>
     calls w' = releasing p @ TruncateFile x ''out.txt'' # map ExporterShutdown (rev es) @
       OpenFile x ''out.txt'' # SetMinimumSeverity q (otel_logger_severity 1) # flush @ calls w \<and>
     (flush = [] \<or> (\<exists>p us. flush = [ForceFlush p us]))"
proof -
  let ?n = "Suc (tried w)"
  obtain ps where ps: "ps \<noteq> []" "logger_pipeline demo_cfg (\<lambda>_. False) ?n =
     (Inr ([(x, Exp_ostream (File_exporter ''out.txt''))], ps), ?n + 6)"
    using demo_log_pipeline [of ?n] assms(5) by auto
  obtain pr where pr: "otel_logger_provider_create (Some demo_cfg) ps (\<lambda>_. False) (?n + 6) = (Inr pr, q)"
    using demo_log_provider [OF ps(1), of "?n + 6"] assms(4) by auto
  have prefix: "demo_cfg\<lparr>cf_prefix := ''/t''\<rparr> = demo_cfg"
    by (simp add: demo_cfg_def)
  have orc: "oom demo_sdk = (\<lambda>_. False)" "file_opens demo_sdk cs f" "sdk_get_logger demo_sdk cs" for cs f
    by (simp_all add: demo_sdk_def)
  have sev: "otel_logger_severity 1 \<noteq> kInvalid" using severity_invalid [of 1] by simp
  let ?w1 = "w\<lparr>tried := ?n\<rparr>"
  obtain w2 where w2: "flush_provider p (lg_flush_timeout l) ?w1 = w2" by simp
  obtain flush where f: "flush = [] \<or> (\<exists>p us. flush = [ForceFlush p us])" "calls w2 = flush @ calls w" "tried w2 = ?n"
    using flush_provider_one [of p "lg_flush_timeout l" ?w1] w2 by auto
  obtain l' w' where "otel_logger_start demo_sdk demo_cfg (Some l) w = Some (Inr OTELC_RET_OK, Some l', w')"
    "lg_impl l' = Some \<lparr>gi_provider = Some q, gi_logger = Some q, gi_exporters = [x]\<rparr>"
    "lg_yaml_prefix l' = Some ''/t''" "lg_min_severity l' = 1"
    "w' = release_provider p (otel_exporter_files_truncate [(x, Exp_ostream (File_exporter ''out.txt''))]
      (shutdown_exporters es (call (OpenFile x ''out.txt'') (call (SetMinimumSeverity q (otel_logger_severity 1)) (w2\<lparr>tried := q\<rparr>)))))"
    using pr by (simp add: otel_logger_start_def prefix demo_logger_options assms(1-3) run_build_def orc ps(2) w2 f(3) bbind_def
        numbered_def give_def install_logger_def sev)
  then show ?thesis
    by (intro exI [of _ l'] exI [of _ w'] exI [of _ flush])
      (simp add: logger_starts_def release_provider_calls shutdown_calls f(1,2))
qed
lemma pipelines_settled_witness:
  "\<exists>(l :: otelc_logger) w tr w'. signal_life (logger_starts demo_sdk {demo_cfg}) logger_provider_of logger_exporters_of l w tr \<and>
     (\<exists>q es. Installed q es \<in> set tr) \<and> w' = otel_logger_destroy demo_sdk (Some l) w \<and>
     settled (sdk_force_flush demo_sdk) tr w w'"
proof -
  have born: "signal_life (logger_starts demo_sdk {demo_cfg}) logger_provider_of logger_exporters_of fresh_logger demo_world []"
    by (intro signal_life.born) (simp_all add: fresh_logger_def logger_provider_of_def logger_exporters_of_def)
  obtain l w where s: "logger_starts demo_sdk {demo_cfg} fresh_logger demo_world l w" "logger_provider_of l \<noteq> None"
    using demo_logger_restart [of fresh_logger None "[]", OF _ _ _ refl refl]
    by (fastforce simp: fresh_logger_def logger_provider_of_def)
  obtain new where new: "calls w = new @ calls demo_world"
    using logger_start_exchanges [OF s(1)] by (auto simp: exchanges_def)
  note life = signal_life.started [where start = "logger_starts demo_sdk {demo_cfg}" and provider_of = logger_provider_of
      and exporters_of = logger_exporters_of, OF born s(1) new]
  obtain q where q: "logger_provider_of l = Some q" using s(2) by blast
  let ?tr = "installation (logger_provider_of fresh_logger) (logger_provider_of l) (logger_exporters_of l) @ map Did new @ []"
  let ?w' = "otel_logger_destroy demo_sdk (Some l) w"
  have "Installed q (logger_exporters_of l) \<in> set ?tr"
    by (simp add: installation_def q) (simp add: fresh_logger_def logger_provider_of_def)
  moreover have "settled (sdk_force_flush demo_sdk) ?tr w ?w'"
    by (rule pipelines_settled [THEN conjunct2, THEN conjunct2, THEN mp]) (use life in \<open>simp add: logger_destroys_def\<close>)
  ultimately show ?thesis using life by blast
qed

end
