(* ===== verification/Otel_Replacement.thy ===== *)
theory Otel_Replacement
  imports Otel_FileExporter Otel_Signals
begin

text \<open>
  Where the starts of a signal meet the files.  \<open>Otel_Signals\<close> says which calls a start makes on the
  exporters, and in what order; \<open>Otel_FileExporter\<close> says what the calls do to the files, while the
  worker threads of the SDK export whenever they like.  Here a run of the exporters is an interleaving
  of the two, over the whole life of a signal.  The release of a provider is no call of an exporter: its
  exporters are destroyed with the last reference to the SDK context they belong to, which a span, an
  instrument or a running export may hold longer.  So the destruction of an exporter, which closes
  its file, is a call of the workers: it may come at any time.
\<close>

section \<open>The calls of a signal as calls of its exporters\<close>

text \<open>The code gives an exporter one microsecond to shut down.\<close>

fun file_event :: "('d, 'b, 't) sdk_call \<Rightarrow> (nat \<times> 'r file_call) list" where
  "file_event (OpenFile x f) = [(x, Open_file)]"
| "file_event (TruncateFile x f) = [(x, Truncate_file)]"
| "file_event (ExporterShutdown e) = [(e, Shut_down 1)]"
| "file_event _ = []"

text \<open>The calls of the model are newest first; a run of the exporters is in the order of time.\<close>

definition file_events :: "('d, 'b, 't) sdk_call list \<Rightarrow> (nat \<times> 'r file_call) list" where
  "file_events cs = concat (map file_event (rev cs))"

fun did :: "('d, 'b, 't) event list \<Rightarrow> ('d, 'b, 't) sdk_call list" where
  "did [] = []"
| "did (Did c # tr) = c # did tr"
| "did (Installed q es # tr) = did tr"

lemma file_events_simps [simp]:
  "file_events [] = []" "file_events (c # cs) = file_events cs @ file_event c"
  "file_events (a @ b) = file_events b @ file_events a" "file_events (releasing p) = []"
  by (simp_all add: file_events_def) (cases p; simp add: releasing_def)

lemma file_events_shutdowns: "file_events (map ExporterShutdown (rev es)) = map (\<lambda>e. (e, Shut_down 1)) es"
  by (induction es) (simp_all add: file_events_def)

lemma file_events_quiet: "quiet cs \<Longrightarrow> jc \<in> set (file_events cs) \<Longrightarrow> snd jc = Open_file"
proof (induction cs)
  case (Cons c cs)
  then show ?case by (cases c) (auto simp: quiet_def)
qed simp

lemma file_events_truncates: "truncates ts \<Longrightarrow> jc \<in> set (file_events ts) \<Longrightarrow> snd jc = Truncate_file"
  by (induction ts) (auto simp: truncates_def)

lemma did_set: "c \<in> set (did tr) \<longleftrightarrow> Did c \<in> set tr"
  by (induction tr rule: did.induct) auto

lemma file_event_in: "c \<in> set cs \<Longrightarrow> set (file_event c) \<subseteq> set (file_events cs)"
  by (induction cs) auto

lemma all_shut_events: "all_shut es tr \<Longrightarrow> e \<in> set es \<Longrightarrow> (e, Shut_down 1) \<in> set (file_events (did tr))"
  using file_event_in [of "ExporterShutdown e" "did tr"] by (auto simp: all_shut_def did_set)

text \<open>The files a start empties come last, after every exporter of the old pipeline was shut down.\<close>

lemma exchange_events:
  assumes "exchange p es lo hi new p' es'"
  shows "\<exists>first last :: (nat \<times> 'r file_call) list. file_events new = first @ last \<and> (\<forall>jc \<in> set first. snd jc \<noteq> Truncate_file) \<and>
    (\<forall>jc \<in> set last. snd jc = Truncate_file) \<and> (last = [] \<or> (\<forall>e \<in> set es. (e, Shut_down 1) \<in> set first))"
proof -
  have close: ?thesis if "quiet before" "truncates ts"
    "(file_events new :: (nat \<times> 'r file_call) list) = file_events (ts @ map ExporterShutdown (rev es) @ before)" for before ts
  proof -
    let ?first = "file_events before @ map (\<lambda>e. (e, Shut_down 1)) es :: (nat \<times> 'r file_call) list"
    have "snd jc \<noteq> Truncate_file" if "jc \<in> set ?first" for jc
      using that file_events_quiet [OF \<open>quiet before\<close>, of jc] by auto
    moreover have "file_events new = ?first @ file_events ts" using that(3) by (simp add: file_events_shutdowns)
    ultimately show ?thesis
      using file_events_truncates [OF that(2)] by (intro exI [of _ ?first] exI [of _ "file_events ts"]) auto
  qed
  from assms show ?thesis
  proof cases
    case kept
    show ?thesis
      by (rule exI [of _ "file_events new"], rule exI [of _ "[]"]) (auto dest: file_events_quiet [OF kept(3)])
  next
    case (swapped before ts q)
    show ?thesis by (rule close [OF swapped(3,4)]) (simp add: swapped(1))
  next
    case (dropped before ts q)
    show ?thesis by (rule close [OF dropped(4,5)]) (simp add: dropped(1))
  qed
qed

section \<open>Interleavings\<close>

lemma shuffles_left: "zs \<in> shuffles xs ys \<Longrightarrow> z # zs \<in> shuffles (z # xs) ys"
  by (simp add: Cons_in_shuffles_iff)

lemma shuffles_right: "zs \<in> shuffles xs ys \<Longrightarrow> z # zs \<in> shuffles xs (z # ys)"
  by (simp add: Cons_in_shuffles_iff)

text \<open>An element that only the first list has splits an interleaving, and with it both lists.\<close>

lemma shuffle_split:
  "before @ e # after \<in> shuffles xs ws \<Longrightarrow> e \<notin> set ws \<Longrightarrow>
     \<exists>a b u v. xs = a @ e # b \<and> ws = u @ v \<and> before \<in> shuffles a u \<and> after \<in> shuffles b v"
proof (induction before arbitrary: xs ws)
  case Nil
  then have "xs = e # tl xs" "after \<in> shuffles (tl xs) ws" by (auto simp: Cons_in_shuffles_iff)
  then show ?case by (intro exI [of _ "[]"] exI [of _ "tl xs"] exI [of _ "[]"] exI [of _ ws]) simp
next
  case (Cons y before)
  then consider "xs = y # tl xs" "before @ e # after \<in> shuffles (tl xs) ws"
    | "ws = y # tl ws" "before @ e # after \<in> shuffles xs (tl ws)" by (auto simp: Cons_in_shuffles_iff)
  then show ?case
  proof cases
    case 1
    from Cons.IH [OF 1(2) Cons.prems(2)] obtain a b u v where
      "tl xs = a @ e # b" "ws = u @ v" "before \<in> shuffles a u" "after \<in> shuffles b v" by blast
    then show ?thesis
      using 1(1) by (intro exI [of _ "y # a"] exI [of _ b] exI [of _ u] exI [of _ v]) (simp add: Cons_in_shuffles_iff)
  next
    case 2
    have "e \<notin> set (tl ws)" using Cons.prems(2) by (cases ws) auto
    from Cons.IH [OF 2(2) this] obtain a b u v where
      "xs = a @ e # b" "tl ws = u @ v" "before \<in> shuffles a u" "after \<in> shuffles b v" by blast
    then show ?thesis
      using 2(1) by (intro exI [of _ a] exI [of _ b] exI [of _ "y # u"] exI [of _ v]) (simp add: Cons_in_shuffles_iff)
  qed
qed

text \<open>The last occurrence of an element of the second part of a list.\<close>

lemma last_in_suffix:
  assumes "a @ e # b = xs @ ys" "e \<in> set ys" "e \<notin> set b"
  shows "set xs \<subseteq> set a \<and> set b \<subseteq> set ys"
proof -
  from assms(1) obtain us where "a = xs @ us \<and> us @ e # b = ys \<or> a @ us = xs \<and> e # b = us @ ys"
    by (auto simp: append_eq_append_conv2)
  then show ?thesis using assms(2,3) by (cases us) auto
qed

section \<open>The last truncation of a life\<close>

context restartable_signal
begin

lemma last_truncation:
  assumes "signal_life start provider_of exporters_of i w tr" "start i w i' w'" "calls w' = new @ calls w"
    and "TruncateFile x g \<in> set new" "\<forall>c \<in> set ws. worker_call (snd c :: 'e file_call)"
    and "before @ (x, Truncate_file) # after \<in> shuffles (file_events (new @ did tr)) ws" "(x, Truncate_file) \<notin> set after"
  shows "jc \<in> set after \<Longrightarrow> snd jc \<noteq> Open_file"
    and "Installed q es \<in> set tr \<Longrightarrow> j \<in> set es \<Longrightarrow> (j, Shut_down 1) \<in> set before"
proof -
  obtain lo hi where x: "exchange (provider_of i) (exporters_of i) lo hi new (provider_of i') (exporters_of i')"
    using start_exchanges [OF assms(2)] assms(3) by auto
  obtain first last :: "(nat \<times> 'e file_call) list" where e: "file_events new = first @ last" "\<forall>jc \<in> set first. snd jc \<noteq> Truncate_file"
    "\<forall>jc \<in> set last. snd jc = Truncate_file"
    "last = [] \<or> (\<forall>e \<in> set (exporters_of i). (e, Shut_down 1) \<in> set first)"
    using exchange_events [OF x] by metis
  have "(x, Truncate_file :: 'e file_call) \<in> set (file_events new)" using file_event_in [OF assms(4)] by simp
  then have last: "(x, Truncate_file) \<in> set last" using e(1,2) by auto
  have "(x, Truncate_file) \<notin> set ws" using assms(5) by auto
  from shuffle_split [OF assms(6) this] obtain a b u v where
    s: "file_events (new @ did tr) = a @ (x, Truncate_file) # b" "ws = u @ v" "before \<in> shuffles a u" "after \<in> shuffles b v"
    by blast
  have sets: "set before = set a \<union> set u" "set after = set b \<union> set v" using s(3,4) set_shuffles by blast+
  have "a @ (x, Truncate_file) # b = (file_events (did tr) @ first) @ last" using s(1) e(1) by simp
  note parts = last_in_suffix [OF this last]
  have in_a: "set (file_events (did tr)) \<union> set first \<subseteq> set a" and in_last: "set b \<subseteq> set last"
    using parts assms(7) sets(2) by auto
  show "snd jc \<noteq> Open_file" if "jc \<in> set after"
    using that sets(2) in_last e(3) assms(5) s(2) by auto
  show "(j, Shut_down 1) \<in> set before" if "Installed q es \<in> set tr" "j \<in> set es"
  proof -
    have "provider_of i = Some q \<and> es = exporters_of i \<or> all_shut es tr"
      using life_invD(6) [OF life_keeps_inv [OF assms(1)] that(1)] by blast
    then show ?thesis using all_shut_events that(2) e(4) last in_a sets(1) by fastforce
  qed
qed

end

section \<open>Files over a life\<close>

text \<open>A start, with the calls \<open>new\<close>, in a life whose history is \<open>tr\<close>.\<close>

definition restarted ::
  "('i \<Rightarrow> ('d, 'b, 't) world \<Rightarrow> 'i \<Rightarrow> ('d, 'b, 't) world \<Rightarrow> bool) \<Rightarrow> ('i \<Rightarrow> nat option) \<Rightarrow> ('i \<Rightarrow> nat list) \<Rightarrow>
   ('d, 'b, 't) event list \<Rightarrow> ('d, 'b, 't) sdk_call list \<Rightarrow> bool" where
  "restarted start provider_of exporters_of tr new \<longleftrightarrow>
     (\<exists>i w i' w'. signal_life start provider_of exporters_of i w tr \<and> start i w i' w' \<and> calls w' = new @ calls w)"

text \<open>
  C3: However often a signal is restarted, a file holds nothing of its earlier exporters.  Take any
  life of a tracer, a meter or a logger, whose starts may fail anywhere, and a start in which exporter
  \<open>x\<close> empties its file.  Let the calls of that life reach the exporters interleaved in any way with
  exports, flushes and shutdowns by any threads and with the destruction of exporters at any time
  (but not yet of \<open>x\<close> after it emptied the file), and let the others on the file be exporters the
  signal installed before, or ones that are no longer called or destroyed.  Suppose that none of
  those that are destroyed later was left, at the truncation, with bytes the system had refused
  (closing its stream would write these into the emptied file: \<open>refused_bytes_return\<close>).  Then, in the
  end, the file holds what \<open>x\<close> put after it was emptied and no byte from anyone else or from before:
  a prefix of it when the system refused a write, all of it as long as the stream is good.
\<close>
theorem restarts_leave_nothing:
  assumes "restarted (tracer_starts sdk cfgs) tracer_provider_of tracer_exporters_of tr new \<or>
      restarted (meter_starts sdk cfgs') meter_provider_of meter_exporters_of tr new \<or>
      restarted (logger_starts sdk cfgs') logger_provider_of logger_exporters_of tr new"
    and "TruncateFile x g \<in> set new" "\<forall>c \<in> set ws. worker_call (snd c)"
    and "before @ (x, Truncate_file) # after \<in> shuffles (file_events (new @ did tr)) ws"
    and "w = (\<lambda>j. otel_file_exporter_new (s j) (names j), fs)" "f = fx_filename (fst w x)"
    and "\<forall>j. (j, Truncate_file) \<in> set after \<longrightarrow> fx_filename (fst w j) \<noteq> f"
    and "\<forall>j. j \<noteq> x \<and> fx_filename (fst w j) = f \<longrightarrow>
      (\<exists>q es. Installed q es \<in> set tr \<and> j \<in> set es) \<or> j \<notin> fst ` set after"
    and "\<forall>j. j \<noteq> x \<longrightarrow> silent_when_down (inner j) (down j)" "\<forall>n. dk_truncate dk n f"
    and "w1 = world_run dk inner kinds (before @ [(x, Truncate_file)]) w" "w2 = world_run dk inner kinds after w1"
    and "(x, Close_file) \<notin> set after"
    and "\<forall>j. j \<noteq> x \<and> fx_filename (fst w j) = f \<and> (j, Close_file) \<in> set after \<longrightarrow> st_buf (fx_file (fst w1 j)) = []"
  shows "prefix (content (snd w2) f) (emitted (inner x) (fx_inner (fst w1 x)) (calls_of x after)) \<and>
    (\<not> st_bad (fx_file (fst w2 x)) \<longrightarrow>
       content (snd w2) f = emitted (inner x) (fx_inner (fst w1 x)) (calls_of x after))"
proof (rule replaced_pipeline_leaves_nothing [OF assms(5,6,9) _ assms(10) _ assms(11-14)])
  have last: "(x, Truncate_file) \<notin> set after" using assms(6,7) by auto
  have life: "(\<forall>jc \<in> set after. snd jc \<noteq> Open_file) \<and>
      (\<forall>q es j. Installed q es \<in> set tr \<longrightarrow> j \<in> set es \<longrightarrow> (j, Shut_down 1) \<in> set before)"
    using assms(1)
  proof (elim disjE)
    assume "restarted (tracer_starts sdk cfgs) tracer_provider_of tracer_exporters_of tr new"
    then show ?thesis
      unfolding restarted_def using tracers.last_truncation [OF _ _ _ assms(2,3,4) last] by blast
  next
    assume "restarted (meter_starts sdk cfgs') meter_provider_of meter_exporters_of tr new"
    then show ?thesis
      unfolding restarted_def using meters.last_truncation [OF _ _ _ assms(2,3,4) last] by blast
  next
    assume "restarted (logger_starts sdk cfgs') logger_provider_of logger_exporters_of tr new"
    then show ?thesis
      unfolding restarted_def using loggers.last_truncation [OF _ _ _ assms(2,3,4) last] by blast
  qed
  then show "spares f w after" using assms(7) by (fastforce simp: spares_def)
  show "\<forall>j. j \<noteq> x \<and> fx_filename (fst w j) = f \<longrightarrow> (\<exists>t. (j, Shut_down t) \<in> set before) \<or> j \<notin> fst ` set after"
    using assms(8) life by blast
qed

text \<open>
  A logger that is started twice on the configuration of the examples: exporter 7 writes into the file
  of its configuration, which had a record of an earlier process, and is replaced by exporter 16.
\<close>

definition demo_before :: "(nat \<times> string file_call) list" where
  "demo_before = [(7, Open_file), (7, Truncate_file), (7, Export_batch ''old''), (16, Open_file),
     (16, Export_batch ''early''), (7, Shut_down 1)]"

definition demo_after :: "(nat \<times> string file_call) list" where
  "demo_after = [(7, Export_batch ''late''), (7, Close_file), (16, Export_batch ''first'')]"

definition demo_exporters :: "bool file_world" where
  "demo_exporters = (\<lambda>j. otel_file_exporter_new False (if j = 7 \<or> j = 16 then ''out.txt'' else ''none''),
     \<lparr>fs_data = [''out.txt'' \<mapsto> ''a''], fs_calls = 0\<rparr>)"

lemma demo_twice:
  "\<exists>tr new. restarted (logger_starts demo_sdk {demo_cfg}) logger_provider_of logger_exporters_of tr new \<and>
     Installed 14 [7] \<in> set tr \<and> TruncateFile 16 ''out.txt'' \<in> set new \<and>
     file_events (new @ did tr) =
       [(7, Open_file), (7, Truncate_file), (16, Open_file), (7, Shut_down 1), (16, Truncate_file :: string file_call)]"
proof -
  let ?life = "signal_life (logger_starts demo_sdk {demo_cfg}) logger_provider_of logger_exporters_of"
  have silent: "file_events flush = ([] :: (nat \<times> string file_call) list)" if "flush = [] \<or> (\<exists>p us. flush = [ForceFlush p us])"
    for flush :: "(unit, (string \<times> string) list, unit) sdk_call list" using that by auto
  have born: "?life fresh_logger demo_world []"
    by (intro signal_life.born) (simp_all add: fresh_logger_def logger_provider_of_def logger_exporters_of_def)
  have none: "lg_impl fresh_logger = Some \<lparr>gi_provider = None, gi_logger = None, gi_exporters = []\<rparr>"
    "lg_yaml_prefix fresh_logger = Some ''/t''" "lg_min_severity fresh_logger = 1" "tried demo_world = 5" "calls demo_world = []"
    by (simp_all add: fresh_logger_def demo_world_def)
  obtain l1 w1 flush1 where s1: "logger_starts demo_sdk {demo_cfg} fresh_logger demo_world l1 w1"
    "lg_impl l1 = Some \<lparr>gi_provider = Some 14, gi_logger = Some 14, gi_exporters = [7]\<rparr>"
    "lg_yaml_prefix l1 = Some ''/t''" "lg_min_severity l1 = 1" "tried w1 = 14"
    "calls w1 = TruncateFile 7 ''out.txt'' # OpenFile 7 ''out.txt'' # SetMinimumSeverity 14 (otel_logger_severity 1) # flush1"
    "flush1 = [] \<or> (\<exists>p us. flush1 = [ForceFlush p us])"
    using demo_logger_restart [OF none(1-3), of 14 demo_world 7] none(4,5) by (auto simp: releasing_def)
  obtain l2 w2 flush2 where s2: "logger_starts demo_sdk {demo_cfg} l1 w1 l2 w2"
    "calls w2 = (ReleaseProvider 14 # TruncateFile 16 ''out.txt'' # ExporterShutdown 7 # OpenFile 16 ''out.txt'' #
       SetMinimumSeverity 23 (otel_logger_severity 1) # flush2) @ calls w1"
    "flush2 = [] \<or> (\<exists>p us. flush2 = [ForceFlush p us])"
    using demo_logger_restart [OF s1(2-4), of 23 w1 16] s1(5) by (auto simp: releasing_def)
  let ?new2 = "ReleaseProvider 14 # TruncateFile 16 ''out.txt'' # ExporterShutdown 7 # OpenFile 16 ''out.txt'' #
    SetMinimumSeverity 23 (otel_logger_severity 1) # flush2"
  let ?new1 = "TruncateFile 7 ''out.txt'' # OpenFile 7 ''out.txt'' # SetMinimumSeverity 14 (otel_logger_severity 1) # flush1"
  have "?life l1 w1 (Installed 14 [7] # map Did ?new1)"
    using signal_life.started [where start = "logger_starts demo_sdk {demo_cfg}", OF born s1(1), of ?new1] s1(2,6) none(1,5)
    by (simp add: installation_def logger_provider_of_def logger_exporters_of_def)
  then have "restarted (logger_starts demo_sdk {demo_cfg}) logger_provider_of logger_exporters_of
      (Installed 14 [7] # map Did ?new1) ?new2"
    unfolding restarted_def using s2(1,2) by blast
  moreover have "did (map Did cs) = cs" for cs :: "(unit, (string \<times> string) list, unit) sdk_call list"
    by (induction cs) simp_all
  then have "file_events (?new2 @ did (Installed 14 [7] # map Did ?new1)) =
      [(7, Open_file), (7, Truncate_file), (16, Open_file), (7, Shut_down 1), (16, Truncate_file :: string file_call)]"
    using silent [OF s1(7)] silent [OF s2(3)] by simp
  ultimately show ?thesis
    by (intro exI [of _ "Installed 14 [7] # map Did ?new1"] exI [of _ ?new2]) simp
qed

lemma restarts_leave_nothing_witness:
  "\<exists>(tr :: (unit, (string \<times> string) list, unit) event list) new.
     restarted (logger_starts demo_sdk {demo_cfg}) logger_provider_of logger_exporters_of tr new \<and>
     TruncateFile 16 ''out.txt'' \<in> set new \<and>
     demo_before @ (16, Truncate_file) # demo_after \<in> shuffles (file_events (new @ did tr))
       [(7, Export_batch ''old''), (16, Export_batch ''early''), (7, Export_batch ''late''), (7, Close_file),
        (16, Export_batch ''first'')] \<and>
     content (snd (world_run demo_disk demo_inner (\<lambda>_. Log_exporter) demo_after
       (world_run demo_disk demo_inner (\<lambda>_. Log_exporter) (demo_before @ [(16, Truncate_file)]) demo_exporters)))
       ''out.txt'' = ''first''"
proof -
  let ?w1 = "world_run demo_disk demo_inner (\<lambda>_. Log_exporter) (demo_before @ [(16, Truncate_file)]) demo_exporters"
  let ?w2 = "world_run demo_disk demo_inner (\<lambda>_. Log_exporter) demo_after ?w1"
  let ?ws = "[(7, Export_batch ''old''), (16, Export_batch ''early''), (7, Export_batch ''late''), (7, Close_file),
      (16, Export_batch ''first'')]
    :: (nat \<times> string file_call) list"
  obtain tr new where life: "restarted (logger_starts demo_sdk {demo_cfg}) logger_provider_of logger_exporters_of tr new"
    "Installed 14 [7] \<in> set tr" "TruncateFile 16 ''out.txt'' \<in> set new" "file_events (new @ did tr) =
       [(7, Open_file), (7, Truncate_file), (16, Open_file), (7, Shut_down 1), (16, Truncate_file :: string file_call)]"
    using demo_twice by blast
  have mixed: "demo_before @ (16, Truncate_file) # demo_after \<in> shuffles (file_events (new @ did tr)) ?ws"
    unfolding life(4) demo_before_def demo_after_def append.simps
    by ((rule shuffles_left shuffles_right)+) simp
  have f: "''out.txt'' = fx_filename (fst demo_exporters 16)" "fx_inner (fst ?w1 16) = False" "\<not> st_bad (fx_file (fst ?w2 16))"
    "st_buf (fx_file (fst ?w1 7)) = []" by code_simp+
  have file_7: "j = 7" if "j \<noteq> 16 \<and> fx_filename (fst demo_exporters j) = ''out.txt''" for j
    using that by (auto simp: demo_exporters_def otel_file_exporter_new_def snprintf_buf_def PATH_MAX_def split: if_splits)
  have others: "\<forall>j. j \<noteq> 16 \<and> fx_filename (fst demo_exporters j) = ''out.txt'' \<longrightarrow>
      (\<exists>q es. Installed q es \<in> set tr \<and> j \<in> set es) \<or> j \<notin> fst ` set demo_after"
  proof (intro allI impI)
    fix j assume "j \<noteq> 16 \<and> fx_filename (fst demo_exporters j) = ''out.txt''"
    then have "j = 7" using file_7 by blast
    then show "(\<exists>q es. Installed q es \<in> set tr \<and> j \<in> set es) \<or> j \<notin> fst ` set demo_after" using life(2) by force
  qed
  have ok: "\<forall>c \<in> set ?ws. worker_call (snd c)" "\<forall>n. dk_truncate demo_disk n ''out.txt''"
    "\<forall>j. (j, Truncate_file) \<in> set demo_after \<longrightarrow> fx_filename (fst demo_exporters j) \<noteq> ''out.txt''"
    "(16, Close_file) \<notin> set demo_after"
    by (simp_all add: demo_disk_def demo_after_def)
  have empty: "\<forall>j. j \<noteq> 16 \<and> fx_filename (fst demo_exporters j) = ''out.txt'' \<and> (j, Close_file) \<in> set demo_after \<longrightarrow>
      st_buf (fx_file (fst ?w1 j)) = []" using file_7 f(4) by blast
  have "content (snd ?w2) ''out.txt'' = emitted (demo_inner 16) (fx_inner (fst ?w1 16)) (calls_of 16 demo_after)"
    using restarts_leave_nothing [OF disjI2 [OF disjI2 [OF life(1)]] life(3) ok(1) mixed demo_exporters_def f(1) ok(3) others
        _ ok(2) refl refl ok(4) empty, of "\<lambda>_ s. s"] demo_silent f(3) by blast
  also have "\<dots> = ''first''" using f(2) by (simp add: demo_after_def demo_inner_def call_acts_def)
  finally show ?thesis using life(1,3) mixed by blast
qed

end
