(* ===== verification/Spec2Isabelle.thy ===== *)
theory Spec2Isabelle
  imports Otel_Carrier Otel_ConfigLaws Otel_DbgMalloc Otel_HandleMap Otel_LibraryLaws Otel_MeterLocks
    Otel_Pipeline Otel_Replacement Otel_SharedMutex Otel_Strings Otel_TextMap Otel_TracerLaws Otel_Values
    Otel_Yaml
begin

text \<open>
  A verification library of the OpenTelemetry C wrapper (\<open>src/src/*.cpp\<close>, \<open>src/include/*.h\<close>).

  The program gives C programs tracers, meters and loggers over the OpenTelemetry C++ SDK.  A caller
  makes a context from a YAML file (\<open>otelc_init\<close>), creates the instances of the three signals
  against it, starts them, and works with integers: spans, span contexts, instruments and views are
  indices into sharded handle maps that hold the C++ objects.  The wrapper is the part modelled
  here; the SDK is not in the repository, so what it answers is an argument (\<open>sdk\<close>), and what the
  wrapper asks of it is a list of calls, part of the state \<open>world\<close>.

  \<^bold>\<open>Build.\<close>  The default one: handles shared by all threads and made with the first tracer, several
  processors, rapidyaml, no debug output, no asynchronous export, a validator for instrument names.

  \<^bold>\<open>Theories and sources.\<close>
  \<^item> \<open>Otel_Prelude\<close>: machine integers, errors as values, option strings, lemmas on lists and masks.
  \<^item> \<open>Otel_HandleMap\<close>: \<open>struct otel_handle\<close> of \<open>util.h\<close>.  \<open>handle_map_refines\<close> shows that it is a partial
    map; the interface \<open>handle_store\<close> carries its laws to every client.
  \<^item> \<open>Otel_SharedMutex\<close>: \<open>otel_shared_mutex\<close> of \<open>util.h\<close> as a step relation of threads.
  \<^item> \<open>Otel_Strings\<close>, \<open>Otel_Heap\<close>, \<open>Otel_TextMap\<close>, \<open>Otel_Values\<close>: the string, text map and value functions of
    \<open>util.cpp\<close>, the last two over an explicit C heap in which any allocation may fail and a wrong
    access is \<open>None\<close>.  An index is returned as \<open>int\<close>, so it is exact below 2^31 entries.
  \<^item> \<open>Otel_DbgMalloc\<close>: \<open>dbg_malloc.cpp\<close>, the table of blocks with its circular search.  What the
    C library leaves in released memory is arbitrary, and reading unmapped memory is \<open>None\<close>.
  \<^item> \<open>Otel_Yaml\<close>: \<open>yaml.cpp\<close>, from the parsed tree on: paths, duplicate keys, the resolution of a
    context name, scalars, sequences, \<open>yaml_get_node\<close>.
  \<^item> \<open>Otel_Config\<close>, \<open>Otel_ConfigLaws\<close>: \<open>sampler.cpp\<close>, \<open>exporter.cpp\<close>, \<open>processor.cpp\<close>, \<open>resource.cpp\<close>,
    \<open>provider.cpp\<close>: what a configuration is turned into.  A creation is a \<open>build\<close>: it consumes numbers
    for the objects it allocates and stops at the first error.
  \<^item> \<open>Otel_FileExporter\<close>: the exporters of \<open>exporter.cpp\<close> that write files, over streams with a buffer
    and a disk that may take only part of a write.  Destroying an exporter closes its stream, which
    offers the bytes that were refused once more.
  \<^item> \<open>Otel_Pipeline\<close>: the counting exporters and processors of \<open>processor.cpp\<close> with their atomic steps;
    the two loads of \<open>queue_depth\<close> and of \<open>OnEnd\<close> are steps of their own, in either order.  A load
    reads the latest value of its counter.
  \<^item> \<open>Otel_Sdk\<close>, \<open>Otel_Carrier\<close>: the boundary with the SDK; the carriers of \<open>propagation.h\<close>.
  \<^item> \<open>Otel_Span\<close>, \<open>Otel_SpanLaws\<close>: \<open>span.cpp\<close>, every operation of the span and span context tables.  An
    operation is given the contents of the structure its pointer leads to; a pointer to a structure
    that was freed is outside the model.
  \<^item> \<open>Otel_Tracer\<close>, \<open>Otel_Forward\<close>, \<open>Otel_TracerLaws\<close>: \<open>tracer.cpp\<close>, with the life of the handle maps.
  \<^item> \<open>Otel_Meter\<close>, \<open>Otel_MeterLaws\<close>, \<open>Otel_MeterRace\<close>, \<open>Otel_MeterLocks\<close>: \<open>meter.cpp\<close>; the third runs
    creations of instruments by several threads in every interleaving of their locked stages, the
    last one adds the lock of the instruments, step by atomic step, and refines the third.
  \<^item> \<open>Otel_Logger\<close>, \<open>Otel_LoggerLaws\<close>: \<open>logger.cpp\<close>.
  \<^item> \<open>Otel_Restart\<close>, \<open>Otel_Signals\<close>: the contract of a signal that can be restarted, as the locale
    \<open>restartable_signal\<close>, and its interpretation on the starts and destructions of all three signals.
  \<^item> \<open>Otel_Replacement\<close>: the starts of a signal and the file exporters together, with the threads of the
    SDK exporting in between: what the files hold after any number of restarts.
  \<^item> \<open>Otel_Library\<close>, \<open>Otel_LibraryLaws\<close>: the rest of \<open>util.cpp\<close>: contexts, the check of a configuration,
    process-wide settings, the handler of SDK messages, tear-down.

  \<^bold>\<open>What the properties show.\<close>
  \<^item> Ownership: a span start registers a span or leaves nothing behind; text maps, debug blocks,
    contexts and documents are released once and never leaked, whatever fails.
  \<^item> Isolation: an operation on a span or an instrument affects that one; stale handles are refused.
  \<^item> Life cycle: a failed start keeps the old pipeline; a successful one flushes, opens, shuts down,
    empties and releases in that order; every pipeline is settled in the end; ids are not reused.
  \<^item> Concurrency: the lock excludes, prefers writers and makes progress; racing creations of one
    instrument have one winner and never lock each other out; the queue depth overshoots by less than the number of threads.
  \<^item> Configuration: what is read is valid and in range; the check of a configuration predicts its
    use; duplicate keys are found; samplers are well formed.
  \<^item> Data: records, measurements, baggage, conversions and file contents are exactly those asked for;
    a file holds nothing of the exporters that were replaced, unless the system had refused some of
    their bytes when the file was emptied.

  \<^bold>\<open>Bounds and fuel.\<close>  No definition has fuel: loops are structural recursion over the data they
  walk, or end by a measure (\<open>scan_slot\<close>).  Path buffers hold 4096 bytes; properties that compare a
  buffered path with an exact one assume names short enough to fit.  Counters wrap at 64 bits; where
  that matters the property bounds the number of steps.

  \<^bold>\<open>Not modelled.\<close>  The SDK, the YAML parser, \<open>strtod\<close>, \<open>vasprintf\<close>, the clock and the system calls are
  arguments.  Debug dumps and traces, \<open>otelc_statistics\<close> and \<open>otelc_sprintf\<close> only format text.  Other
  builds (static handles, libfyaml, asynchronous export) and operations of one object that several
  threads run without the wrapper's locks are outside the model.  A null attribute key is
  undefined behaviour of the code and the value \<open>None\<close> here.
\<close>

end
